(* ===== verification/Prelude.thy ===== *)
theory Prelude
  imports Main "HOL-Library.Word"
begin

text \<open>
  Shared vocabulary of the development: machine integers, byte spans, the outcomes of a
  parser and the rules by which its callers are verified.

  A C++ function of the analyzer that reads a buffer has three kinds of outcome. It may
  return \<open>ParseError::None\<close> with its results written through references (\<open>Ok\<close>), it may
  return another \<open>ParseError\<close> (\<open>Err\<close>), or it may do something the language leaves
  undefined, such as copying from beyond the end of a buffer or taking a sub-span that
  does not exist (\<open>UB\<close>). Every primitive that touches memory yields \<open>UB\<close> when its
  precondition fails, so that \<open>r \<noteq> UB\<close> is the statement that a run is memory safe.
  On an error the callers never look at the partially written results, so \<open>Err\<close>
  carries the error only.
\<close>

unbundle bit_operations_syntax

section \<open>Machine integers and spans\<close>

type_synonym u8 = "8 word"
type_synonym u16 = "16 word"
type_synonym u32 = "32 word"
type_synonym u64 = "64 word"

text \<open>A \<open>std::span<const uint8_t>\<close> is the list of the bytes it covers.\<close>

type_synonym span = "u8 list"

named_theorems safe_intro \<open>introduction rules for the outcome predicate \<open>holds\<close>\<close>
named_theorems wire_simps \<open>field readers at a concrete buffer\<close>

section \<open>Errors and outcomes\<close>

text \<open>\<open>enum class ParseError\<close>; the enumerator \<open>None\<close> is \<open>NoError\<close> here.\<close>

datatype ParseError =
    NoError
  | Filtered
  | UnexpectedEofF
  | UnexpectedEof
  | UnsupportedVersion
  | UnsupportedLinktype
  | UnsupportedNetworkType
  | UnsupportedTransportType
  | MalformedHeader
  | InvalidFieldValue
  | ChecksumMismatch

fun toString_ParseError :: "ParseError \<Rightarrow> string" where
  "toString_ParseError NoError = ''no error''"
| "toString_ParseError UnexpectedEofF = ''unexpected end of file''"
| "toString_ParseError UnexpectedEof = ''unexpected end of buffer''"
| "toString_ParseError UnsupportedVersion = ''unsupported version''"
| "toString_ParseError UnsupportedLinktype = ''unsupported link type''"
| "toString_ParseError UnsupportedNetworkType = ''unsupported network type''"
| "toString_ParseError UnsupportedTransportType = ''unsupported transport type''"
| "toString_ParseError MalformedHeader = ''malformed header''"
| "toString_ParseError InvalidFieldValue = ''invalid field value''"
| "toString_ParseError ChecksumMismatch = ''checksum mismatch''"
| "toString_ParseError Filtered = ''filtered out''"

datatype 'a res = UB | Err ParseError | Ok 'a

text \<open>\<open>if (auto err = m; err != ParseError::None) return err;\<close> followed by the rest.\<close>

fun bind_res :: "'a res \<Rightarrow> ('a \<Rightarrow> 'b res) \<Rightarrow> 'b res" where
  "bind_res UB f = UB"
| "bind_res (Err e) f = Err e"
| "bind_res (Ok x) f = f x"

lemma bind_res_cong [fundef_cong]:
  assumes "m = m'" and "\<And>x. m' = Ok x \<Longrightarrow> f x = g x"
  shows "bind_res m f = bind_res m' g"
  using assms by (cases m') auto

lemma bind_res_assoc:
  "bind_res (bind_res m f) g = bind_res m (\<lambda>x. bind_res (f x) g)"
  by (cases m) auto

lemma bind_res_Ok_iff:
  "bind_res m f = Ok y \<longleftrightarrow> (\<exists>x. m = Ok x \<and> f x = Ok y)"
  by (cases m) auto

lemma bind_res_UB_iff:
  "bind_res m f = UB \<longleftrightarrow> m = UB \<or> (\<exists>x. m = Ok x \<and> f x = UB)"
  by (cases m) auto

lemma bind_res_Err_iff:
  "bind_res m f = Err e \<longleftrightarrow> m = Err e \<or> (\<exists>x. m = Ok x \<and> f x = Err e)"
  by (cases m) auto

text \<open>
  \<open>holds P r\<close>: the run has no undefined behaviour, and if it succeeds its result
  satisfies \<open>P\<close>. The rules below verify a function by following its code.
\<close>

fun holds :: "('a \<Rightarrow> bool) \<Rightarrow> 'a res \<Rightarrow> bool" where
  "holds P UB \<longleftrightarrow> False"
| "holds P (Err e) \<longleftrightarrow> True"
| "holds P (Ok x) \<longleftrightarrow> P x"

lemma holds_iff: "holds P r \<longleftrightarrow> r \<noteq> UB \<and> (\<forall>x. r = Ok x \<longrightarrow> P x)"
  by (cases r) auto

lemma holds_safe: "holds P r \<Longrightarrow> r \<noteq> UB"
  by (cases r) auto

lemma holds_OkD: "holds P r \<Longrightarrow> r = Ok x \<Longrightarrow> P x"
  by simp

lemma holds_mono: "holds P r \<Longrightarrow> (\<And>x. r = Ok x \<Longrightarrow> P x \<Longrightarrow> Q x) \<Longrightarrow> holds Q r"
  by (cases r) auto

lemma holds_Ok [safe_intro]: "P x \<Longrightarrow> holds P (Ok x)"
  by simp

lemma holds_Err [safe_intro]: "holds P (Err e)"
  by simp

lemma holds_if [safe_intro]:
  "(b \<Longrightarrow> holds P r) \<Longrightarrow> (\<not> b \<Longrightarrow> holds P s) \<Longrightarrow> holds P (if b then r else s)"
  by simp

lemma holds_bind [safe_intro]:
  "holds (\<lambda>x. holds P (f x)) m \<Longrightarrow> holds P (bind_res m f)"
  by (cases m) auto

lemma holds_Let [safe_intro]: "holds P (f a) \<Longrightarrow> holds P (Let a f)"
  by simp

lemma holds_case_prod [safe_intro]:
  "(\<And>a b. p = (a, b) \<Longrightarrow> holds P (f a b)) \<Longrightarrow> holds P (case p of (a, b) \<Rightarrow> f a b)"
  by (cases p) simp

section \<open>Memory primitives\<close>

text \<open>
  \<open>std::memcpy(&x, span.data(), n)\<close>, \<open>span[i]\<close>, \<open>span.subspan(n)\<close>,
  \<open>span.subspan(n, m)\<close> and \<open>span.first(n)\<close>.
\<close>

definition memcpy :: "span \<Rightarrow> nat \<Rightarrow> span res" where
  "memcpy s n = (if n \<le> length s then Ok (take n s) else UB)"

definition byte_at :: "span \<Rightarrow> nat \<Rightarrow> u8 res" where
  "byte_at s i = (if i < length s then Ok (s ! i) else UB)"

definition subspan :: "span \<Rightarrow> nat \<Rightarrow> span res" where
  "subspan s n = (if n \<le> length s then Ok (drop n s) else UB)"

definition subspan_n :: "span \<Rightarrow> nat \<Rightarrow> nat \<Rightarrow> span res" where
  "subspan_n s n m = (if n \<le> length s \<and> m \<le> length s - n then Ok (take m (drop n s)) else UB)"

definition first_n :: "span \<Rightarrow> nat \<Rightarrow> span res" where
  "first_n s n = (if n \<le> length s then Ok (take n s) else UB)"

lemma memcpy_Ok [simp]: "n \<le> length s \<Longrightarrow> memcpy s n = Ok (take n s)"
  by (simp add: memcpy_def)

lemma subspan_Ok [simp]: "n \<le> length s \<Longrightarrow> subspan s n = Ok (drop n s)"
  by (simp add: subspan_def)

lemma subspan_n_Ok [simp]: "n + m \<le> length s \<Longrightarrow> subspan_n s n m = Ok (take m (drop n s))"
  by (simp add: subspan_n_def)

lemma first_n_Ok [simp]: "n \<le> length s \<Longrightarrow> first_n s n = Ok (take n s)"
  by (simp add: first_n_def)

lemma byte_at_Ok [simp]: "i < length s \<Longrightarrow> byte_at s i = Ok (s ! i)"
  by (simp add: byte_at_def)

lemma holds_memcpy [safe_intro]: "n \<le> length s \<Longrightarrow> P (take n s) \<Longrightarrow> holds P (memcpy s n)"
  by simp

lemma holds_subspan [safe_intro]: "n \<le> length s \<Longrightarrow> P (drop n s) \<Longrightarrow> holds P (subspan s n)"
  by simp

lemma holds_subspan_n [safe_intro]:
  "n + m \<le> length s \<Longrightarrow> P (take m (drop n s)) \<Longrightarrow> holds P (subspan_n s n m)"
  by simp

lemma holds_first_n [safe_intro]: "n \<le> length s \<Longrightarrow> P (take n s) \<Longrightarrow> holds P (first_n s n)"
  by simp

lemma holds_byte_at [safe_intro]: "i < length s \<Longrightarrow> P (s ! i) \<Longrightarrow> holds P (byte_at s i)"
  by simp

section \<open>Words as numbers\<close>

lemma unat_u8_less: "unat (b :: u8) < 256"
  using unsigned_less [of b, where ?'a = nat] by simp

lemma unat_u16_less: "unat (w :: u16) < 65536"
  using unsigned_less [of w, where ?'a = nat] by simp

lemma unat_u32_less: "unat (w :: u32) < 4294967296"
  using unsigned_less [of w, where ?'a = nat] by simp

lemma unat_u64_less: "unat (w :: u64) < 18446744073709551616"
  using unsigned_less [of w, where ?'a = nat] by simp

lemmas word_bounds = unat_u8_less unat_u16_less unat_u32_less unat_u64_less

lemma unat_of_nat_u8: "n < 256 \<Longrightarrow> unat (of_nat n :: u8) = n"
  by (simp add: unat_of_nat)

lemma unat_of_nat_u16: "n < 65536 \<Longrightarrow> unat (of_nat n :: u16) = n"
  by (simp add: unat_of_nat)

lemma unat_of_nat_u32: "n < 4294967296 \<Longrightarrow> unat (of_nat n :: u32) = n"
  by (simp add: unat_of_nat)

lemma unat_of_nat_u64: "n < 18446744073709551616 \<Longrightarrow> unat (of_nat n :: u64) = n"
  by (simp add: unat_of_nat)

lemmas unat_of_nat_small = unat_of_nat_u8 unat_of_nat_u16 unat_of_nat_u32 unat_of_nat_u64

lemma unat_drop_bit: "unat (drop_bit n w) = unat w div 2 ^ n" for w :: "'a::len word"
  by (simp only: unat_drop_bit_eq) (simp add: drop_bit_eq_div)

lemma unat_take_bit: "unat (take_bit n w) = unat w mod 2 ^ n" for w :: "'a::len word"
  by (simp only: unsigned_take_bit_eq) (simp add: take_bit_eq_mod)

lemma unat_and_mask: "unat (w AND mask n) = unat w mod 2 ^ n" for w :: "'a::len word"
  by (simp add: unat_take_bit flip: take_bit_eq_mask)

lemma unat_push_bit: "unat (push_bit n w) = (unat w * 2 ^ n) mod 2 ^ LENGTH('a)"
  for w :: "'a::len word"
  by (simp only: unsigned_push_bit_eq) (simp add: take_bit_eq_mod push_bit_eq_mult)

lemma and_push_mask: "w AND push_bit k (mask m) = push_bit k (take_bit m (drop_bit k w))"
  for w :: "'a::len word"
  by (rule bit_word_eqI) (auto simp: bit_simps)

text \<open>A disjunction of a shifted word and a word below the shift is a sum.\<close>

lemma push_bit_or_add:
  fixes a b :: "'a::len word"
  assumes "unat b < 2 ^ k"
  shows "push_bit k a OR b = push_bit k a + b"
proof -
  have "take_bit k b = b"
    using assms by (simp add: word_unat_eq_iff unat_take_bit)
  then have "bit b n \<Longrightarrow> n < k" for n
    by (metis bit_take_bit_iff)
  then have "push_bit k a AND b = 0"
    by (intro bit_word_eqI) (fastforce simp: bit_simps)
  then show ?thesis by (simp add: disjunctive_add_eq_or)
qed

lemma unat_push_bit_or:
  fixes a b :: "'a::len word"
  assumes "unat b < 2 ^ k" and "unat a < 2 ^ m" and "k + m \<le> LENGTH('a)"
  shows "unat (push_bit k a OR b) = unat a * 2 ^ k + unat b"
proof -
  have "unat a * 2 ^ k + unat b < (unat a + 1) * 2 ^ k" using assms(1) by simp
  also have "\<dots> \<le> 2 ^ m * 2 ^ k" using assms(2) by (intro mult_le_mono1) simp
  also have "\<dots> \<le> 2 ^ LENGTH('a)" using assms(3) by (simp flip: power_add add: add.commute)
  finally show ?thesis
    using assms(1) by (simp add: push_bit_or_add unat_word_ariths unat_push_bit)
qed

end
