(* ===== verification/Wire.thy ===== *)
theory Wire
  imports Prelude
begin

text \<open>
  Byte order (\<^verbatim>\<open>include/net/util/endian.h\<close>) and the reading of packed structs.

  The parsers copy the wire bytes over a packed struct and then convert each integer
  field with \<open>toHost16\<close> or \<open>toHost32\<close>. The program asserts a little-endian host, so a
  field of a freshly copied struct is the little-endian value of its bytes
  (\<open>raw16\<close>, \<open>raw32\<close>, \<open>raw64\<close>). The lemmas show that conversion from \<open>Big\<close>
  yields the value the wire format defines.
\<close>

datatype Endian = Big | Little

definition bswap16 :: "u16 \<Rightarrow> u16" where
  "bswap16 x = (drop_bit 8 x) OR (push_bit 8 x)"

definition bswap32 :: "u32 \<Rightarrow> u32" where
  "bswap32 x = (drop_bit 24 x AND 0x000000FF) OR (drop_bit 8 x AND 0x0000FF00) OR
               (push_bit 8 x AND 0x00FF0000) OR (push_bit 24 x AND 0xFF000000)"

definition toHost16 :: "u16 \<Rightarrow> Endian \<Rightarrow> u16" where
  "toHost16 v e = (if e = Big then bswap16 v else v)"

definition toHost32 :: "u32 \<Rightarrow> Endian \<Rightarrow> u32" where
  "toHost32 v e = (if e = Big then bswap32 v else v)"

section \<open>Little-endian and big-endian values of byte lists\<close>

fun le_nat :: "u8 list \<Rightarrow> nat" where
  "le_nat [] = 0"
| "le_nat (b # bs) = unat b + 256 * le_nat bs"

fun be_nat :: "u8 list \<Rightarrow> nat" where
  "be_nat [] = 0"
| "be_nat (b # bs) = unat b * 256 ^ length bs + be_nat bs"

text \<open>An integer field at byte offset \<open>i\<close> of a struct filled by \<open>memcpy\<close>.\<close>

definition raw16 :: "u8 list \<Rightarrow> nat \<Rightarrow> u16" where
  "raw16 bs i = of_nat (le_nat (take 2 (drop i bs)))"

definition raw32 :: "u8 list \<Rightarrow> nat \<Rightarrow> u32" where
  "raw32 bs i = of_nat (le_nat (take 4 (drop i bs)))"

definition raw64 :: "u8 list \<Rightarrow> nat \<Rightarrow> u64" where
  "raw64 bs i = of_nat (le_nat (take 8 (drop i bs)))"

text \<open>What the wire format means by a big-endian field.\<close>

definition be16 :: "u8 list \<Rightarrow> nat \<Rightarrow> u16" where
  "be16 bs i = of_nat (be_nat (take 2 (drop i bs)))"

definition be32 :: "u8 list \<Rightarrow> nat \<Rightarrow> u32" where
  "be32 bs i = of_nat (be_nat (take 4 (drop i bs)))"

definition bytes16 :: "u16 \<Rightarrow> u8 list" where
  "bytes16 w = [of_nat (unat w div 256), of_nat (unat w mod 256)]"

definition bytes32 :: "u32 \<Rightarrow> u8 list" where
  "bytes32 w = [of_nat (unat w div 16777216), of_nat (unat w div 65536 mod 256),
                of_nat (unat w div 256 mod 256), of_nat (unat w mod 256)]"

lemma le_nat_less: "le_nat bs < 256 ^ length bs"
proof (induction bs)
  case (Cons b bs)
  then have "256 * le_nat bs + 256 \<le> 256 * 256 ^ length bs" by simp
  then show ?case using unat_u8_less [of b] by simp
qed simp

lemma le_nat_append: "le_nat (xs @ ys) = le_nat xs + 256 ^ length xs * le_nat ys"
  by (induction xs) (auto simp: algebra_simps)

lemma be_nat_eq_rev: "be_nat bs = le_nat (rev bs)"
  by (induction bs) (auto simp: le_nat_append)

lemma be_nat_less: "be_nat bs < 256 ^ length bs"
  using le_nat_less [of "rev bs"] by (simp add: be_nat_eq_rev)

section \<open>Byte swapping, numerically\<close>

lemma unat_bswap16: "unat (bswap16 x) = unat x mod 256 * 256 + unat x div 256"
proof -
  have "bswap16 x = push_bit 8 (take_bit 8 x) OR drop_bit 8 x"
    by (rule bit_word_eqI) (auto simp: bswap16_def bit_simps)
  moreover have "unat x div 256 < 256"
    using unsigned_less [of x, where ?'a = nat] by simp
  ultimately show ?thesis
    using unat_push_bit_or [of "drop_bit 8 x" 8 "take_bit 8 x" 8]
    by (simp add: unat_drop_bit unat_take_bit)
qed

lemma bswap32_bytes:
  "bswap32 x = push_bit 24 (take_bit 8 x) OR (push_bit 16 (take_bit 8 (drop_bit 8 x)) OR
     (push_bit 8 (take_bit 8 (drop_bit 16 x)) OR take_bit 8 (drop_bit 24 x)))"
proof -
  have masks: "(0xFF :: u32) = mask 8" "(0xFF00 :: u32) = push_bit 8 (mask 8)"
    "(0xFF0000 :: u32) = push_bit 16 (mask 8)" "(0xFF000000 :: u32) = push_bit 24 (mask 8)"
    by (simp_all add: mask_eq_exp_minus_1)
  have shift: "take_bit 8 (drop_bit 16 (push_bit 8 x)) = take_bit 8 (drop_bit 8 x)"
    "take_bit 8 (drop_bit 24 (push_bit 24 x)) = take_bit 8 x"
    by (rule bit_word_eqI; auto simp: bit_simps)+
  show ?thesis
    unfolding bswap32_def masks and_push_mask shift
    by (simp add: take_bit_eq_mask ac_simps)
qed

lemma unat_bswap32:
  "unat (bswap32 x) = unat x mod 256 * 16777216 + (unat x div 256 mod 256 * 65536 +
     (unat x div 65536 mod 256 * 256 + unat x div 16777216))"
proof -
  let ?b = "\<lambda>k. take_bit 8 (drop_bit k x)"
  have b: "unat (?b k) = unat x div 2 ^ k mod 256" for k
    by (simp add: unat_take_bit unat_drop_bit)
  have add: "unat (push_bit j (?b k) OR c) = unat x div 2 ^ k mod 256 * 2 ^ j + unat c"
    if "j \<le> 24" and "unat c < 2 ^ j" for j k c
    using unat_push_bit_or [of c j "?b k" 8] that by (simp add: b)
  have 1: "unat (push_bit 8 (?b 16) OR ?b 24) =
      unat x div 65536 mod 256 * 256 + unat x div 16777216 mod 256"
    by (subst add) (simp_all add: b)
  have 2: "unat (push_bit 16 (?b 8) OR (push_bit 8 (?b 16) OR ?b 24)) =
      unat x div 256 mod 256 * 65536 + (unat x div 65536 mod 256 * 256 + unat x div 16777216 mod 256)"
    using add [of 16 "push_bit 8 (?b 16) OR ?b 24" 8] unfolding 1 by simp
  have 3: "unat (push_bit 24 (?b 0) OR (push_bit 16 (?b 8) OR (push_bit 8 (?b 16) OR ?b 24))) =
      unat x mod 256 * 16777216 + (unat x div 256 mod 256 * 65536 +
      (unat x div 65536 mod 256 * 256 + unat x div 16777216 mod 256))"
    using add [of 24 "push_bit 16 (?b 8) OR (push_bit 8 (?b 16) OR ?b 24)" 0] unfolding 2 by simp
  have "unat x div 16777216 < 256"
    using unsigned_less [of x, where ?'a = nat] by simp
  with 3 show ?thesis by (simp add: bswap32_bytes)
qed

lemma bswap16_bswap16 [simp]: "bswap16 (bswap16 x) = x"
proof -
  have "unat x div 256 < 256" using unsigned_less [of x, where ?'a = nat] by simp
  then show ?thesis by (simp add: word_unat_eq_iff unat_bswap16)
qed

section \<open>Big-endian fields\<close>

lemma take2_drop:
  assumes "Suc i < length bs"
  shows "take 2 (drop i bs) = [bs ! i, bs ! Suc i]"
  using assms by (simp add: numeral_2_eq_2 Cons_nth_drop_Suc [symmetric])

lemma take4_drop:
  assumes "i + 3 < length bs"
  shows "take 4 (drop i bs) = [bs ! i, bs ! (i + 1), bs ! (i + 2), bs ! (i + 3)]"
  using assms by (simp add: eval_nat_numeral Cons_nth_drop_Suc [symmetric])

lemma unat_raw16: "Suc i < length bs \<Longrightarrow> unat (raw16 bs i) = unat (bs ! i) + 256 * unat (bs ! Suc i)"
  using le_nat_less [of "take 2 (drop i bs)"]
  by (simp add: raw16_def take2_drop unat_of_nat_u16 del: of_nat_add of_nat_mult)

lemma unat_be16: "Suc i < length bs \<Longrightarrow> unat (be16 bs i) = 256 * unat (bs ! i) + unat (bs ! Suc i)"
  using be_nat_less [of "take 2 (drop i bs)"]
  by (simp add: be16_def take2_drop unat_of_nat_u16 del: of_nat_add of_nat_mult)

lemma unat_raw32:
  "i + 3 < length bs \<Longrightarrow> unat (raw32 bs i) = unat (bs ! i) +
     256 * (unat (bs ! (i + 1)) + 256 * (unat (bs ! (i + 2)) + 256 * unat (bs ! (i + 3))))"
  using le_nat_less [of "take 4 (drop i bs)"]
  by (simp add: raw32_def take4_drop unat_of_nat_u32 del: of_nat_add of_nat_mult)

lemma unat_be32:
  "i + 3 < length bs \<Longrightarrow> unat (be32 bs i) = 16777216 * unat (bs ! i) +
     65536 * unat (bs ! (i + 1)) + 256 * unat (bs ! (i + 2)) + unat (bs ! (i + 3))"
  using be_nat_less [of "take 4 (drop i bs)"]
  by (simp add: be32_def take4_drop unat_of_nat_u32 del: of_nat_add of_nat_mult)

lemma toHost16_raw16 [wire_simps]:
  assumes "Suc i < length bs"
  shows "toHost16 (raw16 bs i) Big = be16 bs i"
  using assms unat_u8_less [of "bs ! i"]
  by (simp add: toHost16_def word_unat_eq_iff unat_bswap16 unat_raw16 unat_be16)

lemma swap32_nat:
  fixes a b c d :: nat
  assumes "a < 256" "b < 256" "c < 256" "n = a + 256 * (b + 256 * (c + 256 * d))"
  shows "n mod 256 = a" "n div 256 mod 256 = b" "n div 65536 mod 256 = c" "n div 16777216 = d"
proof -
  have n1: "n div 256 = b + 256 * (c + 256 * d)" using assms by simp
  have n2: "n div 65536 = c + 256 * d" using n1 assms(2) div_mult2_eq [of n 256 256] by simp
  have n3: "n div 16777216 = d" using n2 assms(3) div_mult2_eq [of n 65536 256] by simp
  show "n mod 256 = a"
    unfolding assms(4) using assms(1) by (simp only: mod_mult_self2 mod_less)
  show "n div 256 mod 256 = b"
    unfolding n1 using assms(2) by (simp only: mod_mult_self2 mod_less)
  show "n div 65536 mod 256 = c"
    unfolding n2 using assms(3) by (simp only: mod_mult_self2 mod_less)
  show "n div 16777216 = d" by (fact n3)
qed

lemma nat_bytes4:
  "16777216 * (n div 16777216) + 65536 * (n div 65536 mod 256) + 256 * (n div 256 mod 256) + n mod 256 = n"
  for n :: nat
proof -
  have "n div 65536 = n div 256 div 256" "n div 16777216 = n div 65536 div 256"
    by (simp_all flip: div_mult2_eq)
  then show ?thesis
    using mult_div_mod_eq [of 256 n] mult_div_mod_eq [of 256 "n div 256"]
      mult_div_mod_eq [of 256 "n div 65536"] by linarith
qed

lemma toHost32_raw32 [wire_simps]:
  assumes "i + 3 < length bs"
  shows "toHost32 (raw32 bs i) Big = be32 bs i"
  using assms swap32_nat [OF unat_u8_less unat_u8_less unat_u8_less unat_raw32 [OF assms]]
  by (simp add: toHost32_def word_unat_eq_iff unat_bswap32 unat_be32)

lemma toHost_Little [simp]: "toHost16 v Little = v" "toHost32 w Little = w"
  by (simp_all add: toHost16_def toHost32_def)

text \<open>The encoders the wire format prescribes are inverted by the field readers.\<close>

lemma be16_bytes16 [simp]: "be16 (bytes16 w @ bs) 0 = w"
proof -
  have "unat w div 256 < 256" using unat_u16_less [of w] by simp
  then show ?thesis
    by (simp add: word_unat_eq_iff unat_be16 bytes16_def unat_of_nat_u8)
qed

lemma be32_bytes32 [simp]: "be32 (bytes32 w @ bs) 0 = w"
proof -
  have "unat w div 16777216 < 256" using unat_u32_less [of w] by simp
  then show ?thesis
    by (simp add: word_unat_eq_iff unat_be32 bytes32_def unat_of_nat_u8 nat_bytes4)
qed

lemma length_bytes [simp]: "length (bytes16 w) = 2" "length (bytes32 v) = 4"
  by (simp_all add: bytes16_def bytes32_def)

lemma be16_skip: "length xs = i \<Longrightarrow> be16 (xs @ ys) (i + j) = be16 ys j"
  by (simp add: be16_def)

lemma be32_skip: "length xs = i \<Longrightarrow> be32 (xs @ ys) (i + j) = be32 ys j"
  by (simp add: be32_def)

lemma be16_take: "i + 2 \<le> n \<Longrightarrow> be16 (take n bs) i = be16 bs i"
  by (simp add: be16_def drop_take min_def)

lemma be32_take: "i + 4 \<le> n \<Longrightarrow> be32 (take n bs) i = be32 bs i"
  by (simp add: be32_def drop_take min_def)

end
