(* ===== verification/Text_Util.thy ===== *)
theory Text_Util
  imports Prelude
begin

text \<open>
  String helpers (\<^verbatim>\<open>src/net/util/text.cpp\<close>) and the number formatting of the
  standard streams that the printers rely on. A \<open>std::string\<close> is a list of 8-bit
  characters, which is what \<open>string\<close> is; \<open>of_char\<close> reads a character as an
  \<open>unsigned char\<close>.
\<close>

section \<open>Case-insensitive comparison\<close>

text \<open>\<open>std::tolower\<close> in the C locale.\<close>

definition tolower :: "char \<Rightarrow> char" where
  "tolower c = (if 65 \<le> (of_char c :: nat) \<and> of_char c \<le> (90 :: nat) then char_of (of_char c + 32 :: nat) else c)"

fun isEquals_loop :: "string \<Rightarrow> string \<Rightarrow> bool" where
  "isEquals_loop (x # xs) (y # ys) = (if tolower x \<noteq> tolower y then False else isEquals_loop xs ys)"
| "isEquals_loop _ _ = True"

definition isEquals :: "string \<Rightarrow> string \<Rightarrow> bool" where
  "isEquals a b = (if length a \<noteq> length b then False else isEquals_loop a b)"

lemma isEquals_iff: "isEquals a b \<longleftrightarrow> map tolower a = map tolower b"
proof (cases "length a = length b")
  case True
  then have "isEquals_loop a b \<longleftrightarrow> map tolower a = map tolower b"
    by (induction a b rule: list_induct2) auto
  with True show ?thesis by (simp add: isEquals_def)
next
  case False
  then show ?thesis by (metis isEquals_def length_map)
qed

lemma isEquals_refl [simp]: "isEquals a a"
  by (simp add: isEquals_iff)

lemma isEquals_sym: "isEquals a b \<Longrightarrow> isEquals b a"
  by (simp add: isEquals_iff)

lemma isEquals_trans: "isEquals a b \<Longrightarrow> isEquals b c \<Longrightarrow> isEquals a c"
  by (simp add: isEquals_iff)

section \<open>Unsigned decimal numbers\<close>

definition is_digit :: "char \<Rightarrow> bool" where
  "is_digit c \<longleftrightarrow> 48 \<le> (of_char c :: nat) \<and> of_char c \<le> (57 :: nat)"

definition digit_val :: "char \<Rightarrow> nat" where
  "digit_val c = of_char c - 48"

lemma digit_val_less: "is_digit c \<Longrightarrow> digit_val c < 10"
  by (auto simp: is_digit_def digit_val_def)

fun parseUint_loop :: "string \<Rightarrow> u64 \<Rightarrow> u64 \<Rightarrow> u64 option" where
  "parseUint_loop [] value mx = Some value"
| "parseUint_loop (c # cs) value mx =
     (if \<not> is_digit c then None
      else let digit = of_nat (digit_val c) in
        if value > mx div 10 \<or> value * 10 > mx - digit then None
        else parseUint_loop cs (value * 10 + digit) mx)"

definition parseUint :: "string \<Rightarrow> u64 \<Rightarrow> u64 option" where
  "parseUint text mx = (if text = [] then None else parseUint_loop text 0 mx)"

text \<open>What the text denotes.\<close>

fun dec_from :: "nat \<Rightarrow> string \<Rightarrow> nat" where
  "dec_from v [] = v"
| "dec_from v (c # cs) = dec_from (v * 10 + digit_val c) cs"

definition is_decimal :: "string \<Rightarrow> bool" where
  "is_decimal s = (s \<noteq> [] \<and> list_all is_digit s)"

lemma dec_from_ge: "v \<le> dec_from v s"
proof (induction s arbitrary: v)
  case (Cons c s)
  show ?case using Cons.IH [of "v * 10 + digit_val c"] by simp
qed simp

lemma digit_guard:
  fixes v mx :: u64
  assumes "unat v \<le> unat mx" and "d < 10" and "9 \<le> unat mx"
  shows "(v > mx div 10 \<or> v * 10 > mx - of_nat d) \<longleftrightarrow> unat v * 10 + d > unat mx"
    and "unat v * 10 + d \<le> unat mx \<Longrightarrow> unat (v * 10 + of_nat d) = unat v * 10 + d"
proof -
  have d: "unat (of_nat d :: u64) = d" using assms(2) by (simp add: unat_of_nat_u64)
  have gt: "v > mx div 10 \<longleftrightarrow> unat v > unat mx div 10"
    by (simp add: word_less_nat_alt unat_div)
  have md: "unat (mx - of_nat d) = unat mx - d"
    using assms(2,3) by (subst unat_sub) (simp_all add: word_le_nat_alt d)
  have v10: "unat (v * 10) = unat v * 10" if "unat v \<le> unat mx div 10"
  proof -
    have "unat v * 10 \<le> unat mx" using that by linarith
    then show ?thesis using unat_u64_less [of mx] by (simp add: unat_word_ariths)
  qed
  show "(v > mx div 10 \<or> v * 10 > mx - of_nat d) \<longleftrightarrow> unat v * 10 + d > unat mx"
  proof (cases "unat v > unat mx div 10")
    case True
    then have "unat v * 10 + d > unat mx" by linarith
    with True show ?thesis by (simp add: gt)
  next
    case False
    then have "\<not> v > mx div 10" using gt by simp
    moreover have "v * 10 > mx - of_nat d \<longleftrightarrow> unat v * 10 > unat mx - d"
      using False v10 md by (simp add: word_less_nat_alt)
    moreover have "unat v * 10 > unat mx - d \<longleftrightarrow> unat v * 10 + d > unat mx"
      using assms(2,3) by linarith
    ultimately show ?thesis by simp
  qed
  assume le: "unat v * 10 + d \<le> unat mx"
  then show "unat (v * 10 + of_nat d) = unat v * 10 + d"
    using unat_u64_less [of mx] by (simp add: unat_word_ariths d)
qed

lemma parseUint_loop_spec:
  assumes "9 \<le> unat mx" and "unat v \<le> unat mx"
  shows "parseUint_loop s v mx =
    (if list_all is_digit s \<and> dec_from (unat v) s \<le> unat mx
     then Some (of_nat (dec_from (unat v) s)) else None)"
  using assms(2)
proof (induction s arbitrary: v)
  case (Cons c s)
  show ?case
  proof (cases "is_digit c")
    case False
    then show ?thesis by simp
  next
    case True
    note g = digit_guard [OF Cons.prems digit_val_less [OF True] assms(1)]
    show ?thesis
    proof (cases "unat v * 10 + digit_val c \<le> unat mx")
      case False
      then have "\<not> dec_from (unat v * 10 + digit_val c) s \<le> unat mx"
        using dec_from_ge [of "unat v * 10 + digit_val c" s] by linarith
      with True False g(1) show ?thesis by simp
    next
      case le: True
      then show ?thesis using True g Cons.IH [of "v * 10 + of_nat (digit_val c)"] by simp
    qed
  qed
qed simp

section \<open>Indentation and JSON escapes\<close>

abbreviation newline :: char where "newline \<equiv> CHR 0x0A"

text \<open>\<open>str.find(c)\<close>: the index of the first occurrence, \<open>None\<close> for \<open>npos\<close>.\<close>

fun find_char :: "char \<Rightarrow> string \<Rightarrow> nat option" where
  "find_char c [] = None"
| "find_char c (x # xs) = (if x = c then Some 0 else map_option Suc (find_char c xs))"

lemma find_char_Some:
  "find_char c s = Some i \<Longrightarrow> i < length s \<and> s ! i = c \<and> c \<notin> set (take i s)"
  by (induction s arbitrary: i) (auto split: if_splits)

lemma find_char_None: "find_char c s = None \<longleftrightarrow> c \<notin> set s"
  by (induction s) auto

lemma find_char_append:
  "find_char c (xs @ ys) =
     (case find_char c xs of Some i \<Rightarrow> Some i | None \<Rightarrow> map_option (\<lambda>i. length xs + i) (find_char c ys))"
  by (induction xs) (cases "find_char c ys"; auto split: option.splits)+

function indent_loop :: "string \<Rightarrow> string \<Rightarrow> string" where
  "indent_loop str prefix =
     (if str = [] then []
      else prefix @ (case find_char newline str of
          None \<Rightarrow> str
        | Some n \<Rightarrow> take n str @ [newline] @ indent_loop (drop (n + 1) str) prefix))"
  by pat_completeness auto
termination
  by (relation "measure (\<lambda>(str, prefix). length str)") auto

declare indent_loop.simps [simp del]

definition indent :: "string \<Rightarrow> string \<Rightarrow> string" where
  "indent str prefix = (if str = [] then [] else indent_loop str prefix)"

text \<open>\<open>snprintf("%04x")\<close> and the default branch of the switch over an \<open>unsigned char\<close>.\<close>

definition hex_digit :: "nat \<Rightarrow> char" where
  "hex_digit n = (if n < 10 then char_of (n + 48) else char_of (n + 87))"

definition jsonEscape_char :: "char \<Rightarrow> string" where
  "jsonEscape_char c =
     (if c = CHR 0x22 then [CHR 0x5C, CHR 0x22]
      else if c = CHR 0x5C then [CHR 0x5C, CHR 0x5C]
      else if c = CHR 0x0A then [CHR 0x5C, CHR ''n'']
      else if c = CHR 0x0D then [CHR 0x5C, CHR ''r'']
      else if c = CHR 0x09 then [CHR 0x5C, CHR ''t'']
      else if c = CHR 0x08 then [CHR 0x5C, CHR ''b'']
      else if c = CHR 0x0C then [CHR 0x5C, CHR ''f'']
      else if (of_char c :: nat) < 0x20 then
        [CHR 0x5C, CHR ''u'', CHR ''0'', CHR ''0'', hex_digit (of_char c div 16), hex_digit (of_char c mod 16)]
      else [c])"

definition jsonEscape :: "string \<Rightarrow> string" where
  "jsonEscape s = concat (map jsonEscape_char s)"

text \<open>
  A JSON string reader for the escapes of RFC 8259 that \<open>jsonEscape\<close> can produce; it
  fails on an unescaped quote and on an unescaped control character.
\<close>

definition unhex :: "char \<Rightarrow> nat" where
  "unhex c = (if is_digit c then of_char c - 48 else of_char c - 87)"

definition is_hex :: "char \<Rightarrow> bool" where
  "is_hex c \<longleftrightarrow> is_digit c \<or> 97 \<le> (of_char c :: nat) \<and> (of_char c :: nat) \<le> 102"

fun json_read :: "string \<Rightarrow> string option" where
  "json_read [] = Some []"
| "json_read (c # cs) =
     (if c = CHR 0x5C then
        (case cs of
           [] \<Rightarrow> None
         | e # cs' \<Rightarrow>
             if e = CHR ''u'' then
               (case cs' of
                  a # b # x # y # cs'' \<Rightarrow>
                    if a = CHR ''0'' \<and> b = CHR ''0'' \<and> is_hex x \<and> is_hex y
                    then map_option (Cons (char_of (16 * unhex x + unhex y))) (json_read cs'') else None
                | _ \<Rightarrow> None)
             else if e = CHR 0x22 then map_option (Cons (CHR 0x22)) (json_read cs')
             else if e = CHR 0x5C then map_option (Cons (CHR 0x5C)) (json_read cs')
             else if e = CHR ''n'' then map_option (Cons (CHR 0x0A)) (json_read cs')
             else if e = CHR ''r'' then map_option (Cons (CHR 0x0D)) (json_read cs')
             else if e = CHR ''t'' then map_option (Cons (CHR 0x09)) (json_read cs')
             else if e = CHR ''b'' then map_option (Cons (CHR 0x08)) (json_read cs')
             else if e = CHR ''f'' then map_option (Cons (CHR 0x0C)) (json_read cs')
             else None)
      else if c = CHR 0x22 \<or> (of_char c :: nat) < 0x20 then None
      else map_option (Cons c) (json_read cs))"

lemma unhex_hex_digit: "n < 16 \<Longrightarrow> unhex (hex_digit n) = n"
  by (auto simp: unhex_def hex_digit_def is_digit_def)

lemma is_hex_digit: "n < 16 \<Longrightarrow> is_hex (hex_digit n)"
  by (auto simp: is_hex_def hex_digit_def is_digit_def)

lemma char_of_of_char_split:
  "(of_char c :: nat) < 0x20 \<Longrightarrow> char_of (16 * (of_char c div 16) + of_char c mod 16 :: nat) = c"
  by (simp del: char_of_eq_iff)

lemma json_read_escape_char:
  "json_read (jsonEscape_char c @ cs) = map_option (Cons c) (json_read cs)"
proof (cases "jsonEscape_char c = [c]")
  case True
  then have "c \<noteq> CHR 0x5C" "c \<noteq> CHR 0x22" "\<not> (of_char c :: nat) < 0x20"
    by (auto simp: jsonEscape_char_def split: if_splits)
  with True show ?thesis by simp
next
  case False
  then show ?thesis
    by (auto simp: jsonEscape_char_def unhex_hex_digit is_hex_digit char_of_of_char_split split: if_splits)
qed

lemma json_read_escape: "json_read (jsonEscape s @ r) = map_option ((@) s) (json_read r)"
proof (induction s)
  case Nil
  then show ?case by (cases "json_read r") (simp_all add: jsonEscape_def)
next
  case (Cons c s)
  then show ?case by (simp add: jsonEscape_def json_read_escape_char option.map_comp comp_def)
qed

section \<open>Bytes as text\<close>

text \<open>\<open>reinterpret_cast<const char*>\<close>: the text a byte buffer holds.\<close>

definition chr8 :: "u8 \<Rightarrow> char" where "chr8 b = char_of (unat b)"

definition text_of :: "span \<Rightarrow> string" where "text_of s = map chr8 s"

lemma length_text_of [simp]: "length (text_of s) = length s"
  by (simp add: text_of_def)

lemma text_of_simps [simp]:
  "text_of [] = []" "text_of (b # s) = chr8 b # text_of s" "text_of (s @ t) = text_of s @ text_of t"
  "text_of (take n s) = take n (text_of s)" "text_of (drop n s) = drop n (text_of s)"
  by (simp_all add: text_of_def take_map drop_map)

lemma chr8_inj: "chr8 a = chr8 b \<longleftrightarrow> a = b"
proof
  assume "chr8 a = chr8 b"
  then have "of_char (chr8 a) = (of_char (chr8 b) :: nat)" by simp
  then have "unat a mod 256 = unat b mod 256" by (simp add: chr8_def)
  then show "a = b" using unat_u8_less [of a] unat_u8_less [of b] by (simp add: word_unat_eq_iff)
qed simp

text \<open>The bytes of a text, as a writer would put them on the wire.\<close>

definition bytes_of :: "string \<Rightarrow> span" where "bytes_of s = map (\<lambda>c. of_nat (of_char c)) s"

lemma text_of_bytes_of [simp]: "text_of (bytes_of s) = s"
  by (induction s) (simp_all add: text_of_def bytes_of_def chr8_def unat_of_nat)

lemma length_bytes_of [simp]: "length (bytes_of s) = length s"
  by (simp add: bytes_of_def)

lemma bytes_of_simps [simp]:
  "bytes_of [] = []" "bytes_of (c # s) = of_nat (of_char c) # bytes_of s" "bytes_of (s @ t) = bytes_of s @ bytes_of t"
  by (simp_all add: bytes_of_def)

section \<open>Number formatting\<close>

text \<open>\<open>os << n\<close> for an unsigned integer, in decimal and (after \<open>std::hex\<close>) in hexadecimal.\<close>

fun dec_string :: "nat \<Rightarrow> string" where
  "dec_string n = (if n < 10 then [char_of (n + 48)] else dec_string (n div 10) @ [char_of (n mod 10 + 48)])"

fun hex_string :: "nat \<Rightarrow> string" where
  "hex_string n = (if n < 16 then [hex_digit n] else hex_string (n div 16) @ [hex_digit (n mod 16)])"

declare dec_string.simps [simp del] hex_string.simps [simp del]

text \<open>\<open>std::setfill('0') << std::setw(w)\<close> pads on the left.\<close>

definition pad0 :: "nat \<Rightarrow> string \<Rightarrow> string" where
  "pad0 w s = replicate (w - length s) CHR ''0'' @ s"

definition printBytes :: "u64 \<Rightarrow> string" where
  "printBytes bytes =
     (if bytes > 10 * 1048576 then dec_string (unat (drop_bit 20 bytes)) @ ''MB''
      else if bytes > 10 * 1024 then dec_string (unat (drop_bit 10 bytes)) @ ''KB''
      else dec_string (unat bytes) @ ''B'')"

lemma dec_from_append: "dec_from v (xs @ ys) = dec_from (dec_from v xs) ys"
  by (induction xs arbitrary: v) auto

lemma digit_of_small [simp]: "n < 10 \<Longrightarrow> is_digit (char_of (n + 48)) \<and> digit_val (char_of (n + 48)) = n"
  by (simp add: is_digit_def digit_val_def)

lemma dec_string_decimal: "is_decimal (dec_string n)"
proof (induction n rule: dec_string.induct)
  case (1 n)
  then show ?case by (cases "n < 10") (auto simp: dec_string.simps [of n] is_decimal_def)
qed

lemma dec_string_value: "dec_from 0 (dec_string n) = n"
proof (induction n rule: dec_string.induct)
  case (1 n)
  then show ?case by (cases "n < 10") (auto simp: dec_string.simps [of n] dec_from_append)
qed

lemma dec_string_nonempty [simp]: "dec_string n \<noteq> []"
  using dec_string_decimal [of n] by (simp add: is_decimal_def)

lemma parseUint_spec:
  "9 \<le> unat mx \<Longrightarrow> parseUint s mx =
    (if is_decimal s \<and> dec_from 0 s \<le> unat mx then Some (of_nat (dec_from 0 s)) else None)"
  using parseUint_loop_spec [of mx 0 s] by (simp add: parseUint_def is_decimal_def)

section \<open>Properties\<close>

text \<open>
  \<open>parseUint\<close> accepts exactly the non-empty digit strings whose value does not
  exceed the limit, and returns that value, with no wrap-around on any input. The limit
  is at least 9 at every call of the program (255, 65535, \<open>UINT64_MAX / 1000000\<close> and
  \<open>SIZE_MAX\<close>).
\<close>

theorem parseUint_correct:
  assumes "9 \<le> unat mx"
  shows "parseUint s mx =
    (if is_decimal s \<and> dec_from 0 s \<le> unat mx then Some (of_nat (dec_from 0 s)) else None)"
  using assms by (rule parseUint_spec)

text \<open>
  Below that limit the guard is wrong: \<open>max - digit\<close> wraps around, so a single
  digit above the limit is accepted.
\<close>

theorem parseUint_small_limit: "parseUint ''7'' 5 = Some 7"
  by (simp add: parseUint_def is_digit_def digit_val_def)

text \<open>
  Decimal output and \<open>parseUint\<close> are inverse: a printed 64-bit number reads back
  as itself.
\<close>

theorem parseUint_dec_string: "parseUint (dec_string (unat w)) 18446744073709551615 = Some w"
  using unat_u64_less [of w]
  by (subst parseUint_spec) (simp_all add: dec_string_decimal dec_string_value)

text \<open>
  \<open>jsonEscape\<close> is lossless and safe: a JSON reader recovers every byte string from
  its escaped form, and in particular meets no raw quote and no raw control character.
\<close>

theorem jsonEscape_roundtrip: "json_read (jsonEscape s) = Some s"
  by (induction s) (simp_all add: jsonEscape_def json_read_escape_char)

end
