(* ===== verification/Link.thy ===== *)
theory Link
  imports Wire Text_Util "HOL-Library.Sublist"
begin

text \<open>
  Ethernet and 802.1Q VLAN headers (\<^verbatim>\<open>src/net/protocols/ethernet.cpp\<close>,
  \<^verbatim>\<open>src/net/protocols/vlan.cpp\<close>), and the contract every header parser of the
  analyzer keeps towards the packet decoder.

  A parser takes the span by reference and shortens it; here it returns the header and
  the remaining span.
\<close>

section \<open>The contract of a header parser\<close>

text \<open>
  A parser is memory safe on every input, and what it leaves for the next layer is a
  contiguous, strictly shorter part of the bytes it was given.
\<close>

locale header_parser =
  fixes parse :: "span \<Rightarrow> ('h \<times> span) res"
  assumes parse_holds: "holds (\<lambda>(h, rest). sublist rest span \<and> length rest < length span) (parse span)"
begin

lemma safe: "parse span \<noteq> UB"
  using parse_holds by (rule holds_safe)

lemma progress: "parse span = Ok (h, rest) \<Longrightarrow> length rest < length span"
  using parse_holds [of span] by simp

lemma contained: "parse span = Ok (h, rest) \<Longrightarrow> sublist rest span"
  using parse_holds [of span] by simp

lemma empty: "\<exists>e. parse [] = Err e"
  using parse_holds [of "[]"] by (cases "parse []") auto

text \<open>Following a successful parse, the caller works on a part of the same buffer.\<close>

lemma holds_next:
  assumes "\<And>h rest. parse span = Ok (h, rest) \<Longrightarrow> sublist rest span \<Longrightarrow> length rest < length span \<Longrightarrow>
    holds P (k (h, rest))"
  shows "holds P (bind_res (parse span) k)"
  using assms parse_holds [of span] by (cases "parse span") auto

end

lemma sublist_take_drop: "sublist (take m (drop n s)) s"
  by (meson sublist_drop sublist_order.order.trans sublist_take)

section \<open>Ethernet\<close>

definition ethernet_HEADER_LEN :: nat where "ethernet_HEADER_LEN = 14"

definition ETHERTYPE_IPV4 :: u16 where "ETHERTYPE_IPV4 = 0x0800"
definition ETHERTYPE_IPV6 :: u16 where "ETHERTYPE_IPV6 = 0x86DD"
definition ETHERTYPE_ARP :: u16 where "ETHERTYPE_ARP = 0x0806"
definition ETHERTYPE_VLAN :: u16 where "ETHERTYPE_VLAN = 0x8100"
definition ETHERTYPE_VLAN_QQ :: u16 where "ETHERTYPE_VLAN_QQ = 0x88A8"

lemmas ethertype_defs = ETHERTYPE_IPV4_def ETHERTYPE_IPV6_def ETHERTYPE_ARP_def
  ETHERTYPE_VLAN_def ETHERTYPE_VLAN_QQ_def

record ethernet_Header =
  eth_dst_mac :: "u8 list"
  eth_src_mac :: "u8 list"
  eth_ethertype :: u16

definition ethernet_parse :: "span \<Rightarrow> Endian \<Rightarrow> (ethernet_Header \<times> span) res" where
  "ethernet_parse span endian =
     (if length span < ethernet_HEADER_LEN then Err UnexpectedEof
      else bind_res (memcpy span ethernet_HEADER_LEN) (\<lambda>b.
        let header = \<lparr> eth_dst_mac = take 6 b, eth_src_mac = take 6 (drop 6 b), eth_ethertype = raw16 b 12 \<rparr>;
            header = header \<lparr> eth_ethertype := toHost16 (eth_ethertype header) endian \<rparr> in
        bind_res (subspan span ethernet_HEADER_LEN) (\<lambda>span. Ok (header, span))))"

definition ethertypeName :: "u16 \<Rightarrow> string" where
  "ethertypeName ethertype =
     (if ethertype = ETHERTYPE_IPV4 then ''IPv4''
      else if ethertype = ETHERTYPE_IPV6 then ''IPv6''
      else if ethertype = ETHERTYPE_ARP then ''ARP''
      else if ethertype = ETHERTYPE_VLAN then ''VLAN''
      else if ethertype = ETHERTYPE_VLAN_QQ then ''VLAN QoS''
      else ''?'')"

text \<open>\<open>printMac\<close>: six two-digit groups separated by colons.\<close>

fun printMac_loop :: "bool \<Rightarrow> u8 list \<Rightarrow> string" where
  "printMac_loop first [] = []"
| "printMac_loop first (b # bs) =
     (if first then [] else '':'') @ pad0 2 (hex_string (unat b)) @ printMac_loop False bs"

definition printMac :: "u8 list \<Rightarrow> string" where
  "printMac mac = printMac_loop True (take 6 mac)"

section \<open>VLAN tags\<close>

definition vlan_HEADER_LEN :: nat where "vlan_HEADER_LEN = 4"
definition vlan_MAX_TAGS :: nat where "vlan_MAX_TAGS = 4"
definition VID_RESERVED :: u16 where "VID_RESERVED = 0x0FFF"

record vlan_Header =
  vlan_tci :: u16
  vlan_ethertype :: u16

definition vlan_pcp :: "vlan_Header \<Rightarrow> u8" where "vlan_pcp h = ucast (drop_bit 13 (vlan_tci h))"
definition vlan_dei :: "vlan_Header \<Rightarrow> u8" where "vlan_dei h = ucast (drop_bit 12 (vlan_tci h) AND 0x1)"
definition vlan_vid :: "vlan_Header \<Rightarrow> u16" where "vlan_vid h = vlan_tci h AND 0x0FFF"

definition vlan_parse :: "span \<Rightarrow> Endian \<Rightarrow> (vlan_Header \<times> span) res" where
  "vlan_parse span endian =
     (if length span < vlan_HEADER_LEN then Err UnexpectedEof
      else bind_res (memcpy span vlan_HEADER_LEN) (\<lambda>b.
        let header = \<lparr> vlan_tci = raw16 b 0, vlan_ethertype = raw16 b 2 \<rparr>;
            header = header \<lparr> vlan_tci := toHost16 (vlan_tci header) endian \<rparr>;
            header = header \<lparr> vlan_ethertype := toHost16 (vlan_ethertype header) endian \<rparr> in
        if vlan_vid header = VID_RESERVED then Err InvalidFieldValue
        else bind_res (subspan span vlan_HEADER_LEN) (\<lambda>span. Ok (header, span))))"

section \<open>The parsers keep the contract\<close>

interpretation ethernet: header_parser "\<lambda>span. ethernet_parse span endian"
  by unfold_locales (auto simp: ethernet_parse_def ethernet_HEADER_LEN_def Let_def)

interpretation vlan: header_parser "\<lambda>span. vlan_parse span endian"
  by unfold_locales (auto simp: vlan_parse_def vlan_HEADER_LEN_def Let_def)

section \<open>Wire format\<close>

definition ethernet_bytes :: "ethernet_Header \<Rightarrow> u8 list" where
  "ethernet_bytes h = eth_dst_mac h @ eth_src_mac h @ bytes16 (eth_ethertype h)"

definition vlan_bytes :: "vlan_Header \<Rightarrow> u8 list" where
  "vlan_bytes h = bytes16 (vlan_tci h) @ bytes16 (vlan_ethertype h)"

lemma ethernet_parse_bytes:
  assumes "length (eth_dst_mac h) = 6" and "length (eth_src_mac h) = 6"
  shows "ethernet_parse (ethernet_bytes h @ rest) Big = Ok (h, rest)"
  using assms be16_skip [of "eth_dst_mac h @ eth_src_mac h" 12 "bytes16 (eth_ethertype h)" 0]
    be16_bytes16 [of "eth_ethertype h" "[]"]
  by (simp add: ethernet_parse_def ethernet_bytes_def ethernet_HEADER_LEN_def wire_simps)

lemma vlan_parse_bytes:
  assumes "vlan_vid h \<noteq> VID_RESERVED"
  shows "vlan_parse (vlan_bytes h @ rest) Big = Ok (h, rest)"
  using assms be16_skip [of "bytes16 (vlan_tci h)" 2 "bytes16 (vlan_ethertype h)" 0]
    be16_bytes16 [of "vlan_ethertype h" "[]"]
  by (simp add: vlan_parse_def vlan_bytes_def vlan_HEADER_LEN_def wire_simps vlan_vid_def Let_def)

lemma vlan_parse_vid: "vlan_parse span endian = Ok (h, rest) \<Longrightarrow> vlan_vid h \<noteq> VID_RESERVED"
  by (auto simp: vlan_parse_def vlan_HEADER_LEN_def Let_def vlan_vid_def split: if_splits)

end
