(* ===== verification/Checksum.thy ===== *)
theory Checksum
  imports Wire
begin

text \<open>
  The Internet checksum (\<^verbatim>\<open>src/net/util/checksum.cpp\<close>).

  \<open>verifyChecksum\<close> sums eight bytes at a time into four independent 64-bit accumulators
  in host order, folds, swaps the bytes of the folded sum once and adds the remaining
  words in network order. The reference is the definition of RFC 1071: the one's
  complement sum of the big-endian 16-bit words, an odd last byte padded with zero.
\<close>

section \<open>The code\<close>

lemma unat_fold_step:
  "unat ((s AND 0xFFFF) + drop_bit 16 s) = unat s mod 65536 + unat s div 65536" for s :: u64
proof -
  have "unat (s AND 0xFFFF) = unat s mod 65536"
    using unat_and_mask [of s 16] by (simp add: mask_eq_exp_minus_1)
  moreover have "unat s div 65536 < 281474976710656"
    using unat_u64_less [of s] by simp
  moreover have "unat s mod 65536 < 65536" by simp
  ultimately show ?thesis
    by (simp add: unat_word_ariths unat_drop_bit)
qed

text \<open>\<open>while (s >> 16) s = (s & 0xFFFF) + (s >> 16);\<close>\<close>

function fold16 :: "u64 \<Rightarrow> u64" where
  "fold16 s = (if drop_bit 16 s \<noteq> 0 then fold16 ((s AND 0xFFFF) + drop_bit 16 s) else s)"
  by pat_completeness auto

termination
proof (relation "measure unat")
  fix s :: u64
  assume "drop_bit 16 s \<noteq> 0"
  then have "unat s div 65536 \<noteq> 0"
    by (simp add: unat_drop_bit flip: unat_0_iff)
  moreover have "unat s = 65536 * (unat s div 65536) + unat s mod 65536" by simp
  ultimately have "unat s mod 65536 + unat s div 65536 < unat s" by linarith
  then show "((s AND 0xFFFF) + drop_bit 16 s, s) \<in> measure unat"
    by (simp add: unat_fold_step)
qed simp

declare fold16.simps [simp del]

text \<open>The first loop; \<open>i\<close> is how far \<open>bs\<close> has been consumed.\<close>

function sum_blocks :: "u64 \<times> u64 \<times> u64 \<times> u64 \<Rightarrow> u8 list \<Rightarrow> (u64 \<times> u64 \<times> u64 \<times> u64) \<times> u8 list" where
  "sum_blocks (a, b, c, d) bs =
     (if 32 \<le> length bs then
        let w0 = raw64 bs 0; w1 = raw64 bs 8; w2 = raw64 bs 16; w3 = raw64 bs 24 in
        sum_blocks (a + ((w0 AND 0xFFFFFFFF) + drop_bit 32 w0), b + ((w1 AND 0xFFFFFFFF) + drop_bit 32 w1),
                    c + ((w2 AND 0xFFFFFFFF) + drop_bit 32 w2), d + ((w3 AND 0xFFFFFFFF) + drop_bit 32 w3))
                   (drop 32 bs)
      else ((a, b, c, d), bs))"
  by pat_completeness auto
termination
  by (relation "measure (\<lambda>(_, bs). length bs)") auto

declare sum_blocks.simps [simp del]

function sum_words :: "u64 \<Rightarrow> u8 list \<Rightarrow> u64 \<times> u8 list" where
  "sum_words s bs =
     (if 4 \<le> length bs then sum_words (s + ucast (raw32 bs 0)) (drop 4 bs) else (s, bs))"
  by pat_completeness auto
termination
  by (relation "measure (\<lambda>(_, bs). length bs)") auto

declare sum_words.simps [simp del]

text \<open>The last loop and the odd byte: \<open>(uint32_t)data[i] << 8 | data[i + 1]\<close>.\<close>

fun sum_tail :: "u64 \<Rightarrow> u8 list \<Rightarrow> u64" where
  "sum_tail s (x # y # bs) = sum_tail (s + ucast ((push_bit 8 (ucast x :: u32)) OR ucast y)) bs"
| "sum_tail s [x] = s + ucast (push_bit 8 (ucast x :: u32))"
| "sum_tail s [] = s"

definition verifyChecksum :: "span \<Rightarrow> nat \<Rightarrow> u64 \<Rightarrow> bool res" where
  "verifyChecksum data len pseudo_header_sum =
     bind_res (memcpy data len) (\<lambda>bytes.
       case sum_blocks (0, 0, 0, 0) bytes of ((a, b, c, d), rest) \<Rightarrow>
       case sum_words (a + b + c + d) rest of (swapped, rest) \<Rightarrow>
       let sum = pseudo_header_sum + ucast (bswap16 (ucast (fold16 swapped)));
           sum = fold16 (sum_tail sum rest)
       in Ok ((ucast (NOT sum) :: u16) = 0))"

section \<open>The reference\<close>

fun be_sum :: "u8 list \<Rightarrow> nat" where
  "be_sum (x # y # bs) = unat x * 256 + unat y + be_sum bs"
| "be_sum [x] = unat x * 256"
| "be_sum [] = 0"

text \<open>The one's complement sum of the data and the pseudo header is all ones.\<close>

definition checksum_ok :: "u8 list \<Rightarrow> nat \<Rightarrow> bool" where
  "checksum_ok bs pseudo = (0 < pseudo + be_sum bs \<and> (pseudo + be_sum bs) mod 65535 = 0)"

section \<open>Folding\<close>

lemma fold16_spec:
  "unat (fold16 s) < 65536 \<and> unat (fold16 s) mod 65535 = unat s mod 65535 \<and>
     (unat (fold16 s) = 0 \<longleftrightarrow> unat s = 0)"
proof (induction s rule: fold16.induct)
  case (1 s)
  let ?t = "(s AND 0xFFFF) + drop_bit 16 s"
  have split: "unat s = 65536 * (unat s div 65536) + unat s mod 65536" by simp
  have cong: "unat ?t mod 65535 = unat s mod 65535"
  proof -
    have "unat s = (unat s mod 65536 + unat s div 65536) + 65535 * (unat s div 65536)"
      using split by linarith
    then show ?thesis unfolding unat_fold_step by (metis mod_mult_self2)
  qed
  show ?case
  proof (cases "drop_bit 16 s = 0")
    case True
    then have "unat s div 65536 = 0" by (simp add: unat_drop_bit flip: unat_0_iff)
    with True show ?thesis by (simp add: fold16.simps [of s] div_eq_0_iff)
  next
    case False
    moreover have "unat ?t = 0 \<longleftrightarrow> unat s = 0"
      using split unfolding unat_fold_step by linarith
    ultimately show ?thesis using 1 cong by (simp add: fold16.simps [of s])
  qed
qed

lemma fold16_full: "unat (fold16 s) = 65535 \<longleftrightarrow> 0 < unat s \<and> unat s mod 65535 = 0"
proof -
  let ?f = "unat (fold16 s)"
  note f = fold16_spec [of s]
  show ?thesis
  proof (cases "?f = 65535")
    case True
    with f show ?thesis by simp
  next
    case False
    then have "?f < 65535" using f by linarith
    then have "?f = unat s mod 65535" using f by simp
    with f False show ?thesis by auto
  qed
qed

lemma minus_1_eq_65535: "(-1 :: u16) = 65535"
  by simp

lemma not_ucast16_eq_0:
  fixes s :: u64
  assumes "unat s < 65536"
  shows "(ucast (NOT s) :: u16) = 0 \<longleftrightarrow> unat s = 65535"
proof -
  have "(ucast (NOT s) :: u16) = NOT (ucast s)"
    by (rule bit_word_eqI) (simp add: bit_simps)
  then have "(ucast (NOT s) :: u16) = 0 \<longleftrightarrow> (ucast s :: u16) = 65535"
    by (metis bit.double_compl bit.compl_zero minus_1_eq_65535)
  also have "\<dots> \<longleftrightarrow> unat (ucast s :: u16) = 65535"
    using word_unat_eq_iff [of "ucast s :: u16" 65535] by simp
  also have "unat (ucast s :: u16) = unat s"
    using assms by (simp only: unsigned_ucast_eq) (simp add: take_bit_eq_mod)
  finally show ?thesis .
qed

section \<open>Little-endian partial sums\<close>

text \<open>The little-endian 32-bit words of the longest prefix that is a multiple of four.\<close>

fun le4_sum :: "u8 list \<Rightarrow> nat" where
  "le4_sum (a # b # c # d # bs) = le_nat [a, b, c, d] + le4_sum bs"
| "le4_sum bs = 0"

fun rem4 :: "u8 list \<Rightarrow> u8 list" where
  "rem4 (a # b # c # d # bs) = rem4 bs"
| "rem4 bs = bs"

lemma le4_sum_unfold: "4 \<le> length bs \<Longrightarrow> le4_sum bs = le_nat (take 4 bs) + le4_sum (drop 4 bs)"
  by (cases bs rule: le4_sum.cases) auto

lemma rem4_unfold: "4 \<le> length bs \<Longrightarrow> rem4 bs = rem4 (drop 4 bs)"
  by (cases bs rule: rem4.cases) auto

lemma le4_sum_short: "length bs < 4 \<Longrightarrow> le4_sum bs = 0 \<and> rem4 bs = bs"
  by (cases bs rule: le4_sum.cases) auto

lemma le4_sum_bound: "le4_sum bs \<le> length bs * 1073741824"
proof (induction bs rule: le4_sum.induct)
  case (1 a b c d bs)
  then show ?case using le_nat_less [of "[a, b, c, d]"] by simp
qed simp_all

lemma length_rem4: "length (rem4 bs) < 4"
  by (induction bs rule: rem4.induct) auto

lemma unat_raw64_halves:
  assumes "i + 8 \<le> length bs"
  shows "unat ((raw64 bs i AND 0xFFFFFFFF) + drop_bit 32 (raw64 bs i)) =
    le_nat (take 4 (drop i bs)) + le_nat (take 4 (drop (i + 4) bs))"
proof -
  let ?x = "take 4 (drop i bs)" and ?y = "take 4 (drop (i + 4) bs)"
  have split: "take 8 (drop i bs) = ?x @ ?y"
    using assms by (simp add: take_add [of 4 4, simplified] add.commute)
  have len: "length ?x = 4" "length ?y = 4" using assms by simp_all
  have x: "le_nat ?x < 4294967296" using le_nat_less [of ?x] len by simp
  have y: "le_nat ?y < 4294967296" using le_nat_less [of ?y] len by simp
  have w: "unat (raw64 bs i) = le_nat ?x + 4294967296 * le_nat ?y"
  proof -
    have "le_nat (?x @ ?y) < 256 ^ length (?x @ ?y)" by (rule le_nat_less)
    then show ?thesis
      unfolding raw64_def split using len
      by (simp add: le_nat_append unat_of_nat_u64 del: of_nat_add of_nat_mult)
  qed
  have "unat (raw64 bs i AND 0xFFFFFFFF) = le_nat ?x"
    using unat_and_mask [of "raw64 bs i" 32] x by (simp add: mask_eq_exp_minus_1 w)
  moreover have "unat (drop_bit 32 (raw64 bs i)) = le_nat ?y"
    using x y by (simp add: unat_drop_bit w)
  ultimately show ?thesis
    using x y by (simp add: unat_word_ariths)
qed

abbreviation total4 :: "u64 \<times> u64 \<times> u64 \<times> u64 \<Rightarrow> nat" where
  "total4 acc \<equiv> (case acc of (a, b, c, d) \<Rightarrow> unat a + unat b + unat c + unat d)"

lemma le4_sum_block:
  assumes "32 \<le> length bs"
  shows "le4_sum bs = (le_nat (take 4 bs) + le_nat (take 4 (drop 4 bs))) +
    (le_nat (take 4 (drop 8 bs)) + le_nat (take 4 (drop 12 bs))) +
    (le_nat (take 4 (drop 16 bs)) + le_nat (take 4 (drop 20 bs))) +
    (le_nat (take 4 (drop 24 bs)) + le_nat (take 4 (drop 28 bs))) + le4_sum (drop 32 bs)"
    and "rem4 bs = rem4 (drop 32 bs)"
  using assms
  by (simp_all add: le4_sum_unfold [of bs] le4_sum_unfold [of "drop 4 bs"]
      le4_sum_unfold [of "drop 8 bs"] le4_sum_unfold [of "drop 12 bs"]
      le4_sum_unfold [of "drop 16 bs"] le4_sum_unfold [of "drop 20 bs"]
      le4_sum_unfold [of "drop 24 bs"] le4_sum_unfold [of "drop 28 bs"]
      rem4_unfold [of bs] rem4_unfold [of "drop 4 bs"] rem4_unfold [of "drop 8 bs"]
      rem4_unfold [of "drop 12 bs"] rem4_unfold [of "drop 16 bs"] rem4_unfold [of "drop 20 bs"]
      rem4_unfold [of "drop 24 bs"] rem4_unfold [of "drop 28 bs"])

lemma unat_add_small: "unat x + unat y < 18446744073709551616 \<Longrightarrow> unat (x + y) = unat x + unat y"
  for x y :: u64
  by (simp add: unat_word_ariths)

text \<open>No accumulator wraps as long as the buffer is shorter than \<open>2 ^ 32\<close> bytes.\<close>

lemma sum_blocks_spec:
  assumes "sum_blocks acc bs = (acc', rest)"
    and "total4 acc + length bs * 1073741824 < 18446744073709551616"
  shows "total4 acc' + le4_sum rest = total4 acc + le4_sum bs \<and> rem4 rest = rem4 bs \<and>
    total4 acc' + length rest * 1073741824 < 18446744073709551616"
  using assms
proof (induction acc bs rule: sum_blocks.induct)
  case (1 a b c d bs)
  show ?case
  proof (cases "32 \<le> length bs")
    case False
    with 1 show ?thesis by (auto simp: sum_blocks.simps [of a b c d bs])
  next
    case True
    let ?h = "\<lambda>i. (raw64 bs i AND 0xFFFFFFFF) + drop_bit 32 (raw64 bs i)"
    let ?n = "\<lambda>i. le_nat (take 4 (drop i bs)) + le_nat (take 4 (drop (i + 4) bs))"
    have h: "unat (?h i) = ?n i" if "i + 8 \<le> length bs" for i
      using unat_raw64_halves [OF that] .
    have n: "?n i < 8589934592" for i
      using le_nat_less [of "take 4 (drop i bs)"] le_nat_less [of "take 4 (drop (i + 4) bs)"]
        power_increasing [of "length (take 4 (drop i bs))" 4 "256 :: nat"]
        power_increasing [of "length (take 4 (drop (i + 4) bs))" 4 "256 :: nat"] by simp
    have add: "unat (x + ?h i) = unat x + ?n i"
      if "unat x \<le> total4 (a, b, c, d)" "i + 8 \<le> length bs" for x i
      using that n [of i] "1.prems"(2) True by (subst unat_add_small) (auto simp: h)
    have acc: "total4 (a + ?h 0, b + ?h 8, c + ?h 16, d + ?h 24) =
        total4 (a, b, c, d) + (?n 0 + ?n 8 + ?n 16 + ?n 24)"
      using True by (simp add: add del: take_drop)
    have "sum_blocks (a + ?h 0, b + ?h 8, c + ?h 16, d + ?h 24) (drop 32 bs) = (acc', rest)"
      using "1.prems"(1) True by (simp add: sum_blocks.simps [of a b c d bs] Let_def)
    moreover have "total4 (a + ?h 0, b + ?h 8, c + ?h 16, d + ?h 24) +
        length (drop 32 bs) * 1073741824 < 18446744073709551616"
      using "1.prems"(2) True n [of 0] n [of 8] n [of 16] n [of 24] unfolding acc by simp
    ultimately show ?thesis
      using "1.IH" [OF True refl refl refl refl] acc le4_sum_block [OF True] by simp
  qed
qed

lemma sum_words_spec:
  assumes "unat s + length bs * 1073741824 < 18446744073709551616"
  shows "sum_words s bs = (of_nat (unat s + le4_sum bs), rem4 bs)"
  using assms
proof (induction s bs rule: sum_words.induct)
  case (1 s bs)
  show ?case
  proof (cases "4 \<le> length bs")
    case False
    then show ?thesis by (simp add: sum_words.simps [of s bs] le4_sum_short)
  next
    case True
    let ?n = "le_nat (take 4 bs)"
    have n: "?n < 4294967296" using le_nat_less [of "take 4 bs"] True by simp
    have "unat (ucast (raw32 bs 0) :: u64) = ?n"
      using n by (simp add: raw32_def unsigned_ucast_eq take_bit_eq_mod unat_of_nat_u32)
    then have s: "unat (s + ucast (raw32 bs 0)) = unat s + ?n"
      using n "1.prems" True by (subst unat_add_small) simp_all
    then have "sum_words (s + ucast (raw32 bs 0)) (drop 4 bs) =
        (of_nat (unat s + ?n + le4_sum (drop 4 bs)), rem4 (drop 4 bs))"
      using "1.IH" [OF True] "1.prems" True n by simp
    then show ?thesis
      using True by (simp add: sum_words.simps [of s bs] le4_sum_unfold [of bs] rem4_unfold [of bs] add.assoc)
  qed
qed

section \<open>From little-endian to big-endian sums\<close>

text \<open>Modulo \<open>65535\<close>, swapping the bytes of a 16-bit word is multiplication by 256.\<close>

lemma bswap16_mod:
  "unat (bswap16 x) mod 65535 = 256 * unat x mod 65535 \<and> (unat (bswap16 x) = 0 \<longleftrightarrow> unat x = 0)"
proof -
  have split: "unat x = 256 * (unat x div 256) + unat x mod 256" by simp
  then have "256 * unat x = unat (bswap16 x) + 65535 * (unat x div 256)"
    unfolding unat_bswap16 by linarith
  then have "256 * unat x mod 65535 = unat (bswap16 x) mod 65535" by (metis mod_mult_self2)
  moreover have "unat (bswap16 x) = 0 \<longleftrightarrow> unat x = 0"
    using split unfolding unat_bswap16 by linarith
  ultimately show ?thesis by simp
qed

lemma be_sum_le4:
  "(256 * le4_sum bs + be_sum (rem4 bs)) mod 65535 = be_sum bs mod 65535 \<and>
     (le4_sum bs = 0 \<and> be_sum (rem4 bs) = 0 \<longleftrightarrow> be_sum bs = 0)"
proof (induction bs rule: le4_sum.induct)
  case (1 a b c d bs)
  let ?w = "unat a * 256 + unat b + (unat c * 256 + unat d)"
  have "256 * le_nat [a, b, c, d] = ?w + 65535 * (unat b + 256 * unat c + 65537 * unat d)"
    by simp
  then have "256 * le4_sum (a # b # c # d # bs) + be_sum (rem4 (a # b # c # d # bs)) =
      (?w + (256 * le4_sum bs + be_sum (rem4 bs))) + 65535 * (unat b + 256 * unat c + 65537 * unat d)"
    by simp
  then have "(256 * le4_sum (a # b # c # d # bs) + be_sum (rem4 (a # b # c # d # bs))) mod 65535 =
      (?w + (256 * le4_sum bs + be_sum (rem4 bs))) mod 65535"
    by (simp only: mod_mult_self2)
  also have "\<dots> = (?w + be_sum bs) mod 65535"
    using "1.IH" by (metis mod_add_right_eq)
  finally show ?case using "1.IH" by (auto simp: add.assoc)
qed auto

lemma unat_tail_word: "unat (ucast ((push_bit 8 (ucast x :: u32)) OR ucast y) :: u64) = unat x * 256 + unat y"
  for x y :: u8
proof -
  have "unat (push_bit 8 (ucast x :: u32) OR ucast y) = unat x * 256 + unat y"
    using unat_push_bit_or [of "ucast y :: u32" 8 "ucast x :: u32" 8] unat_u8_less [of x] unat_u8_less [of y]
    by (simp add: unsigned_ucast_eq take_bit_eq_mod)
  then show ?thesis
    using unat_u8_less [of x] unat_u8_less [of y] by (simp add: unsigned_ucast_eq take_bit_eq_mod)
qed

lemma unat_sum_tail:
  assumes "unat s + length bs * 65536 < 18446744073709551616"
  shows "unat (sum_tail s bs) = unat s + be_sum bs"
  using assms
proof (induction s bs rule: sum_tail.induct)
  case (1 s x y bs)
  have "unat x * 256 + unat y < 65536" using unat_u8_less [of x] unat_u8_less [of y] by simp
  with "1.prems" have "unat (s + ucast ((push_bit 8 (ucast x :: u32)) OR ucast y)) = unat s + (unat x * 256 + unat y)"
    by (subst unat_add_small) (simp_all add: unat_tail_word)
  with 1 \<open>unat x * 256 + unat y < 65536\<close> show ?case by simp
next
  case (2 s x)
  have "unat x * 256 < 65536" using unat_u8_less [of x] by simp
  with 2 unat_tail_word [of x 0] show ?case by (simp add: unat_add_small)
qed simp

section \<open>Equivalence\<close>

lemma swapped_fold:
  assumes "n < 18446744073709551616"
  shows "unat (bswap16 (ucast (fold16 (of_nat n)))) mod 65535 = 256 * n mod 65535"
    and "unat (bswap16 (ucast (fold16 (of_nat n)))) = 0 \<longleftrightarrow> n = 0"
proof -
  let ?f = "fold16 (of_nat n)"
  have f: "unat ?f < 65536" "unat ?f mod 65535 = n mod 65535" "unat ?f = 0 \<longleftrightarrow> n = 0"
    using fold16_spec [of "of_nat n"] assms by (simp_all add: unat_of_nat_u64)
  have uf: "unat (ucast ?f :: u16) = unat ?f"
    using f(1) by (simp only: unsigned_ucast_eq) (simp add: take_bit_eq_mod)
  have "256 * unat ?f mod 65535 = 256 * n mod 65535"
    using f(2) by (rule mod_mult_cong [OF refl])
  then show "unat (bswap16 (ucast ?f)) mod 65535 = 256 * n mod 65535"
    using bswap16_mod [of "ucast ?f"] by (simp add: uf)
  show "unat (bswap16 (ucast ?f)) = 0 \<longleftrightarrow> n = 0"
    using bswap16_mod [of "ucast ?f"] f(3) by (simp add: uf)
qed

lemma verifyChecksum_sums:
  assumes "length bs < 4294967296"
  shows "verifyChecksum bs (length bs) pseudo =
    Ok ((ucast (NOT (fold16 (sum_tail (pseudo + ucast (bswap16 (ucast (fold16 (of_nat (le4_sum bs))))))
      (rem4 bs)))) :: u16) = 0)"
proof -
  obtain a b c d rest where blocks: "sum_blocks (0, 0, 0, 0) bs = ((a, b, c, d), rest)"
    by (metis prod.exhaust)
  note spec = sum_blocks_spec [OF blocks, simplified]
  have s: "unat (a + b + c + d) = unat a + unat b + unat c + unat d"
    using spec assms by (simp add: unat_add_small)
  have "sum_words (a + b + c + d) rest = (of_nat (le4_sum bs), rem4 bs)"
    using sum_words_spec [of "a + b + c + d" rest] spec assms unfolding s by simp
  then show ?thesis
    by (simp add: verifyChecksum_def blocks Let_def)
qed

lemma verifyChecksum_full:
  assumes "length bs < 4294967296" and "unat pseudo < 281474976710656"
  shows "verifyChecksum bs (length bs) pseudo = Ok (checksum_ok bs (unat pseudo))"
proof -
  have le4: "le4_sum bs < 18446744073709551616" using le4_sum_bound [of bs] assms(1) by simp
  let ?b = "bswap16 (ucast (fold16 (of_nat (le4_sum bs))))"
  note b = swapped_fold [OF le4]
  have ub: "unat (ucast ?b :: u64) = unat ?b"
    using unat_u16_less [of ?b] by (simp only: unsigned_ucast_eq) (simp add: take_bit_eq_mod)
  have sum: "unat (pseudo + ucast ?b) = unat pseudo + unat ?b"
    using assms(2) unat_u16_less [of ?b] by (subst unat_add_small) (simp_all add: ub)
  let ?t = "sum_tail (pseudo + ucast ?b) (rem4 bs)"
  have t: "unat ?t = unat pseudo + (unat ?b + be_sum (rem4 bs))"
    using assms(2) unat_u16_less [of ?b] length_rem4 [of bs] by (subst unat_sum_tail) (simp_all add: sum)
  have "(unat ?b + be_sum (rem4 bs)) mod 65535 = be_sum bs mod 65535"
    using mod_add_cong [OF b(1) refl] be_sum_le4 [of bs] by simp
  then have "unat ?t mod 65535 = (unat pseudo + be_sum bs) mod 65535"
    unfolding t by (rule mod_add_cong [OF refl])
  moreover have "0 < unat ?t \<longleftrightarrow> 0 < unat pseudo + be_sum bs"
    unfolding t using b(2) be_sum_le4 [of bs] by auto
  ultimately have "unat (fold16 ?t) = 65535 \<longleftrightarrow> checksum_ok bs (unat pseudo)"
    by (simp add: fold16_full checksum_ok_def)
  then show ?thesis
    using fold16_spec [of ?t] by (simp add: verifyChecksum_sums assms(1) not_ucast16_eq_0)
qed

lemma verifyChecksum_take:
  "len \<le> length data \<Longrightarrow>
     verifyChecksum data len pseudo = verifyChecksum (take len data) (length (take len data)) pseudo"
  by (simp add: verifyChecksum_def)

lemma holds_verifyChecksum [safe_intro]:
  "len \<le> length data \<Longrightarrow> (\<And>ok. P ok) \<Longrightarrow> holds P (verifyChecksum data len pseudo)"
  by (simp add: verifyChecksum_def Let_def split: prod.splits)

text \<open>
  Changing one byte changes the sum by less than 65535 in either direction, and not by 0,
  so a single corrupted byte never goes unnoticed.
\<close>

lemma be_sum_update:
  assumes "i < length bs"
  shows "be_sum (bs[i := b]) + (if even i then 256 else 1) * unat (bs ! i) =
    be_sum bs + (if even i then 256 else 1) * unat b"
  using assms
proof (induction bs arbitrary: i rule: be_sum.induct)
  case (1 x y bs)
  consider "i = 0" | "i = 1" | j where "i = j + 2" by (metis One_nat_def add_2_eq_Suc' not0_implies_Suc)
  then show ?case
  proof cases
    case (3 j)
    then show ?thesis using "1.IH" [of j] "1.prems" by simp
  qed simp_all
next
  case (2 x)
  then show ?case by simp
qed simp

lemma mod_65535_neq:
  fixes m n :: nat
  assumes "m mod 65535 = 0" and "m < n" and "n < m + 65535"
  shows "n mod 65535 \<noteq> 0"
proof
  assume "n mod 65535 = 0"
  with assms(1) obtain j k where "m = 65535 * j" "n = 65535 * k"
    by (metis mod_0_imp_dvd dvdE)
  with assms(2,3) show False by simp
qed

lemma checksum_ok_update:
  assumes "checksum_ok bs p" and "i < length bs" and "b \<noteq> bs ! i"
  shows "\<not> checksum_ok (bs[i := b]) p"
proof -
  let ?k = "if even i then 256 else 1 :: nat"
  note upd = be_sum_update [OF assms(2), of b]
  have ne: "unat b \<noteq> unat (bs ! i)" using assms(3) by (simp add: word_unat_eq_iff)
  have k: "?k * unat b \<le> ?k * unat (bs ! i) + 65280" "?k * unat (bs ! i) \<le> ?k * unat b + 65280"
    "?k * unat b \<noteq> ?k * unat (bs ! i)"
    using unat_u8_less [of b] unat_u8_less [of "bs ! i"] ne by auto
  let ?m = "p + be_sum bs" and ?n = "p + be_sum (bs[i := b])"
  have m: "?m mod 65535 = 0" using assms(1) by (simp add: checksum_ok_def)
  consider "?m < ?n" "?n < ?m + 65535" | "?n < ?m" "?m < ?n + 65535"
    using upd k by linarith
  then have "?n mod 65535 \<noteq> 0"
  proof cases
    case 1
    with m show ?thesis by (rule mod_65535_neq)
  next
    case 2
    show ?thesis
    proof
      assume "?n mod 65535 = 0"
      from mod_65535_neq [OF this 2] m show False by simp
    qed
  qed
  then show ?thesis by (simp add: checksum_ok_def)
qed

text \<open>
  C27. \<open>verifyChecksum\<close> computes the RFC 1071 check. For every buffer shorter than 4 GiB
  and every pseudo-header sum below \<open>2 ^ 48\<close> (both far beyond what an IP packet can
  reach), the unrolled little-endian routine reads only the given bytes and accepts
  exactly when the one's complement sum of the big-endian words and the pseudo header is
  all ones.
\<close>

theorem verifyChecksum_correct:
  assumes "len \<le> length data" and "len < 4294967296" and "unat pseudo < 281474976710656"
  shows "verifyChecksum data len pseudo = Ok (checksum_ok (take len data) (unat pseudo))"
  unfolding verifyChecksum_take [OF assms(1)]
  by (rule verifyChecksum_full) (use assms in simp_all)

theorem verifyChecksum_correct_witness:
  "verifyChecksum [0x45, 0x00, 0x00, 0xBA, 0xFF, 0x45] 5 0 = Ok False \<and>
   verifyChecksum [0x12, 0x34, 0xED, 0xCB] 4 0 = Ok True"
  using verifyChecksum_correct [of 5 "[0x45, 0x00, 0x00, 0xBA, 0xFF, 0x45]" 0]
    verifyChecksum_correct [of 4 "[0x12, 0x34, 0xED, 0xCB]" 0]
  by (simp add: checksum_ok_def)

text \<open>
  Corruption is detected: if a buffer verifies, then every buffer that differs from it
  in exactly one byte, at any position and by any amount, is rejected.
\<close>

theorem verifyChecksum_detects_corruption:
  assumes "length bs < 4294967296" and "unat pseudo < 281474976710656"
    and "verifyChecksum bs (length bs) pseudo = Ok True" and "i < length bs" and "b \<noteq> bs ! i"
  shows "verifyChecksum (bs[i := b]) (length bs) pseudo = Ok False"
proof -
  have "checksum_ok bs (unat pseudo)"
    using verifyChecksum_full [OF assms(1,2)] assms(3) by simp
  from checksum_ok_update [OF this assms(4,5)] show ?thesis
    using verifyChecksum_full [of "bs[i := b]" pseudo] assms(1,2) by simp
qed

end
