(* ===== verification/Ipv4.thy ===== *)
theory Ipv4
  imports Link Checksum
begin

text \<open>
  IPv4 headers and addresses (\<^verbatim>\<open>src/net/protocols/ipv4.cpp\<close>) and the protocol
  numbers shared by both IP versions (\<^verbatim>\<open>include/net/protocols/ip.h\<close>).
\<close>

section \<open>Protocol numbers\<close>

definition PROTOCOL_UDP :: u8 where "PROTOCOL_UDP = 17"
definition PROTOCOL_TCP :: u8 where "PROTOCOL_TCP = 6"
definition PROTOCOL_ICMP :: u8 where "PROTOCOL_ICMP = 1"
definition PROTOCOL_ICMPV6 :: u8 where "PROTOCOL_ICMPV6 = 58"
definition PROTOCOL_HOPOPT :: u8 where "PROTOCOL_HOPOPT = 0"
definition PROTOCOL_IPV6_ROUTE :: u8 where "PROTOCOL_IPV6_ROUTE = 43"
definition PROTOCOL_IPV6_FRAG :: u8 where "PROTOCOL_IPV6_FRAG = 44"
definition PROTOCOL_ESP :: u8 where "PROTOCOL_ESP = 50"
definition PROTOCOL_AH :: u8 where "PROTOCOL_AH = 51"
definition PROTOCOL_IPV6_NONXT :: u8 where "PROTOCOL_IPV6_NONXT = 59"
definition PROTOCOL_IPV6_OPTS :: u8 where "PROTOCOL_IPV6_OPTS = 60"
definition PROTOCOL_MOBILITY :: u8 where "PROTOCOL_MOBILITY = 135"
definition PROTOCOL_HIP :: u8 where "PROTOCOL_HIP = 139"
definition PROTOCOL_SHIM6 :: u8 where "PROTOCOL_SHIM6 = 140"

lemmas protocol_defs = PROTOCOL_UDP_def PROTOCOL_TCP_def PROTOCOL_ICMP_def PROTOCOL_ICMPV6_def
  PROTOCOL_HOPOPT_def PROTOCOL_IPV6_ROUTE_def PROTOCOL_IPV6_FRAG_def PROTOCOL_ESP_def PROTOCOL_AH_def
  PROTOCOL_IPV6_NONXT_def PROTOCOL_IPV6_OPTS_def PROTOCOL_MOBILITY_def PROTOCOL_HIP_def PROTOCOL_SHIM6_def

definition protocolName :: "u8 \<Rightarrow> string" where
  "protocolName protocol =
     (if protocol = PROTOCOL_TCP then ''TCP''
      else if protocol = PROTOCOL_UDP then ''UDP''
      else if protocol = PROTOCOL_ICMP then ''ICMP''
      else if protocol = PROTOCOL_ICMPV6 then ''ICMPV6''
      else if protocol = PROTOCOL_HOPOPT then ''HOPOPT''
      else if protocol = PROTOCOL_IPV6_ROUTE then ''IPv6-Route''
      else if protocol = PROTOCOL_IPV6_FRAG then ''IPv6-Frag''
      else if protocol = PROTOCOL_ESP then ''ESP''
      else if protocol = PROTOCOL_AH then ''AH''
      else if protocol = PROTOCOL_IPV6_NONXT then ''IPv6-NoNxt''
      else if protocol = PROTOCOL_IPV6_OPTS then ''IPv6-Opts''
      else if protocol = PROTOCOL_MOBILITY then ''Mobility''
      else if protocol = PROTOCOL_HIP then ''HIP''
      else if protocol = PROTOCOL_SHIM6 then ''Shim6''
      else ''?'')"

definition protocolFromName :: "string \<Rightarrow> u8 option" where
  "protocolFromName name =
     (if isEquals name ''tcp'' then Some PROTOCOL_TCP
      else if isEquals name ''udp'' then Some PROTOCOL_UDP
      else if isEquals name ''icmp'' then Some PROTOCOL_ICMP
      else if isEquals name ''icmpv6'' then Some PROTOCOL_ICMPV6
      else map_option ucast (parseUint name 255))"

section \<open>The header\<close>

definition v4_MIN_HEADER_LEN :: nat where "v4_MIN_HEADER_LEN = 20"
definition v4_MAX_HEADER_LEN :: nat where "v4_MAX_HEADER_LEN = 60"
definition v4_SUPPORTED_VERSION :: u16 where "v4_SUPPORTED_VERSION = 4"

record v4_Header =
  v4_version_ihl :: u8
  v4_tos :: u8
  v4_total_length :: u16
  v4_identification :: u16
  v4_flags_fragment :: u16
  v4_ttl :: u8
  v4_protocol :: u8
  v4_checksum :: u16
  v4_src_ip :: u32
  v4_dst_ip :: u32

definition v4_version :: "v4_Header \<Rightarrow> u8" where "v4_version h = drop_bit 4 (v4_version_ihl h)"
definition v4_ihl :: "v4_Header \<Rightarrow> u8" where "v4_ihl h = v4_version_ihl h AND 0x0F"
definition v4_header_length :: "v4_Header \<Rightarrow> u16" where "v4_header_length h = 4 * ucast (v4_ihl h)"
definition v4_flags :: "v4_Header \<Rightarrow> u8" where "v4_flags h = ucast (drop_bit 13 (v4_flags_fragment h))"
definition v4_dontFragment :: "v4_Header \<Rightarrow> bool" where "v4_dontFragment h = (v4_flags h AND 0x2 \<noteq> 0)"
definition v4_moreFragments :: "v4_Header \<Rightarrow> bool" where "v4_moreFragments h = (v4_flags h AND 0x1 \<noteq> 0)"
definition v4_fragment :: "v4_Header \<Rightarrow> u16" where "v4_fragment h = v4_flags_fragment h AND 0x1FFF"

text \<open>The struct right after \<open>memcpy\<close>.\<close>

definition v4_raw :: "u8 list \<Rightarrow> v4_Header" where
  "v4_raw b = \<lparr> v4_version_ihl = b ! 0, v4_tos = b ! 1, v4_total_length = raw16 b 2,
     v4_identification = raw16 b 4, v4_flags_fragment = raw16 b 6, v4_ttl = b ! 8,
     v4_protocol = b ! 9, v4_checksum = raw16 b 10, v4_src_ip = raw32 b 12, v4_dst_ip = raw32 b 16 \<rparr>"

definition v4_toHost :: "v4_Header \<Rightarrow> Endian \<Rightarrow> v4_Header" where
  "v4_toHost h endian = h \<lparr>
     v4_total_length := toHost16 (v4_total_length h) endian,
     v4_identification := toHost16 (v4_identification h) endian,
     v4_flags_fragment := toHost16 (v4_flags_fragment h) endian,
     v4_checksum := toHost16 (v4_checksum h) endian,
     v4_src_ip := toHost32 (v4_src_ip h) endian,
     v4_dst_ip := toHost32 (v4_dst_ip h) endian \<rparr>"

definition v4_parse :: "span \<Rightarrow> Endian \<Rightarrow> bool \<Rightarrow> (v4_Header \<times> span) res" where
  "v4_parse span endian verify_checksum =
     (if length span < v4_MIN_HEADER_LEN then Err UnexpectedEof
      else bind_res (memcpy span v4_MIN_HEADER_LEN) (\<lambda>b.
        let header = v4_raw b; hlen = unat (v4_header_length header) in
        if hlen < v4_MIN_HEADER_LEN \<or> hlen > v4_MAX_HEADER_LEN then Err MalformedHeader
        else if length span < hlen then Err UnexpectedEof
        else if ucast (v4_version header) \<noteq> v4_SUPPORTED_VERSION then Err InvalidFieldValue
        else bind_res (if verify_checksum then verifyChecksum span hlen 0 else Ok True) (\<lambda>valid.
        if \<not> valid then Err ChecksumMismatch
        else let header = v4_toHost header endian; total = unat (v4_total_length header) in
        if total < hlen then Err MalformedHeader
        else if total > length span then Err UnexpectedEof
        else bind_res (subspan_n span hlen (total - hlen)) (\<lambda>span. Ok (header, span)))))"

text \<open>The subtraction is on \<open>size_t\<close> and wraps.\<close>

definition v4_computePseudoHeaderSum :: "v4_Header \<Rightarrow> u64" where
  "v4_computePseudoHeaderSum h =
     ucast (drop_bit 16 (v4_src_ip h)) + ucast (v4_src_ip h AND 0xFFFF) +
     ucast (drop_bit 16 (v4_dst_ip h)) + ucast (v4_dst_ip h AND 0xFFFF) +
     ucast (v4_protocol h) + (ucast (v4_total_length h) - 4 * ucast (v4_ihl h))"

section \<open>Address text\<close>

definition v4_printIp :: "u32 \<Rightarrow> string" where
  "v4_printIp ip =
     dec_string (unat (drop_bit 24 ip AND 0xFF)) @ ''.'' @ dec_string (unat (drop_bit 16 ip AND 0xFF)) @ ''.'' @
     dec_string (unat (drop_bit 8 ip AND 0xFF)) @ ''.'' @ dec_string (unat (ip AND 0xFF))"

definition v4_printIp_bytes :: "u8 list \<Rightarrow> string" where
  "v4_printIp_bytes ip =
     dec_string (unat (ip ! 0)) @ ''.'' @ dec_string (unat (ip ! 1)) @ ''.'' @
     dec_string (unat (ip ! 2)) @ ''.'' @ dec_string (unat (ip ! 3))"

text \<open>
  The loop of \<open>addressFromString\<close>: \<open>out\<close> holds the octets stored so far (its length is
  \<open>octets\<close>), \<open>value\<close> and \<open>digits\<close> describe the group being read.
\<close>

fun v4_address_loop :: "string \<Rightarrow> u8 list \<Rightarrow> nat \<Rightarrow> nat \<Rightarrow> u8 list option" where
  "v4_address_loop [] out value digits =
     (if digits = 0 \<or> length out > 3 then None
      else let out = out @ [of_nat value] in if length out = 4 then Some out else None)"
| "v4_address_loop (c # cs) out value digits =
     (if is_digit c then
        let value = value * 10 + digit_val c in
        if value > 255 \<or> digits + 1 > 3 then None else v4_address_loop cs out value (digits + 1)
      else if c = CHR ''.'' then
        if digits = 0 \<or> length out > 3 then None
        else v4_address_loop cs (out @ [of_nat value]) 0 0
      else None)"

definition v4_addressFromString :: "string \<Rightarrow> u8 list option" where
  "v4_addressFromString text = v4_address_loop text [] 0 0"

section \<open>The parser keeps the contract\<close>

lemma unat_low_nibble: "unat (b AND 0x0F) = unat b mod 16" for b :: u8
  using unat_and_mask [of b 4] by (simp add: mask_eq_exp_minus_1)

lemma unat_v4_ihl: "unat (v4_ihl h) = unat (v4_version_ihl h) mod 16"
  by (simp add: v4_ihl_def unat_low_nibble)

lemma unat_v4_header_length: "unat (v4_header_length h) = 4 * unat (v4_ihl h)"
proof -
  have "unat (ucast (v4_ihl h) :: u16) = unat (v4_ihl h)"
    by (simp add: unsigned_ucast_eq take_bit_eq_mod unat_v4_ihl)
  then show ?thesis by (simp add: v4_header_length_def unat_word_ariths unat_v4_ihl)
qed

lemma v4_header_length_le: "unat (v4_header_length h) \<le> 60"
  by (simp add: unat_v4_header_length unat_v4_ihl)

lemma v4_toHost_simps [simp]:
  "v4_version_ihl (v4_toHost h e) = v4_version_ihl h" "v4_ihl (v4_toHost h e) = v4_ihl h"
  "v4_header_length (v4_toHost h e) = v4_header_length h" "v4_protocol (v4_toHost h e) = v4_protocol h"
  by (simp_all add: v4_toHost_def v4_ihl_def v4_header_length_def)

text \<open>
  What an accepted header satisfies: the declared lengths are consistent with each other
  and with the buffer, and the payload is exactly the bytes between them.
\<close>

lemma v4_parse_post:
  "holds (\<lambda>(h, rest). 20 \<le> unat (v4_header_length h) \<and>
       unat (v4_header_length h) \<le> unat (v4_total_length h) \<and>
       unat (v4_total_length h) \<le> length span \<and>
       rest = take (unat (v4_total_length h) - unat (v4_header_length h))
                (drop (unat (v4_header_length h)) span)) (v4_parse span endian verify)"
  unfolding v4_parse_def Let_def
  by (intro safe_intro) (auto simp: v4_MIN_HEADER_LEN_def not_less)

interpretation ipv4: header_parser "\<lambda>span. v4_parse span endian verify"
  by unfold_locales
     (rule holds_mono [OF v4_parse_post], auto simp: sublist_take_drop)

section \<open>Address text, specified\<close>

definition v4_octet :: "string \<Rightarrow> bool" where
  "v4_octet g = (g \<noteq> [] \<and> length g \<le> 3 \<and> list_all is_digit g \<and> dec_from 0 g \<le> 255)"

fun dotted :: "string list \<Rightarrow> string" where
  "dotted [] = []"
| "dotted [g] = g"
| "dotted (g # gs) = g @ ''.'' @ dotted gs"

lemma dotted_Cons_Cons [simp]: "dotted ((c # g) # gs) = c # dotted (g # gs)"
  by (cases gs) auto

lemma dotted_Nil_iff: "dotted (g # gs) = [] \<longleftrightarrow> g = [] \<and> gs = []"
  by (cases gs) auto

lemma dot_not_digit [simp]: "\<not> is_digit CHR ''.''"
  by (simp add: is_digit_def)

text \<open>\<open>group_ok\<close>: what is left of a group and of the address, seen from inside the loop.\<close>

definition v4_rest :: "string \<Rightarrow> u8 list \<Rightarrow> nat \<Rightarrow> nat \<Rightarrow> u8 list \<Rightarrow> string \<Rightarrow> string list \<Rightarrow> bool" where
  "v4_rest s out v d r g gs \<longleftrightarrow> s = dotted (g # gs) \<and> list_all is_digit g \<and> 0 < d + length g \<and>
     d + length g \<le> 3 \<and> dec_from v g \<le> 255 \<and> list_all v4_octet gs \<and>
     length out + Suc (length gs) = 4 \<and> r = out @ of_nat (dec_from v g) # map (\<lambda>g. of_nat (dec_from 0 g)) gs"

lemma v4_rest_digit:
  assumes "is_digit c"
  shows "(\<exists>g gs. v4_rest (c # cs) out v d r g gs) \<longleftrightarrow>
    (\<exists>g gs. v4_rest cs out (v * 10 + digit_val c) (Suc d) r g gs)"
proof
  assume "\<exists>g gs. v4_rest (c # cs) out v d r g gs"
  then obtain g gs where g: "v4_rest (c # cs) out v d r g gs" by blast
  then obtain g' where "g = c # g'"
    using assms by (cases g; cases gs) (auto simp: v4_rest_def)
  with g have "v4_rest cs out (v * 10 + digit_val c) (Suc d) r g' gs"
    by (auto simp: v4_rest_def)
  then show "\<exists>g gs. v4_rest cs out (v * 10 + digit_val c) (Suc d) r g gs" by blast
next
  assume "\<exists>g gs. v4_rest cs out (v * 10 + digit_val c) (Suc d) r g gs"
  then obtain g gs where "v4_rest cs out (v * 10 + digit_val c) (Suc d) r g gs" by blast
  with assms have "v4_rest (c # cs) out v d r (c # g) gs" by (auto simp: v4_rest_def)
  then show "\<exists>g gs. v4_rest (c # cs) out v d r g gs" by blast
qed

lemma v4_rest_dot:
  assumes "v \<le> 255" and "d \<le> 3"
  shows "(\<exists>g gs. v4_rest (CHR ''.'' # cs) out v d r g gs) \<longleftrightarrow>
    0 < d \<and> (\<exists>g gs. v4_rest cs (out @ [of_nat v]) 0 0 r g gs)"
proof
  assume "\<exists>g gs. v4_rest (CHR ''.'' # cs) out v d r g gs"
  then obtain g gs where g: "v4_rest (CHR ''.'' # cs) out v d r g gs" by blast
  then have "g = []" by (cases g) (auto simp: v4_rest_def)
  with g obtain g' gs' where "gs = g' # gs'" by (cases gs) (auto simp: v4_rest_def)
  with g \<open>g = []\<close> have "0 < d \<and> v4_rest cs (out @ [of_nat v]) 0 0 r g' gs'"
    by (auto simp: v4_rest_def v4_octet_def)
  then show "0 < d \<and> (\<exists>g gs. v4_rest cs (out @ [of_nat v]) 0 0 r g gs)" by blast
next
  assume "0 < d \<and> (\<exists>g gs. v4_rest cs (out @ [of_nat v]) 0 0 r g gs)"
  then obtain g gs where "0 < d" "v4_rest cs (out @ [of_nat v]) 0 0 r g gs" by blast
  then have "v4_rest (CHR ''.'' # cs) out v d r [] (g # gs)"
    using assms by (auto simp: v4_rest_def v4_octet_def)
  then show "\<exists>g gs. v4_rest (CHR ''.'' # cs) out v d r g gs" by blast
qed

lemma v4_address_loop_iff:
  assumes "v \<le> 255" and "d \<le> 3"
  shows "v4_address_loop s out v d = Some r \<longleftrightarrow> (\<exists>g gs. v4_rest s out v d r g gs)"
  using assms
proof (induction s out v d rule: v4_address_loop.induct)
  case (1 out v d)
  have "(\<exists>g gs. v4_rest [] out v d r g gs) \<longleftrightarrow> v4_rest [] out v d r [] []"
    using dotted_Nil_iff by (metis v4_rest_def)
  with 1 show ?case by (auto simp: v4_rest_def)
next
  case (2 c cs out v d)
  consider (digit) "is_digit c" | (dot) "c = CHR ''.''" | (other) "\<not> is_digit c" "c \<noteq> CHR ''.''" by blast
  then show ?case
  proof cases
    case digit
    let ?v = "v * 10 + digit_val c"
    have "\<not> (\<exists>g gs. v4_rest cs out ?v (Suc d) r g gs)" if "?v > 255 \<or> Suc d > 3"
    proof
      assume "\<exists>g gs. v4_rest cs out ?v (Suc d) r g gs"
      then obtain g gs where "v4_rest cs out ?v (Suc d) r g gs" by blast
      with that dec_from_ge [of ?v g] show False by (auto simp: v4_rest_def)
    qed
    then show ?thesis using digit "2.IH"(1) v4_rest_digit [OF digit, of cs out v d r]
      by (cases "?v > 255 \<or> Suc d > 3") (simp_all add: Let_def)
  next
    case dot
    have "length out \<le> 2" if "v4_rest cs (out @ [of_nat v]) 0 0 r g gs" for g gs
      using that by (simp add: v4_rest_def)
    then show ?thesis using dot "2.IH"(2) v4_rest_dot [OF "2.prems"]
      by (cases "d = 0 \<or> length out > 3") fastforce+
  next
    case other
    have "\<not> v4_rest (c # cs) out v d r g gs" for g gs
      using other by (cases g; cases gs) (auto simp: v4_rest_def)
    with other show ?thesis by simp
  qed
qed

lemma dec_string_octet:
  assumes "n < 256"
  shows "v4_octet (dec_string n)"
proof -
  have "length (dec_string n) \<le> 3"
    using assms by (simp add: dec_string.simps [of n] dec_string.simps [of "n div 10"]
      dec_string.simps [of "n div 10 div 10"] dec_string.simps [of "n div 100"])
  then show ?thesis
    using dec_string_decimal [of n] assms by (simp add: v4_octet_def is_decimal_def dec_string_value)
qed

lemma v4_printIp_unat:
  "v4_printIp ip = dotted [dec_string (unat ip div 16777216), dec_string (unat ip div 65536 mod 256),
     dec_string (unat ip div 256 mod 256), dec_string (unat ip mod 256)]"
proof -
  have "unat (w AND 0xFF) = unat w mod 256" for w :: u32
    using unat_and_mask [of w 8] by (simp add: mask_eq_exp_minus_1)
  moreover have "unat ip div 16777216 < 256" using unat_u32_less [of ip] by simp
  ultimately show ?thesis by (simp add: v4_printIp_def unat_drop_bit)
qed

lemma ex_nonempty: "(\<exists>x xs. length xs = 3 \<and> P (x # xs)) \<longleftrightarrow> (\<exists>ys. length ys = 4 \<and> P ys)"
proof
  assume "\<exists>ys. length ys = 4 \<and> P ys"
  then obtain ys where "length ys = 4" "P ys" by blast
  then show "\<exists>x xs. length xs = 3 \<and> P (x # xs)" by (cases ys) auto
next
  assume "\<exists>x xs. length xs = 3 \<and> P (x # xs)"
  then obtain x xs where "length (x # xs) = 4 \<and> P (x # xs)" by auto
  then show "\<exists>ys. length ys = 4 \<and> P ys" by blast
qed

lemma v4_address_iff:
  "v4_addressFromString text = Some out \<longleftrightarrow>
     (\<exists>gs. length gs = 4 \<and> list_all v4_octet gs \<and> text = dotted gs \<and> out = map (\<lambda>g. of_nat (dec_from 0 g)) gs)"
proof -
  let ?P = "\<lambda>gs. list_all v4_octet gs \<and> text = dotted gs \<and> out = map (\<lambda>g. of_nat (dec_from 0 g)) gs"
  have "v4_rest text [] 0 0 out g gs \<longleftrightarrow> length gs = 3 \<and> ?P (g # gs)" for g gs
    by (auto simp: v4_rest_def v4_octet_def)
  then have "(\<exists>g gs. v4_rest text [] 0 0 out g gs) \<longleftrightarrow> (\<exists>gs. length gs = 4 \<and> ?P gs)"
    by (simp only: ex_nonempty [of ?P])
  then show ?thesis
    unfolding v4_addressFromString_def by (subst v4_address_loop_iff) simp_all
qed

section \<open>Wire format\<close>

definition v4_bytes :: "v4_Header \<Rightarrow> u8 list" where
  "v4_bytes h = [v4_version_ihl h, v4_tos h] @ bytes16 (v4_total_length h) @ bytes16 (v4_identification h) @
     bytes16 (v4_flags_fragment h) @ [v4_ttl h, v4_protocol h] @ bytes16 (v4_checksum h) @
     bytes32 (v4_src_ip h) @ bytes32 (v4_dst_ip h)"

lemma length_v4_bytes [simp]: "length (v4_bytes h) = 20"
  by (simp add: v4_bytes_def)

lemma be16_at: "length xs = i \<Longrightarrow> be16 (xs @ bytes16 w @ ys) i = w"
  using be16_skip [of xs i "bytes16 w @ ys" 0] by simp

lemma be32_at: "length xs = i \<Longrightarrow> be32 (xs @ bytes32 w @ ys) i = w"
  using be32_skip [of xs i "bytes32 w @ ys" 0] by simp

lemma v4_toHost_raw_bytes: "v4_toHost (v4_raw (v4_bytes h)) Big = h"
proof -
  let ?b = "v4_bytes h"
  have "be16 ?b 2 = v4_total_length h" "be16 ?b 4 = v4_identification h" "be16 ?b 6 = v4_flags_fragment h"
    "be16 ?b 10 = v4_checksum h" "be32 ?b 12 = v4_src_ip h" "be32 ?b 16 = v4_dst_ip h"
    unfolding v4_bytes_def
    using be16_at [of "[v4_version_ihl h, v4_tos h]" 2]
      be16_at [of "[v4_version_ihl h, v4_tos h] @ bytes16 (v4_total_length h)" 4]
      be16_at [of "[v4_version_ihl h, v4_tos h] @ bytes16 (v4_total_length h) @ bytes16 (v4_identification h)" 6]
      be16_at [of "[v4_version_ihl h, v4_tos h] @ bytes16 (v4_total_length h) @ bytes16 (v4_identification h) @
        bytes16 (v4_flags_fragment h) @ [v4_ttl h, v4_protocol h]" 10]
      be32_at [of "[v4_version_ihl h, v4_tos h] @ bytes16 (v4_total_length h) @ bytes16 (v4_identification h) @
        bytes16 (v4_flags_fragment h) @ [v4_ttl h, v4_protocol h] @ bytes16 (v4_checksum h)" 12]
      be32_at [of "[v4_version_ihl h, v4_tos h] @ bytes16 (v4_total_length h) @ bytes16 (v4_identification h) @
        bytes16 (v4_flags_fragment h) @ [v4_ttl h, v4_protocol h] @ bytes16 (v4_checksum h) @ bytes32 (v4_src_ip h)" 16 _ "[]"]
    by simp_all
  moreover have "?b ! 0 = v4_version_ihl h" "?b ! 1 = v4_tos h" "?b ! 8 = v4_ttl h" "?b ! 9 = v4_protocol h"
    by (simp_all add: v4_bytes_def bytes16_def nth_append)
  ultimately show ?thesis
    by (simp add: v4_toHost_def v4_raw_def wire_simps)
qed

lemma v4_raw_append: "v4_raw (take 20 (v4_bytes h @ xs)) = v4_raw (v4_bytes h)"
  by simp

lemma v4_raw_bytes_simps [simp]:
  "v4_version (v4_raw (v4_bytes h)) = v4_version h"
  "v4_header_length (v4_raw (v4_bytes h)) = v4_header_length h"
  by (simp_all add: v4_version_def v4_header_length_def v4_ihl_def v4_raw_def v4_bytes_def)

lemma v4_parse_bytes:
  assumes "v4_version h = 4" and "unat (v4_header_length h) = 20 + length options"
    and "unat (v4_total_length h) = 20 + length options + length payload"
    and "checksum_ok (v4_bytes h @ options) 0"
  shows "v4_parse (v4_bytes h @ options @ payload @ padding) Big True = Ok (h, payload)"
proof -
  let ?s = "v4_bytes h @ options @ payload @ padding"
  have len: "length options \<le> 40" using v4_header_length_le [of h] assms(2) by simp
  then have "verifyChecksum ?s (20 + length options) 0 = Ok True"
    using assms(4) verifyChecksum_full [of "v4_bytes h @ options" 0]
    by (subst verifyChecksum_take) simp_all
  then show ?thesis
    using assms len
    by (simp add: v4_parse_def v4_MIN_HEADER_LEN_def v4_MAX_HEADER_LEN_def v4_SUPPORTED_VERSION_def
        v4_toHost_raw_bytes Let_def)
qed

section \<open>Properties\<close>

text \<open>
  A well-formed IPv4 packet is accepted and split correctly: for a version-4 header
  whose checksum verifies, with options filling the header length and a total length that
  covers the payload, the parser returns that header and exactly the payload, and drops
  whatever the link layer padded behind the packet.
\<close>

theorem v4_parse_serialised:
  assumes "v4_version h = 4" and "unat (v4_header_length h) = 20 + length options"
    and "unat (v4_total_length h) = 20 + length options + length payload"
    and "checksum_ok (v4_bytes h @ options) 0"
  shows "v4_parse (v4_bytes h @ options @ payload @ padding) Big True = Ok (h, payload)"
  using assms by (rule v4_parse_bytes)

text \<open>
  \<open>addressFromString\<close> accepts exactly the dotted quads: four groups of one to three
  digits, each at most 255, separated by single dots; it stores their values in order.
\<close>

theorem v4_addressFromString_exact:
  "v4_addressFromString text = Some out \<longleftrightarrow>
     (\<exists>gs. length gs = 4 \<and> list_all v4_octet gs \<and> text = dotted gs \<and> out = map (\<lambda>g. of_nat (dec_from 0 g)) gs)"
  by (rule v4_address_iff)

text \<open>A printed IPv4 address reads back as its four bytes in network order.\<close>

theorem v4_address_roundtrip: "v4_addressFromString (v4_printIp ip) = Some (bytes32 ip)"
proof -
  let ?gs = "[dec_string (unat ip div 16777216), dec_string (unat ip div 65536 mod 256),
     dec_string (unat ip div 256 mod 256), dec_string (unat ip mod 256)]"
  have "unat ip div 16777216 < 256" using unat_u32_less [of ip] by simp
  then have "list_all v4_octet ?gs" by (simp add: dec_string_octet)
  moreover have "bytes32 ip = map (\<lambda>g. of_nat (dec_from 0 g)) ?gs"
    by (simp add: bytes32_def dec_string_value)
  ultimately show ?thesis
    unfolding v4_address_iff v4_printIp_unat by (intro exI [of _ ?gs]) simp
qed

end
