(* ===== verification/Ipv6.thy ===== *)
theory Ipv6
  imports Ipv4
begin

text \<open>
  IPv6 headers and addresses (\<^verbatim>\<open>src/net/protocols/ipv6.cpp\<close>) and extension headers
  (\<^verbatim>\<open>src/net/protocols/ipv6_ext.cpp\<close>).
\<close>

section \<open>The fixed header\<close>

definition v6_HEADER_LEN :: nat where "v6_HEADER_LEN = 40"
definition v6_SUPPORTED_VERSION :: u16 where "v6_SUPPORTED_VERSION = 6"

record v6_Header =
  v6_version_tc_fl :: u32
  v6_payload_length :: u16
  v6_next_header :: u8
  v6_hop_limit :: u8
  v6_src_ip :: "u8 list"
  v6_dst_ip :: "u8 list"

definition v6_version :: "v6_Header \<Rightarrow> u8" where "v6_version h = ucast (drop_bit 28 (v6_version_tc_fl h))"
definition v6_tc :: "v6_Header \<Rightarrow> u8" where "v6_tc h = ucast (drop_bit 20 (v6_version_tc_fl h) AND 0xFF)"
definition v6_fl :: "v6_Header \<Rightarrow> u32" where "v6_fl h = v6_version_tc_fl h AND 0x000FFFFF"

definition v6_parse :: "span \<Rightarrow> Endian \<Rightarrow> (v6_Header \<times> span) res" where
  "v6_parse span endian =
     (if length span < v6_HEADER_LEN then Err UnexpectedEof
      else bind_res (memcpy span v6_HEADER_LEN) (\<lambda>b.
        let header = \<lparr> v6_version_tc_fl = raw32 b 0, v6_payload_length = raw16 b 4, v6_next_header = b ! 6,
              v6_hop_limit = b ! 7, v6_src_ip = take 16 (drop 8 b), v6_dst_ip = take 16 (drop 24 b) \<rparr>;
            header = header \<lparr> v6_version_tc_fl := toHost32 (v6_version_tc_fl header) endian \<rparr>;
            header = header \<lparr> v6_payload_length := toHost16 (v6_payload_length header) endian \<rparr> in
        if ucast (v6_version header) \<noteq> v6_SUPPORTED_VERSION then Err InvalidFieldValue
        else bind_res (subspan span v6_HEADER_LEN) (\<lambda>span.
        if unat (v6_payload_length header) > length span then Err UnexpectedEof
        else bind_res (first_n span (unat (v6_payload_length header))) (\<lambda>span. Ok (header, span)))))"

text \<open>\<open>for (i = 0; i < 16; i += 2) sum += (ip[i] << 8) | ip[i + 1];\<close>\<close>

fun v6_sum_pairs :: "u64 \<Rightarrow> u8 list \<Rightarrow> u64" where
  "v6_sum_pairs s (x # y # bs) = v6_sum_pairs (s + ucast ((push_bit 8 (ucast x :: u32)) OR ucast y)) bs"
| "v6_sum_pairs s _ = s"

definition v6_computePseudoHeaderSum :: "v6_Header \<Rightarrow> u64" where
  "v6_computePseudoHeaderSum h =
     (let s = v6_sum_pairs 0 (v6_src_ip h); s = v6_sum_pairs s (v6_dst_ip h);
          s = s + ucast (v6_payload_length h) in
      s + ucast (v6_next_header h))"

section \<open>Printing an address\<close>

text \<open>The inner \<open>while\<close>: the last index of the run of zero groups that starts at \<open>i\<close>.\<close>

function v6_zero_run :: "u8 list \<Rightarrow> nat \<Rightarrow> nat" where
  "v6_zero_run ip i = (if i + 2 < 16 \<and> ip ! (i + 2) = 0 \<and> ip ! (i + 3) = 0 then v6_zero_run ip (i + 2) else i)"
  by pat_completeness auto
termination
  by (relation "measure (\<lambda>(ip, i). 16 - i)") auto

lemma v6_zero_run_ge: "i \<le> v6_zero_run ip i"
proof (induction ip i rule: v6_zero_run.induct)
  case (1 ip i)
  then show ?case by (subst v6_zero_run.simps) auto
qed

lemma v6_zero_run_measure: "i < 16 \<Longrightarrow> 14 - v6_zero_run ip i < 16 - i"
  using v6_zero_run_ge [of i ip] by linarith

declare v6_zero_run.simps [simp del]

function v6_best_run :: "u8 list \<Rightarrow> nat \<Rightarrow> nat option \<Rightarrow> nat \<Rightarrow> nat option \<times> nat" where
  "v6_best_run ip i bestStart bestLen =
     (if i < 16 then
        if ip ! i \<noteq> 0 \<or> ip ! (i + 1) \<noteq> 0 then v6_best_run ip (i + 2) bestStart bestLen
        else let start = i; i = v6_zero_run ip i; len = i - start in
          if len > bestLen then v6_best_run ip (i + 2) (Some start) len
          else v6_best_run ip (i + 2) bestStart bestLen
      else (bestStart, bestLen))"
  by pat_completeness auto
termination
  using v6_zero_run_measure by (relation "measure (\<lambda>(ip, i, _). 16 - i)") auto

declare v6_best_run.simps [simp del]

text \<open>The second loop writes the groups, with one colon (two at the end) for the run.\<close>

function v6_print_loop :: "u8 list \<Rightarrow> nat option \<Rightarrow> nat \<Rightarrow> nat \<Rightarrow> string" where
  "v6_print_loop ip bestStart bestLen i =
     (if i < 16 then
        if bestStart = Some i then
          '':'' @ (if i + bestLen + 2 = 16 then '':'' else []) @ v6_print_loop ip bestStart bestLen (i + bestLen + 2)
        else (if i \<noteq> 0 then '':'' else []) @ pad0 2 (hex_string (unat (ip ! i))) @
          pad0 2 (hex_string (unat (ip ! (i + 1)))) @ v6_print_loop ip bestStart bestLen (i + 2)
      else [])"
  by pat_completeness auto
termination
  by (relation "measure (\<lambda>(ip, s, l, i). 16 - i)") auto

declare v6_print_loop.simps [simp del]

definition v6_printIp :: "u8 list \<Rightarrow> string" where
  "v6_printIp ip =
     (case v6_best_run ip 0 None 0 of (bestStart, bestLen) \<Rightarrow>
        v6_print_loop ip (if bestLen < 2 then None else bestStart) bestLen 0)"

section \<open>Reading an address\<close>

definition hexVal :: "char \<Rightarrow> nat option" where
  "hexVal c =
     (let n = of_char c :: nat in
      if 48 \<le> n \<and> n \<le> 57 then Some (n - 48)
      else if 97 \<le> n \<and> n \<le> 102 then Some (n - 97 + 10)
      else if 65 \<le> n \<and> n \<le> 70 then Some (n - 65 + 10)
      else None)"

text \<open>The inner \<open>for\<close>: value, number of digits and the rest of the text.\<close>

fun v6_read_group :: "string \<Rightarrow> u32 \<Rightarrow> nat \<Rightarrow> (u32 \<times> nat \<times> string) option" where
  "v6_read_group [] value digits = Some (value, digits, [])"
| "v6_read_group (c # cs) value digits =
     (case hexVal c of
        None \<Rightarrow> Some (value, digits, c # cs)
      | Some d \<Rightarrow> if digits + 1 > 4 then None else v6_read_group cs (value * 16 + of_nat d) (digits + 1))"

lemma v6_read_group_length:
  "v6_read_group cs v d = Some (v', d', rest) \<Longrightarrow> d \<le> d' \<and> length rest + d' = length cs + d"
  by (induction cs v d rule: v6_read_group.induct) (auto split: option.splits if_splits)

text \<open>The \<open>while\<close> loop; \<open>groups\<close> holds the groups stored so far, its length is \<open>count\<close>.\<close>

function v6_groups_loop :: "string \<Rightarrow> u16 list \<Rightarrow> nat option \<Rightarrow> (u16 list \<times> nat option) option" where
  "v6_groups_loop text groups gap =
     (if text = [] then Some (groups, gap)
      else case v6_read_group text 0 0 of
        None \<Rightarrow> None
      | Some (value, digits, rest) \<Rightarrow>
          if digits = 0 \<or> length groups \<ge> 8 then None
          else let groups = groups @ [ucast value] in
            (case rest of
               [] \<Rightarrow> Some (groups, gap)
             | c # rest' \<Rightarrow>
                 if c \<noteq> CHR '':'' then None
                 else (case rest' of
                     [] \<Rightarrow> None
                   | d # rest'' \<Rightarrow>
                       if d = CHR '':'' then
                         if gap \<noteq> None then None
                         else if rest'' = [] then Some (groups, Some (length groups))
                         else v6_groups_loop rest'' groups (Some (length groups))
                       else v6_groups_loop rest' groups gap)))"
  by pat_completeness auto
termination
  by (relation "measure (\<lambda>(text, _). length text)") (auto dest!: v6_read_group_length)

declare v6_groups_loop.simps [simp del]

text \<open>\<open>assign\<close>: the two bytes a group occupies in \<open>out\<close>.\<close>

definition v6_assign :: "u16 list \<Rightarrow> u8 list" where
  "v6_assign gs = concat (map (\<lambda>n. [ucast (drop_bit 8 n), ucast (n AND 0xFF)]) gs)"

definition v6_assemble :: "u16 list \<Rightarrow> nat option \<Rightarrow> u8 list option" where
  "v6_assemble groups gap =
     (let count = length groups in
      case gap of
        None \<Rightarrow> if count \<noteq> 8 then None else Some (v6_assign groups)
      | Some g \<Rightarrow>
          if count \<ge> 8 then None
          else let slots = take g groups @ replicate (8 - count) 0 @ drop g groups in
            if length slots = 8 then Some (v6_assign slots) else None)"

definition v6_addressFromString :: "string \<Rightarrow> u8 list option" where
  "v6_addressFromString text =
     (if length text \<ge> 2 \<and> text ! 0 = CHR '':'' \<and> text ! 1 = CHR '':'' then
        if length text = 2 then Some (replicate 16 0)
        else Option.bind (v6_groups_loop (drop 2 text) [] (Some 0)) (\<lambda>(groups, gap). v6_assemble groups gap)
      else if text \<noteq> [] \<and> text ! 0 = CHR '':'' then None
      else Option.bind (v6_groups_loop text [] None) (\<lambda>(groups, gap). v6_assemble groups gap))"

section \<open>Extension headers\<close>

definition ext_MIN_HEADER_LEN :: nat where "ext_MIN_HEADER_LEN = 8"
definition ext_AH_MIN_LEN :: nat where "ext_AH_MIN_LEN = 12"
definition ext_MAX_HEADERS :: nat where "ext_MAX_HEADERS = 8"
definition ROUTING_TYPE_0 :: u8 where "ROUTING_TYPE_0 = 0"
definition ROUTING_TYPE_2 :: u8 where "ROUTING_TYPE_2 = 2"
definition ROUTING_TYPE_SRH :: u8 where "ROUTING_TYPE_SRH = 4"
definition ROUTING_ADDRESS_OFFSET :: nat where "ROUTING_ADDRESS_OFFSET = 8"

definition ext_isExtension :: "u8 \<Rightarrow> bool" where
  "ext_isExtension next_header =
     (next_header \<in> {PROTOCOL_HOPOPT, PROTOCOL_IPV6_ROUTE, PROTOCOL_IPV6_FRAG, PROTOCOL_AH,
        PROTOCOL_IPV6_OPTS, PROTOCOL_MOBILITY, PROTOCOL_HIP, PROTOCOL_SHIM6})"

record ext_Header =
  ext_type :: u8
  ext_next_header :: u8
  ext_length :: u16
  ext_routing_type :: u8
  ext_segments_left :: u8
  ext_has_final_dst :: bool
  ext_final_dst :: "u8 list"
  ext_fragment_offset :: u16
  ext_more_fragments :: bool
  ext_identification :: u32
  ext_spi :: u32

definition ext_isFragment :: "ext_Header \<Rightarrow> bool" where
  "ext_isFragment h = (ext_type h = PROTOCOL_IPV6_FRAG \<and> (ext_fragment_offset h \<noteq> 0 \<or> ext_more_fragments h))"

definition ext_isAtomicFragment :: "ext_Header \<Rightarrow> bool" where
  "ext_isAtomicFragment h = (ext_type h = PROTOCOL_IPV6_FRAG \<and> ext_fragment_offset h = 0 \<and> \<not> ext_more_fragments h)"

text \<open>\<open>Header{}\<close>\<close>

definition ext_zero :: ext_Header where
  "ext_zero = \<lparr> ext_type = 0, ext_next_header = 0, ext_length = 0, ext_routing_type = 0,
     ext_segments_left = 0, ext_has_final_dst = False, ext_final_dst = replicate 16 0,
     ext_fragment_offset = 0, ext_more_fragments = False, ext_identification = 0, ext_spi = 0 \<rparr>"

definition ext_wire_length :: "u8 \<Rightarrow> u8 \<Rightarrow> nat" where
  "ext_wire_length type hdr_ext_len =
     (if type = PROTOCOL_IPV6_FRAG then ext_MIN_HEADER_LEN
      else if type = PROTOCOL_AH then (unat hdr_ext_len + 2) * 4
      else (unat hdr_ext_len + 1) * ext_MIN_HEADER_LEN)"

text \<open>The case \<open>PROTOCOL_IPV6_ROUTE\<close> of the second switch.\<close>

definition ext_parse_routing :: "span \<Rightarrow> u8 list \<Rightarrow> ext_Header \<Rightarrow> ext_Header res" where
  "ext_parse_routing span wire header =
     (let header = header \<lparr> ext_routing_type := wire ! 2, ext_segments_left := wire ! 3 \<rparr>;
          addressed = (ext_routing_type header = ROUTING_TYPE_0 \<or> ext_routing_type header = ROUTING_TYPE_2 \<or>
            ext_routing_type header = ROUTING_TYPE_SRH) in
      if \<not> addressed \<or> ext_segments_left header = 0 then Ok header
      else if unat (wire ! 1) < 2 \<or> unat (wire ! 1) mod 2 \<noteq> 0 then Err MalformedHeader
      else let addresses = unat (wire ! 1) div 2;
          offset = ROUTING_ADDRESS_OFFSET +
            (if ext_routing_type header \<noteq> ROUTING_TYPE_SRH then 16 * (addresses - 1) else 0) in
        bind_res (subspan_n span offset 16) (\<lambda>dst.
          Ok (header \<lparr> ext_final_dst := dst, ext_has_final_dst := True \<rparr>)))"

definition ext_parse_fields :: "span \<Rightarrow> u8 list \<Rightarrow> u8 \<Rightarrow> Endian \<Rightarrow> ext_Header \<Rightarrow> ext_Header res" where
  "ext_parse_fields span wire type endian header =
     (if type = PROTOCOL_IPV6_ROUTE then ext_parse_routing span wire header
      else if type = PROTOCOL_IPV6_FRAG then
        let offset_flags = toHost16 (raw16 wire 2) endian in
        Ok (header \<lparr> ext_fragment_offset := drop_bit 3 offset_flags,
              ext_more_fragments := (offset_flags AND 0x1 \<noteq> 0),
              ext_identification := toHost32 (raw32 wire 4) endian \<rparr>)
      else if type = PROTOCOL_AH then Ok (header \<lparr> ext_spi := toHost32 (raw32 wire 4) endian \<rparr>)
      else Ok header)"

definition ext_parse :: "span \<Rightarrow> u8 \<Rightarrow> Endian \<Rightarrow> (ext_Header \<times> span) res" where
  "ext_parse span type endian =
     (if length span < ext_MIN_HEADER_LEN then Err UnexpectedEof
      else bind_res (memcpy span ext_MIN_HEADER_LEN) (\<lambda>wire.
        let len = ext_wire_length type (wire ! 1) in
        if type = PROTOCOL_AH \<and> len < ext_AH_MIN_LEN then Err MalformedHeader
        else if length span < len then Err UnexpectedEof
        else bind_res (ext_parse_fields span wire type endian
            (ext_zero \<lparr> ext_type := type, ext_next_header := wire ! 0, ext_length := of_nat len \<rparr>)) (\<lambda>header.
        bind_res (subspan span len) (\<lambda>span. Ok (header, span)))))"

definition ext_pseudoHeader :: "v6_Header \<Rightarrow> ext_Header list \<Rightarrow> nat \<Rightarrow> v6_Header" where
  "ext_pseudoHeader ip_header exts upper_len =
     (let out = ip_header \<lparr> v6_payload_length := of_nat upper_len \<rparr>;
          out = (if exts \<noteq> [] then out \<lparr> v6_next_header := ext_next_header (last exts) \<rparr> else out) in
      fold (\<lambda>ext out. if ext_has_final_dst ext then out \<lparr> v6_dst_ip := ext_final_dst ext \<rparr> else out) exts out)"

section \<open>The parsers keep the contract\<close>

lemma v6_parse_post:
  "holds (\<lambda>(h, rest). unat (v6_payload_length h) \<le> length span - 40 \<and> 40 \<le> length span \<and>
       rest = take (unat (v6_payload_length h)) (drop 40 span) \<and>
       length (v6_src_ip h) = 16 \<and> length (v6_dst_ip h) = 16) (v6_parse span endian)"
  unfolding v6_parse_def Let_def v6_HEADER_LEN_def
  by (intro safe_intro) (simp_all add: not_less)

interpretation ipv6: header_parser "\<lambda>span. v6_parse span endian"
  by unfold_locales (rule holds_mono [OF v6_parse_post], auto simp: sublist_take_drop)

text \<open>
  The address copied out of a routing header lies inside the header, whose length the
  caller has checked against the buffer.
\<close>

lemma routing_offset: "2 \<le> n \<Longrightarrow> (n + 1) * 8 \<le> l \<Longrightarrow> 8 + 16 * (n div 2 - 1) + 16 \<le> l" for n l :: nat
proof -
  assume n: "2 \<le> n" "(n + 1) * 8 \<le> l"
  then obtain k where k: "n div 2 = Suc k" by (cases "n div 2") auto
  have "2 * (n div 2) \<le> n" by simp
  then show ?thesis unfolding k using n by simp
qed

lemma routing_short: "2 \<le> n \<Longrightarrow> (n + 1) * 8 \<le> l \<Longrightarrow> 8 + 16 \<le> l" for n l :: nat
  by simp

lemma holds_ext_parse_routing:
  assumes "(unat (wire ! 1) + 1) * 8 \<le> length span"
  shows "holds (\<lambda>h. ext_type h = ext_type h0 \<and> ext_next_header h = ext_next_header h0 \<and>
    (length (ext_final_dst h0) = 16 \<longrightarrow> length (ext_final_dst h) = 16) \<and>
    ext_length h = ext_length h0) (ext_parse_routing span wire h0)"
proof -
  have len: "8 + 16 * (unat (wire ! 1) div 2 - 1) + 16 \<le> length span"
    if "2 \<le> unat (wire ! 1)"
    using routing_offset that assms .
  have short: "8 + 16 \<le> length span" if "2 \<le> unat (wire ! 1)"
    using routing_short that assms .
  show ?thesis
    unfolding ext_parse_routing_def Let_def ROUTING_ADDRESS_OFFSET_def
    by (intro safe_intro) (use len short in \<open>auto simp: not_less split: if_splits\<close>)
qed

lemma ext_wire_length_route: "ext_wire_length PROTOCOL_IPV6_ROUTE n = (unat n + 1) * 8"
  by (simp add: ext_wire_length_def protocol_defs ext_MIN_HEADER_LEN_def)

lemma ext_wire_length_bounds: "8 \<le> ext_wire_length type n \<and> ext_wire_length type n \<le> 2048"
  using unat_u8_less [of n] by (auto simp: ext_wire_length_def ext_MIN_HEADER_LEN_def)

lemma holds_ext_parse_fields:
  assumes "ext_wire_length type (wire ! 1) \<le> length span"
  shows "holds (\<lambda>h. ext_type h = ext_type h0 \<and> ext_next_header h = ext_next_header h0 \<and>
    (length (ext_final_dst h0) = 16 \<longrightarrow> length (ext_final_dst h) = 16) \<and>
    ext_length h = ext_length h0) (ext_parse_fields span wire type endian h0)"
  unfolding ext_parse_fields_def Let_def
  by (intro safe_intro holds_ext_parse_routing)
     (use assms in \<open>simp_all add: ext_wire_length_route\<close>)

text \<open>
  An extension header occupies 8 to 2048 bytes, which its stored length reports, and the
  parser leaves the bytes behind it.
\<close>

lemma ext_parse_post:
  "holds (\<lambda>(h, rest). ext_type h = type \<and> 8 \<le> unat (ext_length h) \<and> unat (ext_length h) \<le> length span \<and>
       length (ext_final_dst h) = 16 \<and> rest = drop (unat (ext_length h)) span) (ext_parse span type endian)"
  unfolding ext_parse_def Let_def ext_MIN_HEADER_LEN_def
proof (intro safe_intro)
  let ?w = "take 8 span" and ?len = "ext_wire_length type (take 8 span ! 1)"
  assume "\<not> length span < ?len"
  then have len: "?len \<le> length span" "8 \<le> ?len" "unat (of_nat ?len :: u16) = ?len"
    using ext_wire_length_bounds [of type "?w ! 1"] by (auto simp: unat_of_nat_u16)
  let ?h0 = "ext_zero \<lparr>ext_type := type, ext_next_header := ?w ! 0, ext_length := of_nat ?len\<rparr>"
  show "holds (\<lambda>h. holds (\<lambda>(h, rest). ext_type h = type \<and> 8 \<le> unat (ext_length h) \<and>
      unat (ext_length h) \<le> length span \<and> length (ext_final_dst h) = 16 \<and>
      rest = drop (unat (ext_length h)) span)
      (bind_res (subspan span ?len) (\<lambda>span. Ok (h, span)))) (ext_parse_fields span ?w type endian ?h0)"
    by (rule holds_mono [OF holds_ext_parse_fields]) (use len in \<open>auto simp: ext_zero_def\<close>)
qed simp

interpretation ipv6_ext: header_parser "\<lambda>span. ext_parse span type endian"
  by unfold_locales (rule holds_mono [OF ext_parse_post], auto)

lemma ext_pseudoHeader_fold:
  "v6_src_ip (fold (\<lambda>ext out. if ext_has_final_dst ext then out \<lparr> v6_dst_ip := ext_final_dst ext \<rparr> else out) exts h) = v6_src_ip h"
  "v6_payload_length (fold (\<lambda>ext out. if ext_has_final_dst ext then out \<lparr> v6_dst_ip := ext_final_dst ext \<rparr> else out) exts h) = v6_payload_length h"
  "v6_next_header (fold (\<lambda>ext out. if ext_has_final_dst ext then out \<lparr> v6_dst_ip := ext_final_dst ext \<rparr> else out) exts h) = v6_next_header h"
  by (induction exts arbitrary: h) auto

lemma ext_pseudoHeader_simps [simp]:
  "v6_src_ip (ext_pseudoHeader h exts n) = v6_src_ip h"
  "v6_payload_length (ext_pseudoHeader h exts n) = of_nat n"
  "v6_next_header (ext_pseudoHeader h exts n) = (if exts = [] then v6_next_header h else ext_next_header (last exts))"
  by (simp_all add: ext_pseudoHeader_def ext_pseudoHeader_fold Let_def)

section \<open>Pseudo-header sums\<close>

lemma unat_ucast_u8 [simp]: "unat (ucast b :: u64) = unat b" for b :: u8
  using unat_u8_less [of b] by (simp only: unsigned_ucast_eq) (simp add: take_bit_eq_mod)

lemma unat_ucast_u16 [simp]: "unat (ucast b :: u64) = unat b" for b :: u16
  using unat_u16_less [of b] by (simp only: unsigned_ucast_eq) (simp add: take_bit_eq_mod)

lemma unat_ucast_u32 [simp]: "unat (ucast b :: u64) = unat b" for b :: u32
  using unat_u32_less [of b] by (simp only: unsigned_ucast_eq) (simp add: take_bit_eq_mod)

lemma v6_sum_pairs_eq_tail: "even (length bs) \<Longrightarrow> v6_sum_pairs s bs = sum_tail s bs"
  by (induction s bs rule: v6_sum_pairs.induct) auto

lemma be_sum_bound: "be_sum bs \<le> length bs * 65280"
proof (induction bs rule: be_sum.induct)
  case (1 x y bs)
  then show ?case using unat_u8_less [of x] unat_u8_less [of y] by simp
next
  case (2 x)
  then show ?case using unat_u8_less [of x] by simp
qed simp

lemma be_sum_append: "even (length xs) \<Longrightarrow> be_sum (xs @ ys) = be_sum xs + be_sum ys"
  by (induction xs rule: be_sum.induct) auto

lemma be_sum_bytes16: "be_sum (bytes16 w) = unat w"
  using unat_u16_less [of w] by (simp add: bytes16_def unat_of_nat_u8)

lemma be_sum_bytes32: "be_sum (bytes32 w) = unat w div 65536 + unat w mod 65536"
proof -
  have "unat w div 16777216 < 256" using unat_u32_less [of w] by simp
  moreover have "unat w div 16777216 * 256 + unat w div 65536 mod 256 = unat w div 65536"
    using div_mult_mod_eq [of "unat w div 65536" 256] by (simp flip: div_mult2_eq)
  moreover have "unat w div 256 mod 256 * 256 + unat w mod 256 = unat w mod 65536"
    using mod_mult2_eq [of "unat w" 256 256] by simp
  ultimately show ?thesis by (simp add: bytes32_def unat_of_nat_u8)
qed

text \<open>The pseudo header of RFC 8200, section 8.1.\<close>

definition v6_pseudo_bytes :: "v6_Header \<Rightarrow> u8 list" where
  "v6_pseudo_bytes h = v6_src_ip h @ v6_dst_ip h @ [0, 0] @ bytes16 (v6_payload_length h) @ [0, 0, 0, v6_next_header h]"

lemma v6_pseudo_sum:
  assumes "length (v6_src_ip h) = 16" and "length (v6_dst_ip h) = 16"
  shows "unat (v6_computePseudoHeaderSum h) = be_sum (v6_pseudo_bytes h)"
    and "be_sum (v6_pseudo_bytes h) < 281474976710656"
proof -
  note b = be_sum_bound [of "v6_src_ip h"] be_sum_bound [of "v6_dst_ip h"]
    unat_u8_less [of "v6_next_header h"] unat_u16_less [of "v6_payload_length h"]
  have t: "unat (sum_tail 0 (v6_src_ip h)) = be_sum (v6_src_ip h)"
    using assms by (subst unat_sum_tail) simp_all
  have "unat (sum_tail (sum_tail 0 (v6_src_ip h)) (v6_dst_ip h)) = be_sum (v6_src_ip h) + be_sum (v6_dst_ip h)"
    using assms b t by (subst unat_sum_tail) simp_all
  then show "unat (v6_computePseudoHeaderSum h) = be_sum (v6_pseudo_bytes h)"
    using assms b
    by (simp add: v6_computePseudoHeaderSum_def v6_sum_pairs_eq_tail v6_pseudo_bytes_def be_sum_append
        be_sum_bytes16 unat_word_ariths Let_def)
  show "be_sum (v6_pseudo_bytes h) < 281474976710656"
    using assms b by (simp add: v6_pseudo_bytes_def be_sum_append be_sum_bytes16)
qed

text \<open>The pseudo header of RFC 793, section 3.1.\<close>

definition v4_pseudo_bytes :: "v4_Header \<Rightarrow> u8 list" where
  "v4_pseudo_bytes h = bytes32 (v4_src_ip h) @ bytes32 (v4_dst_ip h) @ [0, v4_protocol h] @
     bytes16 (v4_total_length h - v4_header_length h)"

lemma v4_pseudo_sum:
  assumes "unat (v4_header_length h) \<le> unat (v4_total_length h)"
  shows "unat (v4_computePseudoHeaderSum h) = be_sum (v4_pseudo_bytes h)"
    and "be_sum (v4_pseudo_bytes h) < 281474976710656"
proof -
  have low: "unat (w AND 0xFFFF) = unat w mod 65536" for w :: u32
    using unat_and_mask [of w 16] by (simp add: mask_eq_exp_minus_1)
  have high: "unat w div 65536 < 65536" for w :: u32
    using unat_u32_less [of w] by simp
  have hl: "unat (4 * ucast (v4_ihl h) :: u64) = unat (v4_header_length h)"
    by (simp add: unat_word_ariths unat_v4_header_length unat_v4_ihl)
  have diff: "unat (ucast (v4_total_length h) - 4 * ucast (v4_ihl h) :: u64) =
      unat (v4_total_length h) - unat (v4_header_length h)"
    using assms by (subst unat_sub) (simp_all add: word_le_nat_alt hl)
  have diff16: "unat (v4_total_length h - v4_header_length h) = unat (v4_total_length h) - unat (v4_header_length h)"
    using assms by (subst unat_sub) (simp_all add: word_le_nat_alt)
  note b = unat_u8_less [of "v4_protocol h"] unat_u16_less [of "v4_total_length h"]
    high [of "v4_src_ip h"] high [of "v4_dst_ip h"]
  have m: "unat w mod 65536 < 65536" for w :: u32 by simp
  have add5: "unat (a + b + c + d + e + f) = unat a + unat b + unat c + unat d + unat e + unat f"
    if "unat a + unat b + unat c + unat d + unat e + unat f < 18446744073709551616" for a b c d e f :: u64
    using that by (simp add: unat_add_small)
  show "unat (v4_computePseudoHeaderSum h) = be_sum (v4_pseudo_bytes h)"
    unfolding v4_computePseudoHeaderSum_def v4_pseudo_bytes_def
    using b m [of "v4_src_ip h"] m [of "v4_dst_ip h"]
    by (subst add5) (simp_all add: diff diff16 be_sum_append be_sum_bytes16 be_sum_bytes32 low unat_drop_bit)
  show "be_sum (v4_pseudo_bytes h) < 281474976710656"
    unfolding v4_pseudo_bytes_def using b m [of "v4_src_ip h"] m [of "v4_dst_ip h"]
    by (simp add: diff16 be_sum_append be_sum_bytes16 be_sum_bytes32)
qed

end
