(* ===== verification/Ipv6_Address.thy ===== *)
theory Ipv6_Address
  imports Ipv6
begin

text \<open>
  Printing and reading IPv6 addresses are inverse: the text \<open>printIp\<close> produces, with its
  longest run of zero groups written as two colons, is read back by \<open>addressFromString\<close>.
\<close>

section \<open>Groups and their text\<close>

definition group_text :: "u8 list \<Rightarrow> nat \<Rightarrow> string" where
  "group_text ip j = pad0 2 (hex_string (unat (ip ! (2 * j)))) @ pad0 2 (hex_string (unat (ip ! (2 * j + 1))))"

definition group_val :: "u8 list \<Rightarrow> nat \<Rightarrow> u16" where
  "group_val ip j = of_nat (unat (ip ! (2 * j)) * 256 + unat (ip ! (2 * j + 1)))"

text \<open>A sequence of groups, each preceded by a colon.\<close>

definition groups_text :: "u8 list \<Rightarrow> nat list \<Rightarrow> string" where
  "groups_text ip js = concat (map (\<lambda>j. CHR '':'' # group_text ip j) js)"

lemma groups_text_simps [simp]:
  "groups_text ip [] = []"
  "groups_text ip (j # js) = CHR '':'' # group_text ip j @ groups_text ip js"
  "groups_text ip (js @ ks) = groups_text ip js @ groups_text ip ks"
  by (simp_all add: groups_text_def)

lemma hexVal_hex_digit: "n < 16 \<Longrightarrow> hexVal (hex_digit n) = Some n"
  by (auto simp: hexVal_def hex_digit_def Let_def)

lemma hexVal_colon [simp]: "hexVal CHR '':'' = None"
  by (simp add: hexVal_def)

lemma hex_digit_0: "hex_digit 0 = CHR ''0''"
proof -
  have "CHR ''0'' = char_of (of_char CHR ''0'' :: nat)" by (rule char_of_char [symmetric])
  then have "CHR ''0'' = char_of (48 :: nat)" by (simp del: char_of_char)
  then show ?thesis by (simp add: hex_digit_def)
qed

lemma pad0_hex: "n < 256 \<Longrightarrow> pad0 2 (hex_string n) = [hex_digit (n div 16), hex_digit (n mod 16)]"
  by (simp add: pad0_def hex_string.simps [of n] hex_string.simps [of "n div 16"] hex_digit_0)

lemma group_text_digits:
  "group_text ip j = [hex_digit (unat (ip ! (2 * j)) div 16), hex_digit (unat (ip ! (2 * j)) mod 16),
     hex_digit (unat (ip ! (2 * j + 1)) div 16), hex_digit (unat (ip ! (2 * j + 1)) mod 16)]"
  using unat_u8_less [of "ip ! (2 * j)"] unat_u8_less [of "ip ! (2 * j + 1)"]
  by (simp add: group_text_def pad0_hex)

lemma hex_digit_not_colon: "n < 16 \<Longrightarrow> hex_digit n \<noteq> CHR '':''"
  using hexVal_hex_digit [of n] by (metis hexVal_colon option.distinct(1))

lemma group_text_hd: "\<exists>c cs. group_text ip j = c # cs \<and> c \<noteq> CHR '':''"
  using unat_u8_less [of "ip ! (2 * j)"]
  by (simp add: group_text_digits hex_digit_not_colon)

definition group_raw :: "u8 list \<Rightarrow> nat \<Rightarrow> u32" where
  "group_raw ip j = of_nat (unat (ip ! (2 * j)) * 256 + unat (ip ! (2 * j + 1)))"

lemma hex4_value:
  "((of_nat (a div 16) * 16 + of_nat (a mod 16)) * 16 + of_nat (b div 16)) * 16 + of_nat (b mod 16) =
    (of_nat (a * 256 + b) :: u32)"
proof -
  have "((a div 16 * 16 + a mod 16) * 16 + b div 16) * 16 + b mod 16 = a * 256 + b"
    using div_mult_mod_eq [of b 16] by (simp add: algebra_simps)
  then have "of_nat (((a div 16 * 16 + a mod 16) * 16 + b div 16) * 16 + b mod 16) = (of_nat (a * 256 + b) :: u32)"
    by (rule arg_cong)
  then show ?thesis by (simp only: of_nat_add of_nat_mult of_nat_numeral)
qed

lemma read_group_4:
  assumes "rest = [] \<or> hd rest = CHR '':''" and "w < 16" "x < 16" "y < 16" "z < 16"
  shows "v6_read_group (hex_digit w # hex_digit x # hex_digit y # hex_digit z # rest) 0 0 =
    Some (((of_nat w * 16 + of_nat x) * 16 + of_nat y) * 16 + of_nat z, 4, rest)"
  using assms by (cases rest) (simp_all add: hexVal_hex_digit)

lemma read_group_text:
  assumes "rest = [] \<or> hd rest = CHR '':''"
  shows "v6_read_group (group_text ip j @ rest) 0 0 = Some (group_raw ip j, 4, rest)"
proof -
  have "unat b div 16 < 16" "unat b mod 16 < 16" for b :: u8 using unat_u8_less [of b] by simp_all
  then show ?thesis
    unfolding group_text_digits group_raw_def hex4_value [symmetric] append_Cons append_Nil
    by (intro read_group_4 [OF assms])
qed

lemma ucast_group_raw [simp]: "ucast (group_raw ip j) = group_val ip j"
proof -
  have "unat (ip ! (2 * j)) * 256 + unat (ip ! (2 * j + 1)) < 65536"
    using unat_u8_less [of "ip ! (2 * j)"] unat_u8_less [of "ip ! (2 * j + 1)"] by simp
  then show ?thesis
    unfolding group_val_def group_raw_def word_unat_eq_iff
    by (simp only: unsigned_ucast_eq unat_of_nat) (simp add: take_bit_eq_mod)
qed

lemma group_val_bytes:
  "[ucast (drop_bit 8 (group_val ip j)), ucast (group_val ip j AND 0xFF)] = [ip ! (2 * j), ip ! (2 * j + 1)]"
proof -
  have b: "unat (ip ! (2 * j)) < 256" "unat (ip ! (2 * j + 1)) < 256" by (rule unat_u8_less)+
  have v: "unat (group_val ip j) = unat (ip ! (2 * j)) * 256 + unat (ip ! (2 * j + 1))"
    using b unfolding group_val_def by (subst unat_of_nat_u16) simp_all
  have low: "unat (group_val ip j AND 0xFF) = unat (group_val ip j) mod 256"
    using unat_and_mask [of "group_val ip j" 8] by (simp add: mask_eq_exp_minus_1)
  have "unat (ucast (drop_bit 8 (group_val ip j)) :: u8) = unat (ip ! (2 * j))"
    by (simp only: unsigned_ucast_eq unat_drop_bit v) (use b in \<open>simp add: take_bit_eq_mod\<close>)
  moreover have "unat (ucast (group_val ip j AND 0xFF) :: u8) = unat (ip ! (2 * j + 1))"
    by (simp only: unsigned_ucast_eq low v) (use b in \<open>simp add: take_bit_eq_mod\<close>)
  ultimately show ?thesis by (simp add: word_unat_eq_iff)
qed

section \<open>Reading\<close>

lemma groups_loop_end:
  assumes "js \<noteq> []" and "length acc + length js \<le> 8"
  shows "v6_groups_loop (tl (groups_text ip js)) acc gap = Some (acc @ map (group_val ip) js, gap)"
  using assms
proof (induction js arbitrary: acc)
  case (Cons j js)
  show ?case
  proof (cases js)
    case Nil
    then show ?thesis
      using Cons.prems read_group_text [of "[]" ip j] group_text_hd [of ip j]
      by (auto simp: v6_groups_loop.simps [of "group_text ip j"])
  next
    case (Cons k ks)
    obtain c cs where c: "group_text ip k = c # cs" "c \<noteq> CHR '':''" using group_text_hd by blast
    have "v6_groups_loop (group_text ip j @ groups_text ip js) acc gap =
        v6_groups_loop (tl (groups_text ip js)) (acc @ [group_val ip j]) gap"
      using Cons Cons.prems c read_group_text [of "groups_text ip js" ip j] group_text_hd [of ip j]
      by (subst v6_groups_loop.simps) auto
    then show ?thesis using Cons.IH [of "acc @ [group_val ip j]"] Cons Cons.prems by simp
  qed
qed simp

lemma groups_loop_gap:
  assumes "js \<noteq> []" and "length acc + length js \<le> 8"
  shows "v6_groups_loop (tl (groups_text ip js) @ ''::'' @ R) acc None =
    (if R = [] then Some (acc @ map (group_val ip) js, Some (length acc + length js))
     else v6_groups_loop R (acc @ map (group_val ip) js) (Some (length acc + length js)))"
  using assms
proof (induction js arbitrary: acc)
  case (Cons j js)
  show ?case
  proof (cases js)
    case Nil
    then show ?thesis
      using Cons.prems read_group_text [of "''::'' @ R" ip j] group_text_hd [of ip j]
      by (subst v6_groups_loop.simps) auto
  next
    case (Cons k ks)
    obtain c cs where c: "group_text ip k = c # cs" "c \<noteq> CHR '':''" using group_text_hd by blast
    have "v6_groups_loop (group_text ip j @ groups_text ip js @ ''::'' @ R) acc None =
        v6_groups_loop (tl (groups_text ip js) @ ''::'' @ R) (acc @ [group_val ip j]) None"
      using Cons Cons.prems c read_group_text [of "groups_text ip js @ ''::'' @ R" ip j] group_text_hd [of ip j]
      by (subst v6_groups_loop.simps) auto
    then show ?thesis using Cons.IH [of "acc @ [group_val ip j]"] Cons Cons.prems by simp
  qed
qed simp

section \<open>Printing\<close>

lemma print_tail:
  assumes "0 < j" and "j \<le> 8" and "\<And>s. start = Some s \<Longrightarrow> s < 2 * j"
  shows "v6_print_loop ip start len (2 * j) = groups_text ip [j..<8]"
  using assms
proof (induction "8 - j" arbitrary: j)
  case 0
  then show ?case by (simp add: v6_print_loop.simps)
next
  case (Suc n)
  then have j: "j < 8" by simp
  have "v6_print_loop ip start len (2 * Suc j) = groups_text ip [Suc j..<8]"
    using Suc.hyps Suc.prems(3) by (intro Suc.hyps) (force simp: j)+
  then show ?case
    using j Suc.prems by (subst v6_print_loop.simps) (auto simp: upt_conv_Cons group_text_def)
qed

lemma print_run:
  assumes "0 < j" and "j \<le> a" and "a + m < 8"
  shows "v6_print_loop ip (Some (2 * a)) (2 * m) (2 * j) =
    groups_text ip [j..<a] @ '':'' @ (if a + m + 1 = 8 then '':'' else groups_text ip [a + m + 1..<8])"
  using assms
proof (induction "a - j" arbitrary: j)
  case 0
  have "v6_print_loop ip (Some (2 * a)) (2 * m) (2 * (a + m + 1)) = groups_text ip [a + m + 1..<8]"
    using 0 by (intro print_tail) auto
  with 0 show ?case by (subst v6_print_loop.simps) auto
next
  case (Suc n)
  then have j: "j < a" by simp
  have "v6_print_loop ip (Some (2 * a)) (2 * m) (2 * Suc j) =
      groups_text ip [Suc j..<a] @ '':'' @ (if a + m + 1 = 8 then '':'' else groups_text ip [a + m + 1..<8])"
    using Suc.hyps Suc.prems by (intro Suc.hyps) auto
  with j Suc.prems show ?case
    by (subst v6_print_loop.simps) (auto simp: upt_conv_Cons group_text_def)
qed

text \<open>The run the first loop selects consists of zero groups and ends inside the address.\<close>

definition zero_groups :: "u8 list \<Rightarrow> nat \<Rightarrow> nat \<Rightarrow> bool" where
  "zero_groups ip a b \<longleftrightarrow> (\<forall>j. a \<le> j \<and> j \<le> b \<longrightarrow> ip ! (2 * j) = 0 \<and> ip ! (2 * j + 1) = 0)"

lemma zero_run_spec:
  assumes "a < 8" and "zero_groups ip c a" and "c \<le> a"
  shows "\<exists>m. v6_zero_run ip (2 * a) = 2 * m \<and> a \<le> m \<and> m < 8 \<and> zero_groups ip c m"
  using assms
proof (induction "8 - a" arbitrary: a)
  case (Suc n)
  show ?case
  proof (cases "2 * a + 2 < 16 \<and> ip ! (2 * a + 2) = 0 \<and> ip ! (2 * a + 3) = 0")
    case True
    then have "zero_groups ip c (Suc a)"
      using Suc.prems(2) by (auto simp: zero_groups_def le_Suc_eq numeral_3_eq_3)
    moreover have "n = 8 - Suc a" using Suc.hyps(2) by simp
    ultimately obtain m where "v6_zero_run ip (2 * Suc a) = 2 * m" "Suc a \<le> m" "m < 8" "zero_groups ip c m"
      using Suc.hyps(1) [of "Suc a"] Suc.prems True by auto
    with True show ?thesis by (subst v6_zero_run.simps) auto
  next
    case False
    then have "v6_zero_run ip (2 * a) = 2 * a" by (subst v6_zero_run.simps) auto
    with Suc.prems show ?thesis by auto
  qed
qed simp

definition run_ok :: "u8 list \<Rightarrow> nat option \<Rightarrow> nat \<Rightarrow> bool" where
  "run_ok ip start len =
     (case start of None \<Rightarrow> len = 0
      | Some s \<Rightarrow> \<exists>a m. s = 2 * a \<and> len = 2 * m \<and> a + m < 8 \<and> zero_groups ip a (a + m))"

lemma best_run_ok:
  assumes "run_ok ip start len" and "v6_best_run ip (2 * j) start len = (start', len')"
  shows "run_ok ip start' len'"
  using assms
proof (induction "8 - j" arbitrary: j start len rule: less_induct)
  case less
  show ?case
  proof (cases "j < 8")
    case False
    with less.prems show ?thesis by (subst (asm) v6_best_run.simps) auto
  next
    case j: True
    show ?thesis
    proof (cases "ip ! (2 * j) \<noteq> 0 \<or> ip ! (2 * j + 1) \<noteq> 0")
      case True
      then have "v6_best_run ip (2 * Suc j) start len = (start', len')"
        using less.prems j by (subst (asm) v6_best_run.simps) auto
      with less.hyps [of "Suc j"] less.prems(1) j show ?thesis by auto
    next
      case False
      then have "zero_groups ip j j" by (auto simp: zero_groups_def le_antisym)
      then obtain m where m: "v6_zero_run ip (2 * j) = 2 * m" "j \<le> m" "m < 8" "zero_groups ip j m"
        using zero_run_spec [of j ip j] j by auto
      let ?better = "2 * m - 2 * j > len"
      have "v6_best_run ip (2 * Suc m) (if ?better then Some (2 * j) else start)
          (if ?better then 2 * m - 2 * j else len) = (start', len')"
        using less.prems j False m by (subst (asm) v6_best_run.simps) (auto simp: Let_def)
      moreover have "run_ok ip (if ?better then Some (2 * j) else start) (if ?better then 2 * m - 2 * j else len)"
        using less.prems(1) m by (auto simp: run_ok_def intro!: exI [of _ "m - j"])
      ultimately show ?thesis using less.hyps [of "Suc m"] j m(2) by auto
    qed
  qed
qed

section \<open>The round trip\<close>

lemma upt8: "[0..<8] = [0, 1, 2, 3, 4, 5, 6, 7]"
  by (simp add: upt_rec)

lemma assign_groups:
  assumes "length ip = 16"
  shows "v6_assign (map (group_val ip) [0..<8]) = ip"
proof -
  have "v6_assign (map (group_val ip) js) = concat (map (\<lambda>j. [ip ! (2 * j), ip ! (2 * j + 1)]) js)" for js
    by (simp only: v6_assign_def map_map comp_def group_val_bytes)
  then have "v6_assign (map (group_val ip) [0..<8]) = concat (map (\<lambda>j. [ip ! (2 * j), ip ! (2 * j + 1)]) [0..<8])" .
  also have "\<dots> = map ((!) ip) [0..<16]"
    unfolding upt8 by (simp add: upt_rec eval_nat_numeral)
  also have "\<dots> = ip" using map_nth [of ip] assms by simp
  finally show ?thesis .
qed

lemma group_val_zero: "zero_groups ip a b \<Longrightarrow> a \<le> j \<Longrightarrow> j \<le> b \<Longrightarrow> group_val ip j = 0"
  by (simp add: zero_groups_def group_val_def)

lemma assemble_run:
  assumes "length ip = 16" and "zero_groups ip a (a + m)" and "a + m < 8"
  shows "v6_assemble (map (group_val ip) ([0..<a] @ [a + m + 1..<8])) (Some a) = Some ip"
proof -
  have "map (group_val ip) [a..<a + m + 1] = replicate (m + 1) 0"
    using group_val_zero [OF assms(2)] by (intro replicate_eqI) auto
  moreover have "[0..<8] = [0..<a] @ [a..<a + m + 1] @ [a + m + 1..<8]"
    using assms(3) upt_add_eq_append [of 0 a "8 - a"] upt_add_eq_append [of a "a + m + 1" "7 - (a + m)"] by simp
  ultimately have "map (group_val ip) [0..<a] @ replicate (m + 1) 0 @ map (group_val ip) [a + m + 1..<8] =
      map (group_val ip) [0..<8]" by simp
  then show ?thesis
    using assms(3) assign_groups [OF assms(1)]
    by (simp add: v6_assemble_def Let_def)
qed

lemma zero_ip:
  assumes "length ip = 16" and "zero_groups ip 0 7"
  shows "ip = replicate 16 0"
proof -
  have "map (group_val ip) [0..<8] = replicate 8 0"
    using group_val_zero [OF assms(2)] by (intro replicate_eqI) auto
  then show ?thesis
    using assign_groups [OF assms(1)] by (simp add: v6_assign_def eval_nat_numeral)
qed

lemma groups_text_hd:
  assumes "js \<noteq> []"
  shows "\<exists>c cs. groups_text ip js = CHR '':'' # c # cs \<and> c \<noteq> CHR '':''"
  using assms group_text_hd [of ip "hd js"] by (cases js) auto

text \<open>Reading a text that starts with a group, and one that starts with two colons.\<close>

lemma address_from_group:
  assumes "hd str \<noteq> CHR '':''" and "str \<noteq> []"
  shows "v6_addressFromString str = Option.bind (v6_groups_loop str [] None) (\<lambda>(gs, gap). v6_assemble gs gap)"
  using assms by (cases str) (auto simp: v6_addressFromString_def)

lemma address_from_colons:
  assumes "str \<noteq> []"
  shows "v6_addressFromString (''::'' @ str) =
    Option.bind (v6_groups_loop str [] (Some 0)) (\<lambda>(gs, gap). v6_assemble gs gap)"
  using assms by (auto simp: v6_addressFromString_def)

lemma print_from_0:
  assumes "start \<noteq> Some 0"
  shows "v6_print_loop ip start len 0 = group_text ip 0 @ v6_print_loop ip start len 2"
  using assms by (subst v6_print_loop.simps) (simp add: group_text_def numeral_2_eq_2)

lemma roundtrip_no_run:
  assumes "length ip = 16"
  shows "v6_addressFromString (v6_print_loop ip None len 0) = Some ip"
proof -
  have "v6_print_loop ip None len 0 = tl (groups_text ip [0..<8])"
    using print_tail [of 1 None ip len] print_from_0 [of None ip len] by (simp add: upt_conv_Cons)
  moreover obtain c cs where "groups_text ip [0..<8] = CHR '':'' # c # cs" "c \<noteq> CHR '':''"
    using groups_text_hd [of "[0..<8]" ip] by auto
  moreover have "v6_groups_loop (tl (groups_text ip [0..<8])) [] None = Some (map (group_val ip) [0..<8], None)"
    using groups_loop_end [of "[0..<8]" "[]" ip None] by simp
  ultimately show ?thesis
    using assign_groups [OF assms] by (simp add: address_from_group v6_assemble_def)
qed

lemma roundtrip_run_start:
  assumes "length ip = 16" and "zero_groups ip 0 m" and "m < 8"
  shows "v6_addressFromString (v6_print_loop ip (Some 0) (2 * m) 0) = Some ip"
proof (cases "m = 7")
  case True
  then have "v6_print_loop ip (Some 0) (2 * m) 0 = ''::''"
    by (simp add: v6_print_loop.simps [of ip "Some 0" 14 0] v6_print_loop.simps [of ip "Some 0" 14 16])
  with True zero_ip assms show ?thesis by (simp add: v6_addressFromString_def)
next
  case False
  let ?js = "[m + 1..<8]"
  have "v6_print_loop ip (Some 0) (2 * m) 0 = '':'' @ groups_text ip ?js"
    using print_tail [of "m + 1" "Some 0" ip "2 * m"] False assms(3)
    by (subst v6_print_loop.simps) auto
  moreover obtain c cs where c: "groups_text ip ?js = CHR '':'' # c # cs"
    using groups_text_hd [of ?js ip] False assms(3) by auto
  moreover have "v6_groups_loop (tl (groups_text ip ?js)) [] (Some 0) = Some (map (group_val ip) ?js, Some 0)"
    using groups_loop_end [of ?js "[]" ip "Some 0"] False assms(3) by simp
  ultimately show ?thesis
    using address_from_colons [of "c # cs"] assemble_run [of ip 0 m] assms by simp
qed

lemma roundtrip_run:
  assumes "length ip = 16" and "zero_groups ip a (a + m)" and "a + m < 8" and "0 < a"
  shows "v6_addressFromString (v6_print_loop ip (Some (2 * a)) (2 * m) 0) = Some ip"
proof -
  let ?R = "if a + m + 1 = 8 then [] else tl (groups_text ip [a + m + 1..<8])"
  let ?s = "v6_print_loop ip (Some (2 * a)) (2 * m) 0"
  have tail: "'':'' @ (if a + m + 1 = 8 then '':'' else groups_text ip [a + m + 1..<8]) = ''::'' @ ?R"
    using groups_text_hd [of "[a + m + 1..<8]" ip] assms(3) by (auto simp: less_Suc_eq)
  have str: "?s = tl (groups_text ip [0..<a]) @ ''::'' @ ?R"
    using print_run [of 1 a m ip] print_from_0 [of "Some (2 * a)" ip "2 * m"] assms(3,4) tail
    by (simp add: upt_conv_Cons [of 0 a])
  obtain c cs where c: "groups_text ip [0..<a] = CHR '':'' # c # cs" "c \<noteq> CHR '':''"
    using groups_text_hd [of "[0..<a]" ip] assms(4) by auto
  have "v6_groups_loop ?s [] None = Some (map (group_val ip) ([0..<a] @ [a + m + 1..<8]), Some a)"
  proof (cases "a + m + 1 = 8")
    case True
    with groups_loop_gap [of "[0..<a]" "[]" ip "[]"] assms str show ?thesis by simp
  next
    case False
    moreover obtain d ds where "groups_text ip [a + m + 1..<8] = CHR '':'' # d # ds"
      using groups_text_hd [of "[a + m + 1..<8]" ip] False assms(3) by auto
    ultimately show ?thesis
      using groups_loop_gap [of "[0..<a]" "[]" ip "?R"] assms(3,4) str
        groups_loop_end [of "[a + m + 1..<8]" "map (group_val ip) [0..<a]" ip "Some a"] by simp
  qed
  moreover have "hd ?s \<noteq> CHR '':''" "?s \<noteq> []" using str c by simp_all
  ultimately show ?thesis
    using assemble_run [OF assms(1-3)] by (simp add: address_from_group)
qed

lemma v6_print_parse:
  assumes "length ip = 16"
  shows "v6_addressFromString (v6_printIp ip) = Some ip"
proof -
  obtain start len where run: "v6_best_run ip 0 None 0 = (start, len)" by force
  have ok: "run_ok ip start len"
    using best_run_ok [of ip None 0 0 start len] run by (simp add: run_ok_def)
  show ?thesis
  proof (cases "len < 2")
    case True
    then show ?thesis using roundtrip_no_run [OF assms] by (simp add: v6_printIp_def run)
  next
    case False
    with ok obtain a m where "start = Some (2 * a)" "len = 2 * m" "a + m < 8" "zero_groups ip a (a + m)"
      by (auto simp: run_ok_def split: option.splits)
    with False roundtrip_run_start [OF assms, of m] roundtrip_run [OF assms, of a m] show ?thesis
      by (cases "a = 0") (simp_all add: v6_printIp_def run)
  qed
qed

lemma v6_print_colon: "CHR '':'' \<in> set (v6_printIp ip)"
proof -
  have "CHR '':'' \<in> set (v6_print_loop ip start len 2)" for start len
    by (subst v6_print_loop.simps) simp
  then have "CHR '':'' \<in> set (v6_print_loop ip start len 0)" for start len
    by (subst v6_print_loop.simps) (simp add: numeral_2_eq_2)
  then show ?thesis by (cases "v6_best_run ip 0 None 0") (simp add: v6_printIp_def)
qed

lemma v6_print_not_v4: "v4_addressFromString (v6_printIp ip) = None"
proof (cases "v4_addressFromString (v6_printIp ip)")
  case (Some out)
  have digits: "is_digit c \<Longrightarrow> c \<noteq> CHR '':''" for c by (auto simp: is_digit_def)
  obtain gs where "length gs = 4" "list_all v4_octet gs" "v6_printIp ip = dotted gs" using Some by (auto simp: v4_address_iff)
  moreover have "CHR '':'' \<notin> set (dotted gs)" if "list_all v4_octet gs" for gs
    using that digits by (induction gs rule: dotted.induct) (auto simp: v4_octet_def list_all_iff)
  ultimately have "CHR '':'' \<notin> set (v6_printIp ip)" by simp
  then show ?thesis using v6_print_colon by blast
qed

text \<open>Addresses of the right length.\<close>

lemma v4_text_read:
  assumes "4 \<le> length ip"
  shows "v4_addressFromString (v4_printIp_bytes ip) = Some (take 4 ip)"
proof -
  let ?gs = "map (\<lambda>b. dec_string (unat b)) (take 4 ip)"
  have four: "take 4 ip = [ip ! 0, ip ! 1, ip ! 2, ip ! 3]"
    using assms by (auto intro!: nth_equalityI simp: less_Suc_eq eval_nat_numeral)
  have "list_all v4_octet ?gs" by (simp add: four dec_string_octet unat_u8_less)
  moreover have "v4_printIp_bytes ip = dotted ?gs" by (simp add: v4_printIp_bytes_def four)
  moreover have "take 4 ip = map (\<lambda>g. of_nat (dec_from 0 g)) ?gs" by (simp add: four dec_string_value)
  ultimately show ?thesis unfolding v4_address_iff using assms by (intro exI [of _ ?gs]) simp
qed

lemma length_v6_assign: "length (v6_assign gs) = 2 * length gs"
  by (induction gs) (simp_all add: v6_assign_def)

lemma v6_assemble_length: "v6_assemble groups gap = Some ip \<Longrightarrow> length ip = 16"
  by (cases gap) (auto simp: v6_assemble_def Let_def length_v6_assign simp del: length_append split: if_splits)

lemma v6_address_length: "v6_addressFromString s = Some ip \<Longrightarrow> length ip = 16"
  by (auto simp: v6_addressFromString_def bind_eq_Some_conv dest: v6_assemble_length split: if_splits)

text \<open>
  A printed IPv6 address reads back as itself, for each of the \<open>2 ^ 128\<close> addresses:
  whichever run of zero groups is abbreviated, at the start, inside or at the end. Nor is it
  ever taken for an IPv4 address, which the command line tries first.
\<close>

theorem v6_address_roundtrip:
  assumes "length ip = 16"
  shows "v6_addressFromString (v6_printIp ip) = Some ip \<and> v4_addressFromString (v6_printIp ip) = None"
  using v6_print_parse [OF assms] v6_print_not_v4 by blast

theorem v6_address_roundtrip_witness:
  "v6_addressFromString (v6_printIp [0xFE, 0x80, 0, 0, 0, 0, 0, 0, 0, 0, 0, 0, 0, 0, 0, 1]) =
     Some [0xFE, 0x80, 0, 0, 0, 0, 0, 0, 0, 0, 0, 0, 0, 0, 0, 1]"
  using v6_address_roundtrip [of "[0xFE, 0x80, 0, 0, 0, 0, 0, 0, 0, 0, 0, 0, 0, 0, 0, 1]"] by simp

end
