(* ===== verification/Arp.thy ===== *)
theory Arp
  imports Ipv4
begin

text \<open>
  ARP (\<^verbatim>\<open>src/net/protocols/arp.cpp\<close>). The four addresses of the struct are pointers
  into the packet; a pointer is the suffix of the buffer it points at, so reading
  \<open>p[i]\<close> is safe when the suffix is longer than \<open>i\<close>.
\<close>

definition arp_MIN_HEADER_LEN :: nat where "arp_MIN_HEADER_LEN = 8"
definition HTYPE_ETHERNET :: u16 where "HTYPE_ETHERNET = 1"
definition OPER_REQUEST :: u16 where "OPER_REQUEST = 1"
definition OPER_REPLY :: u16 where "OPER_REPLY = 2"

record arp_Header =
  arp_htype :: u16
  arp_ptype :: u16
  arp_hlen :: u8
  arp_plen :: u8
  arp_oper :: u16
  arp_sha :: span
  arp_spa :: span
  arp_tha :: span
  arp_tpa :: span

definition arp_parse :: "span \<Rightarrow> Endian \<Rightarrow> (arp_Header \<times> span) res" where
  "arp_parse span endian =
     (if length span < arp_MIN_HEADER_LEN then Err UnexpectedEof
      else bind_res (memcpy span arp_MIN_HEADER_LEN) (\<lambda>b.
        let htype = toHost16 (raw16 b 0) endian; ptype = toHost16 (raw16 b 2) endian;
            oper = toHost16 (raw16 b 6) endian; hlen = unat (b ! 4); plen = unat (b ! 5) in
        if b ! 4 = 0 \<or> b ! 5 = 0 then Err InvalidFieldValue
        else let header_len = arp_MIN_HEADER_LEN + 2 * hlen + 2 * plen in
        if length span < header_len then Err UnexpectedEof
        else bind_res (subspan span header_len) (\<lambda>rest.
          Ok (\<lparr> arp_htype = htype, arp_ptype = ptype, arp_hlen = b ! 4, arp_plen = b ! 5, arp_oper = oper,
                arp_sha = drop arp_MIN_HEADER_LEN span,
                arp_spa = drop (arp_MIN_HEADER_LEN + hlen) span,
                arp_tha = drop (arp_MIN_HEADER_LEN + (hlen + plen)) span,
                arp_tpa = drop (arp_MIN_HEADER_LEN + (2 * hlen + plen)) span \<rparr>, rest))))"

text \<open>
  The stored pointers may be dereferenced over the declared address lengths, and the four
  addresses lie back to back between the fixed part and the rest of the packet.
\<close>

lemma arp_parse_post:
  "holds (\<lambda>(h, rest). 0 < unat (arp_hlen h) \<and> 0 < unat (arp_plen h) \<and>
       drop 8 span = take (unat (arp_hlen h)) (arp_sha h) @ take (unat (arp_plen h)) (arp_spa h) @
         take (unat (arp_hlen h)) (arp_tha h) @ take (unat (arp_plen h)) (arp_tpa h) @ rest \<and>
       unat (arp_hlen h) \<le> length (arp_sha h) \<and> unat (arp_plen h) \<le> length (arp_spa h) \<and>
       unat (arp_hlen h) \<le> length (arp_tha h) \<and> unat (arp_plen h) \<le> length (arp_tpa h))
     (arp_parse span endian)"
proof -
  have glue: "drop 8 s = take m (drop 8 s) @ take n (drop (8 + m) s) @ take m (drop (8 + (m + n)) s) @
      take n (drop (8 + (2 * m + n)) s) @ drop (8 + 2 * m + 2 * n) s" for m n and s :: span
  proof -
    have step: "drop i s = take k (drop i s) @ drop (i + k) s" for i k
      by (metis append_take_drop_id drop_drop add.commute)
    have eq: "8 + (m + n) = 8 + m + n" "8 + (2 * m + n) = 8 + m + n + m"
      "8 + 2 * m + 2 * n = 8 + m + n + m + n" by simp_all
    show ?thesis
      unfolding eq using step [of 8 m] step [of "8 + m" n] step [of "8 + m + n" m] step [of "8 + m + n + m" n]
      by simp
  qed
  have pos: "0 < unat b" if "b \<noteq> 0" for b :: u8
    using that by (simp add: unat_gt_0)
  show ?thesis
    unfolding arp_parse_def Let_def arp_MIN_HEADER_LEN_def
    by (intro safe_intro) (simp_all add: pos glue [symmetric], (intro conjI; linarith))
qed

interpretation arp: header_parser "\<lambda>span. arp_parse span endian"
  by unfold_locales (auto simp: arp_parse_def arp_MIN_HEADER_LEN_def Let_def)

end
