(* ===== verification/Transport.thy ===== *)
theory Transport
  imports Ipv6
begin

text \<open>
  TCP, UDP, ICMP and ICMPv6 headers (\<^verbatim>\<open>src/net/protocols/tcp.cpp\<close>,
  \<^verbatim>\<open>udp.cpp\<close>, \<^verbatim>\<open>icmp.cpp\<close>, \<^verbatim>\<open>icmpv6.cpp\<close>).
\<close>

section \<open>TCP\<close>

definition tcp_MIN_HEADER_LEN :: nat where "tcp_MIN_HEADER_LEN = 20"
definition tcp_MAX_HEADER_LEN :: nat where "tcp_MAX_HEADER_LEN = 60"

record tcp_Header =
  tcp_src_port :: u16
  tcp_dst_port :: u16
  tcp_seq_number :: u32
  tcp_ack_number :: u32
  tcp_data_offset_reserved :: u8
  tcp_flags :: u8
  tcp_window_size :: u16
  tcp_checksum :: u16
  tcp_urgent_pointer :: u16

definition tcp_data_offset :: "tcp_Header \<Rightarrow> u8" where "tcp_data_offset h = drop_bit 4 (tcp_data_offset_reserved h)"
definition tcp_header_length :: "tcp_Header \<Rightarrow> nat" where "tcp_header_length h = 4 * unat (tcp_data_offset h)"
definition tcp_cwr :: "tcp_Header \<Rightarrow> bool" where "tcp_cwr h = (tcp_flags h AND 0x80 \<noteq> 0)"
definition tcp_ece :: "tcp_Header \<Rightarrow> bool" where "tcp_ece h = (tcp_flags h AND 0x40 \<noteq> 0)"
definition tcp_urg :: "tcp_Header \<Rightarrow> bool" where "tcp_urg h = (tcp_flags h AND 0x20 \<noteq> 0)"
definition tcp_ack :: "tcp_Header \<Rightarrow> bool" where "tcp_ack h = (tcp_flags h AND 0x10 \<noteq> 0)"
definition tcp_psh :: "tcp_Header \<Rightarrow> bool" where "tcp_psh h = (tcp_flags h AND 0x08 \<noteq> 0)"
definition tcp_rst :: "tcp_Header \<Rightarrow> bool" where "tcp_rst h = (tcp_flags h AND 0x04 \<noteq> 0)"
definition tcp_syn :: "tcp_Header \<Rightarrow> bool" where "tcp_syn h = (tcp_flags h AND 0x02 \<noteq> 0)"
definition tcp_fin :: "tcp_Header \<Rightarrow> bool" where "tcp_fin h = (tcp_flags h AND 0x01 \<noteq> 0)"

definition tcp_raw :: "u8 list \<Rightarrow> tcp_Header" where
  "tcp_raw b = \<lparr> tcp_src_port = raw16 b 0, tcp_dst_port = raw16 b 2, tcp_seq_number = raw32 b 4,
     tcp_ack_number = raw32 b 8, tcp_data_offset_reserved = b ! 12, tcp_flags = b ! 13,
     tcp_window_size = raw16 b 14, tcp_checksum = raw16 b 16, tcp_urgent_pointer = raw16 b 18 \<rparr>"

text \<open>The conversions the parser makes; the checksum field is left in wire order.\<close>

definition tcp_toHost :: "tcp_Header \<Rightarrow> Endian \<Rightarrow> tcp_Header" where
  "tcp_toHost h endian = h \<lparr>
     tcp_src_port := toHost16 (tcp_src_port h) endian,
     tcp_dst_port := toHost16 (tcp_dst_port h) endian,
     tcp_seq_number := toHost32 (tcp_seq_number h) endian,
     tcp_ack_number := toHost32 (tcp_ack_number h) endian,
     tcp_window_size := toHost16 (tcp_window_size h) endian,
     tcp_urgent_pointer := toHost16 (tcp_urgent_pointer h) endian \<rparr>"

definition tcp_parse :: "span \<Rightarrow> nat \<Rightarrow> u64 \<Rightarrow> Endian \<Rightarrow> bool \<Rightarrow> (tcp_Header \<times> span) res" where
  "tcp_parse span len pseudo_header_sum endian verify_checksum =
     (if length span < tcp_MIN_HEADER_LEN then Err UnexpectedEof
      else bind_res (memcpy span tcp_MIN_HEADER_LEN) (\<lambda>b.
        let header = tcp_raw b; hlen = tcp_header_length header in
        if hlen < tcp_MIN_HEADER_LEN \<or> hlen > tcp_MAX_HEADER_LEN \<or> len < hlen \<or> length span < len
        then Err MalformedHeader
        else if length span < hlen then Err UnexpectedEof
        else bind_res (if verify_checksum then verifyChecksum span len pseudo_header_sum else Ok True) (\<lambda>valid.
        if \<not> valid then Err ChecksumMismatch
        else bind_res (subspan span hlen) (\<lambda>span. Ok (tcp_toHost header endian, span)))))"

text \<open>The difference of two \<open>uint16_t\<close> is an \<open>int\<close>, converted to \<open>size_t\<close>.\<close>

definition tcp_parse_v4 :: "span \<Rightarrow> v4_Header \<Rightarrow> Endian \<Rightarrow> bool \<Rightarrow> (tcp_Header \<times> span) res" where
  "tcp_parse_v4 span ip_header endian verify_checksum =
     (let len = unat (ucast (v4_total_length ip_header) - ucast (v4_header_length ip_header) :: u64) in
      tcp_parse span len (v4_computePseudoHeaderSum ip_header) endian verify_checksum)"

definition tcp_parse_v6 :: "span \<Rightarrow> v6_Header \<Rightarrow> Endian \<Rightarrow> bool \<Rightarrow> (tcp_Header \<times> span) res" where
  "tcp_parse_v6 span ip_header endian verify_checksum =
     tcp_parse span (unat (v6_payload_length ip_header)) (v6_computePseudoHeaderSum ip_header) endian verify_checksum"

section \<open>UDP\<close>

definition udp_HEADER_LEN :: nat where "udp_HEADER_LEN = 8"

record udp_Header =
  udp_src_port :: u16
  udp_dst_port :: u16
  udp_length :: u16
  udp_checksum :: u16

definition udp_raw :: "u8 list \<Rightarrow> udp_Header" where
  "udp_raw b = \<lparr> udp_src_port = raw16 b 0, udp_dst_port = raw16 b 2, udp_length = raw16 b 4, udp_checksum = raw16 b 6 \<rparr>"

definition udp_toHost :: "udp_Header \<Rightarrow> Endian \<Rightarrow> udp_Header" where
  "udp_toHost h endian = h \<lparr>
     udp_src_port := toHost16 (udp_src_port h) endian,
     udp_dst_port := toHost16 (udp_dst_port h) endian,
     udp_length := toHost16 (udp_length h) endian,
     udp_checksum := toHost16 (udp_checksum h) endian \<rparr>"

definition udp_parse :: "span \<Rightarrow> u64 \<Rightarrow> Endian \<Rightarrow> bool \<Rightarrow> bool \<Rightarrow> (udp_Header \<times> span) res" where
  "udp_parse span pseudo_header_sum endian accept_zero_checksum verify_checksum =
     (if length span < udp_HEADER_LEN then Err UnexpectedEof
      else bind_res (memcpy span udp_HEADER_LEN) (\<lambda>b.
        let header = udp_raw b; len = unat (toHost16 (udp_length header) endian) in
        if len < udp_HEADER_LEN \<or> length span < len then Err MalformedHeader
        else bind_res (if verify_checksum \<and> (udp_checksum header \<noteq> 0 \<or> \<not> accept_zero_checksum)
            then verifyChecksum span len pseudo_header_sum else Ok True) (\<lambda>valid.
        if \<not> valid then Err ChecksumMismatch
        else bind_res (subspan_n span udp_HEADER_LEN (len - udp_HEADER_LEN)) (\<lambda>span.
          Ok (udp_toHost header endian, span)))))"

definition udp_parse_v4 :: "span \<Rightarrow> v4_Header \<Rightarrow> Endian \<Rightarrow> bool \<Rightarrow> (udp_Header \<times> span) res" where
  "udp_parse_v4 span ip_header endian verify_checksum =
     udp_parse span (v4_computePseudoHeaderSum ip_header) endian True verify_checksum"

definition udp_parse_v6 :: "span \<Rightarrow> v6_Header \<Rightarrow> Endian \<Rightarrow> bool \<Rightarrow> (udp_Header \<times> span) res" where
  "udp_parse_v6 span ip_header endian verify_checksum =
     udp_parse span (v6_computePseudoHeaderSum ip_header) endian False verify_checksum"

section \<open>ICMP\<close>

text \<open>
  The union of both ICMP headers is its four bytes of storage: reading a member decodes
  them, writing a member stores it in host order.
\<close>

definition le_bytes16 :: "u16 \<Rightarrow> u8 list" where
  "le_bytes16 w = [of_nat (unat w mod 256), of_nat (unat w div 256)]"

definition le_bytes32 :: "u32 \<Rightarrow> u8 list" where
  "le_bytes32 w = [of_nat (unat w mod 256), of_nat (unat w div 256 mod 256),
     of_nat (unat w div 65536 mod 256), of_nat (unat w div 16777216)]"

definition icmp_HEADER_LEN :: nat where "icmp_HEADER_LEN = 8"

definition ICMP_ECHO_REPLY :: u8 where "ICMP_ECHO_REPLY = 0"
definition ICMP_UNREACHABLE :: u8 where "ICMP_UNREACHABLE = 3"
definition ICMP_SOURCE_QUENCH :: u8 where "ICMP_SOURCE_QUENCH = 4"
definition ICMP_REDIRECT :: u8 where "ICMP_REDIRECT = 5"
definition ICMP_ECHO_REQUEST :: u8 where "ICMP_ECHO_REQUEST = 8"
definition ICMP_TTL_EXCEEDED :: u8 where "ICMP_TTL_EXCEEDED = 11"
definition ICMP_PARAM_PROBLEM :: u8 where "ICMP_PARAM_PROBLEM = 12"
definition ICMP_TIMESTAMP :: u8 where "ICMP_TIMESTAMP = 13"
definition ICMP_TIMESTAMP_REPLY :: u8 where "ICMP_TIMESTAMP_REPLY = 14"
definition ICMP_INFO_REQUEST :: u8 where "ICMP_INFO_REQUEST = 15"
definition ICMP_INFO_REPLY :: u8 where "ICMP_INFO_REPLY = 16"

lemmas icmp_type_defs = ICMP_ECHO_REPLY_def ICMP_UNREACHABLE_def ICMP_SOURCE_QUENCH_def ICMP_REDIRECT_def
  ICMP_ECHO_REQUEST_def ICMP_TTL_EXCEEDED_def ICMP_PARAM_PROBLEM_def ICMP_TIMESTAMP_def
  ICMP_TIMESTAMP_REPLY_def ICMP_INFO_REQUEST_def ICMP_INFO_REPLY_def

record icmp_Header =
  icmp_type :: u8
  icmp_code :: u8
  icmp_checksum :: u16
  icmp_union :: "u8 list"

definition icmp_pointer :: "icmp_Header \<Rightarrow> u8" where "icmp_pointer h = icmp_union h ! 0"
definition icmp_gateway :: "icmp_Header \<Rightarrow> u32" where "icmp_gateway h = raw32 (icmp_union h) 0"
definition icmp_echo_id :: "icmp_Header \<Rightarrow> u16" where "icmp_echo_id h = raw16 (icmp_union h) 0"
definition icmp_echo_seq :: "icmp_Header \<Rightarrow> u16" where "icmp_echo_seq h = raw16 (icmp_union h) 2"

definition icmp_code_ok :: "u8 \<Rightarrow> u8 \<Rightarrow> bool" where
  "icmp_code_ok type code =
     (if type \<in> {ICMP_ECHO_REQUEST, ICMP_ECHO_REPLY, ICMP_SOURCE_QUENCH, ICMP_TIMESTAMP,
          ICMP_TIMESTAMP_REPLY, ICMP_INFO_REQUEST, ICMP_INFO_REPLY} then code = 0
      else if type = ICMP_UNREACHABLE then \<not> code > 15
      else if type = ICMP_REDIRECT then \<not> code > 3
      else if type = ICMP_TTL_EXCEEDED then \<not> code > 1
      else if type = ICMP_PARAM_PROBLEM then \<not> code > 1
      else True)"

definition icmp_parse :: "span \<Rightarrow> Endian \<Rightarrow> bool \<Rightarrow> (icmp_Header \<times> span) res" where
  "icmp_parse span endian verify_checksum =
     (if length span < icmp_HEADER_LEN then Err UnexpectedEof
      else bind_res (memcpy span icmp_HEADER_LEN) (\<lambda>b.
        let header = \<lparr> icmp_type = b ! 0, icmp_code = b ! 1, icmp_checksum = raw16 b 2,
              icmp_union = take 4 (drop 4 b) \<rparr> in
        if \<not> icmp_code_ok (icmp_type header) (icmp_code header) then Err InvalidFieldValue
        else let header =
              (if icmp_type header = ICMP_REDIRECT then
                 header \<lparr> icmp_union := le_bytes32 (toHost32 (icmp_gateway header) endian) \<rparr>
               else if icmp_type header = ICMP_ECHO_REQUEST \<or> icmp_type header = ICMP_ECHO_REPLY then
                 header \<lparr> icmp_union := le_bytes16 (toHost16 (icmp_echo_id header) endian) @
                    le_bytes16 (toHost16 (icmp_echo_seq header) endian) \<rparr>
               else header) in
        bind_res (if verify_checksum then verifyChecksum span (length span) 0 else Ok True) (\<lambda>valid.
        if \<not> valid then Err ChecksumMismatch
        else let header = header \<lparr> icmp_checksum := toHost16 (icmp_checksum header) endian \<rparr> in
        bind_res (subspan span icmp_HEADER_LEN) (\<lambda>span. Ok (header, span)))))"

section \<open>ICMPv6\<close>

definition icmpv6_HEADER_LEN :: nat where "icmpv6_HEADER_LEN = 8"
definition icmpv6_MIN_MTU :: u32 where "icmpv6_MIN_MTU = 1280"

definition ICMPV6_UNREACHABLE :: u8 where "ICMPV6_UNREACHABLE = 1"
definition ICMPV6_PACKET_TOO_BIG :: u8 where "ICMPV6_PACKET_TOO_BIG = 2"
definition ICMPV6_TTL_EXCEEDED :: u8 where "ICMPV6_TTL_EXCEEDED = 3"
definition ICMPV6_PARAM_PROBLEM :: u8 where "ICMPV6_PARAM_PROBLEM = 4"
definition ICMPV6_ECHO_REQUEST :: u8 where "ICMPV6_ECHO_REQUEST = 128"
definition ICMPV6_ECHO_REPLY :: u8 where "ICMPV6_ECHO_REPLY = 129"
definition ICMPV6_ROUTER_SOLICIT :: u8 where "ICMPV6_ROUTER_SOLICIT = 133"
definition ICMPV6_ROUTER_ADVERT :: u8 where "ICMPV6_ROUTER_ADVERT = 134"
definition ICMPV6_NEIGHBOR_SOLICIT :: u8 where "ICMPV6_NEIGHBOR_SOLICIT = 135"
definition ICMPV6_NEIGHBOR_ADVERT :: u8 where "ICMPV6_NEIGHBOR_ADVERT = 136"

lemmas icmpv6_type_defs = ICMPV6_UNREACHABLE_def ICMPV6_PACKET_TOO_BIG_def ICMPV6_TTL_EXCEEDED_def
  ICMPV6_PARAM_PROBLEM_def ICMPV6_ECHO_REQUEST_def ICMPV6_ECHO_REPLY_def ICMPV6_ROUTER_SOLICIT_def
  ICMPV6_ROUTER_ADVERT_def ICMPV6_NEIGHBOR_SOLICIT_def ICMPV6_NEIGHBOR_ADVERT_def

record icmpv6_Header =
  icmpv6_type :: u8
  icmpv6_code :: u8
  icmpv6_checksum :: u16
  icmpv6_union :: "u8 list"

definition icmpv6_echo_id :: "icmpv6_Header \<Rightarrow> u16" where "icmpv6_echo_id h = raw16 (icmpv6_union h) 0"
definition icmpv6_echo_seq :: "icmpv6_Header \<Rightarrow> u16" where "icmpv6_echo_seq h = raw16 (icmpv6_union h) 2"
definition icmpv6_mtu :: "icmpv6_Header \<Rightarrow> u32" where "icmpv6_mtu h = raw32 (icmpv6_union h) 0"
definition icmpv6_pointer :: "icmpv6_Header \<Rightarrow> u32" where "icmpv6_pointer h = raw32 (icmpv6_union h) 0"

definition icmpv6_code_ok :: "u8 \<Rightarrow> u8 \<Rightarrow> bool" where
  "icmpv6_code_ok type code =
     (if type \<in> {ICMPV6_ECHO_REQUEST, ICMPV6_ECHO_REPLY, ICMPV6_PACKET_TOO_BIG, ICMPV6_ROUTER_SOLICIT,
          ICMPV6_ROUTER_ADVERT, ICMPV6_NEIGHBOR_SOLICIT, ICMPV6_NEIGHBOR_ADVERT} then code = 0
      else if type = ICMPV6_UNREACHABLE then \<not> code > 4
      else if type = ICMPV6_TTL_EXCEEDED then \<not> code > 1
      else if type = ICMPV6_PARAM_PROBLEM then \<not> code > 2
      else True)"

definition icmpv6_parse :: "span \<Rightarrow> v6_Header \<Rightarrow> Endian \<Rightarrow> bool \<Rightarrow> (icmpv6_Header \<times> span) res" where
  "icmpv6_parse span ip_header endian verify_checksum =
     (if length span < icmpv6_HEADER_LEN then Err UnexpectedEof
      else bind_res (memcpy span icmpv6_HEADER_LEN) (\<lambda>b.
        let header = \<lparr> icmpv6_type = b ! 0, icmpv6_code = b ! 1, icmpv6_checksum = raw16 b 2,
              icmpv6_union = take 4 (drop 4 b) \<rparr>;
            len = unat (v6_payload_length ip_header) in
        if length span < len then Err MalformedHeader
        else let header = header \<lparr> icmpv6_checksum := toHost16 (icmpv6_checksum header) endian \<rparr> in
        if \<not> icmpv6_code_ok (icmpv6_type header) (icmpv6_code header) then Err InvalidFieldValue
        else let header =
              (if icmpv6_type header = ICMPV6_PACKET_TOO_BIG then
                 header \<lparr> icmpv6_union := le_bytes32 (toHost32 (icmpv6_mtu header) endian) \<rparr>
               else if icmpv6_type header = ICMPV6_PARAM_PROBLEM then
                 header \<lparr> icmpv6_union := le_bytes32 (toHost32 (icmpv6_pointer header) endian) \<rparr>
               else if icmpv6_type header = ICMPV6_ECHO_REQUEST \<or> icmpv6_type header = ICMPV6_ECHO_REPLY then
                 header \<lparr> icmpv6_union := le_bytes16 (toHost16 (icmpv6_echo_id header) endian) @
                    le_bytes16 (toHost16 (icmpv6_echo_seq header) endian) \<rparr>
               else header) in
        if icmpv6_type header = ICMPV6_PACKET_TOO_BIG \<and> icmpv6_mtu header < icmpv6_MIN_MTU
        then Err InvalidFieldValue
        else bind_res (if verify_checksum then verifyChecksum span len (v6_computePseudoHeaderSum ip_header)
            else Ok True) (\<lambda>valid.
        if \<not> valid then Err ChecksumMismatch
        else bind_res (subspan span icmpv6_HEADER_LEN) (\<lambda>span. Ok (header, span)))))"

section \<open>The parsers keep the contract\<close>

lemma tcp_parse_post:
  "holds (\<lambda>(h, rest). 20 \<le> tcp_header_length h \<and> tcp_header_length h \<le> len \<and> len \<le> length span \<and>
       rest = drop (tcp_header_length h) span) (tcp_parse span len pseudo endian verify)"
  unfolding tcp_parse_def Let_def tcp_MIN_HEADER_LEN_def tcp_MAX_HEADER_LEN_def
  by (intro safe_intro) (auto simp: tcp_toHost_def tcp_header_length_def tcp_data_offset_def)

lemma udp_parse_post:
  "holds (\<lambda>(h, rest). 8 \<le> unat (udp_length h) \<and> unat (udp_length h) \<le> length span \<and>
       rest = take (unat (udp_length h) - 8) (drop 8 span)) (udp_parse span pseudo endian zero verify)"
  unfolding udp_parse_def Let_def udp_HEADER_LEN_def
  by (intro safe_intro) (auto simp: udp_toHost_def)

interpretation tcp: header_parser "\<lambda>span. tcp_parse span len pseudo endian verify"
  by unfold_locales (rule holds_mono [OF tcp_parse_post], auto)

interpretation udp: header_parser "\<lambda>span. udp_parse span pseudo endian zero verify"
  by unfold_locales (rule holds_mono [OF udp_parse_post], auto simp: sublist_take_drop)

lemma icmp_parse_post:
  "holds (\<lambda>(h, rest). 8 \<le> length span \<and> rest = drop 8 span \<and> icmp_code_ok (icmp_type h) (icmp_code h))
     (icmp_parse span endian verify)"
  unfolding icmp_parse_def Let_def icmp_HEADER_LEN_def
  by (intro safe_intro) (auto simp: icmp_gateway_def)

lemma icmpv6_parse_post:
  "holds (\<lambda>(h, rest). 8 \<le> length span \<and> rest = drop 8 span \<and> icmpv6_code_ok (icmpv6_type h) (icmpv6_code h))
     (icmpv6_parse span ip endian verify)"
  unfolding icmpv6_parse_def Let_def icmpv6_HEADER_LEN_def
  by (intro safe_intro) (auto simp: icmpv6_mtu_def)

interpretation icmp: header_parser "\<lambda>span. icmp_parse span endian verify"
  by unfold_locales (rule holds_mono [OF icmp_parse_post], auto)

interpretation icmpv6: header_parser "\<lambda>span. icmpv6_parse span ip endian verify"
  by unfold_locales (rule holds_mono [OF icmpv6_parse_post], auto)

section \<open>Checksums over the pseudo header\<close>

lemma even_pseudo_bytes:
  "even (length (v4_pseudo_bytes h))"
  "length (v6_src_ip g) = 16 \<Longrightarrow> length (v6_dst_ip g) = 16 \<Longrightarrow> even (length (v6_pseudo_bytes g))"
  by (simp_all add: v4_pseudo_bytes_def v6_pseudo_bytes_def)

lemma checksum_ok_pseudo:
  "even (length ps) \<Longrightarrow> checksum_ok bs (be_sum ps) = checksum_ok (ps @ bs) 0"
  by (simp add: checksum_ok_def be_sum_append)

text \<open>The checksum is a gate in front of the parser that ignores it.\<close>

lemma tcp_parse_gate:
  assumes "len < 4294967296" and "unat pseudo < 281474976710656"
  shows "tcp_parse span len pseudo endian True = Ok r \<longleftrightarrow>
    tcp_parse span len pseudo endian False = Ok r \<and> checksum_ok (take len span) (unat pseudo)"
proof -
  have "verifyChecksum span len pseudo = Ok (checksum_ok (take len span) (unat pseudo))" if "\<not> length span < len"
    using that assms verifyChecksum_full [of "take len span" pseudo]
    by (subst verifyChecksum_take) simp_all
  then show ?thesis
    by (simp add: tcp_parse_def tcp_MIN_HEADER_LEN_def tcp_MAX_HEADER_LEN_def Let_def)
qed

lemma udp_parse_gate:
  assumes "unat pseudo < 281474976710656"
  shows "udp_parse span pseudo endian zero True = Ok (h, rest) \<longleftrightarrow>
    udp_parse span pseudo endian zero False = Ok (h, rest) \<and>
    (zero \<and> raw16 span 6 = 0 \<or> checksum_ok (take (unat (udp_length h)) span) (unat pseudo))"
proof -
  have "verifyChecksum span (unat n) pseudo = Ok (checksum_ok (take (unat n) span) (unat pseudo))"
    if "\<not> length span < unat n" for n :: u16
    using that assms verifyChecksum_full [of "take (unat n) span" pseudo] unat_u16_less [of n]
    by (subst verifyChecksum_take) simp_all
  moreover have "raw16 (take 8 span) 6 = raw16 span 6" by (simp add: raw16_def drop_take)
  ultimately show ?thesis
    by (auto simp: udp_parse_def udp_HEADER_LEN_def udp_toHost_def udp_raw_def Let_def)
qed

lemma v4_payload_len:
  assumes "unat (v4_header_length ip) \<le> unat (v4_total_length ip)"
  shows "unat (ucast (v4_total_length ip) - ucast (v4_header_length ip) :: u64) =
    unat (v4_total_length ip) - unat (v4_header_length ip)"
  using assms by (subst unat_sub) (simp_all add: word_le_nat_alt)

section \<open>Wire format\<close>

definition tcp_bytes :: "tcp_Header \<Rightarrow> u8 list" where
  "tcp_bytes h = bytes16 (tcp_src_port h) @ bytes16 (tcp_dst_port h) @ bytes32 (tcp_seq_number h) @
     bytes32 (tcp_ack_number h) @ [tcp_data_offset_reserved h, tcp_flags h] @ bytes16 (tcp_window_size h) @
     bytes16 (tcp_checksum h) @ bytes16 (tcp_urgent_pointer h)"

lemma length_tcp_bytes [simp]: "length (tcp_bytes h) = 20"
  by (simp add: tcp_bytes_def)

lemma tcp_toHost_raw_bytes:
  "tcp_toHost (tcp_raw (tcp_bytes h)) Big = h \<lparr> tcp_checksum := bswap16 (tcp_checksum h) \<rparr>"
proof -
  let ?b = "tcp_bytes h"
  let ?p1 = "bytes16 (tcp_src_port h)"
  let ?p2 = "?p1 @ bytes16 (tcp_dst_port h)"
  let ?p3 = "?p2 @ bytes32 (tcp_seq_number h)"
  let ?p4 = "?p3 @ bytes32 (tcp_ack_number h) @ [tcp_data_offset_reserved h, tcp_flags h]"
  let ?p5 = "?p4 @ bytes16 (tcp_window_size h)"
  let ?p6 = "?p5 @ bytes16 (tcp_checksum h)"
  have f: "be16 ?b 0 = tcp_src_port h" "be16 ?b 2 = tcp_dst_port h" "be32 ?b 4 = tcp_seq_number h"
    "be32 ?b 8 = tcp_ack_number h" "be16 ?b 14 = tcp_window_size h" "be16 ?b 16 = tcp_checksum h"
    "be16 ?b 18 = tcp_urgent_pointer h"
    unfolding tcp_bytes_def
    using be16_at [of "[]" 0] be16_at [of ?p1 2] be32_at [of ?p2 4] be32_at [of ?p3 8] be16_at [of ?p4 14]
      be16_at [of ?p5 16] be16_at [of ?p6 18 _ "[]"] by simp_all
  have "raw16 ?b 16 = bswap16 (toHost16 (raw16 ?b 16) Big)" by (simp add: toHost16_def)
  also have "\<dots> = bswap16 (tcp_checksum h)" by (simp add: wire_simps f)
  finally have "raw16 ?b 16 = bswap16 (tcp_checksum h)" .
  moreover have "?b ! 12 = tcp_data_offset_reserved h" "?b ! 13 = tcp_flags h"
    by (simp_all add: tcp_bytes_def bytes16_def bytes32_def)
  ultimately show ?thesis
    by (simp add: tcp_toHost_def tcp_raw_def wire_simps f)
qed

lemma tcp_parse_bytes:
  assumes "tcp_header_length h = 20 + length options"
  shows "tcp_parse (tcp_bytes h @ options @ payload) (20 + length options + length payload) pseudo Big False =
    Ok (h \<lparr> tcp_checksum := bswap16 (tcp_checksum h) \<rparr>, payload)"
proof -
  have "tcp_header_length (tcp_raw (tcp_bytes h)) = 20 + length options"
    using assms by (simp add: tcp_header_length_def tcp_data_offset_def tcp_raw_def tcp_bytes_def bytes16_def bytes32_def)
  moreover have "20 + length options \<le> 60"
  proof -
    have "unat (tcp_data_offset h) \<le> 15"
      using unat_u8_less [of "tcp_data_offset_reserved h"] by (simp add: tcp_data_offset_def unat_drop_bit)
    then show ?thesis using assms by (simp add: tcp_header_length_def)
  qed
  ultimately show ?thesis
    by (simp add: tcp_parse_def tcp_MIN_HEADER_LEN_def tcp_MAX_HEADER_LEN_def Let_def tcp_toHost_raw_bytes)
qed

section \<open>Properties\<close>

text \<open>
  TCP checksums are verified as RFC 793 and RFC 8200 prescribe: with verification on,
  a segment is accepted exactly when it is accepted without it and the one's complement
  sum over the pseudo header (source, destination, protocol, length) followed by the whole
  segment is all ones. The IP headers are those the IP parsers can return.
\<close>

theorem tcp_checksum_gate:
  assumes "unat (v4_header_length ip4) \<le> unat (v4_total_length ip4)"
    and "length (v6_src_ip ip6) = 16" and "length (v6_dst_ip ip6) = 16"
  shows "(tcp_parse_v4 span ip4 endian True = Ok r \<longleftrightarrow>
      tcp_parse_v4 span ip4 endian False = Ok r \<and>
      checksum_ok (v4_pseudo_bytes ip4 @ take (unat (v4_total_length ip4) - unat (v4_header_length ip4)) span) 0) \<and>
    (tcp_parse_v6 span ip6 endian True = Ok r \<longleftrightarrow>
      tcp_parse_v6 span ip6 endian False = Ok r \<and>
      checksum_ok (v6_pseudo_bytes ip6 @ take (unat (v6_payload_length ip6)) span) 0)"
proof -
  let ?n4 = "unat (v4_total_length ip4) - unat (v4_header_length ip4)" and ?n6 = "unat (v6_payload_length ip6)"
  note s4 = v4_pseudo_sum [OF assms(1)] and s6 = v6_pseudo_sum [OF assms(2,3)]
  have n: "?n4 < 4294967296" "?n6 < 4294967296"
    using unat_u16_less [of "v4_total_length ip4"] unat_u16_less [of "v6_payload_length ip6"] by simp_all
  show ?thesis
    using tcp_parse_gate [OF n(1), of "v4_computePseudoHeaderSum ip4" span endian r, unfolded s4(1), OF s4(2)]
      tcp_parse_gate [OF n(2), of "v6_computePseudoHeaderSum ip6" span endian r, unfolded s6(1), OF s6(2)]
    unfolding tcp_parse_v4_def tcp_parse_v6_def v4_payload_len [OF assms(1)] Let_def
      checksum_ok_pseudo [OF even_pseudo_bytes(1)] checksum_ok_pseudo [OF even_pseudo_bytes(2) [OF assms(2,3)]]
    by blast
qed

theorem tcp_checksum_gate_witness:
  "tcp_parse_v6 [0, 0, 0, 0, 0, 0, 0, 0, 0, 0, 0, 0, 0x50, 0, 0, 0, 0xAF, 0xE5, 0, 0]
     \<lparr> v6_version_tc_fl = 0x60000000, v6_payload_length = 20, v6_next_header = 6,
     v6_hop_limit = 64, v6_src_ip = [0, 0, 0, 0, 0, 0, 0, 0, 0, 0, 0, 0, 0, 0, 0, 0],
     v6_dst_ip = [0, 0, 0, 0, 0, 0, 0, 0, 0, 0, 0, 0, 0, 0, 0, 0] \<rparr> Big True =
   Ok (\<lparr> tcp_src_port = 0, tcp_dst_port = 0, tcp_seq_number = 0, tcp_ack_number = 0,
       tcp_data_offset_reserved = 0x50, tcp_flags = 0, tcp_window_size = 0, tcp_checksum = 0xE5AF,
       tcp_urgent_pointer = 0 \<rparr>, [])"
proof -
  let ?s = "[0, 0, 0, 0, 0, 0, 0, 0, 0, 0, 0, 0, 0x50, 0, 0, 0, 0xAF, 0xE5, 0, 0] :: u8 list"
  let ?ip6 = "\<lparr> v6_version_tc_fl = 0x60000000, v6_payload_length = 20, v6_next_header = 6,
     v6_hop_limit = 64, v6_src_ip = [0, 0, 0, 0, 0, 0, 0, 0, 0, 0, 0, 0, 0, 0, 0, 0],
     v6_dst_ip = [0, 0, 0, 0, 0, 0, 0, 0, 0, 0, 0, 0, 0, 0, 0, 0] \<rparr>"
  let ?ip4 = "\<lparr> v4_version_ihl = 0x45, v4_tos = 0, v4_total_length = 40, v4_identification = 1,
        v4_flags_fragment = 0x4000, v4_ttl = 64, v4_protocol = 6, v4_checksum = 0,
        v4_src_ip = 0x0A000001, v4_dst_ip = 0x0A000002 \<rparr>"
  let ?h = "\<lparr> tcp_src_port = 0, tcp_dst_port = 0, tcp_seq_number = 0, tcp_ack_number = 0,
       tcp_data_offset_reserved = 0x50, tcp_flags = 0, tcp_window_size = 0, tcp_checksum = 0xE5AF,
       tcp_urgent_pointer = 0 \<rparr>"
  have "unat (v4_header_length ?ip4) \<le> unat (v4_total_length ?ip4)"
    by (simp add: unat_v4_header_length unat_v4_ihl)
  moreover have "checksum_ok (v6_pseudo_bytes ?ip6 @ take 20 ?s) 0"
    by (simp add: checksum_ok_def v6_pseudo_bytes_def bytes16_def)
  moreover have "tcp_parse_v6 ?s ?ip6 Big False = Ok (?h, [])"
    by (simp add: tcp_parse_v6_def tcp_parse_def tcp_MIN_HEADER_LEN_def tcp_MAX_HEADER_LEN_def tcp_raw_def
        tcp_header_length_def tcp_data_offset_def unat_drop_bit tcp_toHost_def wire_simps be16_def be32_def
        raw16_def toHost16_def bswap16_def Let_def)
  ultimately show ?thesis
    using tcp_checksum_gate [of ?ip4 ?ip6 ?s Big "(?h, [])"] by simp
qed

text \<open>
  A serialised TCP segment is split into its header and its data behind the options,
  with every field in host order except the checksum, which stays byte-swapped: of the
  protocols the analyzer prints a checksum for, TCP is the only one it is not converted for.
\<close>

theorem tcp_parse_serialised:
  assumes "tcp_header_length h = 20 + length options"
  shows "tcp_parse (tcp_bytes h @ options @ payload) (20 + length options + length payload) pseudo Big False =
    Ok (h \<lparr> tcp_checksum := bswap16 (tcp_checksum h) \<rparr>, payload)"
  using assms by (rule tcp_parse_bytes)

text \<open>
  UDP checksums: with verification on, a datagram is accepted exactly when it is
  accepted without it and its checksum verifies over the pseudo header; over IPv4, and only
  there, a zero checksum field stands for "not computed" and is accepted.
\<close>

theorem udp_checksum_gate:
  assumes "unat (v4_header_length ip4) \<le> unat (v4_total_length ip4)"
    and "length (v6_src_ip ip6) = 16" and "length (v6_dst_ip ip6) = 16"
  shows "(udp_parse_v4 span ip4 endian True = Ok (h, rest) \<longleftrightarrow>
      udp_parse_v4 span ip4 endian False = Ok (h, rest) \<and>
      (raw16 span 6 = 0 \<or> checksum_ok (v4_pseudo_bytes ip4 @ take (unat (udp_length h)) span) 0)) \<and>
    (udp_parse_v6 span ip6 endian True = Ok (h, rest) \<longleftrightarrow>
      udp_parse_v6 span ip6 endian False = Ok (h, rest) \<and>
      checksum_ok (v6_pseudo_bytes ip6 @ take (unat (udp_length h)) span) 0)"
proof -
  note s4 = v4_pseudo_sum [OF assms(1)] and s6 = v6_pseudo_sum [OF assms(2,3)]
  show ?thesis
    using udp_parse_gate [of "v4_computePseudoHeaderSum ip4" span endian True h rest, unfolded s4(1), OF s4(2)]
      udp_parse_gate [of "v6_computePseudoHeaderSum ip6" span endian False h rest, unfolded s6(1), OF s6(2)]
    unfolding udp_parse_v4_def udp_parse_v6_def
      checksum_ok_pseudo [OF even_pseudo_bytes(1)] checksum_ok_pseudo [OF even_pseudo_bytes(2) [OF assms(2,3)]]
    by blast
qed

end
