(* ===== verification/Packets.thy ===== *)
theory Packets
  imports Arp Transport
begin

text \<open>
  The decoded packet (\<^verbatim>\<open>include/net/decode/packet.h\<close>, \<^verbatim>\<open>src/net/decode/packet.cpp\<close>)
  and the layered decoder (\<^verbatim>\<open>src/net/decode/packet_decoder.cpp\<close>).

  The three \<open>std::variant\<close> members are datatypes. \<open>decodePacket\<close> writes through a
  reference; here it returns the packet. When it fails, the headers written so far are
  never read: \<open>reset\<close> and \<open>setDatatypeFromLinktype\<close> overwrite them before the next packet.
\<close>

section \<open>The packet\<close>

datatype DataLinkHeader = DL_monostate | DL_Ethernet ethernet_Header
datatype NetworkHeader = Net_monostate | Net_Ipv4 v4_Header | Net_Ipv6 v6_Header | Net_Arp arp_Header
datatype TransportHeader =
  Tp_monostate | Tp_Tcp tcp_Header | Tp_Udp udp_Header | Tp_Icmp icmp_Header | Tp_Icmpv6 icmpv6_Header

record Packet =
  datalink :: DataLinkHeader
  vlan_tags :: "vlan_Header list"
  network :: NetworkHeader
  ipv6_ext :: "ext_Header list"
  transport :: TransportHeader
  payload :: span

definition isEthernet :: "Packet \<Rightarrow> bool" where "isEthernet p = (case datalink p of DL_Ethernet _ \<Rightarrow> True | _ \<Rightarrow> False)"
definition isVlan :: "Packet \<Rightarrow> bool" where "isVlan p = (vlan_tags p \<noteq> [])"
definition isIpv4 :: "Packet \<Rightarrow> bool" where "isIpv4 p = (case network p of Net_Ipv4 _ \<Rightarrow> True | _ \<Rightarrow> False)"
definition isIpv6 :: "Packet \<Rightarrow> bool" where "isIpv6 p = (case network p of Net_Ipv6 _ \<Rightarrow> True | _ \<Rightarrow> False)"
definition hasIpv6Ext :: "Packet \<Rightarrow> bool" where "hasIpv6Ext p = (ipv6_ext p \<noteq> [])"
definition isArp :: "Packet \<Rightarrow> bool" where "isArp p = (case network p of Net_Arp _ \<Rightarrow> True | _ \<Rightarrow> False)"
definition isTcp :: "Packet \<Rightarrow> bool" where "isTcp p = (case transport p of Tp_Tcp _ \<Rightarrow> True | _ \<Rightarrow> False)"
definition isUdp :: "Packet \<Rightarrow> bool" where "isUdp p = (case transport p of Tp_Udp _ \<Rightarrow> True | _ \<Rightarrow> False)"
definition isIcmp :: "Packet \<Rightarrow> bool" where "isIcmp p = (case transport p of Tp_Icmp _ \<Rightarrow> True | _ \<Rightarrow> False)"
definition isIcmpv6 :: "Packet \<Rightarrow> bool" where "isIcmpv6 p = (case transport p of Tp_Icmpv6 _ \<Rightarrow> True | _ \<Rightarrow> False)"

text \<open>Value-initialised headers, as the setters store them.\<close>

definition ethernet_zero :: ethernet_Header where
  "ethernet_zero = \<lparr> eth_dst_mac = replicate 6 0, eth_src_mac = replicate 6 0, eth_ethertype = 0 \<rparr>"

definition v4_zero :: v4_Header where
  "v4_zero = \<lparr> v4_version_ihl = 0, v4_tos = 0, v4_total_length = 0, v4_identification = 0,
     v4_flags_fragment = 0, v4_ttl = 0, v4_protocol = 0, v4_checksum = 0, v4_src_ip = 0, v4_dst_ip = 0 \<rparr>"

definition v6_zero :: v6_Header where
  "v6_zero = \<lparr> v6_version_tc_fl = 0, v6_payload_length = 0, v6_next_header = 0, v6_hop_limit = 0,
     v6_src_ip = replicate 16 0, v6_dst_ip = replicate 16 0 \<rparr>"

definition arp_zero :: arp_Header where
  "arp_zero = \<lparr> arp_htype = 0, arp_ptype = 0, arp_hlen = 0, arp_plen = 0, arp_oper = 0,
     arp_sha = [], arp_spa = [], arp_tha = [], arp_tpa = [] \<rparr>"

definition tcp_zero :: tcp_Header where
  "tcp_zero = \<lparr> tcp_src_port = 0, tcp_dst_port = 0, tcp_seq_number = 0, tcp_ack_number = 0,
     tcp_data_offset_reserved = 0, tcp_flags = 0, tcp_window_size = 0, tcp_checksum = 0, tcp_urgent_pointer = 0 \<rparr>"

definition udp_zero :: udp_Header where
  "udp_zero = \<lparr> udp_src_port = 0, udp_dst_port = 0, udp_length = 0, udp_checksum = 0 \<rparr>"

definition icmp_zero :: icmp_Header where
  "icmp_zero = \<lparr> icmp_type = 0, icmp_code = 0, icmp_checksum = 0, icmp_union = replicate 4 0 \<rparr>"

definition icmpv6_zero :: icmpv6_Header where
  "icmpv6_zero = \<lparr> icmpv6_type = 0, icmpv6_code = 0, icmpv6_checksum = 0, icmpv6_union = replicate 4 0 \<rparr>"

definition LINKTYPE_ETHERNET :: u32 where "LINKTYPE_ETHERNET = 1"

definition setDatatypeFromLinktype :: "Packet \<Rightarrow> u32 \<Rightarrow> Packet" where
  "setDatatypeFromLinktype p linktype =
     p \<lparr> datalink := (if linktype = LINKTYPE_ETHERNET then DL_Ethernet ethernet_zero else DL_monostate) \<rparr>"

definition setNetworkFromEthertype :: "Packet \<Rightarrow> u16 \<Rightarrow> Packet" where
  "setNetworkFromEthertype p ethertype =
     p \<lparr> network :=
       (if ethertype = ETHERTYPE_IPV4 then Net_Ipv4 v4_zero
        else if ethertype = ETHERTYPE_IPV6 then Net_Ipv6 v6_zero
        else if ethertype = ETHERTYPE_ARP then Net_Arp arp_zero
        else Net_monostate) \<rparr>"

definition setTransportFromProtocol :: "Packet \<Rightarrow> u8 \<Rightarrow> Packet" where
  "setTransportFromProtocol p protocol =
     p \<lparr> transport :=
       (if protocol = PROTOCOL_TCP then Tp_Tcp tcp_zero
        else if protocol = PROTOCOL_UDP then Tp_Udp udp_zero
        else if protocol = PROTOCOL_ICMP then Tp_Icmp icmp_zero
        else if protocol = PROTOCOL_ICMPV6 then Tp_Icmpv6 icmpv6_zero
        else Tp_monostate) \<rparr>"

definition Packet_reset :: "Packet \<Rightarrow> Packet" where
  "Packet_reset p = p \<lparr> vlan_tags := [], network := Net_monostate, ipv6_ext := [], transport := Tp_monostate \<rparr>"

section \<open>Layer 2\<close>

text \<open>The \<open>while\<close> over stacked VLAN tags; it returns the final ethertype.\<close>

function decode_vlan_loop :: "u16 \<Rightarrow> vlan_Header list \<Rightarrow> span \<Rightarrow> (u16 \<times> vlan_Header list \<times> span) res" where
  "decode_vlan_loop ethertype tags span =
     (if ethertype = ETHERTYPE_VLAN \<or> ethertype = ETHERTYPE_VLAN_QQ then
        if length tags \<ge> vlan_MAX_TAGS then Err MalformedHeader
        else bind_res (vlan_parse span Big) (\<lambda>(vtag, span).
          decode_vlan_loop (vlan_ethertype vtag) (tags @ [vtag]) span)
      else Ok (ethertype, tags, span))"
  by pat_completeness auto
termination
  by (relation "measure (\<lambda>(_, tags, _). vlan_MAX_TAGS - length tags)") auto

declare decode_vlan_loop.simps [simp del]

definition decodeLayer2 :: "span \<Rightarrow> Packet \<Rightarrow> (Packet \<times> span) res" where
  "decodeLayer2 span out =
     (case datalink out of
        DL_Ethernet _ \<Rightarrow>
          bind_res (ethernet_parse span Big) (\<lambda>(eth, span).
          bind_res (decode_vlan_loop (eth_ethertype eth) (vlan_tags out) span) (\<lambda>(ethertype, tags, span).
            let out = out \<lparr> datalink := DL_Ethernet (eth \<lparr> eth_ethertype := ethertype \<rparr>), vlan_tags := tags \<rparr> in
            Ok (setNetworkFromEthertype out ethertype, span)))
      | DL_monostate \<Rightarrow> Err UnsupportedLinktype)"

section \<open>Layer 3\<close>

text \<open>
  The walk over IPv6 extension headers; \<open>None\<close> as protocol is the early return at a
  fragment, which leaves the transport unset.
\<close>

function decode_ext_loop :: "u8 \<Rightarrow> ext_Header list \<Rightarrow> span \<Rightarrow> (u8 option \<times> ext_Header list \<times> span) res" where
  "decode_ext_loop next_header exts span =
     (if ext_isExtension next_header then
        if length exts \<ge> ext_MAX_HEADERS then Err MalformedHeader
        else if next_header = PROTOCOL_HOPOPT \<and> exts \<noteq> [] then Err InvalidFieldValue
        else bind_res (ext_parse span next_header Big) (\<lambda>(ext, span).
          if ext_isFragment ext then Ok (None, exts @ [ext], span)
          else decode_ext_loop (ext_next_header ext) (exts @ [ext]) span)
      else Ok (Some next_header, exts, span))"
  by pat_completeness auto
termination
  by (relation "measure (\<lambda>(_, exts, _). ext_MAX_HEADERS - length exts)") auto

declare decode_ext_loop.simps [simp del]

definition decodeLayer3 :: "span \<Rightarrow> Packet \<Rightarrow> bool \<Rightarrow> (Packet \<times> span) res" where
  "decodeLayer3 span out verify_checksum =
     (case network out of
        Net_Ipv4 _ \<Rightarrow>
          bind_res (v4_parse span Big verify_checksum) (\<lambda>(v4, span).
            Ok (setTransportFromProtocol (out \<lparr> network := Net_Ipv4 v4 \<rparr>) (v4_protocol v4), span))
      | Net_Ipv6 _ \<Rightarrow>
          bind_res (v6_parse span Big) (\<lambda>(v6, span).
          bind_res (decode_ext_loop (v6_next_header v6) (ipv6_ext out) span) (\<lambda>(protocol, exts, span).
            let out = out \<lparr> network := Net_Ipv6 v6, ipv6_ext := exts \<rparr> in
            (case protocol of
               None \<Rightarrow> Ok (out, span)
             | Some next_header \<Rightarrow> Ok (setTransportFromProtocol out next_header, span))))
      | Net_Arp _ \<Rightarrow>
          bind_res (arp_parse span Big) (\<lambda>(arp, span). Ok (out \<lparr> network := Net_Arp arp \<rparr>, span))
      | Net_monostate \<Rightarrow> Err UnsupportedNetworkType)"

section \<open>Layer 4\<close>

definition decodeLayer4 :: "span \<Rightarrow> Packet \<Rightarrow> bool \<Rightarrow> (Packet \<times> span) res" where
  "decodeLayer4 span out verify_checksum =
     (case network out of
        Net_Ipv4 ip \<Rightarrow>
          (case transport out of
             Tp_Tcp _ \<Rightarrow> bind_res (tcp_parse_v4 span ip Big verify_checksum)
               (\<lambda>(h, span). Ok (out \<lparr> transport := Tp_Tcp h \<rparr>, span))
           | Tp_Udp _ \<Rightarrow> bind_res (udp_parse_v4 span ip Big verify_checksum)
               (\<lambda>(h, span). Ok (out \<lparr> transport := Tp_Udp h \<rparr>, span))
           | Tp_Icmp _ \<Rightarrow> bind_res (icmp_parse span Big verify_checksum)
               (\<lambda>(h, span). Ok (out \<lparr> transport := Tp_Icmp h \<rparr>, span))
           | Tp_Icmpv6 _ \<Rightarrow> Err UnsupportedTransportType
           | Tp_monostate \<Rightarrow> Err UnsupportedTransportType)
      | Net_Ipv6 fixed \<Rightarrow>
          (let ip = (if hasIpv6Ext out then ext_pseudoHeader fixed (ipv6_ext out) (length span) else fixed) in
           case transport out of
             Tp_Tcp _ \<Rightarrow> bind_res (tcp_parse_v6 span ip Big verify_checksum)
               (\<lambda>(h, span). Ok (out \<lparr> transport := Tp_Tcp h \<rparr>, span))
           | Tp_Udp _ \<Rightarrow> bind_res (udp_parse_v6 span ip Big verify_checksum)
               (\<lambda>(h, span). Ok (out \<lparr> transport := Tp_Udp h \<rparr>, span))
           | Tp_Icmp _ \<Rightarrow> Err UnsupportedTransportType
           | Tp_Icmpv6 _ \<Rightarrow> bind_res (icmpv6_parse span ip Big verify_checksum)
               (\<lambda>(h, span). Ok (out \<lparr> transport := Tp_Icmpv6 h \<rparr>, span))
           | Tp_monostate \<Rightarrow> Err UnsupportedTransportType)
      | Net_Arp _ \<Rightarrow> Ok (out, span)
      | Net_monostate \<Rightarrow> Err UnsupportedTransportType)"

definition decodePacket :: "span \<Rightarrow> Packet \<Rightarrow> bool \<Rightarrow> (Packet \<times> span) res" where
  "decodePacket span out verify_checksum =
     bind_res (decodeLayer2 span out) (\<lambda>(out, span).
     bind_res (decodeLayer3 span out verify_checksum) (\<lambda>(out, span).
     if isArp out then Ok (out, span)
     else bind_res (decodeLayer4 span out verify_checksum) (\<lambda>(out, span).
     Ok (out \<lparr> payload := span \<rparr>, span))))"

section \<open>The loops\<close>

lemma sublist_shorter_trans:
  "sublist a b \<Longrightarrow> sublist b c \<Longrightarrow> sublist a c"
  by (rule sublist_order.order.trans)

lemma holds_vlan_loop:
  assumes "length tags \<le> 4" and "list_all (\<lambda>t. vlan_vid t \<noteq> VID_RESERVED) tags"
  shows "holds (\<lambda>(et, tags', rest). et \<noteq> ETHERTYPE_VLAN \<and> et \<noteq> ETHERTYPE_VLAN_QQ \<and> length tags' \<le> 4 \<and>
    list_all (\<lambda>t. vlan_vid t \<noteq> VID_RESERVED) tags' \<and> sublist rest span) (decode_vlan_loop et0 tags span)"
  using assms
proof (induction et0 tags span rule: decode_vlan_loop.induct)
  case (1 et0 tags span)
  show ?case
  proof (cases "(et0 = ETHERTYPE_VLAN \<or> et0 = ETHERTYPE_VLAN_QQ) \<and> length tags < vlan_MAX_TAGS")
    case False
    with "1.prems" show ?thesis by (auto simp: decode_vlan_loop.simps [of et0 tags span] not_less)
  next
    case True
    have "holds (\<lambda>(et, tags', rest). et \<noteq> ETHERTYPE_VLAN \<and> et \<noteq> ETHERTYPE_VLAN_QQ \<and> length tags' \<le> 4 \<and>
        list_all (\<lambda>t. vlan_vid t \<noteq> VID_RESERVED) tags' \<and> sublist rest span)
        (bind_res (vlan_parse span Big) (\<lambda>(vtag, span).
          decode_vlan_loop (vlan_ethertype vtag) (tags @ [vtag]) span))"
    proof (rule vlan.holds_next)
      fix h rest
      assume h: "vlan_parse span Big = Ok (h, rest)" and sub: "sublist rest span"
      have "length (tags @ [h]) \<le> 4" using True by (simp add: vlan_MAX_TAGS_def)
      moreover have "list_all (\<lambda>t. vlan_vid t \<noteq> VID_RESERVED) (tags @ [h])"
        using "1.prems"(2) vlan_parse_vid [OF h] by simp
      ultimately show "holds (\<lambda>(et, tags', rest). et \<noteq> ETHERTYPE_VLAN \<and> et \<noteq> ETHERTYPE_VLAN_QQ \<and>
          length tags' \<le> 4 \<and> list_all (\<lambda>t. vlan_vid t \<noteq> VID_RESERVED) tags' \<and> sublist rest span)
          (case (h, rest) of (vtag, span) \<Rightarrow> decode_vlan_loop (vlan_ethertype vtag) (tags @ [vtag]) span)"
        using "1.IH" [of "(h, rest)" h rest] True h sub
        by (auto simp: holds_iff intro: sublist_shorter_trans)
    qed
    with True show ?thesis by (simp add: decode_vlan_loop.simps [of et0 tags span])
  qed
qed

text \<open>
  Only the last header of a chain can be a fragment, and a chain that ended at a fragment
  selects no transport protocol.
\<close>

definition ext_chain :: "ext_Header list \<Rightarrow> bool" where
  "ext_chain exts \<longleftrightarrow> length exts \<le> 8 \<and> list_all (\<lambda>e. ext_isExtension (ext_type e)) exts \<and>
     list_all (\<lambda>e. \<not> ext_isFragment e) (butlast exts) \<and>
     list_all (\<lambda>e. ext_type e \<noteq> PROTOCOL_HOPOPT) (tl exts) \<and>
     list_all (\<lambda>e. length (ext_final_dst e) = 16) exts"

lemma ext_chain_snoc:
  assumes "ext_chain exts" and "list_all (\<lambda>e. \<not> ext_isFragment e) exts" and "length exts < 8"
    and "ext_isExtension (ext_type e)" and "\<not> (ext_type e = PROTOCOL_HOPOPT \<and> exts \<noteq> [])"
    and "length (ext_final_dst e) = 16"
  shows "ext_chain (exts @ [e])"
  using assms by (cases exts) (auto simp: ext_chain_def)

lemma holds_ext_loop:
  assumes "ext_chain exts" and "list_all (\<lambda>e. \<not> ext_isFragment e) exts"
  shows "holds (\<lambda>(protocol, exts', rest). ext_chain exts' \<and> sublist rest span \<and>
    (length exts < length exts' \<or> rest = span) \<and> length exts \<le> length exts' \<and>
    (case protocol of
       None \<Rightarrow> exts' \<noteq> [] \<and> ext_isFragment (last exts')
     | Some p \<Rightarrow> \<not> ext_isExtension p \<and> list_all (\<lambda>e. \<not> ext_isFragment e) exts'))
    (decode_ext_loop nh exts span)"
  using assms
proof (induction nh exts span rule: decode_ext_loop.induct)
  case (1 nh exts span)
  let ?stop = "\<not> ext_isExtension nh \<or> length exts \<ge> ext_MAX_HEADERS \<or> nh = PROTOCOL_HOPOPT \<and> exts \<noteq> []"
  show ?case
  proof (cases ?stop)
    case True
    with "1.prems" show ?thesis by (auto simp: decode_ext_loop.simps [of nh exts span])
  next
    case False
    let ?Q = "\<lambda>(protocol, exts', rest). ext_chain exts' \<and> sublist rest span \<and>
      (length exts < length exts' \<or> rest = span) \<and> length exts \<le> length exts' \<and>
      (case protocol of None \<Rightarrow> exts' \<noteq> [] \<and> ext_isFragment (last exts')
       | Some p \<Rightarrow> \<not> ext_isExtension p \<and> list_all (\<lambda>e. \<not> ext_isFragment e) exts')"
    have "holds ?Q (bind_res (ext_parse span nh Big) (\<lambda>(ext, span).
          if ext_isFragment ext then Ok (None, exts @ [ext], span)
          else decode_ext_loop (ext_next_header ext) (exts @ [ext]) span))"
    proof (rule ipv6_ext.holds_next)
      fix h rest
      assume h: "ext_parse span nh Big = Ok (h, rest)" and sub: "sublist rest span"
      have "ext_type h = nh" "length (ext_final_dst h) = 16"
        using holds_OkD [OF ext_parse_post h] by simp_all
      then have chain: "ext_chain (exts @ [h])"
        using False "1.prems" by (intro ext_chain_snoc) (auto simp: ext_MAX_HEADERS_def)
      show "holds ?Q (case (h, rest) of (ext, span) \<Rightarrow>
          if ext_isFragment ext then Ok (None, exts @ [ext], span)
          else decode_ext_loop (ext_next_header ext) (exts @ [ext]) span)"
      proof (cases "ext_isFragment h")
        case True
        with chain sub show ?thesis by simp
      next
        case no_frag: False
        have "holds (\<lambda>(protocol, exts', rest'). ext_chain exts' \<and> sublist rest' rest \<and>
            (length (exts @ [h]) < length exts' \<or> rest' = rest) \<and> length (exts @ [h]) \<le> length exts' \<and>
            (case protocol of None \<Rightarrow> exts' \<noteq> [] \<and> ext_isFragment (last exts')
             | Some p \<Rightarrow> \<not> ext_isExtension p \<and> list_all (\<lambda>e. \<not> ext_isFragment e) exts'))
            (decode_ext_loop (ext_next_header h) (exts @ [h]) rest)"
          using "1.IH" [of "(h, rest)" h rest] False no_frag h chain "1.prems"(2) by auto
        then have "holds ?Q (decode_ext_loop (ext_next_header h) (exts @ [h]) rest)"
          by (rule holds_mono) (use sub in \<open>auto intro: sublist_shorter_trans\<close>)
        with no_frag show ?thesis by simp
      qed
    qed
    with False show ?thesis by (simp add: decode_ext_loop.simps [of nh exts span])
  qed
qed

section \<open>What each layer establishes\<close>

definition vlan_ok :: "vlan_Header list \<Rightarrow> bool" where
  "vlan_ok tags \<longleftrightarrow> length tags \<le> 4 \<and> list_all (\<lambda>t. vlan_vid t \<noteq> VID_RESERVED) tags"

lemma setNetworkFromEthertype_simps [simp]:
  "vlan_tags (setNetworkFromEthertype p e) = vlan_tags p" "ipv6_ext (setNetworkFromEthertype p e) = ipv6_ext p"
  "transport (setNetworkFromEthertype p e) = transport p" "payload (setNetworkFromEthertype p e) = payload p"
  by (simp_all add: setNetworkFromEthertype_def)

lemma setTransportFromProtocol_simps [simp]:
  "vlan_tags (setTransportFromProtocol p e) = vlan_tags p" "ipv6_ext (setTransportFromProtocol p e) = ipv6_ext p"
  "network (setTransportFromProtocol p e) = network p" "payload (setTransportFromProtocol p e) = payload p"
  by (simp_all add: setTransportFromProtocol_def)

lemma holds_decodeLayer2:
  assumes "vlan_ok (vlan_tags out)"
  shows "holds (\<lambda>(out', rest). vlan_ok (vlan_tags out') \<and> ipv6_ext out' = ipv6_ext out \<and>
    transport out' = transport out \<and> payload out' = payload out \<and> sublist rest span) (decodeLayer2 span out)"
proof (cases "datalink out")
  case DL_monostate
  then show ?thesis by (simp add: decodeLayer2_def)
next
  case (DL_Ethernet e)
  show ?thesis
    unfolding decodeLayer2_def DL_Ethernet DataLinkHeader.case
  proof (rule ethernet.holds_next)
    fix eth :: ethernet_Header and rest
    assume sub: "sublist rest span"
    have "holds (\<lambda>(et, tags', rest'). et \<noteq> ETHERTYPE_VLAN \<and> et \<noteq> ETHERTYPE_VLAN_QQ \<and> length tags' \<le> 4 \<and>
        list_all (\<lambda>t. vlan_vid t \<noteq> VID_RESERVED) tags' \<and> sublist rest' rest)
        (decode_vlan_loop (eth_ethertype eth) (vlan_tags out) rest)"
      using assms by (intro holds_vlan_loop) (auto simp: vlan_ok_def)
    then show "holds (\<lambda>(out', rest). vlan_ok (vlan_tags out') \<and> ipv6_ext out' = ipv6_ext out \<and>
        transport out' = transport out \<and> payload out' = payload out \<and> sublist rest span)
        (case (eth, rest) of (eth, span) \<Rightarrow>
          bind_res (decode_vlan_loop (eth_ethertype eth) (vlan_tags out) span) (\<lambda>(ethertype, tags, span).
            let out = out \<lparr> datalink := DL_Ethernet (eth \<lparr> eth_ethertype := ethertype \<rparr>), vlan_tags := tags \<rparr> in
            Ok (setNetworkFromEthertype out ethertype, span)))"
      using sub by (cases "decode_vlan_loop (eth_ethertype eth) (vlan_tags out) rest")
        (auto simp: vlan_ok_def Let_def intro: sublist_shorter_trans)
  qed
qed

text \<open>
  What layer 3 leaves for layer 4: lengths that agree with the buffer, the protocol of a
  chain without fragments.
\<close>

definition network_ok :: "Packet \<Rightarrow> nat \<Rightarrow> bool" where
  "network_ok p len =
     (case network p of
        Net_Ipv4 h \<Rightarrow> 20 \<le> unat (v4_header_length h) \<and>
          unat (v4_header_length h) + len = unat (v4_total_length h) \<and> ipv6_ext p = []
      | Net_Ipv6 h \<Rightarrow> len \<le> unat (v6_payload_length h) \<and> length (v6_src_ip h) = 16 \<and> length (v6_dst_ip h) = 16 \<and>
          ext_chain (ipv6_ext p) \<and> (ipv6_ext p = [] \<longrightarrow> len = unat (v6_payload_length h)) \<and>
          (transport p \<noteq> Tp_monostate \<longrightarrow> list_all (\<lambda>e. \<not> ext_isFragment e) (ipv6_ext p))
      | Net_Arp h \<Rightarrow> ipv6_ext p = [] \<and> transport p = Tp_monostate
      | Net_monostate \<Rightarrow> False)"

lemma holds_decodeLayer3:
  assumes "ipv6_ext out = []" and "transport out = Tp_monostate"
  shows "holds (\<lambda>(out', rest). vlan_tags out' = vlan_tags out \<and> payload out' = payload out \<and>
    network_ok out' (length rest) \<and> sublist rest span) (decodeLayer3 span out verify)"
proof (cases "network out")
  case Net_monostate
  then show ?thesis by (simp add: decodeLayer3_def)
next
  case (Net_Ipv4 h)
  show ?thesis
    unfolding decodeLayer3_def Net_Ipv4 NetworkHeader.case
    by (rule ipv4.holds_next)
       (use holds_OkD [OF v4_parse_post] assms in \<open>fastforce simp: network_ok_def\<close>)
next
  case (Net_Arp h)
  show ?thesis
    unfolding decodeLayer3_def Net_Arp NetworkHeader.case
    by (rule arp.holds_next) (use assms in \<open>simp add: network_ok_def\<close>)
next
  case (Net_Ipv6 h)
  show ?thesis
    unfolding decodeLayer3_def Net_Ipv6 NetworkHeader.case
  proof (rule ipv6.holds_next)
    fix v6 rest
    assume v6: "v6_parse span Big = Ok (v6, rest)" and sub: "sublist rest span"
    have len: "length rest = unat (v6_payload_length v6)" "length (v6_src_ip v6) = 16" "length (v6_dst_ip v6) = 16"
      using holds_OkD [OF v6_parse_post v6] by auto
    have part: "sublist b span \<and> length b \<le> unat (v6_payload_length v6)" if "sublist b rest" for b
      using that sub sublist_length_le [OF that] len by (auto intro: sublist_shorter_trans)
    let ?loop = "decode_ext_loop (v6_next_header v6) [] rest"
    have loop: "holds (\<lambda>(protocol, exts', rest'). ext_chain exts' \<and> sublist rest' rest \<and>
        (exts' = [] \<longrightarrow> rest' = rest) \<and>
        (case protocol of None \<Rightarrow> exts' \<noteq> [] \<and> ext_isFragment (last exts')
         | Some p \<Rightarrow> \<not> ext_isExtension p \<and> list_all (\<lambda>e. \<not> ext_isFragment e) exts')) ?loop"
      by (rule holds_mono [OF holds_ext_loop [of "[]" rest "v6_next_header v6"]]) (auto simp: ext_chain_def)
    show "holds (\<lambda>(out', rest). vlan_tags out' = vlan_tags out \<and> payload out' = payload out \<and>
        network_ok out' (length rest) \<and> sublist rest span)
        (case (v6, rest) of (v6, span) \<Rightarrow>
          bind_res (decode_ext_loop (v6_next_header v6) (ipv6_ext out) span) (\<lambda>(protocol, exts, span).
            let out = out \<lparr> network := Net_Ipv6 v6, ipv6_ext := exts \<rparr> in
            (case protocol of
               None \<Rightarrow> Ok (out, span)
             | Some next_header \<Rightarrow> Ok (setTransportFromProtocol out next_header, span))))"
      using assms loop len part
      by (cases ?loop) (auto simp: Let_def network_ok_def split: option.splits)
  qed
qed

text \<open>A decoded packet, relative to the bytes it was decoded from.\<close>

definition Packet_wf :: "span \<Rightarrow> Packet \<Rightarrow> bool" where
  "Packet_wf span p \<longleftrightarrow> vlan_ok (vlan_tags p) \<and> ext_chain (ipv6_ext p) \<and>
     list_all (\<lambda>e. \<not> ext_isFragment e) (ipv6_ext p) \<and>
     (case network p of
        Net_Ipv4 h \<Rightarrow> ipv6_ext p = [] \<and> (isTcp p \<or> isUdp p \<or> isIcmp p) \<and> sublist (payload p) span \<and>
          unat (v4_header_length h) + length (payload p) \<le> unat (v4_total_length h)
      | Net_Ipv6 h \<Rightarrow> (isTcp p \<or> isUdp p \<or> isIcmpv6 p) \<and> sublist (payload p) span \<and>
          length (payload p) \<le> unat (v6_payload_length h)
      | Net_Arp h \<Rightarrow> ipv6_ext p = [] \<and> transport p = Tp_monostate
      | Net_monostate \<Rightarrow> False)"

lemma sublist_lengths: "sublist a b \<Longrightarrow> length b + n = m \<Longrightarrow> n + length a \<le> m"
  using sublist_length_le [of a b] by linarith

lemmas layer4_next = tcp.holds_next udp.holds_next icmp.holds_next icmpv6.holds_next

lemma holds_decodeLayer4:
  assumes "vlan_ok (vlan_tags out)" and "network_ok out (length span)" and "\<not> isArp out"
  shows "holds (\<lambda>(out', rest). Packet_wf span (out' \<lparr> payload := rest \<rparr>)) (decodeLayer4 span out verify)"
proof (cases "network out")
  case (Net_Ipv4 h)
  with assms(2) have h: "unat (v4_header_length h) + length span = unat (v4_total_length h)" "ipv6_ext out = []"
    by (simp_all add: network_ok_def)
  show ?thesis
    unfolding decodeLayer4_def Net_Ipv4 NetworkHeader.case tcp_parse_v4_def udp_parse_v4_def Let_def
    using assms(1) h
    by (cases "transport out"; simp; intro layer4_next)
       (auto simp: Packet_wf_def Net_Ipv4 isTcp_def isUdp_def isIcmp_def ext_chain_def dest: sublist_length_le)
next
  case (Net_Ipv6 h)
  with assms(2) have h: "length span \<le> unat (v6_payload_length h)" "ext_chain (ipv6_ext out)"
    "transport out \<noteq> Tp_monostate \<Longrightarrow> list_all (\<lambda>e. \<not> ext_isFragment e) (ipv6_ext out)"
    by (simp_all add: network_ok_def)
  obtain ip where ip: "(if hasIpv6Ext out then ext_pseudoHeader h (ipv6_ext out) (length span) else h) = ip"
    by simp
  show ?thesis
    unfolding decodeLayer4_def Net_Ipv6 NetworkHeader.case tcp_parse_v6_def udp_parse_v6_def Let_def ip
    using assms(1) h
    by (cases "transport out"; simp; intro layer4_next)
       (auto simp: Packet_wf_def Net_Ipv6 isTcp_def isUdp_def isIcmpv6_def dest: sublist_length_le)
qed (use assms in \<open>auto simp: network_ok_def isArp_def\<close>)

lemma Packet_wf_mono: "Packet_wf s p \<Longrightarrow> sublist s t \<Longrightarrow> Packet_wf t p"
  by (auto simp: Packet_wf_def intro: sublist_shorter_trans split: NetworkHeader.splits)

lemma network_ok_arp: "network_ok p n \<Longrightarrow> isArp p \<Longrightarrow> vlan_ok (vlan_tags p) \<Longrightarrow> Packet_wf s p"
  by (auto simp: network_ok_def isArp_def Packet_wf_def ext_chain_def split: NetworkHeader.splits)

lemma holds_decodePacket:
  assumes "vlan_tags out = []" and "ipv6_ext out = []" and "transport out = Tp_monostate"
  shows "holds (\<lambda>(out', rest). Packet_wf span out' \<and> (isArp out' \<longrightarrow> payload out' = payload out))
    (decodePacket span out verify)"
proof -
  have l2: "holds (\<lambda>(out', rest). vlan_ok (vlan_tags out') \<and> ipv6_ext out' = ipv6_ext out \<and>
    transport out' = transport out \<and> payload out' = payload out \<and> sublist rest span) (decodeLayer2 span out)"
    using assms by (intro holds_decodeLayer2) (simp add: vlan_ok_def)
  show ?thesis
    unfolding decodePacket_def
  proof (intro holds_bind holds_mono [OF l2], clarsimp)
    fix out2 :: Packet and s2
    assume o2: "vlan_ok (vlan_tags out2)" "ipv6_ext out2 = ipv6_ext out" "transport out2 = transport out"
      "payload out2 = payload out" "sublist s2 span"
    have l3: "holds (\<lambda>(out', rest). vlan_tags out' = vlan_tags out2 \<and> payload out' = payload out2 \<and>
        network_ok out' (length rest) \<and> sublist rest s2) (decodeLayer3 s2 out2 verify)"
      using assms o2 by (intro holds_decodeLayer3) simp_all
    show "holds (\<lambda>(out', rest). Packet_wf span out' \<and> (isArp out' \<longrightarrow> payload out' = payload out))
      (bind_res (decodeLayer3 s2 out2 verify) (\<lambda>(out, span). if isArp out then Ok (out, span)
        else bind_res (decodeLayer4 span out verify) (\<lambda>(out, span). Ok (out \<lparr>payload := span\<rparr>, span))))"
    proof (intro holds_bind holds_mono [OF l3], clarsimp, intro conjI impI)
      fix out3 :: Packet and s3
      assume o3: "vlan_tags out3 = vlan_tags out2" "payload out3 = payload out2"
        "network_ok out3 (length s3)" "sublist s3 s2"
      show "Packet_wf span out3" if "isArp out3"
        using network_ok_arp [OF o3(3) that] o2 o3 by simp
      show "payload out2 = payload out" by fact
      assume no_arp: "\<not> isArp out3"
      have l4: "holds (\<lambda>(out', rest). Packet_wf s3 (out' \<lparr> payload := rest \<rparr>)) (decodeLayer4 s3 out3 verify)"
        using o2 o3 no_arp by (intro holds_decodeLayer4) simp_all
      have keep: "isArp out4 \<longleftrightarrow> isArp out3" if "decodeLayer4 s3 out3 verify = Ok (out4, s4)" for out4 s4
        using that by (auto simp: decodeLayer4_def isArp_def bind_res_Ok_iff Let_def
          split: NetworkHeader.splits TransportHeader.splits)
      have "sublist s3 span" using o2(5) o3(4) by (rule sublist_shorter_trans [rotated])
      then show "holds (\<lambda>(out', rest). Packet_wf span out' \<and> (isArp out' \<longrightarrow> payload out' = payload out))
          (bind_res (decodeLayer4 s3 out3 verify) (\<lambda>(out, span). Ok (out \<lparr>payload := span\<rparr>, span)))"
        using no_arp keep
        by (intro holds_bind holds_mono [OF l4]) (auto intro: Packet_wf_mono simp: isArp_def)
    qed
  qed
qed

section \<open>Properties\<close>

text \<open>
  C25. Decoding is memory safe and its results are well formed. For any bytes, of any
  length and content, and with verification on or off, the decoder neither reads outside
  the capture buffer nor loops; a packet it accepts has at most four VLAN tags and eight
  extension headers, no reserved VLAN id, hop-by-hop options only in first place, no
  fragment, a transport that fits its network layer, and a payload that is a contiguous
  part of the input within the length the IP header declares.
\<close>

theorem decodePacket_safe:
  "decodePacket span (Packet_reset (setDatatypeFromLinktype p linktype)) verify \<noteq> UB \<and>
   (case decodePacket span (Packet_reset (setDatatypeFromLinktype p linktype)) verify of
      Ok (p', rest) \<Rightarrow> Packet_wf span p' | _ \<Rightarrow> True)"
proof -
  let ?p = "Packet_reset (setDatatypeFromLinktype p linktype)"
  have "holds (\<lambda>(out', rest). Packet_wf span out' \<and> (isArp out' \<longrightarrow> payload out' = payload ?p))
      (decodePacket span ?p verify)"
    by (rule holds_decodePacket) (simp_all add: Packet_reset_def)
  then show ?thesis by (cases "decodePacket span ?p verify") auto
qed

text \<open>
  C26. A serialised Ethernet/IPv4/TCP frame is decoded to its parts: with valid lengths and
  valid checksums (over the IP header, and over pseudo header and segment), the decoder
  returns the three headers and the application data, and ignores link-layer padding.
\<close>

theorem decodePacket_tcp_frame:
  assumes "length (eth_dst_mac e) = 6" and "length (eth_src_mac e) = 6" and "eth_ethertype e = ETHERTYPE_IPV4"
    and "v4_version h = 4" and "unat (v4_header_length h) = 20" and "v4_protocol h = PROTOCOL_TCP"
    and "unat (v4_total_length h) = 40 + length options + length data"
    and "tcp_header_length t = 20 + length options"
    and "checksum_ok (v4_bytes h) 0"
    and "checksum_ok (v4_pseudo_bytes h @ tcp_bytes t @ options @ data) 0"
  shows "decodePacket (ethernet_bytes e @ v4_bytes h @ tcp_bytes t @ options @ data @ padding)
      (Packet_reset (setDatatypeFromLinktype p LINKTYPE_ETHERNET)) True =
    Ok (\<lparr> datalink = DL_Ethernet e, vlan_tags = [], network = Net_Ipv4 h, ipv6_ext = [],
         transport = Tp_Tcp (t \<lparr> tcp_checksum := bswap16 (tcp_checksum t) \<rparr>), payload = data \<rparr>, data)"
proof -
  let ?seg = "tcp_bytes t @ options @ data"
  have v4: "v4_parse (v4_bytes h @ ?seg @ padding) Big True = Ok (h, ?seg)"
    using v4_parse_bytes [of h "[]" ?seg padding] assms by simp
  have hl: "unat (v4_header_length h) \<le> unat (v4_total_length h)" using assms by simp
  have len: "unat (v4_total_length h) - unat (v4_header_length h) = length ?seg" using assms by simp
  have "tcp_parse ?seg (length ?seg) (v4_computePseudoHeaderSum h) Big True =
      Ok (t \<lparr> tcp_checksum := bswap16 (tcp_checksum t) \<rparr>, data)"
  proof (subst tcp_parse_gate)
    show "length ?seg < 4294967296" using unat_u16_less [of "v4_total_length h"] len by linarith
    show "unat (v4_computePseudoHeaderSum h) < 281474976710656" using v4_pseudo_sum [OF hl] by simp
    show "tcp_parse ?seg (length ?seg) (v4_computePseudoHeaderSum h) Big False =
        Ok (t \<lparr> tcp_checksum := bswap16 (tcp_checksum t) \<rparr>, data) \<and>
        checksum_ok (take (length ?seg) ?seg) (unat (v4_computePseudoHeaderSum h))"
      using tcp_parse_bytes [OF assms(8), of data] assms(10) v4_pseudo_sum(1) [OF hl]
      by (simp add: checksum_ok_pseudo even_pseudo_bytes(1) add.assoc)
  qed
  then have tcp: "tcp_parse_v4 ?seg h Big True = Ok (t \<lparr> tcp_checksum := bswap16 (tcp_checksum t) \<rparr>, data)"
    by (simp add: tcp_parse_v4_def v4_payload_len [OF hl] len)
  have "decodePacket (ethernet_bytes e @ v4_bytes h @ ?seg @ padding)
      (Packet_reset (setDatatypeFromLinktype p LINKTYPE_ETHERNET)) True =
    Ok (\<lparr> datalink = DL_Ethernet e, vlan_tags = [], network = Net_Ipv4 h, ipv6_ext = [],
         transport = Tp_Tcp (t \<lparr> tcp_checksum := bswap16 (tcp_checksum t) \<rparr>), payload = data \<rparr>, data)"
    using assms(1-3,6) v4 tcp
    by (simp add: decodePacket_def decodeLayer2_def decodeLayer3_def decodeLayer4_def ethernet_parse_bytes
        decode_vlan_loop.simps ethertype_defs Packet_reset_def setDatatypeFromLinktype_def
        setNetworkFromEthertype_def setTransportFromProtocol_def isArp_def)
  then show ?thesis by simp
qed

theorem decodePacket_tcp_frame_witness:
  "\<exists>t. decodePacket
     (ethernet_bytes \<lparr> eth_dst_mac = [1, 2, 3, 4, 5, 6], eth_src_mac = [7, 8, 9, 10, 11, 12], eth_ethertype = 0x0800 \<rparr> @
      [0x45, 0, 0, 42, 0, 0, 0, 0, 64, 6, 0x66, 0xCC, 10, 0, 0, 1, 10, 0, 0, 2] @
      [0, 80, 0, 81, 0, 0, 0, 1, 0, 0, 0, 2, 0x50, 0x18, 0, 0, 0x52, 0xDB, 0, 0] @ [] @ [72, 73] @ [0, 0, 0])
     (Packet_reset (setDatatypeFromLinktype
        \<lparr> datalink = DL_monostate, vlan_tags = [], network = Net_monostate, ipv6_ext = [],
          transport = Tp_monostate, payload = [] \<rparr> LINKTYPE_ETHERNET)) True =
   Ok (t, [72, 73])"
proof -
  let ?e = "\<lparr> eth_dst_mac = [1, 2, 3, 4, 5, 6], eth_src_mac = [7, 8, 9, 10, 11, 12], eth_ethertype = 0x0800 \<rparr>"
  let ?h = "\<lparr> v4_version_ihl = 0x45, v4_tos = 0, v4_total_length = 42, v4_identification = 0,
        v4_flags_fragment = 0, v4_ttl = 64, v4_protocol = 6, v4_checksum = 0x66CC,
        v4_src_ip = 0x0A000001, v4_dst_ip = 0x0A000002 \<rparr>"
  let ?t = "\<lparr> tcp_src_port = 80, tcp_dst_port = 81, tcp_seq_number = 1, tcp_ack_number = 2,
       tcp_data_offset_reserved = 0x50, tcp_flags = 0x18, tcp_window_size = 0, tcp_checksum = 0x52DB,
       tcp_urgent_pointer = 0 \<rparr>"
  have h: "v4_bytes ?h = [0x45, 0, 0, 42, 0, 0, 0, 0, 64, 6, 0x66, 0xCC, 10, 0, 0, 1, 10, 0, 0, 2]"
    by (simp add: v4_bytes_def bytes16_def bytes32_def)
  have t: "tcp_bytes ?t = [0, 80, 0, 81, 0, 0, 0, 1, 0, 0, 0, 2, 0x50, 0x18, 0, 0, 0x52, 0xDB, 0, 0]"
    by (simp add: tcp_bytes_def bytes16_def bytes32_def)
  have hl: "v4_header_length ?h = 20" by (simp add: v4_header_length_def v4_ihl_def)
  have v: "v4_version ?h = 4" "unat (v4_header_length ?h) = 20"
    by (simp_all add: v4_version_def hl)
  have tl: "tcp_header_length ?t = 20 + length ([] :: u8 list)"
    by (simp add: tcp_header_length_def tcp_data_offset_def unat_drop_bit)
  have c1: "checksum_ok (v4_bytes ?h) 0" unfolding h by (simp add: checksum_ok_def)
  have "v4_pseudo_bytes ?h = [10, 0, 0, 1, 10, 0, 0, 2, 0, 6, 0, 22]"
    by (simp add: v4_pseudo_bytes_def hl bytes16_def bytes32_def)
  then have c2: "checksum_ok (v4_pseudo_bytes ?h @ tcp_bytes ?t @ [] @ [72, 73]) 0"
    unfolding t by (simp add: checksum_ok_def)
  show ?thesis
    unfolding h [symmetric] t [symmetric]
    by (rule exI, rule decodePacket_tcp_frame [OF _ _ _ v _ _ tl c1 c2])
       (simp_all add: ethertype_defs protocol_defs)
qed

end
