(* ===== verification/Pcap.thy ===== *)
theory Pcap
  imports Packets
begin

text \<open>
  The capture file format (\<^verbatim>\<open>src/net/capture/pcap.cpp\<close>, \<^verbatim>\<open>include/net/capture/pcap.h\<close>)
  and the record of one captured packet (\<^verbatim>\<open>include/net/capture/capture.h\<close>). The byte
  order of a file is recognised by its magic number, which keeps the order it was read in;
  all later integers are converted with it.
\<close>

section \<open>Headers\<close>

definition FILE_HEADER_LEN :: nat where "FILE_HEADER_LEN = 24"
definition PACKET_HEADER_LEN :: nat where "PACKET_HEADER_LEN = 16"

definition PCAP_MAGIC_USEC_BE :: u32 where "PCAP_MAGIC_USEC_BE = 0xd4c3b2a1"
definition PCAP_MAGIC_USEC_LE :: u32 where "PCAP_MAGIC_USEC_LE = 0xa1b2c3d4"
definition PCAP_MAGIC_NSEC_BE :: u32 where "PCAP_MAGIC_NSEC_BE = 0x4d3cb2a1"
definition PCAP_MAGIC_NSEC_LE :: u32 where "PCAP_MAGIC_NSEC_LE = 0xa1b23c4d"

definition SUPPORTED_MAJOR_VERSION :: u16 where "SUPPORTED_MAJOR_VERSION = 2"
definition SUPPORTED_MINOR_VERSION :: u16 where "SUPPORTED_MINOR_VERSION = 4"

lemmas magic_defs = PCAP_MAGIC_USEC_BE_def PCAP_MAGIC_USEC_LE_def PCAP_MAGIC_NSEC_BE_def PCAP_MAGIC_NSEC_LE_def

record FileHeader =
  fh_magic_number :: u32
  fh_major_version :: u16
  fh_minor_version :: u16
  fh_reserved1 :: u32
  fh_reserved2 :: u32
  fh_snaplen :: u32
  fh_linktype :: u32

record PacketHeader =
  ph_ts_sec :: u32
  ph_ts_usec :: u32
  ph_incl_len :: u32
  ph_orig_len :: u32

record Capture =
  ts_us :: u64
  packetHeader :: PacketHeader
  pkt :: Packet

definition FileHeader_raw :: "u8 list \<Rightarrow> FileHeader" where
  "FileHeader_raw b = \<lparr> fh_magic_number = raw32 b 0, fh_major_version = raw16 b 4, fh_minor_version = raw16 b 6,
     fh_reserved1 = raw32 b 8, fh_reserved2 = raw32 b 12, fh_snaplen = raw32 b 16, fh_linktype = raw32 b 20 \<rparr>"

definition PacketHeader_raw :: "u8 list \<Rightarrow> PacketHeader" where
  "PacketHeader_raw b = \<lparr> ph_ts_sec = raw32 b 0, ph_ts_usec = raw32 b 4, ph_incl_len = raw32 b 8,
     ph_orig_len = raw32 b 12 \<rparr>"

text \<open>The \<open>switch\<close> over the magic number.\<close>

definition endian_of_magic :: "u32 \<Rightarrow> Endian option" where
  "endian_of_magic magic =
     (if magic = PCAP_MAGIC_USEC_BE then Some Big
      else if magic = PCAP_MAGIC_NSEC_BE then Some Big
      else if magic = PCAP_MAGIC_USEC_LE then Some Little
      else if magic = PCAP_MAGIC_NSEC_LE then Some Little
      else None)"

definition parse_FileHeader :: "span \<Rightarrow> (FileHeader \<times> Endian \<times> span) res" where
  "parse_FileHeader span =
     (if length span < FILE_HEADER_LEN then Err UnexpectedEof
      else bind_res (memcpy span FILE_HEADER_LEN) (\<lambda>b.
        let header = FileHeader_raw b in
        case endian_of_magic (fh_magic_number header) of
          None \<Rightarrow> Err InvalidFieldValue
        | Some endian \<Rightarrow>
            let header = header \<lparr> fh_major_version := toHost16 (fh_major_version header) endian,
                                  fh_minor_version := toHost16 (fh_minor_version header) endian,
                                  fh_snaplen := toHost32 (fh_snaplen header) endian,
                                  fh_linktype := toHost32 (fh_linktype header) endian \<rparr> in
            if fh_major_version header \<noteq> SUPPORTED_MAJOR_VERSION \<or> fh_minor_version header \<noteq> SUPPORTED_MINOR_VERSION
            then Err UnsupportedVersion
            else if fh_snaplen header = 0 then Err InvalidFieldValue
            else if fh_linktype header AND 0x0FFFFFFF \<noteq> LINKTYPE_ETHERNET then Err UnsupportedLinktype
            else bind_res (subspan span FILE_HEADER_LEN) (\<lambda>span. Ok (header, endian, span))))"

definition parse_PacketHeader :: "span \<Rightarrow> Endian \<Rightarrow> (PacketHeader \<times> span) res" where
  "parse_PacketHeader span endian =
     (if length span < PACKET_HEADER_LEN then Err UnexpectedEof
      else bind_res (memcpy span PACKET_HEADER_LEN) (\<lambda>b.
        let header = PacketHeader_raw b;
            header = \<lparr> ph_ts_sec = toHost32 (ph_ts_sec header) endian, ph_ts_usec = toHost32 (ph_ts_usec header) endian,
                       ph_incl_len = toHost32 (ph_incl_len header) endian,
                       ph_orig_len = toHost32 (ph_orig_len header) endian \<rparr> in
        if ph_incl_len header = 0 \<or> ph_orig_len header = 0 then Err InvalidFieldValue
        else if ph_incl_len header > ph_orig_len header then Err MalformedHeader
        else bind_res (subspan span PACKET_HEADER_LEN) (\<lambda>span. Ok (header, span))))"

section \<open>Printing\<close>

definition FileHeader_toString :: "FileHeader \<Rightarrow> string" where
  "FileHeader_toString h =
     ''FileHeader {'' @ [newline] @
     ''  magic: 0x'' @ hex_string (unat (fh_magic_number h)) @ [newline] @
     ''  version: '' @ dec_string (unat (fh_major_version h)) @ ''.'' @ dec_string (unat (fh_minor_version h)) @ [newline] @
     ''  snaplen: '' @ dec_string (unat (fh_snaplen h)) @ [newline] @
     ''  linktype: '' @ dec_string (unat (fh_linktype h)) @ [newline] @ ''}''"

definition FileHeader_toJson :: "FileHeader \<Rightarrow> string" where
  "FileHeader_toJson h =
     ''\"file_header\": {'' @ [newline] @
     ''  \"magic_number\": \"0x'' @ hex_string (unat (fh_magic_number h)) @ ''\",'' @ [newline] @
     ''  \"major_version\": \"'' @ dec_string (unat (fh_major_version h)) @ ''.'' @
       dec_string (unat (fh_minor_version h)) @ ''\",'' @ [newline] @
     ''  \"snaplen\": '' @ dec_string (unat (fh_snaplen h)) @ '','' @ [newline] @
     ''  \"linktype\": '' @ dec_string (unat (fh_linktype h)) @ [newline] @ ''}''"

definition PacketHeader_toString :: "PacketHeader \<Rightarrow> string" where
  "PacketHeader_toString h =
     ''PacketHeader {'' @ [newline] @
     ''  ts_sec: '' @ dec_string (unat (ph_ts_sec h)) @ [newline] @
     ''  ts_usec: '' @ dec_string (unat (ph_ts_usec h)) @ [newline] @
     ''  incl_len: '' @ dec_string (unat (ph_incl_len h)) @ [newline] @
     ''  orig_len: '' @ dec_string (unat (ph_orig_len h)) @ [newline] @ ''}''"

definition PacketHeader_toJson :: "PacketHeader \<Rightarrow> string" where
  "PacketHeader_toJson h =
     ''\"packet_header\": {'' @ [newline] @
     ''  \"ts_sec\": '' @ dec_string (unat (ph_ts_sec h)) @ '','' @ [newline] @
     ''  \"ts_usec\": '' @ dec_string (unat (ph_ts_usec h)) @ '','' @ [newline] @
     ''  \"incl_len\": '' @ dec_string (unat (ph_incl_len h)) @ '','' @ [newline] @
     ''  \"orig_len\": '' @ dec_string (unat (ph_orig_len h)) @ [newline] @ ''}''"

section \<open>Parsing\<close>

interpretation packet_header: header_parser "\<lambda>span. parse_PacketHeader span endian"
  by unfold_locales (auto simp: parse_PacketHeader_def PACKET_HEADER_LEN_def Let_def)

lemma parse_PacketHeader_Ok:
  assumes "parse_PacketHeader span endian = Ok (h, rest)"
  shows "rest = drop 16 span \<and> 16 \<le> length span \<and> 0 < unat (ph_incl_len h) \<and> ph_incl_len h \<le> ph_orig_len h"
proof -
  have "ph_incl_len h \<noteq> 0"
    using assms by (auto simp: parse_PacketHeader_def PACKET_HEADER_LEN_def Let_def split: if_splits)
  then show ?thesis
    using assms by (auto simp: parse_PacketHeader_def PACKET_HEADER_LEN_def Let_def unat_gt_0 not_less split: if_splits)
qed

lemma parse_FileHeader_Ok:
  assumes "parse_FileHeader span = Ok (h, endian, rest)"
  shows "rest = drop 24 span \<and> 24 \<le> length span \<and> fh_linktype h AND 0x0FFFFFFF = LINKTYPE_ETHERNET"
  using assms by (auto simp: parse_FileHeader_def FILE_HEADER_LEN_def Let_def split: if_splits option.splits)

lemma parse_FileHeader_safe: "parse_FileHeader span \<noteq> UB"
  by (auto simp: parse_FileHeader_def FILE_HEADER_LEN_def Let_def split: option.splits)

section \<open>Wire format\<close>

text \<open>An integer written in the byte order of the file.\<close>

definition enc16 :: "Endian \<Rightarrow> u16 \<Rightarrow> u8 list" where
  "enc16 e w = (if e = Big then bytes16 w else rev (bytes16 w))"

definition enc32 :: "Endian \<Rightarrow> u32 \<Rightarrow> u8 list" where
  "enc32 e w = (if e = Big then bytes32 w else rev (bytes32 w))"

lemma length_enc [simp]: "length (enc16 e w) = 2" "length (enc32 e v) = 4"
  by (simp_all add: enc16_def enc32_def)

lemma toHost16_enc16:
  assumes "length xs = i"
  shows "toHost16 (raw16 (xs @ enc16 e w @ ys) i) e = w"
proof (cases e)
  case Big
  have "Suc i < length (xs @ bytes16 w @ ys)" using assms by simp
  with Big show ?thesis using be16_skip [OF assms, of "bytes16 w @ ys" 0]
    by (simp add: enc16_def toHost16_raw16)
next
  case Little
  then have "raw16 (xs @ enc16 e w @ ys) i = be16 (bytes16 w @ []) 0"
    using assms by (simp add: raw16_def be16_def enc16_def be_nat_eq_rev)
  with Little show ?thesis by (simp only: be16_bytes16) simp
qed

lemma toHost32_enc32:
  assumes "length xs = i"
  shows "toHost32 (raw32 (xs @ enc32 e w @ ys) i) e = w"
proof (cases e)
  case Big
  have "i + 3 < length (xs @ bytes32 w @ ys)" using assms by simp
  with Big show ?thesis using be32_skip [OF assms, of "bytes32 w @ ys" 0]
    by (simp add: enc32_def toHost32_raw32)
next
  case Little
  then have "raw32 (xs @ enc32 e w @ ys) i = be32 (bytes32 w @ []) 0"
    using assms by (simp add: raw32_def be32_def enc32_def be_nat_eq_rev)
  with Little show ?thesis by (simp only: be32_bytes32) simp
qed

definition PacketHeader_bytes :: "Endian \<Rightarrow> PacketHeader \<Rightarrow> u8 list" where
  "PacketHeader_bytes e h = enc32 e (ph_ts_sec h) @ enc32 e (ph_ts_usec h) @ enc32 e (ph_incl_len h) @ enc32 e (ph_orig_len h)"

text \<open>A file header: the writer stores the magic of its resolution in its own byte order.\<close>

definition FileHeader_bytes :: "Endian \<Rightarrow> bool \<Rightarrow> u16 \<Rightarrow> u16 \<Rightarrow> u32 \<Rightarrow> u32 \<Rightarrow> u8 list" where
  "FileHeader_bytes e nsec major minor snaplen linktype =
     enc32 e (if nsec then 0xa1b23c4d else 0xa1b2c3d4) @ enc16 e major @ enc16 e minor @
     replicate 8 0 @ enc32 e snaplen @ enc32 e linktype"

lemma endian_of_magic_bytes:
  "endian_of_magic (raw32 (enc32 e (if nsec then 0xa1b23c4d else 0xa1b2c3d4) @ ys) 0) = Some e"
  by (cases e; cases nsec) (simp_all add: enc32_def bytes32_def raw32_def endian_of_magic_def magic_defs)

lemma nsec_magic_bytes:
  "raw32 (enc32 e (if nsec then 0xa1b23c4d else 0xa1b2c3d4) @ ys) 0 \<in> {PCAP_MAGIC_NSEC_LE, PCAP_MAGIC_NSEC_BE} \<longleftrightarrow> nsec"
  by (cases e; cases nsec) (simp_all add: enc32_def bytes32_def raw32_def magic_defs)

lemma PacketHeader_bytes_parse:
  assumes "ph_incl_len h \<noteq> 0" and "ph_incl_len h \<le> ph_orig_len h"
  shows "parse_PacketHeader (PacketHeader_bytes e h @ rest) e = Ok (h, rest)"
proof -
  let ?b = "PacketHeader_bytes e h"
  have fields: "toHost32 (raw32 ?b 0) e = ph_ts_sec h" "toHost32 (raw32 ?b 4) e = ph_ts_usec h"
    "toHost32 (raw32 ?b 8) e = ph_incl_len h" "toHost32 (raw32 ?b 12) e = ph_orig_len h"
    unfolding PacketHeader_bytes_def
    using toHost32_enc32 [of "[]" 0] toHost32_enc32 [of "enc32 e (ph_ts_sec h)" 4]
      toHost32_enc32 [of "enc32 e (ph_ts_sec h) @ enc32 e (ph_ts_usec h)" 8]
      toHost32_enc32 [of "enc32 e (ph_ts_sec h) @ enc32 e (ph_ts_usec h) @ enc32 e (ph_incl_len h)" 12 e "ph_orig_len h" "[]"]
    by simp_all
  moreover have "take 16 (?b @ rest) = ?b" "length ?b = 16" by (simp_all add: PacketHeader_bytes_def)
  moreover have "ph_orig_len h \<noteq> 0" using assms by (metis word_le_0_iff)
  ultimately show ?thesis
    using assms by (simp add: parse_PacketHeader_def PACKET_HEADER_LEN_def PacketHeader_raw_def Let_def not_less)
qed

lemma FileHeader_bytes_parse:
  assumes "snaplen \<noteq> 0" and "linktype AND 0x0FFFFFFF = 1"
  shows "\<exists>h. parse_FileHeader (FileHeader_bytes e nsec 2 4 snaplen linktype @ rest) = Ok (h, e, rest) \<and>
    fh_snaplen h = snaplen \<and> fh_linktype h = linktype \<and>
    (fh_magic_number h \<in> {PCAP_MAGIC_NSEC_LE, PCAP_MAGIC_NSEC_BE} \<longleftrightarrow> nsec)"
proof -
  let ?b = "FileHeader_bytes e nsec 2 4 snaplen linktype"
  let ?m = "enc32 e (if nsec then 0xa1b23c4d else 0xa1b2c3d4)"
  have fields: "toHost16 (raw16 ?b 4) e = 2" "toHost16 (raw16 ?b 6) e = 4"
    "toHost32 (raw32 ?b 16) e = snaplen" "toHost32 (raw32 ?b 20) e = linktype"
    unfolding FileHeader_bytes_def
    using toHost16_enc16 [of ?m 4] toHost16_enc16 [of "?m @ enc16 e 2" 6]
      toHost32_enc32 [of "?m @ enc16 e 2 @ enc16 e 4 @ replicate 8 0" 16]
      toHost32_enc32 [of "?m @ enc16 e 2 @ enc16 e 4 @ replicate 8 0 @ enc32 e snaplen" 20 e linktype "[]"]
    by simp_all
  moreover have "take 24 (?b @ rest) = ?b" "length ?b = 24" by (simp_all add: FileHeader_bytes_def)
  moreover have "endian_of_magic (raw32 ?b 0) = Some e" "raw32 ?b 0 \<in> {PCAP_MAGIC_NSEC_LE, PCAP_MAGIC_NSEC_BE} \<longleftrightarrow> nsec"
    unfolding FileHeader_bytes_def by (rule endian_of_magic_bytes nsec_magic_bytes)+
  ultimately show ?thesis
    using assms by (simp add: parse_FileHeader_def FILE_HEADER_LEN_def FileHeader_raw_def SUPPORTED_MAJOR_VERSION_def
        SUPPORTED_MINOR_VERSION_def LINKTYPE_ETHERNET_def Let_def)
qed

section \<open>Properties\<close>

text \<open>
  Capture files of either byte order are read alike: a file header written with the
  microsecond or nanosecond magic in big- or little-endian order is recognised with its
  order, resolution, snapshot length and link type, and every packet header written in
  that order with a sensible length is read back unchanged.
\<close>

theorem pcap_headers_roundtrip:
  assumes "snaplen \<noteq> 0" and "linktype AND 0x0FFFFFFF = 1" and "ph_incl_len h \<noteq> 0" and "ph_incl_len h \<le> ph_orig_len h"
  shows "\<exists>fh. parse_FileHeader (FileHeader_bytes e nsec 2 4 snaplen linktype @ PacketHeader_bytes e h @ rest) =
      Ok (fh, e, PacketHeader_bytes e h @ rest) \<and>
    parse_PacketHeader (PacketHeader_bytes e h @ rest) e = Ok (h, rest) \<and>
    fh_snaplen fh = snaplen \<and> fh_linktype fh = linktype \<and>
    (fh_magic_number fh \<in> {PCAP_MAGIC_NSEC_LE, PCAP_MAGIC_NSEC_BE} \<longleftrightarrow> nsec)"
  using FileHeader_bytes_parse [OF assms(1,2)] PacketHeader_bytes_parse [OF assms(3,4)] by blast

theorem pcap_headers_roundtrip_witness:
  "\<exists>fh. parse_FileHeader ([0xa1, 0xb2, 0xc3, 0xd4, 0, 2, 0, 4, 0, 0, 0, 0, 0, 0, 0, 0, 0, 0, 0xFF, 0xFF, 0, 0, 0, 1] @
       [0, 0, 0, 5, 0, 0, 0, 6, 0, 0, 0, 7, 0, 0, 0, 8] @ []) =
     Ok (fh, Big, [0, 0, 0, 5, 0, 0, 0, 6, 0, 0, 0, 7, 0, 0, 0, 8]) \<and> fh_snaplen fh = 65535"
proof -
  let ?h = "\<lparr> ph_ts_sec = 5, ph_ts_usec = 6, ph_incl_len = 7, ph_orig_len = 8 \<rparr>"
  have "replicate 8 0 = [0, 0, 0, 0, 0, 0, 0, 0 :: u8]" by (simp add: numeral_eq_Suc)
  then have "FileHeader_bytes Big False 2 4 65535 1 =
      [0xa1, 0xb2, 0xc3, 0xd4, 0, 2, 0, 4, 0, 0, 0, 0, 0, 0, 0, 0, 0, 0, 0xFF, 0xFF, 0, 0, 0, 1]"
    and "PacketHeader_bytes Big ?h = [0, 0, 0, 5, 0, 0, 0, 6, 0, 0, 0, 7, 0, 0, 0, 8]"
    by (simp_all add: FileHeader_bytes_def PacketHeader_bytes_def enc32_def enc16_def bytes32_def bytes16_def)
  then show ?thesis using pcap_headers_roundtrip [of 65535 1 ?h Big False "[]"] by auto
qed

text \<open>
  C18. A link type with frame check sequence bits is accepted by the file header parser,
  which masks them, but not by \<open>setDatatypeFromLinktype\<close>, which compares the whole field:
  every packet of such a file fails to decode.
\<close>

theorem fcs_linktype_undecodable:
  assumes "linktype AND 0x0FFFFFFF = 1" and "linktype \<noteq> 1" and "snaplen \<noteq> 0"
  shows "(\<exists>fh rest'. parse_FileHeader (FileHeader_bytes e nsec 2 4 snaplen linktype @ rest) = Ok (fh, e, rest') \<and>
      fh_linktype fh = linktype) \<and>
    decodePacket span (setDatatypeFromLinktype p linktype) verify = Err UnsupportedLinktype"
proof
  show "\<exists>fh rest'. parse_FileHeader (FileHeader_bytes e nsec 2 4 snaplen linktype @ rest) = Ok (fh, e, rest') \<and>
      fh_linktype fh = linktype"
    using FileHeader_bytes_parse [OF assms(3,1), of e nsec rest] by blast
  show "decodePacket span (setDatatypeFromLinktype p linktype) verify = Err UnsupportedLinktype"
    using assms(2) by (simp add: decodePacket_def decodeLayer2_def setDatatypeFromLinktype_def LINKTYPE_ETHERNET_def)
qed

theorem fcs_linktype_undecodable_witness:
  "\<forall>span p. decodePacket span (setDatatypeFromLinktype p 0x20000001) True = Err UnsupportedLinktype"
  using fcs_linktype_undecodable [of "0x20000001" 65535] by simp

end
