(* ===== verification/Flow_Key.thy ===== *)
theory Flow_Key
  imports Ipv6
begin

text \<open>
  Flow keys (\<^verbatim>\<open>src/net/flow/flow_key.cpp\<close>, \<^verbatim>\<open>include/net/flow/flow_key.h\<close>): equality,
  normalisation of the direction, filters, the hash and the printers. The two address
  arrays are lists of sixteen bytes (\<open>FlowKey_wf\<close>); an IPv4 address fills the first four.
\<close>

section \<open>Keys\<close>

record FlowKey =
  fk_isIpv4 :: bool
  fk_src_ip :: "u8 list"
  fk_dst_ip :: "u8 list"
  fk_src_port :: u16
  fk_dst_port :: u16
  fk_protocol :: u8

definition FlowKey_wf :: "FlowKey \<Rightarrow> bool" where
  "FlowKey_wf k \<longleftrightarrow> length (fk_src_ip k) = 16 \<and> length (fk_dst_ip k) = 16"

text \<open>\<open>FlowKey key{}\<close>.\<close>

definition FlowKey_zero :: FlowKey where
  "FlowKey_zero = \<lparr> fk_isIpv4 = False, fk_src_ip = replicate 16 0, fk_dst_ip = replicate 16 0,
     fk_src_port = 0, fk_dst_port = 0, fk_protocol = 0 \<rparr>"

text \<open>\<open>std::memcmp\<close> on buffers of one length: the sign of the first difference.\<close>

fun memcmp :: "u8 list \<Rightarrow> u8 list \<Rightarrow> int" where
  "memcmp (a # as) (b # bs) = (if a < b then - 1 else if b < a then 1 else memcmp as bs)"
| "memcmp _ _ = 0"

definition FlowKey_eq :: "FlowKey \<Rightarrow> FlowKey \<Rightarrow> bool" where
  "FlowKey_eq k o' \<longleftrightarrow> fk_isIpv4 k = fk_isIpv4 o' \<and> memcmp (fk_src_ip k) (fk_src_ip o') = 0 \<and>
     memcmp (fk_dst_ip k) (fk_dst_ip o') = 0 \<and> fk_src_port k = fk_src_port o' \<and>
     fk_dst_port k = fk_dst_port o' \<and> fk_protocol k = fk_protocol o'"

definition normalize :: "FlowKey \<Rightarrow> FlowKey \<times> bool" where
  "normalize k =
     (let c = memcmp (fk_src_ip k) (fk_dst_ip k) in
      if c > 0 \<or> (c = 0 \<and> fk_src_port k > fk_dst_port k) then
        (k \<lparr> fk_src_port := fk_dst_port k, fk_dst_port := fk_src_port k,
             fk_src_ip := fk_dst_ip k, fk_dst_ip := fk_src_ip k \<rparr>, True)
      else (k, False))"

definition anyNonZero :: "u8 list \<Rightarrow> bool" where
  "anyNonZero p = list_ex (\<lambda>b. b \<noteq> 0) p"

definition isNonZero :: "FlowKey \<Rightarrow> bool" where
  "isNonZero k \<longleftrightarrow> fk_protocol k \<noteq> 0 \<or> fk_src_port k \<noteq> 0 \<or> fk_dst_port k \<noteq> 0 \<or>
     anyNonZero (fk_src_ip k) \<or> anyNonZero (fk_dst_ip k)"

definition matches :: "FlowKey \<Rightarrow> FlowKey \<Rightarrow> bool" where
  "matches k pkt =
     (if fk_protocol k \<noteq> 0 \<and> fk_protocol k \<noteq> fk_protocol pkt then False
      else if fk_src_port k \<noteq> 0 \<and> fk_src_port k \<noteq> fk_src_port pkt then False
      else if fk_dst_port k \<noteq> 0 \<and> fk_dst_port k \<noteq> fk_dst_port pkt then False
      else if anyNonZero (fk_src_ip k) \<and> (fk_isIpv4 k \<noteq> fk_isIpv4 pkt \<or> memcmp (fk_src_ip k) (fk_src_ip pkt) \<noteq> 0) then False
      else if anyNonZero (fk_dst_ip k) \<and> (fk_isIpv4 k \<noteq> fk_isIpv4 pkt \<or> memcmp (fk_dst_ip k) (fk_dst_ip pkt) \<noteq> 0) then False
      else True)"

section \<open>The hash\<close>

definition fnv_mix :: "u64 \<Rightarrow> u64 \<Rightarrow> u64" where
  "fnv_mix h v = (h XOR v) * 1099511628211"

definition FlowKeyHash :: "FlowKey \<Rightarrow> u64" where
  "FlowKeyHash k =
     (let h = 14695981039346656037;
          h = (if fk_isIpv4 k then
                 fnv_mix h (push_bit 32 (ucast (raw32 (fk_src_ip k) 0)) OR ucast (raw32 (fk_dst_ip k) 0))
               else fnv_mix (fnv_mix (fnv_mix (fnv_mix h (raw64 (fk_src_ip k) 0)) (raw64 (fk_src_ip k) 8))
                      (raw64 (fk_dst_ip k) 0)) (raw64 (fk_dst_ip k) 8)) in
      fnv_mix h (push_bit 48 (if fk_isIpv4 k then 1 else 0) OR push_bit 32 (ucast (fk_src_port k)) OR
        push_bit 16 (ucast (fk_dst_port k)) OR ucast (fk_protocol k)))"

section \<open>Printing\<close>

definition FlowKey_toString :: "FlowKey \<Rightarrow> string" where
  "FlowKey_toString k =
     (if fk_isIpv4 k then v4_printIp_bytes (fk_src_ip k) else ''['' @ v6_printIp (fk_src_ip k) @ '']'') @
     '':'' @ dec_string (unat (fk_src_port k)) @ '' -> '' @
     (if fk_isIpv4 k then v4_printIp_bytes (fk_dst_ip k) else ''['' @ v6_printIp (fk_dst_ip k) @ '']'') @
     '':'' @ dec_string (unat (fk_dst_port k)) @ '' ('' @ protocolName (fk_protocol k) @ '')''"

definition FlowKey_toJson :: "FlowKey \<Rightarrow> string" where
  "FlowKey_toJson k =
     ''\"flow_key\": {'' @ [newline] @ ''  \"src_ip\": \"'' @
     (if fk_isIpv4 k then v4_printIp_bytes (fk_src_ip k) else v6_printIp (fk_src_ip k)) @
     ''\",'' @ [newline] @ ''  \"dst_ip\": \"'' @
     (if fk_isIpv4 k then v4_printIp_bytes (fk_dst_ip k) else v6_printIp (fk_dst_ip k)) @
     ''\",'' @ [newline] @ ''  \"src_port\": '' @ dec_string (unat (fk_src_port k)) @ '','' @ [newline] @
     ''  \"dst_port\": '' @ dec_string (unat (fk_dst_port k)) @ '','' @ [newline] @
     ''  \"protocol\": \"'' @ protocolName (fk_protocol k) @ ''\"'' @ [newline] @ ''}''"

section \<open>Comparison of buffers\<close>

lemma memcmp_eq_0: "length a = length b \<Longrightarrow> memcmp a b = 0 \<longleftrightarrow> a = b"
  by (induction a b rule: list_induct2) (auto simp: not_less)

lemma memcmp_swap: "memcmp b a = - memcmp a b"
  by (induction a b rule: memcmp.induct) auto

lemma memcmp_trans:
  assumes "memcmp a b < 0" and "memcmp b c < 0" and "length a = length b" and "length b = length c"
  shows "memcmp a c < 0"
  using assms(3,4,1,2)
proof (induction a b c rule: list_induct3)
  case (Cons x xs y ys z zs)
  then show ?case by (auto split: if_splits)
qed simp

lemma memcmp_not_less_trans:
  assumes "\<not> memcmp a b < 0" and "\<not> memcmp b c < 0" and "length a = length b" and "length b = length c"
  shows "\<not> memcmp a c < 0"
proof -
  consider "a = b" | "b = c" | "memcmp c b < 0" "memcmp b a < 0"
    using assms memcmp_eq_0 [of a b] memcmp_eq_0 [of b c] memcmp_swap [of a b] memcmp_swap [of b c] by linarith
  then show ?thesis
    using assms memcmp_trans [of c b a] memcmp_swap [of a c] by cases auto
qed

lemma FlowKey_eq_iff:
  assumes "FlowKey_wf k" and "FlowKey_wf o'"
  shows "FlowKey_eq k o' \<longleftrightarrow> k = o'"
  using assms by (cases k; cases o') (auto simp: FlowKey_eq_def FlowKey_wf_def memcmp_eq_0)

section \<open>Direction\<close>

definition reverse_key :: "FlowKey \<Rightarrow> FlowKey" where
  "reverse_key k = k \<lparr> fk_src_ip := fk_dst_ip k, fk_dst_ip := fk_src_ip k,
     fk_src_port := fk_dst_port k, fk_dst_port := fk_src_port k \<rparr>"

lemma reverse_key_simps [simp]:
  "fk_src_ip (reverse_key k) = fk_dst_ip k" "fk_dst_ip (reverse_key k) = fk_src_ip k"
  "fk_src_port (reverse_key k) = fk_dst_port k" "fk_dst_port (reverse_key k) = fk_src_port k"
  "fk_isIpv4 (reverse_key k) = fk_isIpv4 k" "fk_protocol (reverse_key k) = fk_protocol k"
  by (simp_all add: reverse_key_def)

lemma reverse_reverse [simp]: "reverse_key (reverse_key k) = k"
  by (simp add: reverse_key_def)

text \<open>\<open>normalize\<close> orients a key so that its source endpoint does not exceed its destination.\<close>

definition oriented :: "FlowKey \<Rightarrow> bool" where
  "oriented k \<longleftrightarrow> memcmp (fk_src_ip k) (fk_dst_ip k) < 0 \<or>
     memcmp (fk_src_ip k) (fk_dst_ip k) = 0 \<and> fk_src_port k \<le> fk_dst_port k"

lemma normalize_alt: "normalize k = (if oriented k then (k, False) else (reverse_key k, True))"
  by (auto simp: normalize_def oriented_def Let_def reverse_key_def)

lemma oriented_both:
  assumes "FlowKey_wf k" and "oriented k" and "oriented (reverse_key k)"
  shows "reverse_key k = k"
proof -
  have "memcmp (fk_src_ip k) (fk_dst_ip k) = 0" and "fk_src_port k = fk_dst_port k"
    using assms(2,3) memcmp_swap [of "fk_dst_ip k" "fk_src_ip k"] by (auto simp: oriented_def)
  then have "fk_src_ip k = fk_dst_ip k" and "fk_src_port k = fk_dst_port k"
    using assms(1) by (simp_all add: FlowKey_wf_def memcmp_eq_0)
  then show ?thesis by (simp add: reverse_key_def)
qed

lemma oriented_either: "oriented k \<or> oriented (reverse_key k)"
  using memcmp_swap [of "fk_dst_ip k" "fk_src_ip k"] by (auto simp: oriented_def)

lemma normalize_wf [simp]: "FlowKey_wf (fst (normalize k)) = FlowKey_wf k"
  by (auto simp: normalize_alt FlowKey_wf_def)

lemma normalize_fields [simp]:
  "fk_protocol (fst (normalize k)) = fk_protocol k" "fk_isIpv4 (fst (normalize k)) = fk_isIpv4 k"
  by (simp_all add: normalize_alt)

section \<open>Mixing is a bijection\<close>

lemma fnv_prime_inverse: "(1099511628211 :: u64) * 14886173955864302971 = 1"
  by simp

lemma fnv_mix_inj: "fnv_mix h v = fnv_mix h w \<longleftrightarrow> v = w"
proof
  assume "fnv_mix h v = fnv_mix h w"
  then have "(h XOR v) * 1099511628211 * 14886173955864302971 = (h XOR w) * 1099511628211 * 14886173955864302971"
    by (simp add: fnv_mix_def)
  then have "h XOR v = h XOR w" by (simp only: mult.assoc fnv_prime_inverse mult_1_right)
  then have "h XOR (h XOR v) = h XOR (h XOR w)" by simp
  then show "v = w" by (simp only: xor.assoc [symmetric] xor_self_eq xor.left_neutral)
qed simp

lemma fnv_mix_inj_left: "fnv_mix g v = fnv_mix h v \<longleftrightarrow> g = h"
  using fnv_mix_inj [of v g h] by (simp add: fnv_mix_def xor.commute)

lemma le_nat_inj: "length xs = length ys \<Longrightarrow> le_nat xs = le_nat ys \<Longrightarrow> xs = ys"
proof (induction xs ys rule: list_induct2)
  case (Cons x xs y ys)
  have "(unat x + 256 * le_nat xs) mod 256 = (unat y + 256 * le_nat ys) mod 256"
    and "(unat x + 256 * le_nat xs) div 256 = (unat y + 256 * le_nat ys) div 256"
    using Cons.prems by simp_all
  then have "unat x = unat y" and "le_nat xs = le_nat ys"
    using unat_u8_less [of x] unat_u8_less [of y] by simp_all
  with Cons.IH show ?case by (simp add: word_unat_eq_iff)
qed simp

lemma raw32_inj:
  assumes "4 \<le> length xs" and "4 \<le> length ys" and "raw32 xs 0 = raw32 ys 0"
  shows "take 4 xs = take 4 ys"
proof (rule le_nat_inj)
  have "le_nat (take 4 xs) < 4294967296" "le_nat (take 4 ys) < 4294967296"
    using le_nat_less [of "take 4 xs"] le_nat_less [of "take 4 ys"] assms(1,2) by (simp_all add: min_absorb2)
  then show "le_nat (take 4 xs) = le_nat (take 4 ys)"
    using arg_cong [OF assms(3), of unat] by (simp add: raw32_def unat_of_nat_u32)
qed (use assms in simp)

text \<open>The two packed words of the hash determine what they pack.\<close>

lemma pack_addresses:
  fixes s d :: u32
  shows "ucast (drop_bit 32 (push_bit 32 (ucast s) OR ucast d :: u64)) = s"
    and "ucast (push_bit 32 (ucast s) OR ucast d :: u64) = d"
  by (rule bit_word_eqI; auto simp: bit_simps dest: bit_imp_le_length)+

lemma pack_addresses_inj:
  fixes s d s' d' :: u32
  assumes "(push_bit 32 (ucast s) OR ucast d :: u64) = push_bit 32 (ucast s') OR ucast d'"
  shows "s = s' \<and> d = d'"
  using pack_addresses [of s d] pack_addresses [of s' d'] unfolding assms by simp

lemma pack_ports:
  fixes f :: u64 and sp dp :: u16 and p :: u8
  shows "ucast (drop_bit 32 (push_bit 48 f OR push_bit 32 (ucast sp) OR push_bit 16 (ucast dp) OR ucast p)) = sp"
    and "ucast (drop_bit 16 (push_bit 48 f OR push_bit 32 (ucast sp) OR push_bit 16 (ucast dp) OR ucast p)) = dp"
    and "ucast (push_bit 48 f OR push_bit 32 (ucast sp) OR push_bit 16 (ucast dp) OR ucast p) = p"
  by (rule bit_word_eqI; auto simp: bit_simps dest: bit_imp_le_length)+

lemma pack_ports_inj:
  fixes f :: u64 and sp dp sp' dp' :: u16 and p p' :: u8
  assumes "push_bit 48 f OR push_bit 32 (ucast sp) OR push_bit 16 (ucast dp) OR ucast p =
    push_bit 48 f OR push_bit 32 (ucast sp') OR push_bit 16 (ucast dp') OR ucast p'"
  shows "sp = sp' \<and> dp = dp' \<and> p = p'"
  using pack_ports [where f = f and sp = sp and dp = dp and p = p]
    pack_ports [where f = f and sp = sp' and dp = dp' and p = p'] unfolding assms by simp

lemma FlowKeyHash_v4:
  "fk_isIpv4 k \<Longrightarrow> FlowKeyHash k =
     fnv_mix (fnv_mix 14695981039346656037
         (push_bit 32 (ucast (raw32 (fk_src_ip k) 0)) OR ucast (raw32 (fk_dst_ip k) 0)))
       (push_bit 48 1 OR push_bit 32 (ucast (fk_src_port k)) OR push_bit 16 (ucast (fk_dst_port k)) OR ucast (fk_protocol k))"
  by (simp add: FlowKeyHash_def)

section \<open>Filters\<close>

text \<open>The key with every field the filter sets overwritten by the filter's value.\<close>

definition overlay :: "FlowKey \<Rightarrow> FlowKey \<Rightarrow> FlowKey" where
  "overlay f k =
     \<lparr> fk_isIpv4 = (if anyNonZero (fk_src_ip f) \<or> anyNonZero (fk_dst_ip f) then fk_isIpv4 f else fk_isIpv4 k),
       fk_src_ip = (if anyNonZero (fk_src_ip f) then fk_src_ip f else fk_src_ip k),
       fk_dst_ip = (if anyNonZero (fk_dst_ip f) then fk_dst_ip f else fk_dst_ip k),
       fk_src_port = (if fk_src_port f \<noteq> 0 then fk_src_port f else fk_src_port k),
       fk_dst_port = (if fk_dst_port f \<noteq> 0 then fk_dst_port f else fk_dst_port k),
       fk_protocol = (if fk_protocol f \<noteq> 0 then fk_protocol f else fk_protocol k) \<rparr>"

lemma matches_overlay:
  assumes "FlowKey_wf f" and "FlowKey_wf k"
  shows "matches f k \<longleftrightarrow> overlay f k = k"
  using assms by (cases k) (auto simp: matches_def overlay_def FlowKey_wf_def memcmp_eq_0)

lemma unset_filter_matches: "\<not> isNonZero f \<Longrightarrow> matches f k"
  by (auto simp: isNonZero_def matches_def)

section \<open>Properties\<close>

text \<open>
  Normalisation identifies exactly the two directions of a conversation: two keys
  normalise to the same key if and only if they are equal or each other's reverse, and the
  returned flag tells the two directions apart unless the key is its own reverse.
\<close>

theorem normalize_canonical:
  assumes "FlowKey_wf k" and "FlowKey_wf k'"
  shows "(fst (normalize k) = fst (normalize k') \<longleftrightarrow> k' = k \<or> k' = reverse_key k) \<and>
    (snd (normalize (reverse_key k)) = (\<not> snd (normalize k)) \<or> reverse_key k = k)"
proof -
  have iff: "reverse_key x = y \<longleftrightarrow> x = reverse_key y" for x y by auto
  show ?thesis
    using oriented_both [OF assms(1)] oriented_either [of k] oriented_both [OF assms(2)] oriented_either [of k']
    by (auto simp: normalize_alt iff)
qed

theorem normalize_canonical_witness:
  "fst (normalize (FlowKey_zero \<lparr> fk_src_port := 443, fk_dst_port := 80 \<rparr>)) =
   fst (normalize (FlowKey_zero \<lparr> fk_src_port := 80, fk_dst_port := 443 \<rparr>))"
  using normalize_canonical [of "FlowKey_zero \<lparr> fk_src_port := 443, fk_dst_port := 80 \<rparr>"
      "FlowKey_zero \<lparr> fk_src_port := 80, fk_dst_port := 443 \<rparr>"]
  by (simp add: FlowKey_wf_def FlowKey_zero_def reverse_key_def)

text \<open>
  The hash spreads the flows of a host pair: two IPv4 keys with the same addresses, or
  with the same ports and protocol, have the same hash only if they agree in all of
  addresses, ports and protocol. No two connections between the same two hosts collide.
\<close>

theorem FlowKeyHash_no_collision:
  assumes "FlowKey_wf k" and "FlowKey_wf k'" and "fk_isIpv4 k" and "fk_isIpv4 k'"
    and "FlowKeyHash k = FlowKeyHash k'"
    and "take 4 (fk_src_ip k) = take 4 (fk_src_ip k') \<and> take 4 (fk_dst_ip k) = take 4 (fk_dst_ip k') \<or>
         fk_src_port k = fk_src_port k' \<and> fk_dst_port k = fk_dst_port k' \<and> fk_protocol k = fk_protocol k'"
  shows "take 4 (fk_src_ip k) = take 4 (fk_src_ip k') \<and> take 4 (fk_dst_ip k) = take 4 (fk_dst_ip k') \<and>
    fk_src_port k = fk_src_port k' \<and> fk_dst_port k = fk_dst_port k' \<and> fk_protocol k = fk_protocol k'"
  using assms(6)
proof
  assume a: "take 4 (fk_src_ip k) = take 4 (fk_src_ip k') \<and> take 4 (fk_dst_ip k) = take 4 (fk_dst_ip k')"
  then have "raw32 (fk_src_ip k) 0 = raw32 (fk_src_ip k') 0" "raw32 (fk_dst_ip k) 0 = raw32 (fk_dst_ip k') 0"
    by (simp_all add: raw32_def)
  then have "fk_src_port k = fk_src_port k' \<and> fk_dst_port k = fk_dst_port k' \<and> fk_protocol k = fk_protocol k'"
    using assms(5) unfolding FlowKeyHash_v4 [OF assms(3)] FlowKeyHash_v4 [OF assms(4)]
    by (intro pack_ports_inj [of 1]) (simp only: fnv_mix_inj)
  then show ?thesis using a by simp
next
  assume p: "fk_src_port k = fk_src_port k' \<and> fk_dst_port k = fk_dst_port k' \<and> fk_protocol k = fk_protocol k'"
  then have "raw32 (fk_src_ip k) 0 = raw32 (fk_src_ip k') 0 \<and> raw32 (fk_dst_ip k) 0 = raw32 (fk_dst_ip k') 0"
    using assms(5) unfolding FlowKeyHash_v4 [OF assms(3)] FlowKeyHash_v4 [OF assms(4)]
    by (intro pack_addresses_inj) (simp only: fnv_mix_inj fnv_mix_inj_left)
  then show ?thesis using p assms(1,2) by (simp add: FlowKey_wf_def raw32_inj)
qed

end
