(* ===== verification/Reassembler.thy ===== *)
theory Reassembler
  imports Transport
begin

text \<open>
  The TCP reassembler (\<^verbatim>\<open>src/net/flow/tcp_reassembler.cpp\<close>): one per direction of a
  flow. Segments that arrive ahead of \<open>next_seq\<close> wait in \<open>out_of_order\<close>, sorted by their
  distance from \<open>next_seq\<close> in 32-bit sequence space; whatever becomes contiguous is appended
  to \<open>assembled\<close>, from which the application decoder reads.

  Reserving and shrinking the capacity of \<open>assembled\<close> has no observable effect and is left
  out. \<open>-delta\<close> is undefined for the smallest \<open>int32_t\<close>, which \<open>drain\<close> reports as \<open>UB\<close>.
\<close>

section \<open>State\<close>

datatype TcpState =
  StUnknown | Closed | Listen | SynSent | SynReceived | Established |
  FinWait1 | FinWait2 | CloseWait | Closing | LastAck | TimeWait

fun toString_TcpState :: "TcpState \<Rightarrow> string" where
  "toString_TcpState StUnknown = ''Unknown''"
| "toString_TcpState Closed = ''Closed''"
| "toString_TcpState Listen = ''Listen''"
| "toString_TcpState SynSent = ''SynSent''"
| "toString_TcpState SynReceived = ''SynReceived''"
| "toString_TcpState Established = ''Established''"
| "toString_TcpState FinWait1 = ''FinWait1''"
| "toString_TcpState FinWait2 = ''FinWait2''"
| "toString_TcpState CloseWait = ''CloseWait''"
| "toString_TcpState Closing = ''Closing''"
| "toString_TcpState LastAck = ''LastAck''"
| "toString_TcpState TimeWait = ''TimeWait''"

definition MAX_OOO_BYTES :: nat where "MAX_OOO_BYTES = 1048576"
definition MIN_COMPACT_BYTES :: nat where "MIN_COMPACT_BYTES = 4096"

record Segment =
  seg_seq :: u32
  seg_data :: "u8 list"

record TcpReassembler =
  state :: TcpState
  next_seq :: u32
  ooo_bytes :: u64
  out_of_order :: "Segment list"
  assembled :: "u8 list"
  fin_seen :: bool
  fin_seq :: u32
  seeded :: bool
  keep_payload :: bool
  read_pos :: nat

definition TcpReassembler_init :: TcpReassembler where
  "TcpReassembler_init = \<lparr> state = StUnknown, next_seq = 0, ooo_bytes = 0, out_of_order = [], assembled = [],
     fin_seen = False, fin_seq = 0, seeded = False, keep_payload = True, read_pos = 0 \<rparr>"

section \<open>Queueing and draining\<close>

text \<open>\<open>std::lower_bound\<close>, the halving search: \<open>first\<close> and \<open>len\<close> delimit the range.\<close>

function lower_bound :: "('a \<Rightarrow> bool) \<Rightarrow> 'a list \<Rightarrow> nat \<Rightarrow> nat \<Rightarrow> nat" where
  "lower_bound below xs first len =
     (if len = 0 then first
      else let half = len div 2; mid = first + half in
        if below (xs ! mid) then lower_bound below xs (mid + 1) (len - half - 1)
        else lower_bound below xs first half)"
  by pat_completeness auto
termination
  by (relation "measure (\<lambda>(_, _, _, len). len)") auto

declare lower_bound.simps [simp del]

text \<open>The loop of \<open>drain\<close>: the queue that is left, \<open>next_seq\<close>, \<open>ooo_bytes\<close>, \<open>assembled\<close>.\<close>

fun drain_loop :: "Segment list \<Rightarrow> u32 \<Rightarrow> u64 \<Rightarrow> u8 list \<Rightarrow> (Segment list \<times> u32 \<times> u64 \<times> u8 list) res" where
  "drain_loop [] next ooo asm = Ok ([], next, ooo, asm)"
| "drain_loop (segment # rest) next ooo asm =
     (let delta = sint (seg_seq segment - next) in
      if delta > 0 then Ok (segment # rest, next, ooo, asm)
      else if delta = - 2147483648 then UB
      else let covered = nat (- delta); size = length (seg_data segment) in
        if covered < size
        then drain_loop rest (next + of_nat (size - covered)) (ooo - of_nat size) (asm @ drop covered (seg_data segment))
        else drain_loop rest next (ooo - of_nat size) asm)"

definition drain :: "TcpReassembler \<Rightarrow> TcpReassembler res" where
  "drain st = bind_res (drain_loop (out_of_order st) (next_seq st) (ooo_bytes st) (assembled st))
     (\<lambda>(rest, next, ooo, asm).
       Ok (st \<lparr> out_of_order := rest, next_seq := next, ooo_bytes := ooo, assembled := asm \<rparr>))"

text \<open>The branch of \<open>ingest\<close> for a segment ahead of \<open>next_seq\<close>.\<close>

definition enqueue :: "TcpReassembler \<Rightarrow> u32 \<Rightarrow> span \<Rightarrow> TcpReassembler" where
  "enqueue st seq span =
     (let base = next_seq st; ooo = out_of_order st; size = of_nat (length span) :: u64;
          i = lower_bound (\<lambda>s. seg_seq s - base < seq - base) ooo 0 (length ooo) in
      if i < length ooo \<and> seg_seq (ooo ! i) = seq then
        let old = of_nat (length (seg_data (ooo ! i))) :: u64 in
        if length span > length (seg_data (ooo ! i)) then
          if ooo_bytes st + size - old \<le> of_nat MAX_OOO_BYTES then
            st \<lparr> ooo_bytes := ooo_bytes st + (size - old),
                 out_of_order := ooo [i := (ooo ! i) \<lparr> seg_data := span \<rparr>] \<rparr>
          else st
        else st
      else if ooo_bytes st + size \<le> of_nat MAX_OOO_BYTES then
        st \<lparr> out_of_order := take i ooo @ \<lparr> seg_seq = seq, seg_data = span \<rparr> # drop i ooo,
             ooo_bytes := ooo_bytes st + size \<rparr>
      else st)"

definition ingest :: "TcpReassembler \<Rightarrow> u32 \<Rightarrow> span \<Rightarrow> TcpReassembler res" where
  "ingest st seq span =
     (let size = of_nat (length span) :: u32 in
      if \<not> keep_payload st then
        if seq = next_seq st then Ok (st \<lparr> next_seq := next_seq st + size \<rparr>)
        else if sint (seq - next_seq st) < 0 then
          let overlap = next_seq st - seq in
          if overlap < size then Ok (st \<lparr> next_seq := next_seq st + (size - overlap) \<rparr>) else Ok st
        else Ok st
      else if seq = next_seq st then
        drain (st \<lparr> assembled := assembled st @ span, next_seq := next_seq st + size \<rparr>)
      else if sint (seq - next_seq st) > 0 then Ok (enqueue st seq span)
      else
        let overlap = next_seq st - seq in
        if overlap < size then
          bind_res (subspan span (unat overlap)) (\<lambda>tail.
          drain (st \<lparr> assembled := assembled st @ tail, next_seq := next_seq st + (size - overlap) \<rparr>))
        else Ok st)"

section \<open>The connection\<close>

definition onData :: "TcpReassembler \<Rightarrow> tcp_Header \<Rightarrow> span \<Rightarrow> TcpReassembler res" where
  "onData st header span =
     bind_res (ingest st (tcp_seq_number header) span) (\<lambda>st.
       let st = (if tcp_fin header
             then st \<lparr> fin_seen := True, fin_seq := tcp_seq_number header + of_nat (length span) \<rparr> else st) in
       if fin_seen st \<and> sint (next_seq st - fin_seq st) \<ge> 0 then
         Ok (st \<lparr> next_seq := next_seq st + 1, fin_seen := False,
                  state := (if state st = CloseWait then LastAck else FinWait1) \<rparr>)
       else Ok st)"

definition onSent :: "TcpReassembler \<Rightarrow> tcp_Header \<Rightarrow> span \<Rightarrow> TcpReassembler res" where
  "onSent st header span =
     (if tcp_rst header then Ok (st \<lparr> state := Closed \<rparr>)
      else if \<not> seeded st then
        if tcp_syn header then
          ingest (st \<lparr> next_seq := tcp_seq_number header + 1,
                       state := (if tcp_ack header then SynReceived else SynSent), seeded := True \<rparr>)
            (tcp_seq_number header + 1) span
        else if tcp_ack header then
          onData (st \<lparr> next_seq := tcp_seq_number header, seeded := True,
                       state := (if state st \<noteq> CloseWait then Established else state st) \<rparr>) header span
        else Ok st
      else case state st of
          StUnknown \<Rightarrow> Ok st | Closed \<Rightarrow> Ok st | Listen \<Rightarrow> Ok st
        | SynSent \<Rightarrow>
            let st = (if tcp_ack header \<and> \<not> tcp_syn header then st \<lparr> state := Established \<rparr> else st) in
            if state st = Established then onData st header span else Ok st
        | SynReceived \<Rightarrow> Ok st
        | Established \<Rightarrow> onData st header span
        | CloseWait \<Rightarrow> onData st header span
        | FinWait1 \<Rightarrow> Ok st | FinWait2 \<Rightarrow> Ok st | Closing \<Rightarrow> Ok st | LastAck \<Rightarrow> Ok st | TimeWait \<Rightarrow> Ok st)"

definition acks_all :: "TcpReassembler \<Rightarrow> tcp_Header \<Rightarrow> bool" where
  "acks_all st header \<longleftrightarrow> sint (tcp_ack_number header - next_seq st) \<ge> 0"

definition onReceived :: "TcpReassembler \<Rightarrow> tcp_Header \<Rightarrow> TcpReassembler" where
  "onReceived st header =
     (if tcp_rst header then st \<lparr> state := Closed \<rparr>
      else
        let opening =
          (if tcp_syn header \<and> \<not> tcp_ack header then st \<lparr> state := Listen \<rparr>
           else if tcp_ack header \<and> \<not> tcp_syn header
           then st \<lparr> state := (if tcp_fin header then CloseWait else Established) \<rparr> else st) in
        case state st of
          StUnknown \<Rightarrow> opening | Closed \<Rightarrow> opening | Listen \<Rightarrow> opening
        | SynSent \<Rightarrow> (if tcp_syn header \<and> \<not> tcp_ack header then st \<lparr> state := SynReceived \<rparr> else st)
        | SynReceived \<Rightarrow>
            (if tcp_ack header \<and> \<not> tcp_syn header
             then st \<lparr> state := (if tcp_fin header then CloseWait else Established) \<rparr> else st)
        | Established \<Rightarrow> (if tcp_fin header then st \<lparr> state := CloseWait \<rparr> else st)
        | FinWait1 \<Rightarrow>
            (if tcp_fin header \<and> tcp_ack header \<and> acks_all st header then st \<lparr> state := TimeWait \<rparr>
             else if tcp_fin header then st \<lparr> state := Closing \<rparr>
             else if tcp_ack header \<and> acks_all st header then st \<lparr> state := FinWait2 \<rparr> else st)
        | FinWait2 \<Rightarrow> (if tcp_fin header then st \<lparr> state := TimeWait \<rparr> else st)
        | Closing \<Rightarrow> (if tcp_ack header \<and> acks_all st header then st \<lparr> state := TimeWait \<rparr> else st)
        | LastAck \<Rightarrow> (if tcp_ack header \<and> acks_all st header then st \<lparr> state := Closed \<rparr> else st)
        | TimeWait \<Rightarrow> st
        | CloseWait \<Rightarrow> st)"

section \<open>Reading\<close>

definition available :: "TcpReassembler \<Rightarrow> nat" where
  "available st = length (assembled st) - read_pos st"

definition peek :: "TcpReassembler \<Rightarrow> span res" where
  "peek st = subspan (assembled st) (read_pos st)"

definition consume :: "TcpReassembler \<Rightarrow> nat \<Rightarrow> TcpReassembler" where
  "consume st n =
     (let st = st \<lparr> read_pos := read_pos st + min n (available st) \<rparr> in
      if read_pos st > MIN_COMPACT_BYTES \<and> read_pos st > length (assembled st) div 2
      then st \<lparr> assembled := drop (read_pos st) (assembled st), read_pos := 0 \<rparr> else st)"

definition hasReadableData :: "TcpReassembler \<Rightarrow> bool" where
  "hasReadableData st \<longleftrightarrow> state st = Established \<or> state st = FinWait1 \<or> state st = FinWait2"

section \<open>Signed sequence distances\<close>

lemma uint_of_unat: "uint w = int (unat w)" by simp

lemma sint_mod: "sint w = (uint w + 2147483648) mod 4294967296 - 2147483648" for w :: u32
  unfolding sint_uint signed_take_bit_eq_take_bit_shift by (simp only: take_bit_eq_mod) simp

lemma mod_shift:
  "0 \<le> k \<Longrightarrow> k < 4294967296 \<Longrightarrow> (k + 2147483648) mod 4294967296 - 2147483648 = (if k < 2147483648 then k else k - 4294967296)" for k :: int
proof -
  assume k: "0 \<le> k" "k < 4294967296"
  show ?thesis
  proof (cases "k < 2147483648")
    case True with k show ?thesis by (simp add: mod_pos_pos_trivial)
  next
    case False
    have "(k + 2147483648) mod 4294967296 = (k + 2147483648 - 4294967296) mod 4294967296"
      by (metis minus_mod_self2)
    with False k show ?thesis by (simp add: mod_pos_pos_trivial)
  qed
qed

lemma shift_nat:
  "n < 4294967296 \<Longrightarrow> (int n + 2147483648) mod 4294967296 - 2147483648 = (if n < 2147483648 then int n else int n - 4294967296)"
  using mod_shift [of "int n"] by auto

lemma sint_u32: "sint w = (if unat w < 2147483648 then int (unat w) else int (unat w) - 4294967296)" for w :: u32
  unfolding sint_mod uint_of_unat by (rule shift_nat [OF unat_u32_less])

lemma signed_nat_cases:
  "n < 4294967296 \<Longrightarrow> (0 < (if n < 2147483648 then int n else int n - 4294967296)) = (0 < n \<and> n < 2147483648)"
  "n < 4294967296 \<Longrightarrow> ((if n < 2147483648 then int n else int n - 4294967296) < 0) = (2147483648 \<le> n)"
  by auto

lemma sint_pos_iff: "0 < sint w \<longleftrightarrow> 0 < unat w \<and> unat w < 2147483648" for w :: u32
  unfolding sint_u32 by (rule signed_nat_cases(1) [OF unat_u32_less])

lemma sint_neg_iff: "sint w < 0 \<longleftrightarrow> 2147483648 \<le> unat w" for w :: u32
  unfolding sint_u32 by (rule signed_nat_cases(2) [OF unat_u32_less])

lemma unat_minus_of_nat: "0 < m \<Longrightarrow> m < 4294967296 \<Longrightarrow> unat (- (of_nat m :: u32)) = 4294967296 - m"
proof -
  assume m: "0 < m" "m < 4294967296"
  have "- (of_nat m :: u32) = of_nat (4294967296 - m)"
    using m by (simp add: of_nat_diff)
  then show ?thesis using m by (simp add: unat_of_nat_u32 del: of_nat_diff)
qed

lemma of_nat_unat_eq: "unat w = n \<Longrightarrow> w = of_nat n" for w :: "'a::len word" by auto

lemma sint_minus_of_nat: "m < 2147483648 \<Longrightarrow> sint (- (of_nat m :: u32)) = - int m"
proof (cases "m = 0")
  case False
  assume m: "m < 2147483648"
  with False have "unat (- (of_nat m :: u32)) = 4294967296 - m" by (intro unat_minus_of_nat) auto
  with m False show ?thesis unfolding sint_u32 by (simp add: of_nat_diff)
qed simp

lemma sint_minus_diff:
  fixes s b :: u32
  assumes "unat (s - b) = d" and "d \<le> a" and "a - d < 2147483648"
  shows "sint (s - (b + of_nat a)) = - int (a - d)"
proof -
  have s: "s - b = of_nat d" using assms(1) by (rule of_nat_unat_eq)
  have "s - (b + of_nat a) = (s - b) - of_nat a" by simp
  also have "\<dots> = - of_nat (a - d)" unfolding s using assms(2) by (simp add: of_nat_diff)
  finally show ?thesis using sint_minus_of_nat [OF assms(3)] by simp
qed

lemma unat_diff_add:
  fixes s b :: u32
  assumes "unat (s - b) = d" and "a \<le> d"
  shows "unat (s - (b + of_nat a)) = d - a"
proof -
  have s: "s - b = of_nat d" using assms(1) by (rule of_nat_unat_eq)
  have "s - (b + of_nat a) = (s - b) - of_nat a" by simp
  also have "\<dots> = of_nat (d - a)" unfolding s using assms(2) by (simp add: of_nat_diff)
  finally show ?thesis
    using assms(1) unat_u32_less [of "s - b"] by (simp add: unat_of_nat_u32 del: of_nat_diff)
qed

section \<open>The search\<close>

lemma lower_bound_spec:
  assumes "first + len \<le> length xs"
    and "\<And>i j. i < j \<Longrightarrow> j < length xs \<Longrightarrow> P (xs ! j) \<Longrightarrow> P (xs ! i)"
    and "\<And>i. i < first \<Longrightarrow> P (xs ! i)"
    and "\<And>i. first + len \<le> i \<Longrightarrow> i < length xs \<Longrightarrow> \<not> P (xs ! i)"
  shows "lower_bound P xs first len \<le> length xs \<and>
    (\<forall>i < lower_bound P xs first len. P (xs ! i)) \<and>
    (\<forall>i. lower_bound P xs first len \<le> i \<and> i < length xs \<longrightarrow> \<not> P (xs ! i))"
  using assms
proof (induction P xs first len rule: lower_bound.induct)
  case (1 P xs first len)
  show ?case
  proof (cases "len = 0")
    case True
    with "1.prems" show ?thesis by (simp add: lower_bound.simps [of P xs first 0])
  next
    case False
    let ?mid = "first + len div 2"
    have mid: "?mid < length xs" using False "1.prems"(1) by (simp add: div_less_dividend)
    show ?thesis
    proof (cases "P (xs ! ?mid)")
      case True
      have step: "lower_bound P xs first len = lower_bound P xs (?mid + 1) (len - len div 2 - 1)"
        using False True by (subst lower_bound.simps) (simp add: Let_def)
      have below: "\<And>i. i < ?mid + 1 \<Longrightarrow> P (xs ! i)"
        using True "1.prems"(2) [OF _ mid True] by (metis Suc_eq_plus1 less_Suc_eq)
      have eq: "?mid + 1 + (len - len div 2 - 1) = first + len" using False by simp
      show ?thesis
        unfolding step
      proof (rule "1.IH"(1) [OF False refl refl True])
        show "?mid + 1 + (len - len div 2 - 1) \<le> length xs" using "1.prems"(1) eq by simp
        show "P (xs ! i)" if "i < j" "j < length xs" "P (xs ! j)" for i j using "1.prems"(2) that .
        show "P (xs ! i)" if "i < ?mid + 1" for i using below that .
        show "\<not> P (xs ! i)" if "?mid + 1 + (len - len div 2 - 1) \<le> i" "i < length xs" for i
          using "1.prems"(4) that unfolding eq .
      qed
    next
      case nP: False
      have step: "lower_bound P xs first len = lower_bound P xs first (len div 2)"
        using False nP by (subst lower_bound.simps) (simp add: Let_def)
      show ?thesis
        unfolding step
      proof (rule "1.IH"(2) [OF False refl refl nP])
        show "first + len div 2 \<le> length xs" using mid by simp
        show "P (xs ! i)" if "i < j" "j < length xs" "P (xs ! j)" for i j using "1.prems"(2) that .
        show "P (xs ! i)" if "i < first" for i using "1.prems"(3) that .
        show "\<not> P (xs ! i)" if "?mid \<le> i" "i < length xs" for i
          using nP "1.prems"(2) [of ?mid i] that by (cases "?mid = i") auto
      qed
    qed
  qed
qed

section \<open>Draining, on distances\<close>

definition seg_dist :: "u32 \<Rightarrow> Segment \<Rightarrow> nat" where
  "seg_dist base s = unat (seg_seq s - base)"

definition seg_bytes :: "Segment list \<Rightarrow> nat" where
  "seg_bytes xs = sum_list (map (\<lambda>s. length (seg_data s)) xs)"

lemma seg_bytes_simps [simp]:
  "seg_bytes [] = 0" "seg_bytes (s # xs) = length (seg_data s) + seg_bytes xs"
  "seg_bytes (xs @ ys) = seg_bytes xs + seg_bytes ys"
  by (simp_all add: seg_bytes_def)

lemma seg_bytes_member: "s \<in> set xs \<Longrightarrow> length (seg_data s) \<le> seg_bytes xs"
  by (induction xs) auto

text \<open>
  The queue is strictly sorted by the distance from \<open>base\<close>, and every distance is below
  \<open>2 ^ 31\<close>: no queued segment looks like it lies behind.
\<close>

definition queue_ok :: "u32 \<Rightarrow> Segment list \<Rightarrow> bool" where
  "queue_ok base xs \<longleftrightarrow> sorted_wrt (<) (map (seg_dist base) xs) \<and> (\<forall>s\<in>set xs. seg_dist base s < 2147483648)"

text \<open>
  \<open>drain_count\<close>: how many segments are drained, and where \<open>next_seq\<close> and the new bytes end
  up, both counted from \<open>base\<close>.
\<close>

fun drain_count :: "u32 \<Rightarrow> Segment list \<Rightarrow> nat \<Rightarrow> nat \<times> nat \<times> u8 list" where
  "drain_count base [] a = (0, a, [])"
| "drain_count base (s # xs) a =
     (if a < seg_dist base s then (0, a, [])
      else let covered = a - seg_dist base s; size = length (seg_data s) in
        if covered < size
        then (case drain_count base xs (a + (size - covered)) of (m, a', e) \<Rightarrow> (Suc m, a', drop covered (seg_data s) @ e))
        else (case drain_count base xs a of (m, a', e) \<Rightarrow> (Suc m, a', e)))"

lemma drain_loop_count:
  assumes "queue_ok base xs" and "seg_bytes xs \<le> 1048576"
    and "\<forall>s\<in>set xs. a < seg_dist base s + 2147483648"
    and "drain_count base xs a = (m, a', e)"
  shows "drain_loop xs (base + of_nat a) ooo asm =
    Ok (drop m xs, base + of_nat a', ooo - of_nat (seg_bytes (take m xs)), asm @ e)"
  using assms
proof (induction xs arbitrary: a m a' e ooo asm)
  case (Cons s xs)
  let ?d = "seg_dist base s" and ?n = "length (seg_data s)"
  have d: "?d < 2147483648" "a < ?d + 2147483648" "\<forall>t\<in>set xs. ?d < seg_dist base t"
    using Cons.prems(1,3) by (auto simp: queue_ok_def)
  have tail: "queue_ok base xs" "seg_bytes xs \<le> 1048576" "\<forall>t\<in>set xs. a < seg_dist base t + 2147483648"
    using Cons.prems by (auto simp: queue_ok_def)
  show ?case
  proof (cases "a < ?d")
    case True
    have "sint (seg_seq s - (base + of_nat a)) > 0"
      using unat_diff_add [of "seg_seq s" base ?d a] True d(1)
      by (simp add: sint_pos_iff seg_dist_def)
    with True Cons.prems(4) show ?thesis by simp
  next
    case False
    have delta: "sint (seg_seq s - (base + of_nat a)) = - int (a - ?d)"
      using False d(2) by (intro sint_minus_diff) (auto simp: seg_dist_def)
    have cov: "nat (- sint (seg_seq s - (base + of_nat a))) = a - ?d"
      "\<not> 0 < sint (seg_seq s - (base + of_nat a))"
      "sint (seg_seq s - (base + of_nat a)) \<noteq> - 2147483648"
      unfolding delta using False d(2) by auto
    show ?thesis
    proof (cases "a - ?d < ?n")
      case True
      let ?a = "a + (?n - (a - ?d))"
      obtain m1 a1 e1 where r: "drain_count base xs ?a = (m1, a1, e1)" by (metis prod.exhaust)
      have "?a = ?d + ?n" using True False by simp
      moreover have "?n \<le> 1048576" using Cons.prems(2) by simp
      ultimately have "\<forall>t\<in>set xs. ?a < seg_dist base t + 2147483648" using d(3) by fastforce
      from Cons.IH [OF tail(1,2) this r, of "ooo - of_nat ?n" "asm @ drop (a - ?d) (seg_data s)"]
      show ?thesis
        using Cons.prems(4) False True r cov
        by (auto simp: Let_def algebra_simps)
    next
      case nTrue: False
      obtain m1 a1 e1 where r: "drain_count base xs a = (m1, a1, e1)" by (metis prod.exhaust)
      from Cons.IH [OF tail r, of "ooo - of_nat ?n" asm]
      show ?thesis
        using Cons.prems(4) False nTrue r cov by (auto simp: Let_def algebra_simps)
    qed
  qed
qed simp

text \<open>What draining leaves: everything still queued lies strictly ahead.\<close>

lemma drain_count_bounds:
  assumes "drain_count base xs a = (m, a', e)"
  shows "a \<le> a' \<and> m \<le> length xs \<and> length e = a' - a \<and>
    (\<forall>s \<in> set (take m xs). seg_dist base s + length (seg_data s) \<le> a') \<and>
    (\<forall>i. a \<le> i \<and> i < a' \<longrightarrow> (\<exists>s \<in> set (take m xs). seg_dist base s \<le> i \<and> i < seg_dist base s + length (seg_data s)))"
  using assms
proof (induction xs arbitrary: a m a' e)
  case (Cons s xs)
  let ?d = "seg_dist base s" and ?n = "length (seg_data s)"
  show ?case
  proof (cases "a < ?d")
    case True
    with Cons.prems show ?thesis by auto
  next
    case False
    show ?thesis
    proof (cases "a - ?d < ?n")
      case True
      obtain m1 a1 e1 where r: "drain_count base xs (a + (?n - (a - ?d))) = (m1, a1, e1)" by (metis prod.exhaust)
      have eq: "a + (?n - (a - ?d)) = ?d + ?n" using True False by simp
      have m: "m = Suc m1" "a' = a1" "e = drop (a - ?d) (seg_data s) @ e1"
        using Cons.prems False True r by (auto simp: Let_def)
      have IH: "?d + ?n \<le> a1" "m1 \<le> length xs" "length e1 = a1 - (?d + ?n)"
        "\<forall>s \<in> set (take m1 xs). seg_dist base s + length (seg_data s) \<le> a1"
        "\<And>i. ?d + ?n \<le> i \<Longrightarrow> i < a1 \<Longrightarrow> \<exists>s \<in> set (take m1 xs). seg_dist base s \<le> i \<and> i < seg_dist base s + length (seg_data s)"
        using Cons.IH [OF r] unfolding eq by auto
      have "\<exists>t \<in> set (take m (s # xs)). seg_dist base t \<le> i \<and> i < seg_dist base t + length (seg_data t)"
        if "a \<le> i" "i < a'" for i
        using that IH(5) [of i] False unfolding m by (cases "i < ?d + ?n") auto
      with IH show ?thesis using False True unfolding m by auto
    next
      case nTrue: False
      obtain m1 a1 e1 where r: "drain_count base xs a = (m1, a1, e1)" by (metis prod.exhaust)
      have m: "m = Suc m1" "a' = a1" "e = e1" using Cons.prems False nTrue r by (auto simp: Let_def)
      show ?thesis using Cons.IH [OF r] False nTrue unfolding m by fastforce
    qed
  qed
qed simp

lemma drain_count_rest:
  assumes "drain_count base xs a = (m, a', e)" and "queue_ok base xs"
  shows "\<forall>s\<in>set (drop m xs). a' < seg_dist base s"
  using assms
proof (induction xs arbitrary: a m a' e)
  case (Cons s xs)
  have tail: "queue_ok base xs" "\<forall>t\<in>set xs. seg_dist base s < seg_dist base t"
    using Cons.prems(2) by (auto simp: queue_ok_def)
  show ?case
  proof (cases "a < seg_dist base s")
    case True
    with Cons.prems tail(2) show ?thesis by (auto intro: less_trans)
  next
    case False
    with Cons.prems(1) obtain a2 m1 e1 where "m = Suc m1" "drain_count base xs a2 = (m1, a', e1)"
      by (auto simp: Let_def split: if_splits prod.splits)
    with Cons.IH tail(1) show ?thesis by auto
  qed
qed simp

lemma queue_ok_advance:
  assumes "queue_ok base xs" and "\<forall>s\<in>set xs. a \<le> seg_dist base s"
  shows "queue_ok (base + of_nat a) xs"
    and "\<And>s. s \<in> set xs \<Longrightarrow> seg_dist (base + of_nat a) s = seg_dist base s - a"
proof -
  show d: "seg_dist (base + of_nat a) s = seg_dist base s - a" if "s \<in> set xs" for s
    using that assms(2) unat_diff_add [of "seg_seq s" base _ a] by (simp add: seg_dist_def)
  have "sorted_wrt (<) (map (seg_dist (base + of_nat a)) xs)"
    using assms d by (auto simp: queue_ok_def sorted_wrt_iff_nth_less diff_less_mono)
  moreover have "\<forall>s\<in>set xs. seg_dist (base + of_nat a) s < 2147483648"
    using assms(1) d by (fastforce simp: queue_ok_def)
  ultimately show "queue_ok (base + of_nat a) xs" by (simp add: queue_ok_def)
qed

section \<open>The invariant\<close>

definition reassembler_inv :: "TcpReassembler \<Rightarrow> bool" where
  "reassembler_inv st \<longleftrightarrow> read_pos st \<le> length (assembled st) \<and> queue_ok (next_seq st) (out_of_order st) \<and>
     unat (ooo_bytes st) = seg_bytes (out_of_order st) \<and> seg_bytes (out_of_order st) \<le> MAX_OOO_BYTES \<and>
     ((keep_payload st \<and> seeded st) \<or> out_of_order st = [])"

definition strictly_ahead :: "TcpReassembler \<Rightarrow> bool" where
  "strictly_ahead st \<longleftrightarrow> (\<forall>s\<in>set (out_of_order st). 0 < seg_dist (next_seq st) s)"

lemma reassembler_inv_init: "reassembler_inv TcpReassembler_init" "strictly_ahead TcpReassembler_init"
  by (simp_all add: reassembler_inv_def strictly_ahead_def TcpReassembler_init_def queue_ok_def)

text \<open>Draining after \<open>next_seq\<close> has moved forward by \<open>a\<close> and \<open>new\<close> was appended.\<close>

lemma drain_advance:
  fixes st :: TcpReassembler and new :: "u8 list"
  assumes "reassembler_inv st" and "a < 2147483648"
    and "drain_count (next_seq st) (out_of_order st) a = (m, a', e)"
  defines "st' \<equiv> st \<lparr> out_of_order := drop m (out_of_order st), next_seq := next_seq st + of_nat a',
      ooo_bytes := ooo_bytes st - of_nat (seg_bytes (take m (out_of_order st))), assembled := assembled st @ new @ e \<rparr>"
  shows "drain (st \<lparr> assembled := assembled st @ new, next_seq := next_seq st + of_nat a \<rparr>) = Ok st'"
    and "reassembler_inv st'" and "strictly_ahead st'"
proof -
  let ?b = "next_seq st" and ?q = "out_of_order st"
  have q: "queue_ok ?b ?q" "seg_bytes ?q \<le> 1048576" "unat (ooo_bytes st) = seg_bytes ?q"
    "keep_payload st \<and> seeded st \<or> ?q = []" "read_pos st \<le> length (assembled st)"
    using assms(1) by (auto simp: reassembler_inv_def MAX_OOO_BYTES_def)
  have "drain_loop ?q (?b + of_nat a) (ooo_bytes st) (assembled st @ new) =
      Ok (drop m ?q, ?b + of_nat a', ooo_bytes st - of_nat (seg_bytes (take m ?q)), (assembled st @ new) @ e)"
    using assms(2) by (intro drain_loop_count [OF q(1,2) _ assms(3)]) auto
  then show "drain (st \<lparr> assembled := assembled st @ new, next_seq := next_seq st + of_nat a \<rparr>) = Ok st'"
    by (simp add: drain_def st'_def)
  have ahead: "\<forall>s\<in>set (drop m ?q). a' < seg_dist ?b s"
    using drain_count_rest [OF assms(3) q(1)] .
  then have le: "\<forall>s\<in>set (drop m ?q). a' \<le> seg_dist ?b s" by (auto intro: less_imp_le)
  have "queue_ok ?b (drop m ?q)"
    using q(1) by (auto simp: queue_ok_def drop_map [symmetric] dest: in_set_dropD intro: sorted_wrt_drop)
  note adv = queue_ok_advance [OF this le]
  have sum: "seg_bytes (take m ?q) + seg_bytes (drop m ?q) = seg_bytes ?q"
    using seg_bytes_simps(3) [of "take m ?q" "drop m ?q"] by simp
  have "unat (of_nat (seg_bytes (take m ?q)) :: u64) = seg_bytes (take m ?q)"
    using sum q(2) by (intro unat_of_nat_u64) simp
  then have "unat (ooo_bytes st - of_nat (seg_bytes (take m ?q))) = seg_bytes (drop m ?q)"
    using sum q(3) by (subst unat_sub) (simp_all add: word_le_nat_alt)
  then show "reassembler_inv st'"
    using adv(1) ahead sum q by (auto simp: reassembler_inv_def st'_def MAX_OOO_BYTES_def)
  show "strictly_ahead st'"
    using adv(2) ahead by (auto simp: strictly_ahead_def st'_def)
qed

text \<open>Where a segment ahead of \<open>next_seq\<close> goes.\<close>

lemma enqueue_index:
  assumes "queue_ok (next_seq st) q" and "q = out_of_order st"
  obtains xs ys where "q = xs @ ys" and "\<forall>s\<in>set xs. seg_dist (next_seq st) s < unat (seq - next_seq st)"
    and "\<forall>s\<in>set ys. unat (seq - next_seq st) \<le> seg_dist (next_seq st) s"
    and "lower_bound (\<lambda>s. seg_seq s - next_seq st < seq - next_seq st) q 0 (length q) = length xs"
proof -
  let ?P = "\<lambda>s. seg_seq s - next_seq st < seq - next_seq st"
  let ?r = "lower_bound ?P q 0 (length q)"
  have P: "?P s \<longleftrightarrow> seg_dist (next_seq st) s < unat (seq - next_seq st)" for s
    by (simp add: seg_dist_def word_less_nat_alt)
  have mono: "?P (q ! i)" if "i < j" "j < length q" "?P (q ! j)" for i j
  proof -
    have "seg_dist (next_seq st) (q ! i) < seg_dist (next_seq st) (q ! j)"
      using assms(1) that(1,2) by (simp add: queue_ok_def sorted_wrt_iff_nth_less)
    then show ?thesis using that(3) unfolding P by simp
  qed
  have r: "?r \<le> length q" "\<And>i. i < ?r \<Longrightarrow> ?P (q ! i)" "\<And>i. ?r \<le> i \<Longrightarrow> i < length q \<Longrightarrow> \<not> ?P (q ! i)"
    using lower_bound_spec [of 0 "length q" q ?P] mono by auto
  show ?thesis
  proof
    show "q = take ?r q @ drop ?r q" by simp
    show "\<forall>s\<in>set (take ?r q). seg_dist (next_seq st) s < unat (seq - next_seq st)"
      using r(1,2) unfolding P by (auto simp: in_set_conv_nth)
    show "\<forall>s\<in>set (drop ?r q). unat (seq - next_seq st) \<le> seg_dist (next_seq st) s"
    proof
      fix s assume "s \<in> set (drop ?r q)"
      then obtain i where "i < length q - ?r" "s = q ! (?r + i)"
        by (auto simp: in_set_conv_nth)
      then show "unat (seq - next_seq st) \<le> seg_dist (next_seq st) s"
        using r(3) [of "?r + i"] unfolding P by (simp add: less_diff_conv add.commute)
    qed
    show "lower_bound ?P q 0 (length q) = length (take ?r q)" using r(1) by simp
  qed
qed

lemma seg_dist_inj: "seg_dist b s = unat (seq - b) \<longleftrightarrow> seg_seq s = seq"
  unfolding seg_dist_def by (simp flip: word_unat_eq_iff)

lemma queued_short:
  assumes "reassembler_inv st" and "s \<in> set (out_of_order st)"
  shows "length (seg_data s) < 4294967296"
  using assms seg_bytes_member [OF assms(2)] by (simp add: reassembler_inv_def MAX_OOO_BYTES_def)

text \<open>
  The four outcomes of \<open>enqueue\<close>: a segment with that sequence number is there and is
  replaced by a longer one, or kept; otherwise the segment is inserted, or dropped because
  the buffer is full.
\<close>

lemma enqueue_cases:
  assumes "reassembler_inv st" and "length span < 4294967296"
  obtains
    (replace) xs s ys where "out_of_order st = xs @ s # ys" and "seg_seq s = seq"
      and "length (seg_data s) < length span"
      and "seg_bytes (out_of_order st) + length span \<le> MAX_OOO_BYTES + length (seg_data s)"
      and "enqueue st seq span = st \<lparr> ooo_bytes := ooo_bytes st + (of_nat (length span) - of_nat (length (seg_data s))),
        out_of_order := xs @ s \<lparr> seg_data := span \<rparr> # ys \<rparr>"
  | (keep) s where "s \<in> set (out_of_order st)" and "seg_seq s = seq" and "enqueue st seq span = st"
      and "length span \<le> length (seg_data s) \<or> MAX_OOO_BYTES < seg_bytes (out_of_order st) + length span"
  | (insert) xs ys where "out_of_order st = xs @ ys"
      and "\<forall>s\<in>set xs. seg_dist (next_seq st) s < unat (seq - next_seq st)"
      and "\<forall>s\<in>set ys. unat (seq - next_seq st) < seg_dist (next_seq st) s"
      and "seg_bytes (out_of_order st) + length span \<le> MAX_OOO_BYTES"
      and "enqueue st seq span = st \<lparr> out_of_order := xs @ \<lparr> seg_seq = seq, seg_data = span \<rparr> # ys,
        ooo_bytes := ooo_bytes st + of_nat (length span) \<rparr>"
  | (full) "enqueue st seq span = st" and "MAX_OOO_BYTES < seg_bytes (out_of_order st) + length span"
proof -
  let ?q = "out_of_order st" and ?b = "next_seq st"
  have q: "queue_ok ?b ?q" "unat (ooo_bytes st) = seg_bytes ?q" "seg_bytes ?q \<le> 1048576"
    using assms(1) by (auto simp: reassembler_inv_def MAX_OOO_BYTES_def)
  obtain xs ys where xy: "?q = xs @ ys" "\<forall>s\<in>set xs. seg_dist ?b s < unat (seq - ?b)"
    "\<forall>s\<in>set ys. unat (seq - ?b) \<le> seg_dist ?b s"
    "lower_bound (\<lambda>s. seg_seq s - ?b < seq - ?b) ?q 0 (length ?q) = length xs"
    using enqueue_index [OF q(1) refl] by blast
  have size: "unat (of_nat (length span) :: u64) = length span"
    using assms(2) by (simp add: unat_of_nat_u64)
  have room: "ooo_bytes st + of_nat (length span) \<le> of_nat MAX_OOO_BYTES \<longleftrightarrow> seg_bytes ?q + length span \<le> MAX_OOO_BYTES"
    using q(2,3) assms(2) by (simp add: word_le_nat_alt unat_add_small size MAX_OOO_BYTES_def)
  show thesis
  proof (cases "\<exists>s ys'. ys = s # ys' \<and> seg_seq s = seq")
    case True
    then obtain s ys' where s: "ys = s # ys'" "seg_seq s = seq" by blast
    have old: "unat (of_nat (length (seg_data s)) :: u64) = length (seg_data s)"
      using queued_short [OF assms(1), of s] xy(1) s by (intro unat_of_nat_u64) simp
    have le: "length (seg_data s) \<le> seg_bytes ?q" using xy(1) s by simp
    have "unat (ooo_bytes st + of_nat (length span) - of_nat (length (seg_data s))) =
        seg_bytes ?q + length span - length (seg_data s)"
      using le q(2,3) assms(2) by (subst unat_sub) (simp_all add: word_le_nat_alt unat_add_small size old)
    then have fits: "ooo_bytes st + of_nat (length span) - of_nat (length (seg_data s)) \<le> of_nat MAX_OOO_BYTES \<longleftrightarrow>
        seg_bytes ?q + length span \<le> MAX_OOO_BYTES + length (seg_data s)"
      using le by (auto simp: word_le_nat_alt MAX_OOO_BYTES_def)
    have enq: "enqueue st seq span =
        (if length span > length (seg_data s) \<and> seg_bytes ?q + length span \<le> MAX_OOO_BYTES + length (seg_data s)
         then st \<lparr> ooo_bytes := ooo_bytes st + (of_nat (length span) - of_nat (length (seg_data s))),
              out_of_order := xs @ s \<lparr> seg_data := span \<rparr> # ys' \<rparr> else st)"
      using xy(1,4) s fits by (simp add: enqueue_def Let_def)
    show thesis
    proof (cases "length span > length (seg_data s) \<and> seg_bytes ?q + length span \<le> MAX_OOO_BYTES + length (seg_data s)")
      case True
      then show thesis using replace [of xs s ys'] enq xy(1) s by simp
    next
      case False
      then show thesis using keep [of s] enq xy(1) s by auto
    qed
  next
    case False
    then have no: "\<not> (length xs < length ?q \<and> seg_seq (?q ! length xs) = seq)"
      using xy(1) by (cases ys) auto
    have "\<forall>s\<in>set ys. unat (seq - ?b) < seg_dist ?b s"
    proof (cases ys)
      case (Cons s ys')
      then have "unat (seq - ?b) < seg_dist ?b s"
        using False xy(3) seg_dist_inj [of ?b s seq] by (auto simp: le_less)
      moreover have "\<forall>t\<in>set ys'. seg_dist ?b s < seg_dist ?b t"
        using q(1) xy(1) Cons by (auto simp: queue_ok_def sorted_wrt_append)
      ultimately show ?thesis using Cons by fastforce
    qed simp
    moreover have "enqueue st seq span =
        (if seg_bytes ?q + length span \<le> MAX_OOO_BYTES
         then st \<lparr> out_of_order := xs @ \<lparr> seg_seq = seq, seg_data = span \<rparr> # ys,
              ooo_bytes := ooo_bytes st + of_nat (length span) \<rparr> else st)"
      using xy(1,4) no room by (auto simp: enqueue_def Let_def)
    ultimately show thesis
      using insert [of xs ys] full xy(1,2) by (cases "seg_bytes ?q + length span \<le> MAX_OOO_BYTES") auto
  qed
qed

lemma reassembler_inv_enqueue:
  assumes "reassembler_inv st" and "keep_payload st \<and> seeded st" and "length span < 4294967296"
    and "0 < unat (seq - next_seq st)" and "unat (seq - next_seq st) < 2147483648"
  shows "reassembler_inv (enqueue st seq span)"
    and "strictly_ahead st \<Longrightarrow> strictly_ahead (enqueue st seq span)"
    and "next_seq (enqueue st seq span) = next_seq st"
proof -
  have inv: "queue_ok (next_seq st) (out_of_order st)" "unat (ooo_bytes st) = seg_bytes (out_of_order st)"
    "seg_bytes (out_of_order st) \<le> 1048576" "read_pos st \<le> length (assembled st)"
    using assms(1) by (auto simp: reassembler_inv_def MAX_OOO_BYTES_def)
  have size: "unat (of_nat (length span) :: u64) = length span"
    using assms(3) by (simp add: unat_of_nat_u64)
  have "reassembler_inv (enqueue st seq span) \<and> (strictly_ahead st \<longrightarrow> strictly_ahead (enqueue st seq span)) \<and>
      next_seq (enqueue st seq span) = next_seq st"
  proof (cases rule: enqueue_cases [OF assms(1,3), of seq, case_names replace keep insert full])
    case (replace xs s ys)
    have old: "unat (of_nat (length (seg_data s)) :: u64) = length (seg_data s)"
      using replace(1) inv(3) by (intro unat_of_nat_u64) simp
    have "unat (of_nat (length span) - of_nat (length (seg_data s)) :: u64) = length span - length (seg_data s)"
      using replace(3) by (subst unat_sub) (simp_all add: word_le_nat_alt size old)
    then have "unat (ooo_bytes st + (of_nat (length span) - of_nat (length (seg_data s)))) =
        seg_bytes (xs @ s \<lparr> seg_data := span \<rparr> # ys)"
      using replace(1,3) inv(2,3) assms(3) by (subst unat_add_small) simp_all
    moreover have "map (seg_dist (next_seq st)) (xs @ s \<lparr> seg_data := span \<rparr> # ys) =
        map (seg_dist (next_seq st)) (out_of_order st)"
      using replace(1) by (simp add: seg_dist_def)
    moreover have "seg_dist (next_seq st) (s \<lparr> seg_data := span \<rparr>) = seg_dist (next_seq st) s"
      by (simp add: seg_dist_def)
    ultimately show ?thesis
      using replace inv assms(2)
      by (auto simp: reassembler_inv_def strictly_ahead_def queue_ok_def MAX_OOO_BYTES_def simp del: map_append)
  next
    case (insert xs ys)
    have "unat (ooo_bytes st + of_nat (length span)) = seg_bytes (out_of_order st) + length span"
      using inv(2,3) insert(4) assms(3) by (subst unat_add_small) (simp_all add: size)
    moreover have "queue_ok (next_seq st) (xs @ \<lparr> seg_seq = seq, seg_data = span \<rparr> # ys)"
      using inv(1) insert(1-3) assms(5)
      by (auto simp: queue_ok_def sorted_wrt_append seg_dist_def)
    ultimately show ?thesis
      using insert inv assms(2,4) by (auto simp: reassembler_inv_def strictly_ahead_def seg_dist_def)
  qed (use assms in auto)
  then show "reassembler_inv (enqueue st seq span)"
    and "strictly_ahead st \<Longrightarrow> strictly_ahead (enqueue st seq span)"
    and "next_seq (enqueue st seq span) = next_seq st" by blast+
qed

section \<open>Every operation keeps the invariant\<close>

text \<open>\<open>same_conn\<close>: ingesting touches neither the connection state nor the read position.\<close>

definition same_conn :: "TcpReassembler \<Rightarrow> TcpReassembler \<Rightarrow> bool" where
  "same_conn st st' \<longleftrightarrow> state st' = state st \<and> seeded st' = seeded st \<and> fin_seen st' = fin_seen st \<and>
     fin_seq st' = fin_seq st \<and> keep_payload st' = keep_payload st \<and> read_pos st' = read_pos st \<and>
     (\<exists>new. assembled st' = assembled st @ new)"

lemma same_conn_refl [simp]: "same_conn st st"
  by (simp add: same_conn_def)

lemma same_conn_enqueue: "same_conn st (enqueue st seq span)"
  by (simp add: same_conn_def enqueue_def Let_def)

definition ingest_post :: "TcpReassembler \<Rightarrow> TcpReassembler res \<Rightarrow> bool" where
  "ingest_post st r \<longleftrightarrow> (\<exists>st'. r = Ok st' \<and> reassembler_inv st' \<and> same_conn st st' \<and>
     (strictly_ahead st \<longrightarrow> strictly_ahead st'))"

lemma ingest_post_drain:
  assumes "reassembler_inv st" and "a < 2147483648"
  shows "ingest_post st (drain (st \<lparr> assembled := assembled st @ new, next_seq := next_seq st + of_nat a \<rparr>))"
proof -
  obtain m a' e where r: "drain_count (next_seq st) (out_of_order st) a = (m, a', e)" by (metis prod.exhaust)
  show ?thesis
    unfolding ingest_post_def using drain_advance [OF assms r, of new] by (auto simp: same_conn_def)
qed

lemma unat_overlap:
  assumes "length (span :: span) < 2147483648" and "overlap < (of_nat (length span) :: u32)"
  shows "unat overlap < length span" and "of_nat (length span) - overlap = (of_nat (length span - unat overlap) :: u32)"
proof -
  show lt: "unat overlap < length span"
    using assms by (simp add: word_less_nat_alt unat_of_nat_u32)
  obtain k where k: "unat overlap = k" by simp
  have "overlap = of_nat k" using k by (rule of_nat_unat_eq)
  then show "of_nat (length span) - overlap = (of_nat (length span - unat overlap) :: u32)"
    using lt unfolding k by (simp add: of_nat_diff)
qed

text \<open>The branches of \<open>ingest\<close> when payload is kept.\<close>

lemma ingest_now:
  "keep_payload st \<Longrightarrow> ingest st (next_seq st) span =
     drain (st \<lparr> assembled := assembled st @ span, next_seq := next_seq st + of_nat (length span) \<rparr>)"
  by (simp add: ingest_def)

lemma ingest_ahead:
  assumes "keep_payload st" and "0 < unat (seq - next_seq st)" and "unat (seq - next_seq st) < 2147483648"
  shows "ingest st seq span = Ok (enqueue st seq span)"
proof -
  have "seq \<noteq> next_seq st" "sint (seq - next_seq st) > 0"
    using assms(2,3) sint_pos_iff [of "seq - next_seq st"] by auto
  with assms(1) show ?thesis by (simp add: ingest_def)
qed

lemma ingest_behind_old:
  assumes "keep_payload st" and "2147483648 \<le> unat (seq - next_seq st)"
    and "\<not> next_seq st - seq < of_nat (length span)"
  shows "ingest st seq span = Ok st"
proof -
  have "seq \<noteq> next_seq st" "\<not> sint (seq - next_seq st) > 0"
    using assms(2) sint_pos_iff [of "seq - next_seq st"] by auto
  with assms(1,3) show ?thesis by (simp add: ingest_def Let_def)
qed

lemma ingest_behind_new:
  assumes "keep_payload st" and "2147483648 \<le> unat (seq - next_seq st)"
    and "next_seq st - seq < of_nat (length span)" and "length span < 2147483648"
  shows "ingest st seq span = drain (st \<lparr> assembled := assembled st @ drop (unat (next_seq st - seq)) span,
      next_seq := next_seq st + of_nat (length span - unat (next_seq st - seq)) \<rparr>)"
proof -
  have ne: "seq \<noteq> next_seq st" "\<not> sint (seq - next_seq st) > 0"
    using assms(2) sint_pos_iff [of "seq - next_seq st"] by auto
  note o = unat_overlap [OF assms(4,3)]
  have sub: "subspan span (unat (next_seq st - seq)) = Ok (drop (unat (next_seq st - seq)) span)"
    using o(1) by simp
  show ?thesis
    unfolding ingest_def Let_def sub o(2) using assms(1,3) ne by (simp only: if_False if_True simp_thms bind_res.simps)
qed

lemma ingest_inv:
  assumes "reassembler_inv st" and "seeded st" and "length span < 2147483648"
  shows "ingest_post st (ingest st seq span)"
proof (cases "keep_payload st")
  case False
  then have "out_of_order st = []" using assms(1) by (simp add: reassembler_inv_def)
  then have upd: "ingest_post st (Ok (st \<lparr> next_seq := n \<rparr>))" for n
    using assms(1) by (simp add: ingest_post_def reassembler_inv_def same_conn_def strictly_ahead_def queue_ok_def)
  have "ingest_post st (Ok st)" using assms(1) by (simp add: ingest_post_def)
  with False show ?thesis
    unfolding ingest_def Let_def by (simp only: if_True if_False simp_thms upd split: if_splits)
next
  case keep: True
  let ?d = "unat (seq - next_seq st)"
  consider (now) "seq = next_seq st" | (ahead) "0 < ?d" "?d < 2147483648" | (behind) "2147483648 \<le> ?d"
    by (cases "?d = 0"; cases "?d < 2147483648") (auto simp: unat_eq_zero not_less)
  then show ?thesis
  proof cases
    case now
    then show ?thesis using ingest_now [OF keep] ingest_post_drain [OF assms(1,3), of span] by simp
  next
    case ahead
    with reassembler_inv_enqueue [OF assms(1) _ _ ahead, of span] keep assms(2,3) show ?thesis
      by (simp add: ingest_ahead ingest_post_def same_conn_enqueue)
  next
    case behind
    let ?o = "next_seq st - seq"
    have small: "length span - unat ?o < 2147483648" using assms(3) by simp
    show ?thesis
    proof (cases "?o < of_nat (length span)")
      case True
      show ?thesis
        unfolding ingest_behind_new [OF keep behind True assms(3)] by (rule ingest_post_drain [OF assms(1) small])
    next
      case False
      show ?thesis
        unfolding ingest_behind_old [OF keep behind False] using assms(1) by (simp add: ingest_post_def)
    qed
  qed
qed

lemma reassembler_inv_conn [simp]:
  "reassembler_inv (st \<lparr> state := s \<rparr>) = reassembler_inv st"
  "reassembler_inv (st \<lparr> fin_seen := f \<rparr>) = reassembler_inv st"
  "reassembler_inv (st \<lparr> fin_seq := n \<rparr>) = reassembler_inv st"
  "strictly_ahead (st \<lparr> state := s \<rparr>) = strictly_ahead st"
  "strictly_ahead (st \<lparr> fin_seen := f \<rparr>) = strictly_ahead st"
  "strictly_ahead (st \<lparr> fin_seq := n \<rparr>) = strictly_ahead st"
  by (simp_all add: reassembler_inv_def strictly_ahead_def)

lemma reassembler_inv_fin:
  assumes "reassembler_inv st" and "strictly_ahead st"
  shows "reassembler_inv (st \<lparr> next_seq := next_seq st + 1 \<rparr>)"
proof -
  have "\<forall>s\<in>set (out_of_order st). 1 \<le> seg_dist (next_seq st) s"
    using assms(2) by (auto simp: strictly_ahead_def Suc_leI)
  from queue_ok_advance(1) [OF _ this] assms(1) show ?thesis by (simp add: reassembler_inv_def)
qed

text \<open>
  \<open>closing\<close>: the state right after a FIN was reached in the stream. Until then everything
  queued stays strictly ahead.
\<close>

definition closing :: "TcpReassembler \<Rightarrow> bool" where
  "closing st \<longleftrightarrow> state st = FinWait1 \<or> state st = LastAck"

definition sent_post :: "TcpReassembler res \<Rightarrow> bool" where
  "sent_post r \<longleftrightarrow> (\<exists>st'. r = Ok st' \<and> reassembler_inv st' \<and> (closing st' \<or> strictly_ahead st'))"

lemma onData_inv:
  assumes "reassembler_inv st" and "strictly_ahead st" and "seeded st" and "length span < 2147483648"
  shows "sent_post (onData st header span)"
proof -
  obtain st1 where st1: "ingest st (tcp_seq_number header) span = Ok st1" "reassembler_inv st1" "strictly_ahead st1"
    using ingest_inv [OF assms(1,3,4), of "tcp_seq_number header"] assms(2) by (auto simp: ingest_post_def)
  define st2 where "st2 = (if tcp_fin header
      then st1 \<lparr> fin_seen := True, fin_seq := tcp_seq_number header + of_nat (length span) \<rparr> else st1)"
  have st2: "reassembler_inv st2" "strictly_ahead st2"
    using st1(2,3) by (simp_all add: st2_def)
  have "onData st header span = (if fin_seen st2 \<and> sint (next_seq st2 - fin_seq st2) \<ge> 0
      then Ok (st2 \<lparr> next_seq := next_seq st2 + 1, fin_seen := False,
                  state := (if state st2 = CloseWait then LastAck else FinWait1) \<rparr>) else Ok st2)"
    by (simp only: onData_def st1(1) bind_res.simps Let_def st2_def)
  then show ?thesis
    using st2 reassembler_inv_fin [OF st2] by (auto simp: sent_post_def closing_def)
qed

lemma onSent_inv:
  assumes "reassembler_inv st" and "strictly_ahead st" and "length span < 2147483648"
  shows "sent_post (onSent st header span)"
proof -
  have stay: "sent_post (Ok st)" "sent_post (Ok (st \<lparr> state := s \<rparr>))" for s
    using assms by (simp_all add: sent_post_def)
  show ?thesis
  proof (cases "seeded st")
    case False
    then have "out_of_order st = []" using assms(1) by (simp add: reassembler_inv_def)
    then have seed: "reassembler_inv (st \<lparr> next_seq := n, state := s, seeded := True \<rparr>)"
      "strictly_ahead (st \<lparr> next_seq := n, state := s, seeded := True \<rparr>)" for n s
      using assms(1) by (simp_all add: reassembler_inv_def strictly_ahead_def queue_ok_def)
    have "sent_post (ingest (st \<lparr> next_seq := n, state := s, seeded := True \<rparr>) m span)" for n s m
      using ingest_inv [OF seed(1) [of s n] _ assms(3), of m] seed(2) [of s n] by (auto simp: ingest_post_def sent_post_def)
    moreover have "sent_post (onData (st \<lparr> next_seq := n, seeded := True, state := s \<rparr>) header span)" for n s
      using assms(1,3) \<open>out_of_order st = []\<close>
      by (intro onData_inv) (simp_all add: reassembler_inv_def strictly_ahead_def queue_ok_def)
    ultimately show ?thesis using False stay unfolding onSent_def by simp
  next
    case True
    have "sent_post (onData st header span)" "sent_post (onData (st \<lparr> state := Established \<rparr>) header span)"
      using assms True by (auto intro!: onData_inv)
    then show ?thesis
      using True stay by (cases "state st") (simp_all add: onSent_def Let_def)
  qed
qed

lemma onReceived_state: "\<exists>s. onReceived st header = st \<lparr> state := s \<rparr>"
  unfolding onReceived_def Let_def
  by (cases "state st"; simp; (rule exI [of _ "state st"], simp)?; metis TcpReassembler.surjective TcpReassembler.update_convs(1))

lemma consume_inv: "reassembler_inv st \<Longrightarrow> reassembler_inv (consume st n)"
  by (auto simp: reassembler_inv_def consume_def available_def Let_def)

lemma consume_ahead [simp]: "strictly_ahead (consume st n) = strictly_ahead st" "state (consume st n) = state st"
  by (simp_all add: strictly_ahead_def consume_def Let_def)

end
