(* ===== verification/Containers.thy ===== *)
theory Containers
  imports Prelude "HOL-Library.AList" "HOL-Library.Multiset"
begin

text \<open>
  What the analyzer uses of \<open>std::unordered_map\<close> and \<open>std::sort\<close>.

  The maps are keyed by flow or address; the code finds, inserts, overwrites through an
  iterator, erases and iterates. \<open>unordered_map\<close> states these operations' laws once, with
  the accounting lemmas that the tables built on them need. A map is an association list
  with distinct keys whose order stands for the iteration order, which the standard leaves
  open: no theorem depends on it.
\<close>

section \<open>Maps\<close>

locale unordered_map =
  fixes empty :: 'm
    and find :: "'m \<Rightarrow> 'k \<Rightarrow> 'v option"
    and assign :: "'k \<Rightarrow> 'v \<Rightarrow> 'm \<Rightarrow> 'm"
    and erase :: "'k \<Rightarrow> 'm \<Rightarrow> 'm"
    and entries :: "'m \<Rightarrow> ('k \<times> 'v) list"
    and inv :: "'m \<Rightarrow> bool"
  assumes inv_empty: "inv empty"
    and inv_assign: "inv m \<Longrightarrow> inv (assign k v m)"
    and inv_erase: "inv m \<Longrightarrow> inv (erase k m)"
    and find_empty: "find empty k = None"
    and find_assign: "inv m \<Longrightarrow> find (assign k v m) k' = (if k' = k then Some v else find m k')"
    and find_erase: "inv m \<Longrightarrow> find (erase k m) k' = (if k' = k then None else find m k')"
    and entries_distinct: "inv m \<Longrightarrow> distinct (entries m)"
    and entries_find: "inv m \<Longrightarrow> (k, v) \<in> set (entries m) \<longleftrightarrow> find m k = Some v"
begin

lemma set_entries: "inv m \<Longrightarrow> set (entries m) = {(k, v). find m k = Some v}"
  using entries_find by auto

lemma entries_empty: "entries empty = []"
  using entries_find [OF inv_empty] by (metis find_empty list.set_intros(1) neq_Nil_conv option.simps(3) surj_pair)

text \<open>Iteration visits every entry once, so the entries are determined up to their order.\<close>

lemma mset_entries: "inv m \<Longrightarrow> mset (entries m) = mset_set {(k, v). find m k = Some v}"
  using entries_distinct [of m] mset_set_set [of "entries m"] set_entries [of m] by simp

lemma graph_finite: "inv m \<Longrightarrow> finite {(k, v). find m k = Some v}"
  using set_entries [of m] by (metis List.finite_set)

lemma graph_without:
  "{(k', v'). (if k' = k then None else find m k') = Some v'} = {(k', v'). find m k' = Some v'} - {k} \<times> UNIV"
  by (auto split: if_splits)

lemma mset_erase:
  assumes "inv m" and "find m k = Some v"
  shows "mset (entries m) = add_mset (k, v) (mset (entries (erase k m)))"
proof -
  have split: "{(k', v'). find m k' = Some v'} = insert (k, v) {(k', v'). find (erase k m) k' = Some v'}"
    using assms by (auto simp: find_erase split: if_splits)
  have "(k, v) \<notin> {(k', v'). find (erase k m) k' = Some v'}"
    using assms(1) by (simp add: find_erase)
  then show ?thesis
    using assms(1) graph_finite [OF inv_erase [OF assms(1)], of k]
    by (simp add: mset_entries inv_erase split)
qed

lemma mset_erase_absent:
  assumes "inv m" and "find m k = None"
  shows "mset (entries (erase k m)) = mset (entries m)"
proof -
  have "{(k', v'). find (erase k m) k' = Some v'} = {(k', v'). find m k' = Some v'}"
    using assms by (auto simp: find_erase split: if_splits)
  then show ?thesis using assms(1) by (simp add: mset_entries inv_erase)
qed

lemma mset_assign:
  assumes "inv m"
  shows "mset (entries (assign k v m)) = add_mset (k, v) (mset (entries (erase k m)))"
proof -
  have "{(k', v'). find (erase k (assign k v m)) k' = Some v'} = {(k', v'). find (erase k m) k' = Some v'}"
    using assms by (auto simp: find_erase find_assign inv_assign split: if_splits)
  then show ?thesis
    using mset_erase [of "assign k v m" k v] assms
    by (simp add: inv_assign inv_erase find_assign mset_entries)
qed

lemma mset_assign_new:
  "inv m \<Longrightarrow> find m k = None \<Longrightarrow> mset (entries (assign k v m)) = add_mset (k, v) (mset (entries m))"
  by (simp add: mset_assign mset_erase_absent)

text \<open>A total over all entries follows every update.\<close>

lemma total_erase:
  fixes f :: "'k \<times> 'v \<Rightarrow> 'n::comm_monoid_add"
  assumes "inv m" and "find m k = Some v"
  shows "sum_list (map f (entries m)) = f (k, v) + sum_list (map f (entries (erase k m)))"
  using arg_cong [OF mset_erase [OF assms], of "\<lambda>M. \<Sum>\<^sub># (image_mset f M)"]
  by (simp add: sum_mset_sum_list flip: mset_map)

lemma total_assign:
  fixes f :: "'k \<times> 'v \<Rightarrow> 'n::comm_monoid_add"
  assumes "inv m"
  shows "sum_list (map f (entries (assign k v m))) = f (k, v) + sum_list (map f (entries (erase k m)))"
  using arg_cong [OF mset_assign [OF assms, of k v], of "\<lambda>M. \<Sum>\<^sub># (image_mset f M)"]
  by (simp add: sum_mset_sum_list flip: mset_map)

lemma total_assign_new:
  fixes f :: "'k \<times> 'v \<Rightarrow> 'n::comm_monoid_add"
  assumes "inv m" and "find m k = None"
  shows "sum_list (map f (entries (assign k v m))) = f (k, v) + sum_list (map f (entries m))"
  using arg_cong [OF mset_assign_new [OF assms, of v], of "\<lambda>M. \<Sum>\<^sub># (image_mset f M)"]
  by (simp add: sum_mset_sum_list flip: mset_map)

text \<open>A property of all entries is kept by updates that keep it.\<close>

lemma all_assign:
  assumes "inv m" and "\<And>k' v'. find m k' = Some v' \<Longrightarrow> k' \<noteq> k \<Longrightarrow> P k' v'" and "P k v" and "find (assign k v m) k' = Some v'"
  shows "P k' v'"
  using assms by (auto simp: find_assign split: if_splits)

lemma all_erase:
  assumes "inv m" and "\<And>k' v'. find m k' = Some v' \<Longrightarrow> P k' v'" and "find (erase k m) k' = Some v'"
  shows "P k' v'"
  using assms by (auto simp: find_erase split: if_splits)

end

type_synonym ('k, 'v) umap = "('k \<times> 'v) list"

definition umap_inv :: "('k, 'v) umap \<Rightarrow> bool" where
  "umap_inv m \<longleftrightarrow> distinct (map fst m)"

interpretation umap: unordered_map "[]" map_of AList.update AList.delete "\<lambda>m. m" umap_inv
proof unfold_locales
  fix m :: "('k \<times> 'v) list" and k k' :: 'k and v :: 'v
  show "umap_inv []" by (simp add: umap_inv_def)
  show "umap_inv m \<Longrightarrow> umap_inv (AList.update k v m)" by (simp add: umap_inv_def distinct_update)
  show "umap_inv m \<Longrightarrow> umap_inv (AList.delete k m)" by (simp add: umap_inv_def distinct_delete)
  show "map_of [] k = None" by simp
  show "umap_inv m \<Longrightarrow> map_of (AList.update k v m) k' = (if k' = k then Some v else map_of m k')"
    by (simp add: update_conv')
  show "umap_inv m \<Longrightarrow> map_of (AList.delete k m) k' = (if k' = k then None else map_of m k')"
    by (simp add: delete_conv')
  show "umap_inv m \<Longrightarrow> distinct m" by (simp add: umap_inv_def distinct_map)
  show "umap_inv m \<Longrightarrow> (k, v) \<in> set m \<longleftrightarrow> map_of m k = Some v" by (simp add: umap_inv_def)
qed

section \<open>Sorting\<close>

text \<open>
  \<open>std::sort\<close> with a comparator, as an insertion sort. The standard leaves the order of
  elements open that neither precedes the other.
\<close>

fun insort_by :: "('a \<Rightarrow> 'a \<Rightarrow> bool) \<Rightarrow> 'a \<Rightarrow> 'a list \<Rightarrow> 'a list" where
  "insort_by prec x [] = [x]"
| "insort_by prec x (y # ys) = (if prec y x then y # insort_by prec x ys else x # y # ys)"

definition sort_by :: "('a \<Rightarrow> 'a \<Rightarrow> bool) \<Rightarrow> 'a list \<Rightarrow> 'a list" where
  "sort_by prec xs = foldr (insort_by prec) xs []"

text \<open>The requirement of \<open>std::sort\<close> on its comparator.\<close>

locale strict_weak_order =
  fixes prec :: "'a \<Rightarrow> 'a \<Rightarrow> bool" and dom :: "'a \<Rightarrow> bool"
  assumes irrefl: "dom x \<Longrightarrow> \<not> prec x x"
    and trans: "dom x \<Longrightarrow> dom y \<Longrightarrow> dom z \<Longrightarrow> prec x y \<Longrightarrow> prec y z \<Longrightarrow> prec x z"
    and incomparable_trans: "dom x \<Longrightarrow> dom y \<Longrightarrow> dom z \<Longrightarrow> \<not> prec x y \<Longrightarrow> \<not> prec y z \<Longrightarrow> \<not> prec x z"
begin

lemma asym: "dom x \<Longrightarrow> dom y \<Longrightarrow> prec x y \<Longrightarrow> \<not> prec y x"
  using irrefl trans by blast

lemma set_insort_by: "set (insort_by prec x ys) = insert x (set ys)"
  by (induction ys) auto

lemma mset_insort_by: "mset (insort_by prec x ys) = add_mset x (mset ys)"
  by (induction ys) auto

lemma sorted_insort_by:
  assumes "dom x" and "list_all dom ys" and "sorted_wrt (\<lambda>a b. \<not> prec b a) ys"
  shows "sorted_wrt (\<lambda>a b. \<not> prec b a) (insort_by prec x ys)"
  using assms
proof (induction ys)
  case (Cons y ys)
  show ?case
  proof (cases "prec y x")
    case True
    then show ?thesis using Cons asym by (auto simp: set_insort_by list_all_iff)
  next
    case False
    have "\<not> prec z x" if "z \<in> set ys" for z
      using incomparable_trans [of z y x] that Cons.prems False by (auto simp: list_all_iff)
    with False Cons.prems show ?thesis by simp
  qed
qed simp

lemma mset_sort_by: "mset (sort_by prec xs) = mset xs"
  by (induction xs) (auto simp: sort_by_def mset_insort_by)

lemma sorted_sort_by: "list_all dom xs \<Longrightarrow> sorted_wrt (\<lambda>a b. \<not> prec b a) (sort_by prec xs)"
proof (induction xs)
  case (Cons x xs)
  have "set (sort_by prec xs) = set xs" by (metis mset_sort_by set_mset_mset)
  then show ?case using Cons sorted_insort_by [of x "sort_by prec xs"]
    by (simp add: sort_by_def list_all_iff)
qed (simp add: sort_by_def)

end

end
