(* ===== verification/Dns.thy ===== *)
theory Dns
  imports Ipv6
begin

text \<open>
  DNS messages (\<^verbatim>\<open>src/net/protocols/dns.cpp\<close>, \<^verbatim>\<open>include/net/protocols/dns.h\<close>).

  The parser works on a message \<open>msg\<close> with pointers \<open>dns_base\<close>, \<open>cur\<close> and a span that
  always ends where the message ends. Pointers are offsets from \<open>dns_base\<close>, and the span is
  its starting offset \<open>off\<close>. Reading outside the message, or moving the span beyond its end,
  is \<open>UB\<close>; the comparison \<open>cur + len > dns_end\<close> is taken on the offsets.
\<close>

section \<open>Data\<close>

definition dns_HEADER_LEN :: nat where "dns_HEADER_LEN = 12"
definition dns_PORT :: u16 where "dns_PORT = 53"
definition QUESTION_HEADER_LEN :: nat where "QUESTION_HEADER_LEN = 4"
definition RESOURCE_HEADER_LEN :: nat where "RESOURCE_HEADER_LEN = 10"

definition TYPE_A :: u16 where "TYPE_A = 1"
definition TYPE_NS :: u16 where "TYPE_NS = 2"
definition TYPE_CNAME :: u16 where "TYPE_CNAME = 5"
definition TYPE_SOA :: u16 where "TYPE_SOA = 6"
definition TYPE_PTR :: u16 where "TYPE_PTR = 12"
definition TYPE_MX :: u16 where "TYPE_MX = 15"
definition TYPE_TXT :: u16 where "TYPE_TXT = 16"
definition TYPE_AAAA :: u16 where "TYPE_AAAA = 28"
definition TYPE_SRV :: u16 where "TYPE_SRV = 33"

definition MaxDnsCompressionJumps :: nat where "MaxDnsCompressionJumps = 10"
definition DnsCompressionPointerMask :: u8 where "DnsCompressionPointerMask = 0xC0"
definition MaxDnsNameOctets :: nat where "MaxDnsNameOctets = 255"

record dns_Question =
  q_name :: string
  q_qtype :: u16
  q_qclass :: u16

record dns_ResourceRecord =
  rr_name :: string
  rr_type :: u16
  rr_rclass :: u16
  rr_ttl :: u32
  rr_rdata :: "u8 list"

record dns_Header =
  dns_id :: u16
  dns_flags :: u16
  dns_qdcount :: u16
  dns_ancount :: u16
  dns_nscount :: u16
  dns_arcount :: u16
  dns_questions :: "dns_Question list"
  dns_answers :: "dns_ResourceRecord list"
  dns_authority :: "dns_ResourceRecord list"
  dns_additional :: "dns_ResourceRecord list"

definition dns_isResponse :: "dns_Header \<Rightarrow> bool" where "dns_isResponse h = (dns_flags h AND 0x8000 \<noteq> 0)"
definition dns_opcode :: "dns_Header \<Rightarrow> u8" where "dns_opcode h = ucast (drop_bit 11 (dns_flags h AND 0x7800))"
definition dns_isAA :: "dns_Header \<Rightarrow> bool" where "dns_isAA h = (dns_flags h AND 0x0400 \<noteq> 0)"
definition dns_isTC :: "dns_Header \<Rightarrow> bool" where "dns_isTC h = (dns_flags h AND 0x0200 \<noteq> 0)"
definition dns_isRD :: "dns_Header \<Rightarrow> bool" where "dns_isRD h = (dns_flags h AND 0x0100 \<noteq> 0)"
definition dns_isRA :: "dns_Header \<Rightarrow> bool" where "dns_isRA h = (dns_flags h AND 0x0080 \<noteq> 0)"
definition dns_rcode :: "dns_Header \<Rightarrow> u8" where "dns_rcode h = ucast (dns_flags h AND 0x000F)"

section \<open>Names\<close>

definition skip :: "span \<Rightarrow> nat \<Rightarrow> nat \<Rightarrow> nat res" where
  "skip msg off n = (if off + n \<le> length msg then Ok (off + n) else UB)"

definition pointer_target :: "u8 \<Rightarrow> u8 \<Rightarrow> nat" where
  "pointer_target b c = unat (push_bit 8 (ucast (b AND 0x3F)) OR ucast c :: u32)"

function parseName_loop :: "span \<Rightarrow> nat \<Rightarrow> nat \<Rightarrow> nat \<Rightarrow> nat \<Rightarrow> int \<Rightarrow> string \<Rightarrow> (string \<times> nat) res" where
  "parseName_loop msg off cur jumps name_octets ptr_ceiling name =
     (if cur < length msg then
        bind_res (byte_at msg cur) (\<lambda>b.
        if b = 0 then
          if jumps = 0 then bind_res (skip msg off (cur - off + 1)) (\<lambda>off. Ok (name, off))
          else Ok (name, off)
        else if b AND DnsCompressionPointerMask = DnsCompressionPointerMask then
          if cur + 1 \<ge> length msg then Err UnexpectedEof
          else if jumps + 1 > MaxDnsCompressionJumps then Err MalformedHeader
          else bind_res (if jumps + 1 = 1 then skip msg off (cur - off + 2) else Ok off) (\<lambda>off.
            bind_res (byte_at msg (cur + 1)) (\<lambda>c.
            let target = pointer_target b c; limit = (if jumps + 1 = 1 then int cur else ptr_ceiling) in
            if int target \<ge> limit then Err MalformedHeader
            else parseName_loop msg off target (jumps + 1) name_octets (int target) name))
        else if b AND DnsCompressionPointerMask \<noteq> 0 then Err MalformedHeader
        else let len = unat b in
          if cur + 1 + len > length msg then Err UnexpectedEof
          else if name_octets + (len + 1) > MaxDnsNameOctets then Err MalformedHeader
          else bind_res (subspan_n msg (cur + 1) len) (\<lambda>label.
            parseName_loop msg off (cur + 1 + len) jumps (name_octets + (len + 1)) ptr_ceiling
              ((if name \<noteq> [] then name @ ''.'' else name) @ text_of label)))
      else Err UnexpectedEof)"
  by pat_completeness auto
termination
  by (relation "inv_image (less_than <*lex*> less_than)
      (\<lambda>(msg, off, cur, jumps, _). (MaxDnsCompressionJumps + 1 - jumps, length msg - cur))") auto

declare parseName_loop.simps [simp del]

definition parseName :: "span \<Rightarrow> nat \<Rightarrow> (string \<times> nat) res" where
  "parseName msg off = parseName_loop msg off off 0 0 (- 1) []"

section \<open>Questions and records\<close>

definition parseQuestion :: "span \<Rightarrow> nat \<Rightarrow> Endian \<Rightarrow> (dns_Question \<times> nat) res" where
  "parseQuestion msg off endian =
     bind_res (parseName msg off) (\<lambda>(name, off).
     if length msg - off < QUESTION_HEADER_LEN then Err UnexpectedEof
     else bind_res (memcpy (drop off msg) QUESTION_HEADER_LEN) (\<lambda>wq.
       bind_res (skip msg off QUESTION_HEADER_LEN) (\<lambda>off.
       Ok (\<lparr> q_name = name, q_qtype = toHost16 (raw16 wq 0) endian, q_qclass = toHost16 (raw16 wq 2) endian \<rparr>, off))))"

definition parseResourceRecord :: "span \<Rightarrow> nat \<Rightarrow> Endian \<Rightarrow> (dns_ResourceRecord \<times> nat) res" where
  "parseResourceRecord msg off endian =
     bind_res (parseName msg off) (\<lambda>(name, off).
     if length msg - off < RESOURCE_HEADER_LEN then Err UnexpectedEof
     else bind_res (memcpy (drop off msg) RESOURCE_HEADER_LEN) (\<lambda>wrr.
       let rdlength = unat (toHost16 (raw16 wrr 8) endian) in
       bind_res (skip msg off RESOURCE_HEADER_LEN) (\<lambda>off.
       if length msg - off < rdlength then Err UnexpectedEof
       else bind_res (subspan_n msg off rdlength) (\<lambda>rdata.
         bind_res (skip msg off rdlength) (\<lambda>off.
         Ok (\<lparr> rr_name = name, rr_type = toHost16 (raw16 wrr 0) endian, rr_rclass = toHost16 (raw16 wrr 2) endian,
               rr_ttl = toHost32 (raw32 wrr 4) endian, rr_rdata = rdata \<rparr>, off))))))"

text \<open>The four loops over the sections, each of a known length.\<close>

fun parse_section :: "(nat \<Rightarrow> ('r \<times> nat) res) \<Rightarrow> nat \<Rightarrow> nat \<Rightarrow> ('r list \<times> nat) res" where
  "parse_section parse1 0 off = Ok ([], off)"
| "parse_section parse1 (Suc n) off =
     bind_res (parse1 off) (\<lambda>(r, off). bind_res (parse_section parse1 n off) (\<lambda>(rs, off). Ok (r # rs, off)))"

definition dns_parse :: "span \<Rightarrow> Endian \<Rightarrow> (dns_Header \<times> span) res" where
  "dns_parse msg endian =
     (if length msg < dns_HEADER_LEN then Err UnexpectedEof
      else bind_res (memcpy msg dns_HEADER_LEN) (\<lambda>wire.
        let qdcount = toHost16 (raw16 wire 4) endian; ancount = toHost16 (raw16 wire 6) endian;
            nscount = toHost16 (raw16 wire 8) endian; arcount = toHost16 (raw16 wire 10) endian in
        bind_res (skip msg 0 dns_HEADER_LEN) (\<lambda>off.
        let min_bytes = unat qdcount * (1 + QUESTION_HEADER_LEN) +
              (unat ancount + unat nscount + unat arcount) * (1 + RESOURCE_HEADER_LEN) in
        if length msg - off < min_bytes then Err UnexpectedEof
        else
          bind_res (parse_section (\<lambda>off. parseQuestion msg off endian) (unat qdcount) off) (\<lambda>(questions, off).
          bind_res (parse_section (\<lambda>off. parseResourceRecord msg off endian) (unat ancount) off) (\<lambda>(answers, off).
          bind_res (parse_section (\<lambda>off. parseResourceRecord msg off endian) (unat nscount) off) (\<lambda>(authority, off).
          bind_res (parse_section (\<lambda>off. parseResourceRecord msg off endian) (unat arcount) off) (\<lambda>(additional, off).
          Ok (\<lparr> dns_id = toHost16 (raw16 wire 0) endian, dns_flags = toHost16 (raw16 wire 2) endian,
                dns_qdcount = qdcount, dns_ancount = ancount, dns_nscount = nscount, dns_arcount = arcount,
                dns_questions = questions, dns_answers = answers, dns_authority = authority,
                dns_additional = additional \<rparr>, drop off msg))))))))"

section \<open>Printing\<close>

definition typeName :: "u16 \<Rightarrow> string" where
  "typeName type =
     (if type = TYPE_A then ''A''
      else if type = TYPE_NS then ''NS''
      else if type = TYPE_CNAME then ''CNAME''
      else if type = TYPE_SOA then ''SOA''
      else if type = TYPE_PTR then ''PTR''
      else if type = TYPE_MX then ''MX''
      else if type = TYPE_TXT then ''TXT''
      else if type = TYPE_AAAA then ''AAAA''
      else if type = TYPE_SRV then ''SRV''
      else ''?'')"

definition hex_dump :: "u8 list \<Rightarrow> string" where
  "hex_dump bs = concat (map (\<lambda>b. pad0 2 (hex_string (unat b))) bs)"

definition dns_print_rdata :: "dns_ResourceRecord \<Rightarrow> string" where
  "dns_print_rdata rr =
     (if rr_type rr = TYPE_A \<and> length (rr_rdata rr) = 4 then v4_printIp_bytes (rr_rdata rr)
      else if rr_type rr = TYPE_AAAA \<and> length (rr_rdata rr) = 16 then v6_printIp (rr_rdata rr)
      else if rr_type rr = TYPE_TXT \<and> rr_rdata rr \<noteq> [] then
        ''\"'' @ text_of (take (min (unat (rr_rdata rr ! 0)) (length (rr_rdata rr) - 1)) (drop 1 (rr_rdata rr))) @ ''\"''
      else hex_dump (rr_rdata rr))"

definition dns_toString :: "dns_Header \<Rightarrow> string" where
  "dns_toString h =
     ''DNSHeader {'' @ [newline] @
     ''  id: '' @ dec_string (unat (dns_id h)) @ [newline] @
     ''  flags: '' @ (if dns_isResponse h then ''response'' else ''query'') @
     (if dns_isAA h then '' AA'' else []) @ (if dns_isTC h then '' TC'' else []) @
     (if dns_isRD h then '' RD'' else []) @ (if dns_isRA h then '' RA'' else []) @
     ''  rcode='' @ dec_string (unat (dns_rcode h)) @ [newline] @
     concat (map (\<lambda>q. ''  ? '' @ q_name q @ '' '' @ typeName (q_qtype q) @ [newline]) (dns_questions h)) @
     concat (map (\<lambda>rr. ''  '' @ typeName (rr_type rr) @ '' '' @ rr_name rr @ '' ttl='' @
       dec_string (unat (rr_ttl rr)) @ '' '' @ dns_print_rdata rr @ [newline]) (dns_answers h)) @ ''}''"

text \<open>A list of JSON objects, separated by a comma and a line break.\<close>

fun separated :: "string \<Rightarrow> string list \<Rightarrow> string" where
  "separated sep [] = []"
| "separated sep [x] = x"
| "separated sep (x # y # ys) = x @ sep @ separated sep (y # ys)"

definition dns_json_question :: "dns_Question \<Rightarrow> string" where
  "dns_json_question q =
     ''    {'' @ [newline] @ ''      \"name\": \"'' @ q_name q @ ''\",'' @ [newline] @
     ''      \"type\": \"'' @ typeName (q_qtype q) @ ''\"'' @ [newline] @ ''    }''"

definition dns_json_answer :: "dns_ResourceRecord \<Rightarrow> string" where
  "dns_json_answer rr =
     ''    {'' @ [newline] @ ''      \"type\": \"'' @ typeName (rr_type rr) @ ''\",'' @ [newline] @
     ''      \"name\": \"'' @ rr_name rr @ ''\",'' @ [newline] @
     ''      \"ttl\": '' @ dec_string (unat (rr_ttl rr)) @ '','' @ [newline] @
     ''      \"rdata\": \"'' @
     (if rr_type rr = TYPE_A \<and> length (rr_rdata rr) = 4 then v4_printIp_bytes (rr_rdata rr)
      else if rr_type rr = TYPE_AAAA \<and> length (rr_rdata rr) = 16 then v6_printIp (rr_rdata rr)
      else hex_dump (rr_rdata rr)) @ ''\"'' @ [newline] @ ''    }''"

definition dns_toJson :: "dns_Header \<Rightarrow> string" where
  "dns_toJson h =
     ''\"dns\": {'' @ [newline] @
     ''  \"id\": '' @ dec_string (unat (dns_id h)) @ '','' @ [newline] @
     ''  \"flags\": [\"'' @ (if dns_isResponse h then ''response'' else ''query'') @ ''\"'' @
     (if dns_isAA h then '', \"AA\"'' else []) @ (if dns_isTC h then '', \"TC\"'' else []) @
     (if dns_isRD h then '', \"RD\"'' else []) @ (if dns_isRA h then '', \"RA\"'' else []) @
     ''],'' @ [newline] @ ''  \"rcode\": '' @ dec_string (unat (dns_rcode h)) @ '','' @ [newline] @
     (if dns_questions h = [] then ''  \"questions\": [],'' @ [newline]
      else ''  \"questions\": ['' @ [newline] @
        separated ('','' @ [newline]) (map dns_json_question (dns_questions h)) @ [newline] @ ''  ],'' @ [newline]) @
     (if dns_answers h = [] then ''  \"answers\": []'' @ [newline]
      else ''  \"answers\": ['' @ [newline] @
        separated ('','' @ [newline]) (map dns_json_answer (dns_answers h)) @ [newline] @ ''  ]'' @ [newline]) @ ''}''"

section \<open>Bits of a length octet\<close>

lemma unat_and_C0: "unat (b AND DnsCompressionPointerMask) = unat b div 64 * 64"
proof -
  have "DnsCompressionPointerMask = push_bit 6 (mask 2)"
    by (simp add: DnsCompressionPointerMask_def mask_eq_exp_minus_1)
  then have "b AND DnsCompressionPointerMask = push_bit 6 (take_bit 2 (drop_bit 6 b))"
    using and_push_mask [of b 6 2] by simp
  moreover have "unat b div 64 < 4" using unat_u8_less [of b] by simp
  ultimately show ?thesis by (simp add: unat_push_bit unat_take_bit unat_drop_bit)
qed

lemma pointer_byte: "b AND DnsCompressionPointerMask = DnsCompressionPointerMask \<longleftrightarrow> 192 \<le> unat b"
proof -
  have "unat DnsCompressionPointerMask = 192" by (simp add: DnsCompressionPointerMask_def)
  then show ?thesis using unat_u8_less [of b] by (auto simp: word_unat_eq_iff unat_and_C0)
qed

lemma label_byte: "b AND DnsCompressionPointerMask = 0 \<longleftrightarrow> unat b < 64"
  by (auto simp: word_unat_eq_iff unat_and_C0)

lemma pointer_target_eq:
  assumes "192 \<le> unat b"
  shows "pointer_target b c = (unat b - 192) * 256 + unat c"
proof -
  have "(0x3F :: u8) = mask 6" by (simp add: mask_eq_exp_minus_1)
  then have m: "unat (b AND 0x3F) = unat b mod 64" by (simp only: unat_and_mask) simp
  have "n mod 64 = n - 192" if "192 \<le> n" "n < 256" for n :: nat
  proof -
    from that(1) obtain k where "n = k + 3 * 64" by (auto simp: le_iff_add add.commute)
    then show ?thesis using that(2) by (simp only: mod_mult_self1) simp
  qed
  from this [OF assms unat_u8_less] have sub: "unat b mod 64 = unat b - 192" .
  have up: "unat (ucast x :: u32) = unat x" for x :: u8
    using unat_u8_less [of x] by (simp add: unsigned_ucast_eq take_bit_eq_mod)
  have "unat (ucast c :: u32) < 2 ^ 8" "unat (ucast (b AND 0x3F) :: u32) < 2 ^ 8"
    unfolding up using unat_u8_less by simp_all
  from unat_push_bit_or [OF this] show ?thesis
    unfolding pointer_target_def up m sub by simp
qed

section \<open>Names as RFC 1035 defines them\<close>

text \<open>
  \<open>name_at msg off labels\<close>: at offset \<open>off\<close> the message holds the domain name with these
  labels, a sequence of labels ended by a zero octet or by a pointer to another name.
\<close>

inductive name_at :: "span \<Rightarrow> nat \<Rightarrow> span list \<Rightarrow> bool" for msg where
  stop: "off < length msg \<Longrightarrow> msg ! off = 0 \<Longrightarrow> name_at msg off []"
| label: "off < length msg \<Longrightarrow> unat (msg ! off) = len \<Longrightarrow> 0 < len \<Longrightarrow> len < 64 \<Longrightarrow> off + 1 + len \<le> length msg \<Longrightarrow>
    name_at msg (off + 1 + len) ls \<Longrightarrow> name_at msg off (take len (drop (off + 1) msg) # ls)"
| pointer: "off + 1 < length msg \<Longrightarrow> 192 \<le> unat (msg ! off) \<Longrightarrow>
    name_at msg ((unat (msg ! off) - 192) * 256 + unat (msg ! (off + 1))) ls \<Longrightarrow> name_at msg off ls"

lemma name_at_unique: "name_at msg off ls \<Longrightarrow> name_at msg off ls' \<Longrightarrow> ls = ls'"
proof (induction arbitrary: ls' rule: name_at.induct)
  case (stop off)
  from stop.prems show ?case
    using stop.hyps by (cases rule: name_at.cases) auto
next
  case (label off len ls)
  from label.prems label.hyps obtain ls'' where "ls' = take len (drop (off + 1) msg) # ls''" "name_at msg (off + 1 + len) ls''"
    by (cases rule: name_at.cases) simp_all
  with label.IH show ?case by simp
next
  case (pointer off ls)
  from pointer.prems pointer.hyps have "name_at msg ((unat (msg ! off) - 192) * 256 + unat (msg ! (off + 1))) ls'"
    by (cases rule: name_at.cases) simp_all
  with pointer.IH show ?case by simp
qed

definition extend_name :: "string \<Rightarrow> span list \<Rightarrow> string" where
  "extend_name = foldl (\<lambda>name l. (if name \<noteq> [] then name @ ''.'' else name) @ text_of l)"

definition join_labels :: "span list \<Rightarrow> string" where
  "join_labels ls = separated ''.'' (map text_of ls)"

definition octets_of :: "span list \<Rightarrow> nat" where
  "octets_of ls = sum_list (map (\<lambda>l. length l + 1) ls)"

lemma extend_name_simps [simp]:
  "extend_name name [] = name"
  "extend_name name (l # ls) = extend_name ((if name \<noteq> [] then name @ ''.'' else name) @ text_of l) ls"
  by (simp_all add: extend_name_def)

lemma octets_of_simps [simp]: "octets_of [] = 0" "octets_of (l # ls) = length l + 1 + octets_of ls"
  by (simp_all add: octets_of_def)

lemma separated_Cons: "separated sep (x # xs) = x @ (if xs = [] then [] else sep @ separated sep xs)"
  by (cases xs) simp_all

lemma extend_name_nonempty:
  "name \<noteq> [] \<Longrightarrow> extend_name name ls = (if ls = [] then name else name @ ''.'' @ join_labels ls)"
proof (induction ls arbitrary: name)
  case (Cons l ls)
  have "name @ ''.'' @ text_of l \<noteq> []" by simp
  from Cons.IH [OF this] show ?case
    using Cons.prems by (simp add: join_labels_def separated_Cons del: separated.simps)
qed simp

lemma extend_name_join: "\<forall>l\<in>set ls. l \<noteq> [] \<Longrightarrow> extend_name [] ls = join_labels ls"
proof (cases ls)
  case (Cons l ls')
  assume "\<forall>l\<in>set ls. l \<noteq> []"
  then have "text_of l \<noteq> []" using Cons by (cases l) auto
  then show ?thesis
    using Cons by (simp add: extend_name_nonempty join_labels_def separated_Cons del: separated.simps)
qed (simp add: join_labels_def)

lemma name_at_labels: "name_at msg off ls \<Longrightarrow> \<forall>l\<in>set ls. 0 < length l \<and> length l < 64"
  by (induction rule: name_at.induct) auto

section \<open>The loop\<close>

lemma skip_Ok [simp]: "off + n \<le> length msg \<Longrightarrow> skip msg off n = Ok (off + n)"
  by (simp add: skip_def)

text \<open>One step of the loop, by the kind of the octet at \<open>cur\<close>.\<close>

lemma parseName_step:
  assumes "cur < length msg" and "jumps = 0 \<longrightarrow> off \<le> cur" and "off \<le> length msg"
  shows "parseName_loop msg off cur jumps octets ceiling name =
    (let b = unat (msg ! cur) in
     if b = 0 then Ok (name, if jumps = 0 then cur + 1 else off)
     else if 192 \<le> b then
       if cur + 1 \<ge> length msg then Err UnexpectedEof
       else if jumps \<ge> 10 then Err MalformedHeader
       else let target = (b - 192) * 256 + unat (msg ! (cur + 1)) in
         if int target \<ge> (if jumps = 0 then int cur else ceiling) then Err MalformedHeader
         else parseName_loop msg (if jumps = 0 then cur + 2 else off) target (jumps + 1) octets (int target) name
     else if 64 \<le> b then Err MalformedHeader
     else if cur + 1 + b > length msg then Err UnexpectedEof
     else if octets + (b + 1) > 255 then Err MalformedHeader
     else parseName_loop msg off (cur + 1 + b) jumps (octets + (b + 1)) ceiling
       ((if name \<noteq> [] then name @ ''.'' else name) @ text_of (take b (drop (cur + 1) msg))))"
  using assms
  by (subst parseName_loop.simps)
    (auto simp: pointer_byte label_byte pointer_target_eq MaxDnsCompressionJumps_def MaxDnsNameOctets_def Let_def
      unat_eq_0 not_less not_le)

definition name_post :: "span \<Rightarrow> nat \<Rightarrow> nat \<Rightarrow> nat \<Rightarrow> nat \<Rightarrow> string \<Rightarrow> string \<times> nat \<Rightarrow> bool" where
  "name_post msg off cur jumps octets name = (\<lambda>(name', off').
     (\<exists>ls. name_at msg cur ls \<and> name' = extend_name name ls \<and> octets + octets_of ls \<le> 255) \<and>
     off' \<le> length msg \<and> (if jumps = 0 then cur < off' else off' = off))"

lemma jump_measure: "j < 10 \<Longrightarrow> (11 - (j + 1)) * (n + 1) + (n - t) < (11 - j) * (n + 1) + (k :: nat)" for j n t :: nat
proof -
  assume "j < 10"
  then have "11 - j = Suc (11 - (j + 1))" by simp
  then have "(11 - j) * (n + 1) = (11 - (j + 1)) * (n + 1) + (n + 1)" by (simp only: mult_Suc add.commute)
  then show ?thesis by simp
qed

lemma name_post_pointer:
  assumes "cur + 1 < length msg" and "192 \<le> unat (msg ! cur)" and "off \<le> length msg"
    and "name_post msg (if jumps = 0 then cur + 2 else off) ((unat (msg ! cur) - 192) * 256 + unat (msg ! (cur + 1)))
      (jumps + 1) octets name r"
  shows "name_post msg off cur jumps octets name r"
  using assms(4) name_at.pointer [OF assms(1,2)] assms(1,3) unfolding name_post_def
  by (cases r) (auto split: if_splits)

lemma name_post_label:
  assumes "unat (msg ! cur) = b" and "0 < b" and "b < 64" and "cur + 1 + b \<le> length msg" and "off \<le> length msg"
    and "name_post msg off (cur + 1 + b) jumps (octets + (b + 1))
      ((if name \<noteq> [] then name @ ''.'' else name) @ text_of (take b (drop (cur + 1) msg))) r"
  shows "name_post msg off cur jumps octets name r"
proof -
  obtain name' off' where r: "r = (name', off')" by (cases r)
  let ?l = "take b (drop (cur + 1) msg)"
  from assms(6) obtain ls where ls: "name_at msg (cur + 1 + b) ls"
    "name' = extend_name ((if name \<noteq> [] then name @ ''.'' else name) @ text_of ?l) ls"
    "octets + (b + 1) + octets_of ls \<le> 255" and rest: "off' \<le> length msg" "if jumps = 0 then cur + 1 + b < off' else off' = off"
    unfolding r name_post_def by auto
  have "name_at msg cur (?l # ls)" using assms(1-4) ls(1) by (intro name_at.label) simp_all
  moreover have "name' = extend_name name (?l # ls)" using ls(2) by (simp only: extend_name_simps)
  moreover have "octets + octets_of (?l # ls) \<le> 255" using ls(3) assms(4) by simp
  ultimately show ?thesis unfolding r name_post_def using rest by (auto split: if_splits)
qed

lemma parseName_loop_holds:
  assumes "jumps = 0 \<longrightarrow> off \<le> cur" and "off \<le> length msg" and "octets \<le> 255"
  shows "holds (name_post msg off cur jumps octets name) (parseName_loop msg off cur jumps octets ceiling name)"
  using assms
proof (induction "(11 - jumps) * (length msg + 1) + (length msg - cur)" arbitrary: off cur jumps octets ceiling name
    rule: less_induct)
  case less
  show ?case
  proof (cases "cur < length msg")
    case False
    then show ?thesis by (simp add: parseName_loop.simps [of msg off cur])
  next
    case True
    let ?b = "unat (msg ! cur)"
    let ?target = "(?b - 192) * 256 + unat (msg ! (cur + 1))"
    let ?off = "if jumps = 0 then cur + 2 else off"
    let ?name = "(if name \<noteq> [] then name @ ''.'' else name) @ text_of (take ?b (drop (cur + 1) msg))"
    have jump: "holds (name_post msg off cur jumps octets name)
        (parseName_loop msg ?off ?target (jumps + 1) octets (int ?target) name)"
      if "192 \<le> ?b" "cur + 1 < length msg" "jumps < 10"
    proof -
      have "(11 - (jumps + 1)) * (length msg + 1) + (length msg - ?target) < (11 - jumps) * (length msg + 1) + (length msg - cur)"
        using jump_measure [OF that(3), of "length msg" ?target] by simp
      then have "holds (name_post msg ?off ?target (jumps + 1) octets name)
          (parseName_loop msg ?off ?target (jumps + 1) octets (int ?target) name)"
        by (rule less.hyps) (use less.prems that in simp_all)
      then show ?thesis
        using less.prems that by (elim holds_mono) (rule name_post_pointer)
    qed
    have label: "holds (name_post msg off cur jumps octets name)
        (parseName_loop msg off (cur + 1 + ?b) jumps (octets + (?b + 1)) ceiling ?name)"
      if "0 < ?b" "?b < 64" "cur + 1 + ?b \<le> length msg" "octets + (?b + 1) \<le> 255"
    proof -
      have "(11 - jumps) * (length msg + 1) + (length msg - (cur + 1 + ?b)) < (11 - jumps) * (length msg + 1) + (length msg - cur)"
        using True by simp
      then have "holds (name_post msg off (cur + 1 + ?b) jumps (octets + (?b + 1)) ?name)
          (parseName_loop msg off (cur + 1 + ?b) jumps (octets + (?b + 1)) ceiling ?name)"
        by (rule less.hyps) (use less.prems that in auto)
      then show ?thesis
        using less.prems that True by (elim holds_mono) (rule name_post_label [OF refl])
    qed
    have stop: "name_post msg off cur jumps octets name (name, if jumps = 0 then cur + 1 else off)" if "?b = 0"
      using less.prems True that name_at.stop [of cur msg]
      by (auto simp: name_post_def unat_eq_0 intro!: exI [of _ "[]"])
    note step = parseName_step [OF True less.prems(1,2), of octets ceiling name, unfolded Let_def]
    show ?thesis
      unfolding step by (intro holds_if holds_Ok holds_Err) (use jump label stop in simp_all)
  qed
qed

lemma extend_name_length:
  "length name \<le> octets - 1 \<Longrightarrow> octets + octets_of ls \<le> 255 \<Longrightarrow> length (extend_name name ls) \<le> 254"
proof (induction ls arbitrary: name octets)
  case (Cons l ls)
  have "length ((if name \<noteq> [] then name @ ''.'' else name) @ text_of l) \<le> octets + length l + 1 - 1"
    using Cons.prems(1) by (cases name) auto
  moreover have "octets + length l + 1 + octets_of ls \<le> 255" using Cons.prems(2) by simp
  ultimately show ?case unfolding extend_name_simps by (rule Cons.IH)
qed simp

section \<open>The contract of a message item\<close>

text \<open>
  Every item of a message is parsed without undefined behaviour, and the span moves
  forward inside the message.
\<close>

definition moves :: "span \<Rightarrow> nat \<Rightarrow> ('r \<Rightarrow> bool) \<Rightarrow> 'r \<times> nat \<Rightarrow> bool" where
  "moves msg off P = (\<lambda>(r, off'). P r \<and> off < off' \<and> off' \<le> length msg)"

lemma parseName_holds:
  "off \<le> length msg \<Longrightarrow> holds (moves msg off (\<lambda>name. length name \<le> 254)) (parseName msg off)"
  unfolding parseName_def
  by (rule holds_mono [OF parseName_loop_holds])
    (auto simp: name_post_def moves_def intro: extend_name_length [of "[]" 0])

lemma parseQuestion_holds:
  assumes "off \<le> length msg"
  shows "holds (moves msg off (\<lambda>q. length (q_name q) \<le> 254)) (parseQuestion msg off endian)"
  unfolding parseQuestion_def
  by (rule holds_bind, rule holds_mono [OF parseName_holds [OF assms]])
    (auto simp: moves_def QUESTION_HEADER_LEN_def not_less le_diff_conv2 intro!: holds_if)

lemma parseResourceRecord_holds:
  assumes "off \<le> length msg"
  shows "holds (moves msg off (\<lambda>rr. length (rr_name rr) \<le> 254 \<and> length (rr_rdata rr) < 65536))
    (parseResourceRecord msg off endian)"
  unfolding parseResourceRecord_def
  by (rule holds_bind, rule holds_mono [OF parseName_holds [OF assms]])
    (auto simp: moves_def RESOURCE_HEADER_LEN_def not_less le_diff_conv2 Let_def unat_u16_less min_less_iff_disj
      intro!: holds_if)

lemma parse_section_holds:
  assumes "\<And>off. off \<le> length msg \<Longrightarrow> holds (moves msg off P) (parse1 off)" and "off \<le> length msg"
  shows "holds (\<lambda>(rs, off'). length rs = n \<and> list_all P rs \<and> off \<le> off' \<and> off' \<le> length msg) (parse_section parse1 n off)"
  using assms(2)
proof (induction n arbitrary: off)
  case (Suc n)
  have "holds (\<lambda>(rs, off'). length rs = Suc n \<and> list_all P rs \<and> off \<le> off' \<and> off' \<le> length msg)
      (case x of (r, off) \<Rightarrow> bind_res (parse_section parse1 n off) (\<lambda>(rs, off). Ok (r # rs, off)))"
    if "moves msg off P x" for x
  proof -
    obtain r off1 where x: "x = (r, off1)" by (cases x)
    then have r: "P r" "off < off1" "off1 \<le> length msg" using that by (simp_all add: moves_def)
    from Suc.IH [OF r(3)] show ?thesis
      unfolding x using r by (cases "parse_section parse1 n off1") auto
  qed
  then show ?case
    unfolding parse_section.simps by (intro holds_bind holds_mono [OF assms(1) [OF Suc.prems]])
qed simp

text \<open>What a parsed message looks like.\<close>

definition dns_wf :: "span \<Rightarrow> dns_Header \<Rightarrow> bool" where
  "dns_wf msg h \<longleftrightarrow>
     length (dns_questions h) = unat (dns_qdcount h) \<and> length (dns_answers h) = unat (dns_ancount h) \<and>
     length (dns_authority h) = unat (dns_nscount h) \<and> length (dns_additional h) = unat (dns_arcount h) \<and>
     12 + 5 * length (dns_questions h) +
       11 * (length (dns_answers h) + length (dns_authority h) + length (dns_additional h)) \<le> length msg \<and>
     list_all (\<lambda>q. length (q_name q) \<le> 254) (dns_questions h) \<and>
     list_all (\<lambda>rr. length (rr_name rr) \<le> 254 \<and> length (rr_rdata rr) < 65536)
       (dns_answers h @ dns_authority h @ dns_additional h)"

lemma dns_parse_holds:
  "holds (\<lambda>(h, rest). dns_wf msg h \<and> sublist rest msg \<and> length rest < length msg) (dns_parse msg endian)"
proof -
  have sec_bind: "holds Q (bind_res (parse_section (\<lambda>off. parseResourceRecord msg off endian) n off) k)"
    if "off \<le> length msg" and "\<And>rs off'. length rs = n \<Longrightarrow> list_all (\<lambda>rr. length (rr_name rr) \<le> 254 \<and> length (rr_rdata rr) < 65536) rs \<Longrightarrow>
      off \<le> off' \<Longrightarrow> off' \<le> length msg \<Longrightarrow> holds Q (k (rs, off'))" for Q n off k
    by (rule holds_bind, rule holds_mono [OF parse_section_holds [OF parseResourceRecord_holds that(1)]]) (use that(2) in auto)
  have q_bind: "holds Q (bind_res (parse_section (\<lambda>off. parseQuestion msg off endian) n off) k)"
    if "off \<le> length msg" and "\<And>rs off'. length rs = n \<Longrightarrow> list_all (\<lambda>q. length (q_name q) \<le> 254) rs \<Longrightarrow>
      off \<le> off' \<Longrightarrow> off' \<le> length msg \<Longrightarrow> holds Q (k (rs, off'))" for Q n off k
    by (rule holds_bind, rule holds_mono [OF parse_section_holds [OF parseQuestion_holds that(1)]])
      (use that(2) in auto)
  show ?thesis
    unfolding dns_parse_def Let_def
    by (intro holds_if holds_bind [of _ _ "memcpy msg dns_HEADER_LEN"] holds_memcpy holds_Err
          holds_bind [of _ _ "skip msg 0 dns_HEADER_LEN"])
      (auto simp: dns_HEADER_LEN_def QUESTION_HEADER_LEN_def RESOURCE_HEADER_LEN_def dns_wf_def not_less
        intro!: q_bind sec_bind)
qed

interpretation dns: header_parser "\<lambda>span. dns_parse span endian"
  by unfold_locales (rule holds_mono [OF dns_parse_holds], auto)

end
