(* ===== verification/Http.thy ===== *)
theory Http
  imports Link
begin

text \<open>
  HTTP/1.x messages (\<^verbatim>\<open>src/net/protocols/http.cpp\<close>, \<^verbatim>\<open>include/net/protocols/http.h\<close>):
  start line, header fields, framing, chunked bodies and the printers.

  A \<open>std::string_view\<close> over a span is \<open>text_of\<close> of the span. \<open>std::isdigit\<close> is undefined for
  a negative argument other than \<open>EOF\<close>; with a signed \<open>char\<close>, as on x86-64, that is every
  byte from \<open>0x80\<close> to \<open>0xFE\<close>, and the model reports it as \<open>UB\<close>.
\<close>

section \<open>Data\<close>

definition http_PORT :: u16 where "http_PORT = 80"

datatype MessageType = MtUnknown | MtRequest | MtResponse

record Field =
  field_name :: string
  field_value :: string

record http_Header =
  http_type :: MessageType
  http_method :: string
  http_target :: string
  http_version :: string
  http_status_code :: u16
  http_reason_phrase :: string
  http_fields :: "Field list"
  http_has_content_length :: bool
  http_content_length :: u64
  http_chunked :: bool

definition http_Header_init :: http_Header where
  "http_Header_init = \<lparr> http_type = MtUnknown, http_method = [], http_target = [], http_version = [],
     http_status_code = 0, http_reason_phrase = [], http_fields = [], http_has_content_length = False,
     http_content_length = 0, http_chunked = False \<rparr>"

definition http_isRequest :: "http_Header \<Rightarrow> bool" where "http_isRequest h \<longleftrightarrow> http_type h = MtRequest"
definition http_isResponse :: "http_Header \<Rightarrow> bool" where "http_isResponse h \<longleftrightarrow> http_type h = MtResponse"

section \<open>Lexical helpers\<close>

abbreviation CR :: char where "CR \<equiv> CHR 0x0D"
abbreviation TAB :: char where "TAB \<equiv> CHR 0x09"

definition readLineCRLF :: "span \<Rightarrow> (string \<times> span) res" where
  "readLineCRLF span =
     (let view = text_of span in
      case find_char CR view of
        None \<Rightarrow> Err UnexpectedEof
      | Some r \<Rightarrow>
          if r + 1 \<ge> length view then Err UnexpectedEof
          else if view ! (r + 1) \<noteq> newline then Err MalformedHeader
          else bind_res (subspan span (r + 2)) (\<lambda>span. Ok (take r view, span)))"

definition isToken_char :: "char \<Rightarrow> bool" where
  "isToken_char c =
     (let u = of_char c :: nat in
      if (97 \<le> u \<and> u \<le> 122) \<or> (65 \<le> u \<and> u \<le> 90) \<or> (48 \<le> u \<and> u \<le> 57) then True
      else c \<in> set [CHR 0x21, CHR 0x23, CHR 0x24, CHR 0x25, CHR 0x26, CHR 0x27, CHR 0x2A, CHR 0x2B, CHR 0x2D,
                    CHR 0x2E, CHR 0x5E, CHR 0x5F, CHR 0x60, CHR 0x7C, CHR 0x7E])"

definition isToken :: "string \<Rightarrow> bool" where
  "isToken s = (if s = [] then False else list_all isToken_char s)"

definition is_ows :: "char \<Rightarrow> bool" where "is_ows c \<longleftrightarrow> c = CHR '' '' \<or> c = TAB"

text \<open>The two loops that advance \<open>l\<close> and retract \<open>r\<close>.\<close>

definition trimOws :: "string \<Rightarrow> string" where
  "trimOws s = rev (dropWhile is_ows (rev (dropWhile is_ows s)))"

definition isdigit :: "char \<Rightarrow> bool res" where
  "isdigit c = (if 128 \<le> (of_char c :: nat) \<and> (of_char c :: nat) < 255 then UB else Ok (is_digit c))"

fun parseDecimal_loop :: "string \<Rightarrow> u64 \<Rightarrow> u64 res" where
  "parseDecimal_loop [] value = Ok value"
| "parseDecimal_loop (c # cs) value =
     bind_res (isdigit c) (\<lambda>d.
     if \<not> d then Err MalformedHeader
     else let digit = of_nat (digit_val c) in
       if value > (18446744073709551615 - digit) div 10 then Err MalformedHeader
       else parseDecimal_loop cs (value * 10 + digit))"

definition parseDecimal :: "string \<Rightarrow> u64 res" where
  "parseDecimal s = (if s = [] then Err MalformedHeader else parseDecimal_loop s 0)"

text \<open>\<open>std::from_chars\<close> in base 16: the longest run of hexadecimal digits, which must fit.\<close>

definition hex_val :: "char \<Rightarrow> nat option" where
  "hex_val c =
     (let n = of_char c :: nat in
      if 48 \<le> n \<and> n \<le> 57 then Some (n - 48)
      else if 97 \<le> n \<and> n \<le> 102 then Some (n - 87)
      else if 65 \<le> n \<and> n \<le> 70 then Some (n - 55)
      else None)"

fun hex_from :: "nat \<Rightarrow> string \<Rightarrow> nat" where
  "hex_from v [] = v"
| "hex_from v (c # cs) = hex_from (v * 16 + the (hex_val c)) cs"

definition from_chars_hex :: "string \<Rightarrow> (u64 \<times> string) option" where
  "from_chars_hex s =
     (let ds = takeWhile (\<lambda>c. hex_val c \<noteq> None) s in
      if ds = [] \<or> hex_from 0 ds \<ge> 18446744073709551616 then None
      else Some (of_nat (hex_from 0 ds), drop (length ds) s))"

definition parseChunkSize :: "string \<Rightarrow> u64 res" where
  "parseChunkSize line =
     (let digits = (case find_char CHR '';'' line of None \<Rightarrow> line | Some ext \<Rightarrow> take ext line);
          digits = rev (dropWhile is_ows (rev digits)) in
      if digits = [] then Err MalformedHeader
      else case from_chars_hex digits of
          None \<Rightarrow> Err MalformedHeader
        | Some (out, rest) \<Rightarrow> if rest \<noteq> [] then Err MalformedHeader else Ok out)"

section \<open>The start line\<close>

definition status_digits :: "string \<Rightarrow> bool res" where
  "status_digits s =
     (if length s \<noteq> 3 then Ok False
      else bind_res (isdigit (s ! 0)) (\<lambda>a. if \<not> a then Ok False
        else bind_res (isdigit (s ! 1)) (\<lambda>b. if \<not> b then Ok False else isdigit (s ! 2))))"

definition version_ok :: "string \<Rightarrow> bool" where
  "version_ok v \<longleftrightarrow> v = ''HTTP/1.0'' \<or> v = ''HTTP/1.1''"

definition parse_status_line :: "string \<Rightarrow> string \<Rightarrow> string \<Rightarrow> http_Header \<Rightarrow> http_Header res" where
  "parse_status_line first second third header =
     bind_res (status_digits second) (\<lambda>ok.
     if \<not> ok then Err MalformedHeader
     else Ok (header \<lparr> http_type := MtResponse, http_version := first,
       http_status_code := of_nat (digit_val (second ! 0) * 100 + digit_val (second ! 1) * 10 + digit_val (second ! 2)),
       http_reason_phrase := third \<rparr>))"

text \<open>The part of \<open>parseStartLine\<close> after the line was read.\<close>

definition start_line_header :: "string \<Rightarrow> http_Header \<Rightarrow> http_Header res" where
  "start_line_header start_line header =
     (if start_line = [] \<or> find_char newline start_line \<noteq> None then Err MalformedHeader
      else case find_char CHR '' '' start_line of
          None \<Rightarrow> Err MalformedHeader
        | Some space1 \<Rightarrow>
            let first = take space1 start_line; tail = drop (space1 + 1) start_line; space2 = find_char CHR '' '' tail;
                second = (case space2 of None \<Rightarrow> tail | Some n \<Rightarrow> take n tail);
                third = (case space2 of None \<Rightarrow> [] | Some n \<Rightarrow> drop (n + 1) tail) in
            bind_res
              (if take 5 first = ''HTTP/'' then parse_status_line first second third header
               else if space2 = None then Err MalformedHeader
               else if \<not> isToken first \<or> second = [] then Err MalformedHeader
               else Ok (header \<lparr> http_type := MtRequest, http_method := first, http_target := second,
                      http_version := third \<rparr>)) (\<lambda>header.
            if \<not> version_ok (http_version header) then Err UnsupportedVersion else Ok header))"

definition parseStartLine :: "span \<Rightarrow> http_Header \<Rightarrow> (http_Header \<times> span) res" where
  "parseStartLine span header =
     bind_res (readLineCRLF span) (\<lambda>(start_line, span).
     bind_res (start_line_header start_line header) (\<lambda>header. Ok (header, span)))"

section \<open>Fields\<close>

text \<open>One line of a field section: \<open>None\<close> is the empty line that ends it.\<close>

definition parse_field_line :: "string \<Rightarrow> Field option res" where
  "parse_field_line line =
     (if line = [] then Ok None
      else if is_ows (line ! 0) then Err MalformedHeader
      else case find_char CHR '':'' line of
          None \<Rightarrow> Err MalformedHeader
        | Some colon \<Rightarrow>
            if colon = 0 then Err MalformedHeader
            else if is_ows (line ! (colon - 1)) then Err MalformedHeader
            else let field = \<lparr> field_name = take colon line, field_value = trimOws (drop (colon + 1) line) \<rparr> in
              if \<not> isToken (field_name field) then Err MalformedHeader
              else if find_char newline (field_value field) \<noteq> None \<or> find_char CHR 0x00 (field_value field) \<noteq> None
              then Err MalformedHeader
              else Ok (Some field))"

lemma readLineCRLF_shorter: "readLineCRLF span = Ok (line, rest) \<Longrightarrow> length rest < length span"
  by (auto simp: readLineCRLF_def Let_def subspan_def split: option.splits if_splits)

text \<open>The loop of \<open>parseFields\<close>; \<open>acc\<close> is what \<open>push_back\<close> has collected.\<close>

function parseFields :: "span \<Rightarrow> Field list \<Rightarrow> (Field list \<times> span) res" where
  "parseFields span acc =
     bind_res (readLineCRLF span) (\<lambda>(line, span).
     bind_res (parse_field_line line) (\<lambda>field.
       case field of
         None \<Rightarrow> Ok (acc, span)
       | Some f \<Rightarrow> parseFields span (acc @ [f])))"
  by pat_completeness auto
termination
  by (relation "measure (\<lambda>(span, _). length span)") (auto dest: readLineCRLF_shorter)

declare parseFields.simps [simp del]

section \<open>Framing\<close>

record framing =
  saw_transfer_encoding :: bool
  saw_content_length :: bool
  encodings :: "string list"
  content_length_text :: string

fun framing_loop :: "Field list \<Rightarrow> framing \<Rightarrow> framing res" where
  "framing_loop [] st = Ok st"
| "framing_loop (f # fs) st =
     (if isEquals (field_name f) ''Transfer-Encoding'' then
        framing_loop fs (st \<lparr> saw_transfer_encoding := True, encodings := encodings st @ [trimOws (field_value f)] \<rparr>)
      else if isEquals (field_name f) ''Content-Length'' then
        if \<not> saw_content_length st then
          framing_loop fs (st \<lparr> saw_content_length := True, content_length_text := field_value f \<rparr>)
        else if field_value f \<noteq> content_length_text st then Err MalformedHeader
        else framing_loop fs st
      else framing_loop fs st)"

definition framing_init :: framing where
  "framing_init = \<lparr> saw_transfer_encoding = False, saw_content_length = False, encodings = [], content_length_text = [] \<rparr>"

definition parseFraming :: "http_Header \<Rightarrow> http_Header res" where
  "parseFraming header =
     bind_res (framing_loop (http_fields header) framing_init) (\<lambda>st.
     if saw_transfer_encoding st \<and> saw_content_length st then Err MalformedHeader
     else if saw_transfer_encoding st then
       if \<not> isEquals (last (encodings st)) ''chunked'' then Err MalformedHeader
       else Ok (header \<lparr> http_chunked := True \<rparr>)
     else if saw_content_length st then
       bind_res (parseDecimal (content_length_text st)) (\<lambda>value.
       Ok (header \<lparr> http_has_content_length := True, http_content_length := value \<rparr>))
     else Ok header)"

definition http_parse :: "span \<Rightarrow> http_Header \<Rightarrow> (http_Header \<times> span) res" where
  "http_parse span header =
     bind_res (parseStartLine span header) (\<lambda>(header, span).
     bind_res (parseFields span (http_fields header)) (\<lambda>(fs, span).
     bind_res (parseFraming (header \<lparr> http_fields := fs \<rparr>)) (\<lambda>header.
     Ok (header, span))))"

section \<open>Chunked bodies\<close>

text \<open>
  \<open>parseChunkedBody\<close> reports, besides its error, how many bytes of complete chunks it has
  seen (\<open>*complete_prefix\<close>); on success it leaves the rest of the span and the decoded data.
\<close>

datatype chunk_result = ChunkUB | ChunkFail ParseError nat | ChunkOk span "u8 list"

fun chunk_bind :: "'a res \<Rightarrow> nat \<Rightarrow> ('a \<Rightarrow> chunk_result) \<Rightarrow> chunk_result" where
  "chunk_bind UB boundary k = ChunkUB"
| "chunk_bind (Err e) boundary k = ChunkFail e boundary"
| "chunk_bind (Ok x) boundary k = k x"

lemma chunk_bind_cong [fundef_cong]:
  assumes "m = m'" and "b = b'" and "\<And>x. m' = Ok x \<Longrightarrow> f x = g x"
  shows "chunk_bind m b f = chunk_bind m' b' g"
  using assms by (cases m') auto

function chunk_loop :: "nat \<Rightarrow> span \<Rightarrow> nat \<Rightarrow> u8 list \<Rightarrow> chunk_result" where
  "chunk_loop size0 span boundary out =
     chunk_bind (readLineCRLF span) boundary (\<lambda>(size_line, span).
     chunk_bind (parseChunkSize size_line) boundary (\<lambda>chunk_size.
     if chunk_size = 0 then
       chunk_bind (parseFields span []) boundary (\<lambda>(_, span). ChunkOk span out)
     else if length span < unat chunk_size then ChunkFail UnexpectedEof boundary
     else chunk_bind (first_n span (unat chunk_size)) boundary (\<lambda>data.
       chunk_bind (subspan span (unat chunk_size)) boundary (\<lambda>span.
       chunk_bind (readLineCRLF span) boundary (\<lambda>(terminator, span).
       if terminator \<noteq> [] then ChunkFail MalformedHeader boundary
       else chunk_loop size0 span (size0 - length span) (out @ data))))))"
  by pat_completeness auto
termination
  by (relation "measure (\<lambda>(_, span, _). length span)")
    (auto dest!: readLineCRLF_shorter simp: subspan_def split: if_splits)

declare chunk_loop.simps [simp del]

definition parseChunkedBody :: "span \<Rightarrow> chunk_result" where
  "parseChunkedBody span = chunk_loop (length span) span 0 []"

section \<open>Queries and printing\<close>

definition fieldValue :: "http_Header \<Rightarrow> string \<Rightarrow> string option" where
  "fieldValue h name = map_option field_value (find (\<lambda>f. isEquals (field_name f) name) (http_fields h))"

definition bodyForbidden :: "http_Header \<Rightarrow> bool" where
  "bodyForbidden h \<longleftrightarrow> http_type h = MtResponse \<and>
     ((100 \<le> http_status_code h \<and> http_status_code h < 200) \<or> http_status_code h = 204 \<or> http_status_code h = 304)"

definition http_toString :: "http_Header \<Rightarrow> string" where
  "http_toString h =
     ''HTTPHeader {'' @ [newline] @
     (case http_type h of
        MtRequest \<Rightarrow> ''  '' @ http_method h @ '' '' @ http_target h @ '' '' @ http_version h @ [newline]
      | MtResponse \<Rightarrow> ''  '' @ http_version h @ '' '' @ dec_string (unat (http_status_code h)) @ '' '' @
          http_reason_phrase h @ [newline]
      | MtUnknown \<Rightarrow> []) @
     concat (map (\<lambda>f. ''  '' @ field_name f @ '': '' @ field_value f @ [newline]) (http_fields h)) @ ''}''"

fun http_json_fields :: "Field list \<Rightarrow> string" where
  "http_json_fields [] = []"
| "http_json_fields (f # fs) =
     ''    \"'' @ field_name f @ ''\": \"'' @ field_value f @ ''\"'' @ (if fs \<noteq> [] then '','' else []) @ [newline] @
     http_json_fields fs"

definition http_toJson :: "http_Header \<Rightarrow> string" where
  "http_toJson h =
     ''\"http\": {'' @ [newline] @ ''  \"type\": '' @
     (case http_type h of
        MtRequest \<Rightarrow> ''\"request\",'' @ [newline] @ ''  \"method\": \"'' @ http_method h @ ''\",'' @ [newline] @
          ''  \"target\": \"'' @ http_target h @ ''\",'' @ [newline] @
          ''  \"version\": \"'' @ http_version h @ ''\",'' @ [newline]
      | MtResponse \<Rightarrow> ''\"response\",'' @ [newline] @ ''  \"version\": \"'' @ http_version h @ ''\",'' @ [newline] @
          ''  \"status_code\": '' @ dec_string (unat (http_status_code h)) @ '','' @ [newline] @
          ''  \"reason_phrase\": \"'' @ http_reason_phrase h @ ''\",'' @ [newline]
      | MtUnknown \<Rightarrow> []) @
     ''  \"fields\": {'' @ [newline] @ http_json_fields (http_fields h) @ ''  }'' @ [newline] @ ''}''"

end
