(* ===== verification/Flow_Table.thy ===== *)
theory Flow_Table
  imports Pcap Flow_Key Reassembler Containers Dns Http
begin

text \<open>
  The flow table (\<^verbatim>\<open>src/net/flow/flow_table.cpp\<close>, \<^verbatim>\<open>include/net/flow/flow_table.h\<close>): packets are
  grouped into flows by their normalised key; a flow that has been idle or active for too
  long is moved to \<open>completed\<close> when its key shows up again.

  \<open>app_state\<close> points into the application decoder's map. Its nodes do not move, and the
  pointer is only ever set to the node of the flow's own key, so the pointer is modelled by
  that key. \<open>payloadPercent\<close> computes with floating-point numbers; it is in \<open>Stats_Engine\<close>.
\<close>

section \<open>State\<close>

record FlowStats =
  packets :: u64
  bytes :: u64

record Flow =
  first_seen :: u64
  last_seen :: u64
  fwd_stats :: FlowStats
  rev_stats :: FlowStats
  fwd_tcp :: TcpReassembler
  rev_tcp :: TcpReassembler
  is_reverse :: bool
  app_state :: "FlowKey option"

definition FlowStats_init :: FlowStats where "FlowStats_init = \<lparr> packets = 0, bytes = 0 \<rparr>"

definition Flow_init :: Flow where
  "Flow_init = \<lparr> first_seen = 0, last_seen = 0, fwd_stats = FlowStats_init, rev_stats = FlowStats_init,
     fwd_tcp = TcpReassembler_init, rev_tcp = TcpReassembler_init, is_reverse = False, app_state = None \<rparr>"

definition totalPackets :: "Flow \<Rightarrow> u64" where "totalPackets f = packets (fwd_stats f) + packets (rev_stats f)"
definition totalBytes :: "Flow \<Rightarrow> u64" where "totalBytes f = bytes (fwd_stats f) + bytes (rev_stats f)"
definition durationUs :: "Flow \<Rightarrow> u64" where "durationUs f = last_seen f - first_seen f"

definition DEFAULT_IDLE_TIMEOUT_US :: u64 where "DEFAULT_IDLE_TIMEOUT_US = 30000000"

record FlowTable =
  active_timeout_us :: u64
  idle_timeout_us :: u64
  total_bytes :: u64
  flows :: "(FlowKey, Flow) umap"
  completed :: "(FlowKey \<times> Flow) list"

definition FlowTable_init :: "u64 \<Rightarrow> u64 \<Rightarrow> FlowTable" where
  "FlowTable_init active idle = \<lparr> active_timeout_us = active, idle_timeout_us = idle, total_bytes = 0, flows = [], completed = [] \<rparr>"

section \<open>Keys of packets\<close>

definition portHasAppDecoder :: "FlowKey \<Rightarrow> bool" where
  "portHasAppDecoder key \<longleftrightarrow> fk_src_port key = dns_PORT \<or> fk_dst_port key = dns_PORT \<or>
     fk_src_port key = http_PORT \<or> fk_dst_port key = http_PORT"

text \<open>The loop that writes the four bytes of an address in network order.\<close>

definition v4_octets :: "u32 \<Rightarrow> u8 list" where
  "v4_octets ip = map (\<lambda>i. ucast (drop_bit (24 - 8 * i) ip AND 0xFF)) [0..<4]"

definition setNetwork :: "NetworkHeader \<Rightarrow> FlowKey \<Rightarrow> FlowKey option" where
  "setNetwork net out =
     (case net of
        Net_Ipv4 v4 \<Rightarrow> Some (out \<lparr> fk_src_ip := v4_octets (v4_src_ip v4) @ drop 4 (fk_src_ip out),
                               fk_dst_ip := v4_octets (v4_dst_ip v4) @ drop 4 (fk_dst_ip out), fk_isIpv4 := True \<rparr>)
      | Net_Ipv6 v6 \<Rightarrow> Some (out \<lparr> fk_src_ip := v6_src_ip v6, fk_dst_ip := v6_dst_ip v6, fk_isIpv4 := False \<rparr>)
      | Net_Arp _ \<Rightarrow> None
      | Net_monostate \<Rightarrow> None)"

definition icmp_ports :: "u8 \<Rightarrow> u8 \<Rightarrow> bool \<Rightarrow> u16 \<Rightarrow> FlowKey \<Rightarrow> FlowKey" where
  "icmp_ports type code echo ident out =
     (if echo then out \<lparr> fk_src_port := ident, fk_dst_port := ident \<rparr>
      else out \<lparr> fk_src_port := push_bit 8 (ucast type) OR ucast code, fk_dst_port := 0 \<rparr>)"

definition setPorts :: "TransportHeader \<Rightarrow> FlowKey \<Rightarrow> FlowKey option" where
  "setPorts tp out =
     (case tp of
        Tp_Icmp h \<Rightarrow> Some (icmp_ports (icmp_type h) (icmp_code h)
          (icmp_type h = ICMP_ECHO_REQUEST \<or> icmp_type h = ICMP_ECHO_REPLY) (icmp_echo_id h) (out \<lparr> fk_protocol := PROTOCOL_ICMP \<rparr>))
      | Tp_Icmpv6 h \<Rightarrow> Some (icmp_ports (icmpv6_type h) (icmpv6_code h)
          (icmpv6_type h = ICMPV6_ECHO_REQUEST \<or> icmpv6_type h = ICMPV6_ECHO_REPLY) (icmpv6_echo_id h)
          (out \<lparr> fk_protocol := PROTOCOL_ICMPV6 \<rparr>))
      | Tp_Tcp tcp \<Rightarrow> Some (out \<lparr> fk_src_port := tcp_src_port tcp, fk_dst_port := tcp_dst_port tcp, fk_protocol := PROTOCOL_TCP \<rparr>)
      | Tp_Udp udp \<Rightarrow> Some (out \<lparr> fk_src_port := udp_src_port udp, fk_dst_port := udp_dst_port udp, fk_protocol := PROTOCOL_UDP \<rparr>)
      | Tp_monostate \<Rightarrow> None)"

definition keyFromPacket :: "Packet \<Rightarrow> FlowKey res" where
  "keyFromPacket p =
     (case setNetwork (network p) FlowKey_zero of
        None \<Rightarrow> Err UnsupportedNetworkType
      | Some out \<Rightarrow> (case setPorts (transport p) out of None \<Rightarrow> Err UnsupportedTransportType | Some out \<Rightarrow> Ok out))"

section \<open>Adding packets\<close>

definition isExpired :: "FlowTable \<Rightarrow> Flow \<Rightarrow> u64 \<Rightarrow> bool" where
  "isExpired table flow ts =
     (if ts < last_seen flow then False
      else ts - last_seen flow > idle_timeout_us table \<or>
        (active_timeout_us table \<noteq> 0 \<and> ts - first_seen flow > active_timeout_us table))"

definition count_packet :: "u32 \<Rightarrow> FlowStats \<Rightarrow> FlowStats" where
  "count_packet len stats = stats \<lparr> packets := packets stats + 1, bytes := bytes stats + ucast len \<rparr>"

text \<open>What \<open>addPacket\<close> does to the flow it found or created.\<close>

definition touch :: "u64 \<Rightarrow> bool \<Rightarrow> u32 \<Rightarrow> Flow \<Rightarrow> Flow" where
  "touch ts reverse len flow =
     (let flow = flow \<lparr> last_seen := ts, is_reverse := reverse \<rparr> in
      if is_reverse flow then flow \<lparr> rev_stats := count_packet len (rev_stats flow) \<rparr>
      else flow \<lparr> fwd_stats := count_packet len (fwd_stats flow) \<rparr>)"

definition new_flow :: "FlowKey \<Rightarrow> u64 \<Rightarrow> Flow" where
  "new_flow key ts =
     (let flow = Flow_init \<lparr> first_seen := ts \<rparr> in
      if \<not> portHasAppDecoder key
      then flow \<lparr> fwd_tcp := fwd_tcp flow \<lparr> keep_payload := False \<rparr>, rev_tcp := rev_tcp flow \<lparr> keep_payload := False \<rparr> \<rparr>
      else flow)"

text \<open>A flow that timed out is moved to the completed ones.\<close>

definition expire :: "FlowTable \<Rightarrow> FlowKey \<Rightarrow> u64 \<Rightarrow> FlowTable" where
  "expire table key ts =
     (case map_of (flows table) key of
        None \<Rightarrow> table
      | Some flow \<Rightarrow>
          if isExpired table flow ts
          then table \<lparr> completed := completed table @ [(key, flow)], flows := AList.delete key (flows table) \<rparr>
          else table)"

text \<open>
  The result is the table with, unless the packet is ARP, the key, whether the flow is new,
  and implicitly the flow, which is found in the table under that key.
\<close>

definition addPacket :: "FlowTable \<Rightarrow> Capture \<Rightarrow> (FlowTable \<times> (FlowKey \<times> bool) option) res" where
  "addPacket table capture =
     (if isArp (pkt capture) then Ok (table, None)
      else bind_res (keyFromPacket (pkt capture)) (\<lambda>key.
        case normalize key of (key, reverse) \<Rightarrow>
        let len = ph_incl_len (packetHeader capture); ts = ts_us capture;
            table = table \<lparr> total_bytes := total_bytes table + ucast len \<rparr>;
            table = expire table key ts;
            (flow, is_new) = (case map_of (flows table) key of
                None \<Rightarrow> (new_flow key ts, True)
              | Some flow \<Rightarrow> (flow, False)) in
        Ok (table \<lparr> flows := AList.update key (touch ts reverse len flow) (flows table) \<rparr>, Some (key, is_new))))"

definition flush :: "FlowTable \<Rightarrow> FlowTable" where
  "flush table = table \<lparr> completed := completed table @ flows table, flows := [] \<rparr>"

section \<open>Listing\<close>

text \<open>The packed bytes of a key, which \<open>std::memcmp\<close> compares.\<close>

definition key_bytes :: "FlowKey \<Rightarrow> u8 list" where
  "key_bytes k = [if fk_isIpv4 k then 1 else 0] @ fk_src_ip k @ fk_dst_ip k @ le_bytes16 (fk_src_port k) @
     le_bytes16 (fk_dst_port k) @ [fk_protocol k]"

definition flow_before :: "FlowKey \<times> Flow \<Rightarrow> FlowKey \<times> Flow \<Rightarrow> bool" where
  "flow_before a b =
     (if totalBytes (snd a) \<noteq> totalBytes (snd b) then totalBytes (snd a) > totalBytes (snd b)
      else memcmp (key_bytes (fst a)) (key_bytes (fst b)) < 0)"

definition allFlows :: "FlowTable \<Rightarrow> (FlowKey \<times> Flow) list" where
  "allFlows table = sort_by flow_before (completed table @ flows table)"

section \<open>Keys\<close>

lemma length_v4_octets [simp]: "length (v4_octets ip) = 4"
  by (simp add: v4_octets_def)

lemma setPorts_ips: "setPorts tp out = Some k \<Longrightarrow> fk_src_ip k = fk_src_ip out \<and> fk_dst_ip k = fk_dst_ip out"
  by (auto simp: setPorts_def icmp_ports_def split: TransportHeader.splits if_splits)

lemma keyFromPacket_wf:
  assumes "keyFromPacket p = Ok k" and "\<And>h. network p = Net_Ipv6 h \<Longrightarrow> length (v6_src_ip h) = 16 \<and> length (v6_dst_ip h) = 16"
  shows "FlowKey_wf k"
proof -
  obtain out where out: "setNetwork (network p) FlowKey_zero = Some out" "setPorts (transport p) out = Some k"
    using assms(1) by (auto simp: keyFromPacket_def split: option.splits)
  have "FlowKey_wf out"
    using out(1) assms(2) by (auto simp: setNetwork_def FlowKey_wf_def FlowKey_zero_def split: NetworkHeader.splits)
  then show ?thesis using setPorts_ips [OF out(2)] by (simp add: FlowKey_wf_def)
qed

lemma keyFromPacket_safe [simp]: "keyFromPacket p \<noteq> UB"
  by (simp add: keyFromPacket_def split: option.split)

section \<open>One packet\<close>

lemma touch_simps [simp]:
  "first_seen (touch ts r len f) = first_seen f" "last_seen (touch ts r len f) = ts"
  "totalBytes (touch ts r len f) = totalBytes f + ucast len"
  "totalPackets (touch ts r len f) = totalPackets f + 1"
  "fwd_tcp (touch ts r len f) = fwd_tcp f" "rev_tcp (touch ts r len f) = rev_tcp f"
  "is_reverse (touch ts r len f) = r" "app_state (touch ts r len f) = app_state f"
  by (simp_all add: touch_def totalBytes_def totalPackets_def count_packet_def Let_def)

lemma new_flow_simps [simp]:
  "first_seen (new_flow k ts) = ts" "totalBytes (new_flow k ts) = 0" "totalPackets (new_flow k ts) = 0"
  by (simp_all add: new_flow_def Flow_init_def FlowStats_init_def totalBytes_def totalPackets_def Let_def)

lemma expire_timeouts [simp]:
  "active_timeout_us (expire t k ts) = active_timeout_us t" "idle_timeout_us (expire t k ts) = idle_timeout_us t"
  "total_bytes (expire t k ts) = total_bytes t"
  by (simp_all add: expire_def split: option.split)

lemma expire_inv: "umap_inv (flows t) \<Longrightarrow> umap_inv (flows (expire t k ts))"
  using umap.inv_erase [of "flows t" k] by (simp add: expire_def split: option.split)

lemma expire_mset:
  assumes "umap_inv (flows t)"
  shows "mset (completed (expire t k ts) @ flows (expire t k ts)) = mset (completed t @ flows t)"
  using umap.mset_erase [OF assms, of k] by (auto simp: expire_def split: option.split)

text \<open>The table after a packet that is counted.\<close>

definition counted :: "Capture \<Rightarrow> bool" where
  "counted c \<longleftrightarrow> \<not> isArp (pkt c) \<and> (\<exists>k. keyFromPacket (pkt c) = Ok k)"

definition found_flow :: "FlowTable \<Rightarrow> FlowKey \<Rightarrow> u64 \<Rightarrow> Flow" where
  "found_flow t key ts = (case map_of (flows t) key of None \<Rightarrow> new_flow key ts | Some flow \<Rightarrow> flow)"

lemma addPacket_counted:
  assumes "\<not> isArp (pkt c)" and "keyFromPacket (pkt c) = Ok k0" and "normalize k0 = (k, dir)"
  shows "addPacket t c =
    (let t1 = expire (t \<lparr> total_bytes := total_bytes t + ucast (ph_incl_len (packetHeader c)) \<rparr>) k (ts_us c) in
     Ok (t1 \<lparr> flows := AList.update k (touch (ts_us c) dir (ph_incl_len (packetHeader c)) (found_flow t1 k (ts_us c))) (flows t1) \<rparr>,
       Some (k, map_of (flows t1) k = None)))"
  using assms by (simp add: addPacket_def found_flow_def Let_def split: option.split)

lemma addPacket_not_counted:
  "\<not> counted c \<Longrightarrow> addPacket t c = Ok (t, None) \<or> (\<exists>e. addPacket t c = Err e)"
  by (cases "keyFromPacket (pkt c)") (auto simp: counted_def addPacket_def)

text \<open>The packets of a capture, in order; a packet that is rejected is skipped.\<close>

definition add_step :: "FlowTable \<Rightarrow> Capture \<Rightarrow> FlowTable" where
  "add_step t c = (case addPacket t c of Ok (t', _) \<Rightarrow> t' | _ \<Rightarrow> t)"

definition all_entries :: "FlowTable \<Rightarrow> (FlowKey \<times> Flow) list" where
  "all_entries t = completed t @ flows t"

lemma add_step_skip: "\<not> counted c \<Longrightarrow> add_step t c = t"
  using addPacket_not_counted [of c t] by (auto simp: add_step_def)

text \<open>The table in which the packet's flow is looked up.\<close>

definition prepared :: "FlowTable \<Rightarrow> FlowKey \<Rightarrow> Capture \<Rightarrow> FlowTable" where
  "prepared t k c = expire (t \<lparr> total_bytes := total_bytes t + ucast (ph_incl_len (packetHeader c)) \<rparr>) k (ts_us c)"

lemma prepared_simps [simp]:
  "active_timeout_us (prepared t k c) = active_timeout_us t" "idle_timeout_us (prepared t k c) = idle_timeout_us t"
  "total_bytes (prepared t k c) = total_bytes t + ucast (ph_incl_len (packetHeader c))"
  by (simp_all add: prepared_def)

lemma prepared_inv: "umap_inv (flows t) \<Longrightarrow> umap_inv (flows (prepared t k c))"
  by (simp add: prepared_def expire_inv)

lemma prepared_mset: "umap_inv (flows t) \<Longrightarrow> mset (all_entries (prepared t k c)) = mset (all_entries t)"
  using expire_mset [of "t \<lparr> total_bytes := total_bytes t + ucast (ph_incl_len (packetHeader c)) \<rparr>" k "ts_us c"]
  by (simp add: prepared_def all_entries_def)

lemma add_step_counted:
  assumes "counted c"
  obtains k0 k dir where "keyFromPacket (pkt c) = Ok k0" and "normalize k0 = (k, dir)"
    and "add_step t c = (prepared t k c) \<lparr> flows := AList.update k
      (touch (ts_us c) dir (ph_incl_len (packetHeader c)) (found_flow (prepared t k c) k (ts_us c))) (flows (prepared t k c)) \<rparr>"
proof -
  obtain k0 where k0: "\<not> isArp (pkt c)" "keyFromPacket (pkt c) = Ok k0" using assms by (auto simp: counted_def)
  obtain k dir where k: "normalize k0 = (k, dir)" by (cases "normalize k0")
  show ?thesis
    by (rule that [OF k0(2) k]) (simp add: add_step_def addPacket_counted [OF k0 k] Let_def prepared_def)
qed

text \<open>A total over all flows grows by what the packet adds to its flow.\<close>

lemma total_step:
  fixes w :: "Flow \<Rightarrow> 'n::{comm_monoid_add, cancel_comm_monoid_add}"
  assumes "umap_inv (flows t)" and "w (touch ts dir len (found_flow t k ts)) = w (found_flow t k ts) + d"
    and "w (new_flow k ts) = 0"
  shows "sum_list (map (w \<circ> snd) (all_entries (t \<lparr> flows := AList.update k (touch ts dir len (found_flow t k ts)) (flows t) \<rparr>))) =
    sum_list (map (w \<circ> snd) (all_entries t)) + d"
proof (cases "map_of (flows t) k")
  case None
  then have "found_flow t k ts = new_flow k ts" by (simp add: found_flow_def)
  then show ?thesis
    using umap.total_assign_new [OF assms(1) None, of "w \<circ> snd"] assms(2,3)
    by (simp add: all_entries_def add.assoc add.commute add.left_commute)
next
  case (Some f)
  then have "found_flow t k ts = f" by (simp add: found_flow_def)
  then show ?thesis
    using umap.total_assign [OF assms(1), of "w \<circ> snd" k] umap.total_erase [OF assms(1) Some, of "w \<circ> snd"] assms(2)
    by (simp add: all_entries_def add.assoc add.commute add.left_commute)
qed

lemma total_mset:
  fixes w :: "Flow \<Rightarrow> 'n::comm_monoid_add"
  shows "mset xs = mset ys \<Longrightarrow> sum_list (map (w \<circ> snd) xs) = sum_list (map (w \<circ> snd) ys)"
  by (metis mset_map sum_mset_sum_list)

section \<open>Invariants\<close>

definition table_inv :: "FlowTable \<Rightarrow> bool" where
  "table_inv t \<longleftrightarrow> umap_inv (flows t) \<and> total_bytes t = sum_list (map (totalBytes \<circ> snd) (all_entries t))"

lemma add_step_inv:
  assumes "table_inv t"
  shows "table_inv (add_step t c)"
proof (cases "counted c")
  case True
  then obtain k0 k dir where "add_step t c = (prepared t k c) \<lparr> flows := AList.update k
      (touch (ts_us c) dir (ph_incl_len (packetHeader c)) (found_flow (prepared t k c) k (ts_us c))) (flows (prepared t k c)) \<rparr>"
    by (rule add_step_counted)
  moreover have inv: "umap_inv (flows (prepared t k c))" using assms by (intro prepared_inv) (simp add: table_inv_def)
  moreover have "sum_list (map (totalBytes \<circ> snd) (all_entries (prepared t k c))) = total_bytes t"
    using assms total_mset [OF prepared_mset [of t k c], of totalBytes] by (simp add: table_inv_def)
  ultimately show ?thesis
    using total_step [OF inv, where w = totalBytes] umap.inv_assign [OF inv] by (simp add: table_inv_def)
qed (simp add: add_step_skip assms)

lemma add_step_active [simp]: "active_timeout_us (add_step t c) = active_timeout_us t"
proof (cases "counted c")
  case True
  from add_step_counted [OF this, of t] show ?thesis by (metis FlowTable.select_convs(1) FlowTable.surjective FlowTable.update_convs(4) prepared_simps(1))
qed (simp add: add_step_skip)

lemma set_update_subset: "set (AList.update k v m) \<subseteq> insert (k, v) (set m)"
  by (induction m) auto

text \<open>With a clock that does not run backwards, no flow outlives the active timeout.\<close>

definition flow_times :: "u64 \<Rightarrow> u64 \<Rightarrow> Flow \<Rightarrow> bool" where
  "flow_times active now f \<longleftrightarrow> first_seen f \<le> last_seen f \<and> last_seen f \<le> now \<and> (active \<noteq> 0 \<longrightarrow> durationUs f \<le> active)"

definition times_inv :: "u64 \<Rightarrow> FlowTable \<Rightarrow> bool" where
  "times_inv now t \<longleftrightarrow> umap_inv (flows t) \<and> (\<forall>e\<in>set (all_entries t). flow_times (active_timeout_us t) now (snd e))"

lemma flow_times_mono: "flow_times active now f \<Longrightarrow> now \<le> now' \<Longrightarrow> flow_times active now' f"
  by (auto simp: flow_times_def)

text \<open>A flow that is found after the timed-out ones were removed may be extended.\<close>

lemma found_flow_times:
  assumes "times_inv now t" and "now \<le> ts"
  shows "flow_times (active_timeout_us t) ts (touch ts dir len (found_flow (expire t k ts) k ts))"
proof (cases "map_of (flows (expire t k ts)) k")
  case None
  then show ?thesis by (simp add: found_flow_def flow_times_def durationUs_def)
next
  case (Some f)
  have old: "map_of (flows t) k = Some f" "\<not> isExpired t f ts"
    using Some assms(1) umap.find_erase [of "flows t" k k]
    by (auto simp: expire_def times_inv_def split: option.splits if_splits)
  then have f: "flow_times (active_timeout_us t) now f"
    using assms(1) map_of_SomeD [OF old(1)] by (force simp: times_inv_def all_entries_def)
  then have "first_seen f \<le> ts" "\<not> ts < last_seen f" using assms(2) by (auto simp: flow_times_def)
  then show ?thesis
    using old(2) f by (auto simp: Some found_flow_def flow_times_def durationUs_def isExpired_def)
qed

lemma add_step_times:
  assumes "times_inv now t" and "now \<le> ts_us c"
  shows "times_inv (ts_us c) (add_step t c)"
proof (cases "counted c")
  case False
  then show ?thesis using assms by (auto simp: add_step_skip times_inv_def intro: flow_times_mono)
next
  case True
  obtain k0 k dir where step: "add_step t c = (prepared t k c) \<lparr> flows := AList.update k
      (touch (ts_us c) dir (ph_incl_len (packetHeader c)) (found_flow (prepared t k c) k (ts_us c))) (flows (prepared t k c)) \<rparr>"
    using True by (rule add_step_counted)
  have umap: "umap_inv (flows t)" "umap_inv (flows (prepared t k c))"
    using assms(1) prepared_inv by (auto simp: times_inv_def)
  have new: "flow_times (active_timeout_us t) (ts_us c)
      (touch (ts_us c) dir (ph_incl_len (packetHeader c)) (found_flow (prepared t k c) k (ts_us c)))"
    using found_flow_times [of now "t \<lparr> total_bytes := total_bytes t + ucast (ph_incl_len (packetHeader c)) \<rparr>" "ts_us c"] assms
    by (simp add: prepared_def times_inv_def all_entries_def)
  have "set (all_entries (prepared t k c)) = set (all_entries t)"
    using prepared_mset [OF umap(1)] by (metis set_mset_mset)
  then have "flow_times (active_timeout_us t) (ts_us c) (snd e)" if "e \<in> set (all_entries (prepared t k c))" for e
    using that assms by (auto simp: times_inv_def intro: flow_times_mono)
  then show ?thesis
    using new umap.inv_assign [OF umap(2)] set_update_subset [of k _ "flows (prepared t k c)"]
    unfolding step times_inv_def by (fastforce simp: all_entries_def)
qed

section \<open>Order of the listing\<close>

lemma length_key_bytes: "FlowKey_wf k \<Longrightarrow> length (key_bytes k) = 38"
  by (simp add: key_bytes_def FlowKey_wf_def le_bytes16_def)

interpretation listing: strict_weak_order flow_before "\<lambda>e. FlowKey_wf (fst e)"
proof unfold_locales
  fix x y z :: "FlowKey \<times> Flow"
  assume wf: "FlowKey_wf (fst x)"
  then show "\<not> flow_before x x"
    using memcmp_eq_0 [of "key_bytes (fst x)" "key_bytes (fst x)"] by (simp add: flow_before_def)
  assume wfs: "FlowKey_wf (fst y)" "FlowKey_wf (fst z)"
  let ?b = "\<lambda>e. key_bytes (fst e)"
  have len: "length (?b x) = length (?b y)" "length (?b y) = length (?b z)" "length (?b x) = length (?b z)"
    using wf wfs by (simp_all add: length_key_bytes)
  show "flow_before x y \<Longrightarrow> flow_before y z \<Longrightarrow> flow_before x z"
    using memcmp_trans [OF _ _ len(1,2)] by (auto simp: flow_before_def split: if_splits)
  show "\<not> flow_before x y \<Longrightarrow> \<not> flow_before y z \<Longrightarrow> \<not> flow_before x z"
    using memcmp_not_less_trans [OF _ _ len(1,2)] by (auto simp: flow_before_def split: if_splits)
qed

definition addresses_ok :: "Packet \<Rightarrow> bool" where
  "addresses_ok p = (case network p of Net_Ipv6 h \<Rightarrow> length (v6_src_ip h) = 16 \<and> length (v6_dst_ip h) = 16 | _ \<Rightarrow> True)"

definition keys_wf :: "FlowTable \<Rightarrow> bool" where
  "keys_wf t \<longleftrightarrow> umap_inv (flows t) \<and> list_all (\<lambda>e. FlowKey_wf (fst e)) (all_entries t)"

lemma add_step_keys:
  assumes "keys_wf t" and "addresses_ok (pkt c)"
  shows "keys_wf (add_step t c)"
proof (cases "counted c")
  case True
  then obtain k0 k dir where k: "keyFromPacket (pkt c) = Ok k0" "normalize k0 = (k, dir)" and step: "add_step t c =
    (prepared t k c) \<lparr> flows := AList.update k
      (touch (ts_us c) dir (ph_incl_len (packetHeader c)) (found_flow (prepared t k c) k (ts_us c))) (flows (prepared t k c)) \<rparr>"
    by (rule add_step_counted)
  have "FlowKey_wf k0" by (rule keyFromPacket_wf [OF k(1)]) (use assms(2) in \<open>simp add: addresses_ok_def\<close>)
  then have "FlowKey_wf k" using k(2) normalize_wf [of k0] by simp
  moreover have umap: "umap_inv (flows t)" "umap_inv (flows (prepared t k c))"
    using assms(1) prepared_inv by (auto simp: keys_wf_def)
  moreover have "set (all_entries (prepared t k c)) = set (all_entries t)"
    using prepared_mset [OF umap(1)] by (metis set_mset_mset)
  ultimately show ?thesis
    using assms(1) umap.inv_assign [OF umap(2)] set_update_subset [of k _ "flows (prepared t k c)"]
    unfolding step keys_wf_def by (fastforce simp: all_entries_def list_all_iff)
qed (simp add: add_step_skip assms)

section \<open>Directions\<close>

text \<open>A packet and an answer to it: addresses and ports exchanged, an echo request for a reply.\<close>

fun mirrored_network :: "NetworkHeader \<Rightarrow> NetworkHeader \<Rightarrow> bool" where
  "mirrored_network (Net_Ipv4 h) (Net_Ipv4 h') \<longleftrightarrow> v4_src_ip h' = v4_dst_ip h \<and> v4_dst_ip h' = v4_src_ip h"
| "mirrored_network (Net_Ipv6 h) (Net_Ipv6 h') \<longleftrightarrow> v6_src_ip h' = v6_dst_ip h \<and> v6_dst_ip h' = v6_src_ip h"
| "mirrored_network _ _ \<longleftrightarrow> False"

fun mirrored_transport :: "TransportHeader \<Rightarrow> TransportHeader \<Rightarrow> bool" where
  "mirrored_transport (Tp_Tcp h) (Tp_Tcp h') \<longleftrightarrow> tcp_src_port h' = tcp_dst_port h \<and> tcp_dst_port h' = tcp_src_port h"
| "mirrored_transport (Tp_Udp h) (Tp_Udp h') \<longleftrightarrow> udp_src_port h' = udp_dst_port h \<and> udp_dst_port h' = udp_src_port h"
| "mirrored_transport (Tp_Icmp h) (Tp_Icmp h') \<longleftrightarrow>
     icmp_type h = ICMP_ECHO_REQUEST \<and> icmp_type h' = ICMP_ECHO_REPLY \<and> icmp_echo_id h' = icmp_echo_id h"
| "mirrored_transport (Tp_Icmpv6 h) (Tp_Icmpv6 h') \<longleftrightarrow>
     icmpv6_type h = ICMPV6_ECHO_REQUEST \<and> icmpv6_type h' = ICMPV6_ECHO_REPLY \<and> icmpv6_echo_id h' = icmpv6_echo_id h"
| "mirrored_transport _ _ \<longleftrightarrow> False"

lemma mirrored_key:
  assumes "mirrored_network (network p) (network q)" and "mirrored_transport (transport p) (transport q)"
  shows "\<exists>k. keyFromPacket p = Ok k \<and> keyFromPacket q = Ok (reverse_key k)"
  using assms
  by (cases "(network p, network q)" rule: mirrored_network.cases;
      cases "(transport p, transport q)" rule: mirrored_transport.cases)
    (auto simp: keyFromPacket_def setNetwork_def setPorts_def icmp_ports_def reverse_key_def FlowKey_zero_def)

section \<open>Runs\<close>

lemma below_wrapped: "(a :: nat) < b \<Longrightarrow> b < n \<Longrightarrow> c < n - (b - a) \<Longrightarrow> c < n + a - b"
  by simp

lemma unat_diff_wrap:
  fixes a b :: u64
  assumes "unat a < unat b"
  shows "unat (a - b) = 18446744073709551616 + unat a - unat b"
proof -
  have "of_nat (18446744073709551616 + unat a - unat b) = (of_nat (18446744073709551616 + unat a) - of_nat (unat b) :: u64)"
    using unat_u64_less [of b] by (intro of_nat_diff) linarith
  then have "a - b = of_nat (18446744073709551616 + unat a - unat b)" by simp
  moreover have "18446744073709551616 + unat a - unat b < 18446744073709551616" using assms by linarith
  ultimately show ?thesis by (simp only: unat_of_nat_u64)
qed

definition run_table :: "u64 \<Rightarrow> u64 \<Rightarrow> Capture list \<Rightarrow> FlowTable" where
  "run_table active idle cs = foldl add_step (FlowTable_init active idle) cs"

lemma run_table_simps [simp]:
  "run_table active idle [] = FlowTable_init active idle"
  "run_table active idle (cs @ [c]) = add_step (run_table active idle cs) c"
  by (simp_all add: run_table_def)

lemma run_table_inv: "table_inv (run_table active idle cs)"
  by (induction cs rule: rev_induct)
    (simp_all add: add_step_inv, simp add: FlowTable_init_def table_inv_def all_entries_def umap_inv_def)

lemma run_table_keys: "list_all (\<lambda>c. addresses_ok (pkt c)) cs \<Longrightarrow> keys_wf (run_table active idle cs)"
  by (induction cs rule: rev_induct)
    (simp_all add: add_step_keys, simp add: FlowTable_init_def keys_wf_def all_entries_def umap_inv_def)

lemma run_table_times:
  "sorted (map ts_us cs) \<Longrightarrow> times_inv (if cs = [] then 0 else ts_us (last cs)) (run_table active idle cs)"
proof (induction cs rule: rev_induct)
  case Nil
  then show ?case by (simp add: FlowTable_init_def times_inv_def all_entries_def umap_inv_def)
next
  case (snoc c cs)
  have "(if cs = [] then 0 else ts_us (last cs)) \<le> ts_us c" using snoc.prems by (auto simp: sorted_append)
  moreover have "sorted (map ts_us cs)" using snoc.prems by (simp add: sorted_append)
  ultimately show ?case using snoc.IH by (auto intro: add_step_times)
qed

lemma run_table_active [simp]: "active_timeout_us (run_table active idle cs) = active"
  by (induction cs rule: rev_induct) (simp_all, simp add: FlowTable_init_def)

lemma add_step_counts:
  assumes "table_inv t" and "counted c"
  shows "total_bytes (add_step t c) = total_bytes t + ucast (ph_incl_len (packetHeader c))"
    and "sum_list (map (totalPackets \<circ> snd) (all_entries (add_step t c))) = sum_list (map (totalPackets \<circ> snd) (all_entries t)) + 1"
proof -
  obtain k0 k dir where step: "add_step t c = (prepared t k c) \<lparr> flows := AList.update k
      (touch (ts_us c) dir (ph_incl_len (packetHeader c)) (found_flow (prepared t k c) k (ts_us c))) (flows (prepared t k c)) \<rparr>"
    using assms(2) by (rule add_step_counted)
  have umap: "umap_inv (flows t)" using assms(1) by (simp add: table_inv_def)
  show "total_bytes (add_step t c) = total_bytes t + ucast (ph_incl_len (packetHeader c))" unfolding step by simp
  show "sum_list (map (totalPackets \<circ> snd) (all_entries (add_step t c))) = sum_list (map (totalPackets \<circ> snd) (all_entries t)) + 1"
    unfolding step
    using total_step [OF prepared_inv [OF umap], where w = totalPackets] total_mset [OF prepared_mset [OF umap], of totalPackets]
    by simp
qed

section \<open>Properties\<close>



definition sample_capture :: "u64 \<Rightarrow> Capture" where
  "sample_capture ts = \<lparr> ts_us = ts, packetHeader = \<lparr> ph_ts_sec = 0, ph_ts_usec = 0, ph_incl_len = 60, ph_orig_len = 60 \<rparr>,
     pkt = \<lparr> datalink = DL_Ethernet ethernet_zero, vlan_tags = [], network = Net_Ipv4 v4_zero, ipv6_ext = [],
       transport = Tp_Udp (udp_zero \<lparr> udp_src_port := 5 \<rparr>), payload = [] \<rparr> \<rparr>"


text \<open>
  The listing of flows is complete and ordered: it contains every current and completed
  flow exactly once, no flow comes before one with more bytes, ties are broken by the packed
  key, and \<open>flush\<close> does not change which flows are listed.
\<close>

theorem allFlows_listing:
  assumes "list_all (\<lambda>c. addresses_ok (pkt c)) cs"
  shows "mset (allFlows (run_table active idle cs)) = mset (completed (run_table active idle cs)) + mset (flows (run_table active idle cs)) \<and>
    sorted_wrt (\<lambda>a b. \<not> flow_before b a) (allFlows (run_table active idle cs)) \<and>
    mset (allFlows (flush (run_table active idle cs))) = mset (allFlows (run_table active idle cs))"
proof -
  let ?t = "run_table active idle cs"
  have "list_all (\<lambda>e. FlowKey_wf (fst e)) (completed ?t @ flows ?t)"
    using run_table_keys [OF assms, of active idle] by (simp add: keys_wf_def all_entries_def)
  then show ?thesis
    by (simp add: allFlows_def listing.mset_sort_by listing.sorted_sort_by flush_def)
qed

text \<open>
  C22. Both directions of a conversation meet in one flow: a packet and an answer to it, over
  IPv4 or IPv6, TCP, UDP or ICMP echo, have the same normalised key, and the direction flag
  tells them apart, except for a conversation of an endpoint with itself.
\<close>

theorem directions_share_flow:
  assumes "mirrored_network (network p) (network q)" and "mirrored_transport (transport p) (transport q)"
    and "addresses_ok p"
  shows "\<exists>k k'. keyFromPacket p = Ok k \<and> keyFromPacket q = Ok k' \<and> fst (normalize k') = fst (normalize k) \<and>
    (snd (normalize k') = (\<not> snd (normalize k)) \<or> k' = k)"
proof -
  obtain k where k: "keyFromPacket p = Ok k" "keyFromPacket q = Ok (reverse_key k)" using mirrored_key [OF assms(1,2)] by blast
  have "FlowKey_wf k" by (rule keyFromPacket_wf [OF k(1)]) (use assms(3) in \<open>simp add: addresses_ok_def\<close>)
  then show ?thesis using k oriented_both [of k] oriented_either [of k] by (auto simp: normalize_alt)
qed

theorem directions_share_flow_witness:
  "\<exists>k k'. keyFromPacket (pkt (sample_capture 0)) = Ok k \<and>
     keyFromPacket (pkt (sample_capture 0) \<lparr> transport := Tp_Udp (udp_zero \<lparr> udp_dst_port := 5 \<rparr>) \<rparr>) = Ok k' \<and>
     fst (normalize k') = fst (normalize k)"
proof -
  let ?p = "pkt (sample_capture 0)" and ?q = "pkt (sample_capture 0) \<lparr> transport := Tp_Udp (udp_zero \<lparr> udp_dst_port := 5 \<rparr>) \<rparr>"
  have "mirrored_network (network ?p) (network ?q)" by (simp add: sample_capture_def v4_zero_def)
  moreover have "mirrored_transport (transport ?p) (transport ?q)" by (simp add: sample_capture_def udp_zero_def)
  moreover have "addresses_ok ?p" by (simp add: sample_capture_def addresses_ok_def)
  ultimately show ?thesis using directions_share_flow [of ?p ?q] by blast
qed

text \<open>
  A clock that runs backwards breaks the active timeout: when a packet carries a time
  before the start of its flow, \<open>ts_us - first_seen\<close> wraps around, and the flow counts as
  expired, whatever its timeout is up to the size of the gap.
\<close>

theorem backward_clock_expires:
  assumes "last_seen f \<le> ts" and "ts < first_seen f" and "active_timeout_us t \<noteq> 0"
    and "unat (active_timeout_us t) < 18446744073709551616 - (unat (first_seen f) - unat ts)"
  shows "isExpired t f ts"
proof -
  have lt: "unat ts < unat (first_seen f)" using assms(2) by (simp only: word_less_nat_alt)
  have "unat (active_timeout_us t) < unat (ts - first_seen f)"
    unfolding unat_diff_wrap [OF lt] by (rule below_wrapped [OF lt unat_u64_less assms(4)])
  then have "active_timeout_us t < ts - first_seen f" by (simp only: word_less_nat_alt)
  then show ?thesis using assms(1,3) by (simp add: isExpired_def not_less)
qed

end
