(* ===== verification/Dns_Table.thy ===== *)
theory Dns_Table
  imports Dns Containers
begin

text \<open>
  The table of resolved names (\<^verbatim>\<open>src/net/analysis/dns_table.cpp\<close>,
  \<^verbatim>\<open>include/net/analysis/dns_table.h\<close>): for every address seen in an answer, the names it was
  given, each once and in the order of their first appearance.
\<close>

section \<open>Keys\<close>

record IpKey =
  ik_isIpv4 :: bool
  ik_ip :: "u8 list"

definition IpKey_wf :: "IpKey \<Rightarrow> bool" where
  "IpKey_wf k \<longleftrightarrow> length (ik_ip k) = 16"

text \<open>\<open>IpKey key{}\<close> with the first bytes copied over.\<close>

definition IpKey_of :: "bool \<Rightarrow> u8 list \<Rightarrow> IpKey" where
  "IpKey_of v4 bytes = \<lparr> ik_isIpv4 = v4, ik_ip = bytes @ replicate (16 - length bytes) 0 \<rparr>"

fun ip_mix :: "u64 \<Rightarrow> u8 list \<Rightarrow> u64" where
  "ip_mix h [] = h"
| "ip_mix h (b # bs) = ip_mix ((h XOR ucast b) * 1099511628211) bs"

definition IpKeyHash :: "IpKey \<Rightarrow> u64" where
  "IpKeyHash key = ip_mix ((14695981039346656037 XOR (if ik_isIpv4 key then 1 else 0)) * 1099511628211) (ik_ip key)"

section \<open>The table\<close>

type_synonym DnsTable = "(IpKey, string list) umap"

text \<open>Which address a record resolves to.\<close>

definition address_of :: "dns_ResourceRecord \<Rightarrow> IpKey option" where
  "address_of rr =
     (if rr_type rr = TYPE_A \<and> length (rr_rdata rr) = 4 then Some (IpKey_of True (rr_rdata rr))
      else if rr_type rr = TYPE_AAAA \<and> length (rr_rdata rr) = 16 then Some (IpKey_of False (rr_rdata rr))
      else None)"

definition record_one :: "DnsTable \<Rightarrow> dns_ResourceRecord \<Rightarrow> DnsTable" where
  "record_one domains rr =
     (case address_of rr of
        None \<Rightarrow> domains
      | Some key \<Rightarrow>
          let names = (case map_of domains key of None \<Rightarrow> [] | Some names \<Rightarrow> names) in
          if rr_name rr \<in> set names then AList.update key names domains
          else AList.update key (names @ [rr_name rr]) domains)"

definition recordRecords :: "DnsTable \<Rightarrow> dns_ResourceRecord list \<Rightarrow> DnsTable" where
  "recordRecords = foldl record_one"

definition DnsTable_record :: "DnsTable \<Rightarrow> dns_Header \<Rightarrow> DnsTable" where
  "DnsTable_record domains message =
     (if \<not> dns_isResponse message then domains
      else recordRecords (recordRecords domains (dns_answers message)) (dns_additional message))"

definition domainsFor :: "DnsTable \<Rightarrow> u8 list \<Rightarrow> bool \<Rightarrow> string list option" where
  "domainsFor domains ip v4 = map_of domains \<lparr> ik_isIpv4 = v4, ik_ip = take 16 ip \<rparr>"

definition DnsTable_size :: "DnsTable \<Rightarrow> nat" where
  "DnsTable_size domains = length domains"

section \<open>Invariant\<close>

text \<open>Keys are unique and complete, and every address has at least one name and no name twice.\<close>

definition dns_table_inv :: "DnsTable \<Rightarrow> bool" where
  "dns_table_inv t \<longleftrightarrow> umap_inv t \<and> (\<forall>k names. map_of t k = Some names \<longrightarrow> IpKey_wf k \<and> names \<noteq> [] \<and> distinct names)"

lemma IpKey_of_wf: "length bytes \<le> 16 \<Longrightarrow> IpKey_wf (IpKey_of v4 bytes)"
  by (simp add: IpKey_of_def IpKey_wf_def)

text \<open>The names of an address: the recorded ones in order of first appearance.\<close>

definition add_name :: "string list \<Rightarrow> string \<Rightarrow> string list" where
  "add_name names n = (if n \<in> set names then names else names @ [n])"

definition names_at :: "DnsTable \<Rightarrow> IpKey \<Rightarrow> string list" where
  "names_at t k = (case map_of t k of None \<Rightarrow> [] | Some names \<Rightarrow> names)"

lemma record_one_alt:
  "record_one t rr = (case address_of rr of None \<Rightarrow> t | Some k \<Rightarrow> AList.update k (add_name (names_at t k) (rr_name rr)) t)"
  by (simp add: record_one_def add_name_def names_at_def Let_def split: option.split)

lemma record_one_inv: "dns_table_inv t \<Longrightarrow> dns_table_inv (record_one t rr)"
proof (cases "address_of rr")
  case (Some k)
  assume inv: "dns_table_inv t"
  have "IpKey_wf k" using Some IpKey_of_wf [of "rr_rdata rr"] by (auto simp: address_of_def split: if_splits)
  moreover have "distinct (names_at t k)" using inv by (auto simp: names_at_def dns_table_inv_def split: option.split)
  ultimately show ?thesis
    using inv Some umap.inv_assign [of t] umap.find_assign [of t]
    by (auto simp: dns_table_inv_def record_one_alt add_name_def split: if_splits)
qed (simp add: record_one_alt)

lemma recordRecords_inv: "dns_table_inv t \<Longrightarrow> dns_table_inv (recordRecords t rrs)"
  by (induction rrs arbitrary: t) (auto simp: recordRecords_def record_one_inv)

lemma names_at_record_one:
  assumes "dns_table_inv t"
  shows "names_at (record_one t rr) k =
    (if address_of rr = Some k then add_name (names_at t k) (rr_name rr) else names_at t k)"
proof (cases "address_of rr")
  case (Some k')
  have "map_of (record_one t rr) k = (if k = k' then Some (add_name (names_at t k') (rr_name rr)) else map_of t k)"
    using assms Some umap.find_assign [of t k'] by (simp add: record_one_alt dns_table_inv_def)
  then show ?thesis using Some by (simp add: names_at_def)
qed (simp add: record_one_alt)

lemma names_at_recordRecords:
  "dns_table_inv t \<Longrightarrow> names_at (recordRecords t rrs) k =
     foldl add_name (names_at t k) (map rr_name (filter (\<lambda>rr. address_of rr = Some k) rrs))"
  by (induction rrs arbitrary: t) (simp_all add: recordRecords_def names_at_record_one record_one_inv)

section \<open>Properties\<close>

text \<open>
  C24. The table answers what was observed: after any sequence of messages, the names of an
  address are exactly the names of its \<open>A\<close> and \<open>AAAA\<close> records in the answer and additional
  sections of the responses, each once, in the order of first appearance, and an address
  has an entry if and only if it has a name.
\<close>

theorem dns_table_observed:
  "domainsFor (foldl DnsTable_record [] ms) ip v4 =
     (let names = foldl add_name [] (map rr_name (filter (\<lambda>rr. address_of rr = Some \<lparr> ik_isIpv4 = v4, ik_ip = take 16 ip \<rparr>)
         (concat (map (\<lambda>m. if dns_isResponse m then dns_answers m @ dns_additional m else []) ms)))) in
      if names = [] then None else Some names)"
proof -
  let ?recs = "\<lambda>m. if dns_isResponse m then dns_answers m @ dns_additional m else []"
  let ?k = "\<lparr> ik_isIpv4 = v4, ik_ip = take 16 ip \<rparr>"
  have step: "DnsTable_record t m = recordRecords t (?recs m)" for t m
    by (simp add: DnsTable_record_def recordRecords_def)
  have all: "foldl DnsTable_record t ms = recordRecords t (concat (map ?recs ms))" for t
    by (induction ms arbitrary: t) (simp_all add: step recordRecords_def)
  have init: "dns_table_inv []" by (simp add: dns_table_inv_def umap_inv_def)
  define t where "t = foldl DnsTable_record [] ms"
  have t: "t = recordRecords [] (concat (map ?recs ms))" by (simp add: t_def all)
  have names: "names_at t ?k = foldl add_name [] (map rr_name (filter (\<lambda>rr. address_of rr = Some ?k) (concat (map ?recs ms))))"
    unfolding t names_at_recordRecords [OF init] by (simp add: names_at_def)
  have "map_of t ?k = (if names_at t ?k = [] then None else Some (names_at t ?k))"
    using recordRecords_inv [OF init] unfolding t [symmetric] dns_table_inv_def names_at_def
    by (cases "map_of t ?k") (simp_all add: t)
  then show ?thesis unfolding domainsFor_def t_def [symmetric] Let_def names .
qed

end
