(* ===== verification/Reassembly.thy ===== *)
theory Reassembly
  imports Reassembler
begin

text \<open>
  What the reassembler promises: the interface the application decoder reads it through,
  memory safety over the whole life of a connection, and the exactness of reassembly: the
  bytes it delivers are the contiguous prefix of the sender's stream that has arrived, in
  whatever order, with whatever overlap and duplication.
\<close>

section \<open>The reader's interface\<close>

text \<open>
  A client sees the bytes not yet consumed. Consuming removes a prefix; the buffer behind
  the interface may be compacted at any time.
\<close>

locale byte_stream =
  fixes ok :: "'s \<Rightarrow> bool" and view :: "'s \<Rightarrow> u8 list"
    and peek_op :: "'s \<Rightarrow> span res" and consume_op :: "'s \<Rightarrow> nat \<Rightarrow> 's" and available_op :: "'s \<Rightarrow> nat"
  assumes peek_view: "ok s \<Longrightarrow> peek_op s = Ok (view s)"
    and consume_ok: "ok s \<Longrightarrow> ok (consume_op s n)"
    and consume_view: "ok s \<Longrightarrow> view (consume_op s n) = drop n (view s)"
    and available_view: "ok s \<Longrightarrow> available_op s = length (view s)"
begin

lemma peek_safe: "ok s \<Longrightarrow> peek_op s \<noteq> UB"
  by (simp add: peek_view)

lemma consume_consume: "ok s \<Longrightarrow> view (consume_op (consume_op s m) n) = view (consume_op s (m + n))"
  by (simp add: consume_view consume_ok add.commute)

lemma available_consume: "ok s \<Longrightarrow> available_op (consume_op s n) = available_op s - n"
  by (simp add: available_view consume_ok consume_view)

text \<open>Reading a message of \<open>n\<close> bytes and consuming it splits the stream.\<close>

lemma take_message:
  assumes "ok s" and "n \<le> available_op s"
  shows "\<exists>msg. length msg = n \<and> view s = msg @ view (consume_op s n)"
  using assms by (intro exI [of _ "take n (view s)"]) (simp add: available_view consume_view)

end

definition unread :: "TcpReassembler \<Rightarrow> u8 list" where
  "unread st = drop (read_pos st) (assembled st)"

lemma unread_consume:
  assumes "read_pos st \<le> length (assembled st)"
  shows "unread (consume st n) = drop n (unread st)"
proof -
  let ?r = "read_pos st + min n (available st)"
  have "unread (consume st n) = drop ?r (assembled st)"
    by (simp add: unread_def consume_def Let_def)
  also have "\<dots> = drop n (unread st)"
    using assms by (cases "n \<le> available st") (auto simp: unread_def available_def min_def add.commute)
  finally show ?thesis .
qed

lemma reassembler_inv_read: "reassembler_inv st \<Longrightarrow> read_pos st \<le> length (assembled st)"
  by (simp add: reassembler_inv_def)

lemma peek_unread: "reassembler_inv st \<Longrightarrow> peek st = Ok (unread st)"
  by (simp add: peek_def unread_def reassembler_inv_read)

interpretation tcp_stream: byte_stream reassembler_inv unread peek consume available
  by unfold_locales
     (simp_all add: peek_unread consume_inv unread_consume reassembler_inv_read, simp add: available_def unread_def)

text \<open>Reading only depends on the buffer, not on the queue.\<close>

definition readable :: "TcpReassembler \<Rightarrow> bool" where
  "readable st \<longleftrightarrow> read_pos st \<le> length (assembled st)"

lemma readable_inv: "reassembler_inv st \<Longrightarrow> readable st"
  by (simp add: readable_def reassembler_inv_read)

interpretation read_buffer: byte_stream readable unread peek consume available
proof
  fix st n
  assume st: "readable st"
  then show "peek st = Ok (unread st)" by (simp add: readable_def peek_def unread_def)
  show "readable (consume st n)" using st by (auto simp: readable_def consume_def available_def Let_def)
  show "unread (consume st n) = drop n (unread st)" using st by (intro unread_consume) (simp add: readable_def)
  show "available st = length (unread st)" by (simp add: available_def unread_def)
qed

section \<open>A connection\<close>

text \<open>
  The events of one direction of a connection: a segment sent (at most 65535 bytes, the
  limit of an IP packet), a segment of the peer, a read by the application decoder. The
  flag records that the FIN has been reached; after that the direction carries no data
  until the flow is retired, so events that would feed it again are not part of this
  connection. \<open>Reassembly_Any\<close> has them.
\<close>

definition accepts_data :: "TcpReassembler \<Rightarrow> bool" where
  "accepts_data st \<longleftrightarrow> \<not> seeded st \<or> state st = SynSent \<or> state st = Established \<or> state st = CloseWait"

inductive conn_step :: "bool \<times> TcpReassembler \<Rightarrow> bool \<times> TcpReassembler \<Rightarrow> bool" where
  sent: "length span < 65536 \<Longrightarrow> \<not> (done \<and> accepts_data st) \<Longrightarrow> onSent st header span = Ok st' \<Longrightarrow>
    conn_step (done, st) (done \<or> closing st', st')"
| received: "conn_step (done, st) (done, onReceived st header)"
| read: "conn_step (done, st) (done, consume st n)"

inductive conn_reach :: "bool \<times> TcpReassembler \<Rightarrow> bool" where
  start: "conn_reach (False, TcpReassembler_init \<lparr> keep_payload := keep \<rparr>)"
| step: "conn_reach c \<Longrightarrow> conn_step c c' \<Longrightarrow> conn_reach c'"

inductive_cases conn_stepE: "conn_step (done, st) (done', st')"

definition conn_inv :: "bool \<times> TcpReassembler \<Rightarrow> bool" where
  "conn_inv c = (case c of (done, st) \<Rightarrow> reassembler_inv st \<and> (done \<or> strictly_ahead st))"

lemma onSent_idle:
  assumes "\<not> accepts_data st"
  shows "onSent st header span = Ok (if tcp_rst header then st \<lparr> state := Closed \<rparr> else st)"
  using assms by (cases "state st") (auto simp: onSent_def accepts_data_def)

lemma conn_inv_step:
  assumes "conn_inv c" and "conn_step c c'"
  shows "conn_inv c'"
  using assms(2,1)
proof cases
  case (sent span dn st header st')
  show ?thesis
  proof (cases "accepts_data st")
    case True
    then have "sent_post (onSent st header span)"
      using sent assms(1) by (intro onSent_inv) (auto simp: conn_inv_def)
    with sent show ?thesis by (auto simp: conn_inv_def sent_post_def)
  next
    case False
    then have "st' = st \<or> st' = st \<lparr> state := Closed \<rparr>"
      using sent onSent_idle [OF False, of header span] by (auto split: if_splits)
    with sent assms(1) show ?thesis by (auto simp: conn_inv_def)
  qed
next
  case (received dn st header)
  obtain s where "onReceived st header = st \<lparr> state := s \<rparr>" using onReceived_state by blast
  with received assms(1) show ?thesis by (simp add: conn_inv_def)
next
  case (read dn st n)
  with assms(1) show ?thesis by (simp add: conn_inv_def consume_inv)
qed

lemma conn_reach_inv: "conn_reach c \<Longrightarrow> conn_inv c"
proof (induction rule: conn_reach.induct)
  case (start keep)
  then show ?case
    by (simp add: conn_inv_def reassembler_inv_def strictly_ahead_def TcpReassembler_init_def queue_ok_def)
next
  case (step c c')
  then show ?case using conn_inv_step by blast
qed

section \<open>Exactness\<close>

text \<open>\<open>piece S off n\<close>: the \<open>n\<close> bytes of the stream at offset \<open>off\<close>.\<close>

definition piece :: "u8 list \<Rightarrow> nat \<Rightarrow> nat \<Rightarrow> u8 list" where
  "piece S off n = take n (drop off S)"

lemma length_piece: "off + n \<le> length S \<Longrightarrow> length (piece S off n) = n"
  by (simp add: piece_def)

lemma piece_append: "piece S off m @ piece S (off + m) n = piece S off (m + n)"
  by (simp add: piece_def take_add add.commute)

lemma piece_drop: "drop k (piece S off n) = piece S (off + k) (n - k)"
  by (simp add: piece_def drop_take add.commute)

text \<open>Every queued segment is a piece of \<open>S\<close>, seen from position \<open>k\<close> of the stream.\<close>

definition queued_pieces :: "u8 list \<Rightarrow> nat \<Rightarrow> u32 \<Rightarrow> Segment list \<Rightarrow> bool" where
  "queued_pieces S k base q \<longleftrightarrow> (\<forall>s\<in>set q. k + seg_dist base s + length (seg_data s) \<le> length S \<and>
     seg_data s = piece S (k + seg_dist base s) (length (seg_data s)))"

lemma drain_count_pieces:
  assumes "queued_pieces S k base q" and "k + a \<le> length S" and "drain_count base q a = (m, a', e)"
  shows "k + a' \<le> length S \<and> e = piece S (k + a) (a' - a)"
  using assms
proof (induction q arbitrary: a m a' e)
  case Nil
  then show ?case by (simp add: piece_def)
next
  case (Cons s q)
  let ?d = "seg_dist base s" and ?n = "length (seg_data s)"
  have s: "k + ?d + ?n \<le> length S" "seg_data s = piece S (k + ?d) ?n" and q: "queued_pieces S k base q"
    using Cons.prems(1) by (auto simp: queued_pieces_def)
  show ?case
  proof (cases "a < ?d")
    case True
    with Cons.prems show ?thesis by (simp add: piece_def)
  next
    case False
    show ?thesis
    proof (cases "a - ?d < ?n")
      case True
      let ?a = "a + (?n - (a - ?d))"
      obtain m1 a1 e1 where r: "drain_count base q ?a = (m1, a1, e1)" by (metis prod.exhaust)
      have eq: "?a = ?d + ?n" using True False by simp
      have IH: "k + a1 \<le> length S" "e1 = piece S (k + ?a) (a1 - ?a)"
        using Cons.IH [OF q _ r] s(1) eq by (simp_all add: add.assoc)
      have ge: "?a \<le> a1" using drain_count_bounds [OF r] by simp
      have "drop (a - ?d) (seg_data s) = piece S (k + a) (?n - (a - ?d))"
        using False arg_cong [OF s(2), of "drop (a - ?d)"] by (simp add: piece_drop)
      moreover have "piece S (k + a) (?n - (a - ?d)) @ piece S (k + ?a) (a1 - ?a) = piece S (k + a) (a1 - a)"
        using piece_append [of S "k + a" "?n - (a - ?d)" "a1 - ?a"] ge by (simp add: add.assoc)
      ultimately show ?thesis using Cons.prems(3) False True r IH by (auto simp: Let_def)
    next
      case nTrue: False
      obtain m1 a1 e1 where r: "drain_count base q a = (m1, a1, e1)" by (metis prod.exhaust)
      from Cons.IH [OF q Cons.prems(2) r] Cons.prems(3) False nTrue r show ?thesis by (auto simp: Let_def)
    qed
  qed
qed

text \<open>
  The relation between a reassembler and the stream \<open>S\<close> that starts at sequence number
  \<open>b\<close>: the first \<open>k\<close> bytes are assembled, \<open>r\<close> of them read, and every queued segment is a
  piece that starts beyond \<open>k\<close>.
\<close>

definition stream_rel :: "u8 list \<Rightarrow> u32 \<Rightarrow> nat \<Rightarrow> nat \<Rightarrow> TcpReassembler \<Rightarrow> bool" where
  "stream_rel S b k r st \<longleftrightarrow> reassembler_inv st \<and> strictly_ahead st \<and> keep_payload st \<and> seeded st \<and>
     state st = Established \<and> \<not> fin_seen st \<and> next_seq st = b + of_nat k \<and> k \<le> length S \<and> r \<le> k \<and>
     unread st = drop r (take k S) \<and> queued_pieces S k (next_seq st) (out_of_order st)"

definition queue_covers :: "TcpReassembler \<Rightarrow> nat \<Rightarrow> nat \<Rightarrow> bool" where
  "queue_covers st k i \<longleftrightarrow> (\<exists>s\<in>set (out_of_order st).
     k + seg_dist (next_seq st) s \<le> i \<and> i < k + seg_dist (next_seq st) s + length (seg_data s))"

lemma take_piece: "k + a \<le> length S \<Longrightarrow> r \<le> k \<Longrightarrow> drop r (take k S) @ piece S k a = drop r (take (k + a) S)"
  by (simp add: piece_def take_add)

lemma advance_stream:
  assumes "stream_rel S b k r st" and "length S < 2147483648" and "k + a \<le> length S"
  shows "\<exists>st' k'. drain (st \<lparr> assembled := assembled st @ piece S k a, next_seq := next_seq st + of_nat a \<rparr>) = Ok st' \<and>
    stream_rel S b k' r st' \<and> k \<le> k' \<and> seg_bytes (out_of_order st') \<le> seg_bytes (out_of_order st) \<and>
    (\<forall>i. i < k' \<or> queue_covers st' k' i \<longleftrightarrow> i < k + a \<or> queue_covers st k i)"
proof -
  let ?b = "next_seq st" and ?q = "out_of_order st"
  obtain m a' e where r: "drain_count ?b ?q a = (m, a', e)" by (metis prod.exhaust)
  define st' where "st' = st \<lparr> out_of_order := drop m ?q, next_seq := ?b + of_nat a',
      ooo_bytes := ooo_bytes st - of_nat (seg_bytes (take m ?q)), assembled := assembled st @ piece S k a @ e \<rparr>"
  have rel: "reassembler_inv st" "queued_pieces S k ?b ?q" "?b = b + of_nat k" "r \<le> k" "unread st = drop r (take k S)"
    "read_pos st \<le> length (assembled st)"
    using assms(1) by (auto simp: stream_rel_def reassembler_inv_def)
  have a: "a < 2147483648" using assms(2,3) by simp
  note adv = drain_advance [OF rel(1) a r, of "piece S k a", folded st'_def]
  note bounds = drain_count_bounds [OF r]
  have e: "k + a' \<le> length S" "e = piece S (k + a) (a' - a)"
    using drain_count_pieces [OF rel(2) assms(3) r] by auto
  have "queue_ok ?b ?q" using rel(1) by (simp add: reassembler_inv_def)
  then have ahead: "\<forall>s\<in>set (drop m ?q). a' < seg_dist ?b s" using drain_count_rest [OF r] by blast
  have dist: "seg_dist (next_seq st') s = seg_dist ?b s - a'" if "s \<in> set (drop m ?q)" for s
    using that ahead unat_diff_add [of "seg_seq s" ?b _ a'] by (auto simp: seg_dist_def st'_def less_imp_le)
  have pos: "k + a' + (seg_dist ?b s - a') = k + seg_dist ?b s" if "s \<in> set (drop m ?q)" for s
    using that ahead by (auto dest: bspec less_imp_le)
  have q': "out_of_order st' = drop m ?q" by (simp add: st'_def)
  have "unread st' = drop r (take (k + a') S)"
  proof -
    have "unread st' = unread st @ piece S k a @ e" using rel(6) by (simp add: unread_def st'_def)
    also have "piece S k a @ e = piece S k a'" using piece_append [of S k a "a' - a"] e bounds by simp
    finally show ?thesis using take_piece [OF e(1) rel(4)] rel(5) by simp
  qed
  moreover have "queued_pieces S (k + a') (next_seq st') (drop m ?q)"
    unfolding queued_pieces_def
  proof
    fix s assume s: "s \<in> set (drop m ?q)"
    with rel(2) have "k + seg_dist ?b s + length (seg_data s) \<le> length S \<and>
        seg_data s = piece S (k + seg_dist ?b s) (length (seg_data s))"
      by (auto simp: queued_pieces_def dest: in_set_dropD)
    then show "k + a' + seg_dist (next_seq st') s + length (seg_data s) \<le> length S \<and>
        seg_data s = piece S (k + a' + seg_dist (next_seq st') s) (length (seg_data s))"
      unfolding dist [OF s] pos [OF s] .
  qed
  ultimately have rel': "stream_rel S b (k + a') r st'"
    using assms(1) adv e(1) rel(3,4) by (simp add: stream_rel_def q') (simp add: st'_def algebra_simps)
  have cov': "queue_covers st' (k + a') i \<longleftrightarrow> (\<exists>s\<in>set (drop m ?q). k + seg_dist ?b s \<le> i \<and> i < k + seg_dist ?b s + length (seg_data s))" for i
    unfolding queue_covers_def q' by (intro bex_cong refl) (simp only: dist pos)
  have split: "set ?q = set (take m ?q) \<union> set (drop m ?q)" by (metis append_take_drop_id set_append)
  have "i < k + a' \<or> queue_covers st' (k + a') i \<longleftrightarrow> i < k + a \<or> queue_covers st k i" for i
  proof
    assume "i < k + a' \<or> queue_covers st' (k + a') i"
    then consider "i < k + a" | "a \<le> i - k" "i - k < a'" "k \<le> i" | "queue_covers st' (k + a') i" by linarith
    then show "i < k + a \<or> queue_covers st k i"
    proof cases
      case 2
      with bounds obtain s where "s \<in> set (take m ?q)" "seg_dist ?b s \<le> i - k" "i - k < seg_dist ?b s + length (seg_data s)"
        by blast
      with 2 split show ?thesis by (auto simp: queue_covers_def intro!: bexI [of _ s])
    next
      case 3
      then show ?thesis unfolding cov' by (auto simp: queue_covers_def dest: in_set_dropD)
    qed simp
  next
    assume "i < k + a \<or> queue_covers st k i"
    then show "i < k + a' \<or> queue_covers st' (k + a') i"
    proof
      assume "queue_covers st k i"
      then obtain s where s: "s \<in> set ?q" "k + seg_dist ?b s \<le> i" "i < k + seg_dist ?b s + length (seg_data s)"
        by (auto simp: queue_covers_def)
      show ?thesis
      proof (cases "s \<in> set (take m ?q)")
        case True
        with bounds have "seg_dist ?b s + length (seg_data s) \<le> a'" by blast
        with s show ?thesis by linarith
      next
        case False
        with s split have "s \<in> set (drop m ?q)" by blast
        with s show ?thesis unfolding cov' by blast
      qed
    qed (use bounds in linarith)
  qed
  moreover have "seg_bytes (drop m ?q) \<le> seg_bytes ?q"
    using seg_bytes_simps(3) [of "take m ?q" "drop m ?q"] by simp
  ultimately show ?thesis
    using adv(1) rel' by (intro exI [of _ st'] exI [of _ "k + a'"]) (simp add: st'_def)
qed

lemma stream_dist:
  assumes "off < 2147483648" and "k < 2147483648"
  shows "k < off \<Longrightarrow> unat ((b + of_nat off) - (b + of_nat k) :: u32) = off - k"
    and "off < k \<Longrightarrow> 2147483648 \<le> unat ((b + of_nat off) - (b + of_nat k) :: u32)"
    and "off \<le> k \<Longrightarrow> unat ((b + of_nat k) - (b + of_nat off) :: u32) = k - off"
proof -
  have "(b + of_nat off) - (b + of_nat k) = (of_nat (off - k) :: u32)" if "k < off"
    using that by (simp add: of_nat_diff)
  then show "k < off \<Longrightarrow> unat ((b + of_nat off) - (b + of_nat k) :: u32) = off - k"
    using assms by (simp add: unat_of_nat_u32 del: of_nat_diff add_diff_cancel_left)
  have "(b + of_nat k) - (b + of_nat off) = (of_nat (k - off) :: u32)" if "off \<le> k"
    using that by (simp add: of_nat_diff)
  then show "off \<le> k \<Longrightarrow> unat ((b + of_nat k) - (b + of_nat off) :: u32) = k - off"
    using assms by (simp add: unat_of_nat_u32 del: of_nat_diff add_diff_cancel_left)
  have "(b + of_nat off) - (b + of_nat k) = - (of_nat (k - off) :: u32)" if "off < k"
    using that by (simp add: of_nat_diff)
  then show "off < k \<Longrightarrow> 2147483648 \<le> unat ((b + of_nat off) - (b + of_nat k) :: u32)"
    using assms unat_minus_of_nat [of "k - off"] by (simp del: of_nat_diff add_diff_cancel_left)
qed

lemma enqueue_stream:
  assumes "stream_rel S b k r st" and "length S < 2147483648" and "off + n \<le> length S" and "k < off"
    and "seg_bytes (out_of_order st) + n \<le> MAX_OOO_BYTES"
  defines "st' \<equiv> enqueue st (b + of_nat off) (piece S off n)"
  shows "stream_rel S b k r st' \<and> seg_bytes (out_of_order st') \<le> seg_bytes (out_of_order st) + n \<and>
    (\<forall>i. queue_covers st' k i \<longleftrightarrow> queue_covers st k i \<or> off \<le> i \<and> i < off + n)"
proof -
  let ?q = "out_of_order st" and ?b = "next_seq st" and ?seq = "b + of_nat off"
  have rel: "reassembler_inv st" "?b = b + of_nat k" "keep_payload st \<and> seeded st"
    "queued_pieces S k ?b ?q" "strictly_ahead st"
    using assms(1) by (auto simp: stream_rel_def)
  have d: "unat (?seq - ?b) = off - k"
    unfolding rel(2) using assms(2-4) by (intro stream_dist(1)) auto
  have len: "length (piece S off n) = n" "length (piece S off n) < 4294967296"
    using assms(2,3) length_piece [of off n S] by simp_all
  note inv = reassembler_inv_enqueue [OF rel(1,3) len(2), of ?seq, unfolded d]
  have inv': "reassembler_inv st'" "strictly_ahead st'" "next_seq st' = ?b"
    using inv assms(2-4) rel(5) unfolding st'_def by auto
  have conn: "same_conn st st'" "unread st' = unread st"
    by (simp_all add: st'_def same_conn_enqueue) (simp add: enqueue_def unread_def Let_def)
  have at: "k + seg_dist ?b s = off" if "seg_seq s = ?seq" for s
    using that d assms(4) by (simp add: seg_dist_def)
  have new: "k + seg_dist ?b s + length (seg_data s) \<le> length S \<and>
      seg_data s = piece S (k + seg_dist ?b s) (length (seg_data s))"
    if "seg_seq s = ?seq" "seg_data s = piece S off n" for s
    using at [OF that(1)] that(2) len(1) assms(3) by simp
  have "queued_pieces S k ?b (out_of_order st') \<and> seg_bytes (out_of_order st') \<le> seg_bytes ?q + n \<and>
      (\<forall>i. queue_covers st' k i \<longleftrightarrow> queue_covers st k i \<or> off \<le> i \<and> i < off + n)"
  proof (cases rule: enqueue_cases [OF rel(1) len(2), of ?seq, case_names replace keep insert full])
    case (replace xs s ys)
    let ?s = "s \<lparr> seg_data := piece S off n \<rparr>"
    have q': "out_of_order st' = xs @ ?s # ys" using replace(5) by (simp add: st'_def)
    have s: "k + seg_dist ?b s = off" "k + seg_dist ?b ?s = off"
      using at [of s] at [of ?s] replace(2) by simp_all
    have "queue_covers st' k i \<longleftrightarrow> queue_covers st k i \<or> off \<le> i \<and> i < off + n" for i
      using replace(1,3) len(1) s unfolding queue_covers_def q' inv'(3) by auto
    moreover have "queued_pieces S k ?b (xs @ ?s # ys)"
      using rel(4) new [of ?s] replace(1,2) by (simp add: queued_pieces_def)
    ultimately show ?thesis using q' replace(1) len(1) by simp
  next
    case (keep s)
    have s: "k + seg_dist ?b s = off" using at keep(2) by simp
    have "n \<le> length (seg_data s)"
      using keep(4) len(1) assms(5) by auto
    then have "queue_covers st k i" if "off \<le> i" "i < off + n" for i
      using that keep(1) s by (auto simp: queue_covers_def intro!: bexI [of _ s])
    then show ?thesis using keep(3) rel(4) by (auto simp: st'_def)
  next
    case (insert xs ys)
    let ?s = "\<lparr> seg_seq = ?seq, seg_data = piece S off n \<rparr>"
    have q': "out_of_order st' = xs @ ?s # ys" using insert(5) by (simp add: st'_def)
    have s: "k + seg_dist ?b ?s = off" using at [of ?s] by simp
    have "queue_covers st' k i \<longleftrightarrow> queue_covers st k i \<or> off \<le> i \<and> i < off + n" for i
      using insert(1) len(1) s unfolding queue_covers_def q' inv'(3) by auto
    moreover have "queued_pieces S k ?b (xs @ ?s # ys)"
      using rel(4) new [of ?s] insert(1) by (simp add: queued_pieces_def)
    ultimately show ?thesis using q' insert(1) len(1) by simp
  next
    case full
    then show ?thesis using assms(5) len(1) by simp
  qed
  with inv' conn assms(1) show ?thesis by (auto simp: stream_rel_def same_conn_def)
qed

lemma deliver_stream:
  assumes "stream_rel S b k r st" and "length S < 2147483648" and "off + n \<le> length S"
    and "seg_bytes (out_of_order st) + n \<le> MAX_OOO_BYTES"
  shows "\<exists>st' k'. ingest st (b + of_nat off) (piece S off n) = Ok st' \<and> stream_rel S b k' r st' \<and>
    seg_bytes (out_of_order st') \<le> seg_bytes (out_of_order st) + n \<and>
    (\<forall>i. i < k' \<or> queue_covers st' k' i \<longleftrightarrow> i < k \<or> queue_covers st k i \<or> off \<le> i \<and> i < off + n)"
proof -
  have rel: "keep_payload st" "next_seq st = b + of_nat k" "k \<le> length S"
    using assms(1) by (auto simp: stream_rel_def)
  have len: "length (piece S off n) = n" using assms(3) length_piece by blast
  have advanced: "\<exists>st' k'. m = Ok st' \<and> stream_rel S b k' r st' \<and>
      seg_bytes (out_of_order st') \<le> seg_bytes (out_of_order st) + n \<and>
      (\<forall>i. i < k' \<or> queue_covers st' k' i \<longleftrightarrow> i < k \<or> queue_covers st k i \<or> off \<le> i \<and> i < off + n)"
    if "\<exists>st' k'. m = Ok st' \<and> stream_rel S b k' r st' \<and> k \<le> k' \<and>
      seg_bytes (out_of_order st') \<le> seg_bytes (out_of_order st) \<and>
      (\<forall>i. i < k' \<or> queue_covers st' k' i \<longleftrightarrow> i < k + a \<or> queue_covers st k i)"
      and "off \<le> k" and "k + a = off + n" for m a
  proof -
    have iv: "i < k + a \<longleftrightarrow> i < k \<or> off \<le> i \<and> i < off + n" for i using that(2,3) by auto
    from that(1) obtain st' k' where st': "m = Ok st'" "stream_rel S b k' r st'"
      "seg_bytes (out_of_order st') \<le> seg_bytes (out_of_order st)"
      "\<forall>i. i < k' \<or> queue_covers st' k' i \<longleftrightarrow> i < k + a \<or> queue_covers st k i" by blast
    then have "\<forall>i. i < k' \<or> queue_covers st' k' i \<longleftrightarrow> i < k \<or> queue_covers st k i \<or> off \<le> i \<and> i < off + n"
      unfolding iv by blast
    with st'(1,2) trans_le_add1 [OF st'(3)] show ?thesis by blast
  qed
  consider (now) "off = k" | (ahead) "k < off" | (old) "off < k" "off + n \<le> k" | (overlap) "off < k" "k < off + n"
    by linarith
  then show ?thesis
  proof cases
    case now
    then have kn: "k + n \<le> length S" using assms(3) by simp
    have "ingest st (b + of_nat off) (piece S off n) =
        drain (st \<lparr> assembled := assembled st @ piece S k n, next_seq := next_seq st + of_nat n \<rparr>)"
      using ingest_now [OF rel(1), of "piece S off n"] now len rel(2) by simp
    then show ?thesis using advanced [OF advance_stream [OF assms(1,2) kn]] now by simp
  next
    case ahead
    then have "unat ((b + of_nat off) - next_seq st) = off - k"
      unfolding rel(2) using assms(2,3) by (intro stream_dist(1)) auto
    then have "ingest st (b + of_nat off) (piece S off n) = Ok (enqueue st (b + of_nat off) (piece S off n))"
      using ahead assms(2,3) by (intro ingest_ahead [OF rel(1)]) simp_all
    with enqueue_stream [OF assms(1-3) ahead assms(4)] show ?thesis by auto
  next
    case old
    have d: "2147483648 \<le> unat ((b + of_nat off) - next_seq st)"
      unfolding rel(2) using old assms(2,3) rel(3) by (intro stream_dist(2)) auto
    have o: "unat (next_seq st - (b + of_nat off)) = k - off"
      unfolding rel(2) using old assms(2,3) rel(3) by (intro stream_dist(3)) auto
    have "ingest st (b + of_nat off) (piece S off n) = Ok st"
      using old len assms(2,3) by (intro ingest_behind_old [OF rel(1) d]) (simp add: word_less_nat_alt o unat_of_nat_u32)
    with assms(1) old show ?thesis by (intro exI [of _ st] exI [of _ k]) auto
  next
    case overlap
    have d: "2147483648 \<le> unat ((b + of_nat off) - next_seq st)"
      unfolding rel(2) using overlap assms(2,3) rel(3) by (intro stream_dist(2)) auto
    have o: "unat (next_seq st - (b + of_nat off)) = k - off"
      unfolding rel(2) using overlap assms(2,3) rel(3) by (intro stream_dist(3)) auto
    let ?a = "off + n - k"
    have eq: "n - (k - off) = ?a" "off + (k - off) = k" using overlap by simp_all
    have "next_seq st - (b + of_nat off) < of_nat (length (piece S off n))"
      using overlap len assms(2,3) by (simp add: word_less_nat_alt o unat_of_nat_u32)
    from ingest_behind_new [OF rel(1) d this] have
      "ingest st (b + of_nat off) (piece S off n) =
        drain (st \<lparr> assembled := assembled st @ piece S k ?a, next_seq := next_seq st + of_nat ?a \<rparr>)"
      using assms(2,3) unfolding o len piece_drop eq by simp
    moreover have "k + ?a \<le> length S" "off \<le> k" "k + ?a = off + n" using overlap assms(3) by auto
    ultimately show ?thesis using advanced [OF advance_stream [OF assms(1,2), of ?a]] by simp
  qed
qed

section \<open>Deliveries and reads in any order\<close>

text \<open>
  \<open>Deliver off n\<close> is the arrival of a segment with the \<open>n\<close> bytes of the stream at \<open>off\<close>,
  \<open>Read n\<close> a read of up to \<open>n\<close> bytes; \<open>run_events\<close> returns the reassembler and all bytes read.
\<close>

datatype stream_event = Deliver nat nat | Read nat

fun run_events :: "u8 list \<Rightarrow> u32 \<Rightarrow> tcp_Header \<Rightarrow> stream_event list \<Rightarrow> TcpReassembler \<times> u8 list \<Rightarrow> (TcpReassembler \<times> u8 list) res" where
  "run_events S b header [] (st, out) = Ok (st, out)"
| "run_events S b header (Deliver off n # es) (st, out) =
     bind_res (onSent st (header \<lparr> tcp_seq_number := b + of_nat off \<rparr>) (piece S off n)) (\<lambda>st.
     run_events S b header es (st, out))"
| "run_events S b header (Read n # es) (st, out) =
     bind_res (peek st) (\<lambda>bytes. run_events S b header es (consume st n, out @ take n bytes))"

fun delivers :: "stream_event \<Rightarrow> nat \<Rightarrow> bool" where
  "delivers (Deliver off n) i = (off \<le> i \<and> i < off + n)"
| "delivers (Read n) i = False"

fun event_size :: "stream_event \<Rightarrow> nat" where
  "event_size (Deliver off n) = n"
| "event_size (Read n) = 0"

fun event_within :: "u8 list \<Rightarrow> stream_event \<Rightarrow> bool" where
  "event_within S (Deliver off n) = (off + n \<le> length S)"
| "event_within S (Read n) = True"

text \<open>The length of the longest prefix of the stream all of whose bytes were delivered.\<close>

definition first_gap :: "u8 list \<Rightarrow> stream_event list \<Rightarrow> nat" where
  "first_gap S es = length (takeWhile (\<lambda>i. list_ex (\<lambda>e. delivers e i) es) [0..<length S])"

lemma first_gap_eq:
  assumes "\<And>i. i < k \<Longrightarrow> list_ex (\<lambda>e. delivers e i) es" and "k < length S \<Longrightarrow> \<not> list_ex (\<lambda>e. delivers e k) es"
    and "k \<le> length S"
  shows "first_gap S es = k"
proof -
  let ?P = "\<lambda>i. list_ex (\<lambda>e. delivers e i) es"
  have split: "[0..<length S] = [0..<k] @ [k..<length S]"
    using assms(3) upt_add_eq_append [of 0 k "length S - k"] by simp
  have "takeWhile ?P [k..<length S] = []"
    using assms(2) by (cases "k < length S") (simp_all add: upt_conv_Cons)
  then have "takeWhile ?P [0..<length S] = [0..<k]"
    unfolding split using assms(1) by (subst takeWhile_append2) auto
  then show ?thesis by (simp add: first_gap_def)
qed

lemma onSent_established:
  assumes "state st = Established" and "seeded st" and "\<not> fin_seen st" and "\<not> tcp_rst header" and "\<not> tcp_fin header"
    and "ingest st (tcp_seq_number header) span = Ok st'" and "\<not> fin_seen st'"
  shows "onSent st header span = Ok st'"
  using assms by (simp add: onSent_def onData_def)

lemma consume_stream:
  assumes "stream_rel S b k r st"
  shows "stream_rel S b k (min k (r + n)) (consume st n)"
    and "take r S @ take n (unread st) = take (min k (r + n)) S"
    and "queue_covers (consume st n) k i = queue_covers st k i"
    and "out_of_order (consume st n) = out_of_order st"
proof -
  have rel: "reassembler_inv st" "unread st = drop r (take k S)" "r \<le> k" "k \<le> length S"
    using assms by (auto simp: stream_rel_def)
  have frame: "next_seq (consume st n) = next_seq st" "out_of_order (consume st n) = out_of_order st"
    "keep_payload (consume st n) = keep_payload st" "seeded (consume st n) = seeded st"
    "fin_seen (consume st n) = fin_seen st"
    by (simp_all add: consume_def Let_def)
  have "drop n (unread st) = drop (min k (r + n)) (take k S)"
    unfolding rel(2) by (cases "r + n \<le> k") (auto simp: min_def add.commute)
  then show "stream_rel S b k (min k (r + n)) (consume st n)"
    using assms frame rel consume_inv [OF rel(1)] unread_consume [OF reassembler_inv_read [OF rel(1)], of n]
    by (auto simp: stream_rel_def)
  show "queue_covers (consume st n) k i = queue_covers st k i" using frame by (simp add: queue_covers_def)
  show "out_of_order (consume st n) = out_of_order st" by (rule frame(2))
  have "take n (drop r (take k S)) = take (min k (r + n) - r) (drop r S)"
    using rel(3) by (cases "r + n \<le> k") (simp_all add: take_drop min_def add.commute)
  then show "take r S @ take n (unread st) = take (min k (r + n)) S"
    unfolding rel(2) using rel(3) take_add [of r "min k (r + n) - r" S] by simp
qed

lemma run_events_stream:
  assumes "stream_rel S b k r st" and "length S < 2147483648" and "\<not> tcp_rst header" and "\<not> tcp_fin header"
    and "list_all (event_within S) es"
    and "seg_bytes (out_of_order st) + sum_list (map event_size es) \<le> MAX_OOO_BYTES"
  shows "\<exists>st' k' r'. run_events S b header es (st, take r S) = Ok (st', take r' S) \<and> stream_rel S b k' r' st' \<and>
    (\<forall>i. i < k' \<or> queue_covers st' k' i \<longleftrightarrow> i < k \<or> queue_covers st k i \<or> list_ex (\<lambda>e. delivers e i) es)"
  using assms
proof (induction es arbitrary: st k r)
  case Nil
  then show ?case by auto
next
  case (Cons e es)
  show ?case
  proof (cases e)
    case (Deliver off n)
    have n: "off + n \<le> length S" "seg_bytes (out_of_order st) + n \<le> MAX_OOO_BYTES"
      using Cons.prems Deliver by simp_all
    from deliver_stream [OF Cons.prems(1,2) n] obtain st1 k1 where
      st1: "ingest st (b + of_nat off) (piece S off n) = Ok st1" "stream_rel S b k1 r st1"
      "seg_bytes (out_of_order st1) \<le> seg_bytes (out_of_order st) + n"
      "\<forall>i. i < k1 \<or> queue_covers st1 k1 i \<longleftrightarrow> i < k \<or> queue_covers st k i \<or> off \<le> i \<and> i < off + n" by blast
    have "onSent st (header \<lparr> tcp_seq_number := b + of_nat off \<rparr>) (piece S off n) = Ok st1"
      using Cons.prems(1,3,4) st1(1,2)
      by (intro onSent_established) (auto simp: stream_rel_def tcp_rst_def tcp_fin_def)
    moreover have "seg_bytes (out_of_order st1) + sum_list (map event_size es) \<le> MAX_OOO_BYTES"
      using st1(3) Cons.prems(6) Deliver by simp
    from Cons.IH [OF st1(2) Cons.prems(2-4) _ this] obtain st' k' r' where
      "run_events S b header es (st1, take r S) = Ok (st', take r' S)" and "stream_rel S b k' r' st'"
      and cov: "\<forall>i. i < k' \<or> queue_covers st' k' i \<longleftrightarrow> i < k1 \<or> queue_covers st1 k1 i \<or> list_ex (\<lambda>e. delivers e i) es"
      using Cons.prems(5) by auto
    moreover have "i < k' \<or> queue_covers st' k' i \<longleftrightarrow> i < k \<or> queue_covers st k i \<or> list_ex (\<lambda>e. delivers e i) (e # es)" for i
      unfolding spec [OF cov, of i] list_ex_Cons_iff Deliver delivers.simps using spec [OF st1(4), of i] by blast
    ultimately show ?thesis
      unfolding Deliver run_events.simps by (intro exI [of _ st'] exI [of _ k'] exI [of _ r']) simp
  next
    case (Read n)
    note c = consume_stream [OF Cons.prems(1), of n]
    have "peek st = Ok (unread st)" using Cons.prems(1) by (simp add: stream_rel_def peek_unread)
    moreover have "seg_bytes (out_of_order (consume st n)) + sum_list (map event_size es) \<le> MAX_OOO_BYTES"
      using Cons.prems(6) Read by (simp add: c(4))
    from Cons.IH [OF c(1) Cons.prems(2-4) _ this] obtain st' k' r' where
      "run_events S b header es (consume st n, take (min k (r + n)) S) = Ok (st', take r' S)" and "stream_rel S b k' r' st'"
      and cov: "\<forall>i. i < k' \<or> queue_covers st' k' i \<longleftrightarrow> i < k \<or> queue_covers (consume st n) k i \<or> list_ex (\<lambda>e. delivers e i) es"
      using Cons.prems(5) by auto
    moreover have "i < k' \<or> queue_covers st' k' i \<longleftrightarrow> i < k \<or> queue_covers st k i \<or> list_ex (\<lambda>e. delivers e i) (e # es)" for i
      unfolding spec [OF cov, of i] list_ex_Cons_iff Read delivers.simps c(3) by blast
    ultimately show ?thesis
      unfolding Read run_events.simps using c(2) by (intro exI [of _ st'] exI [of _ k'] exI [of _ r']) simp
  qed
qed

section \<open>A conversation\<close>

text \<open>
  Both directions of a connection, fed as \<open>Decoder::decode\<close> feeds them: the sender's
  reassembler sees the segment sent, then the peer's sees it received.
\<close>

fun converse :: "(bool \<times> tcp_Header \<times> span) list \<Rightarrow> TcpReassembler \<times> TcpReassembler \<Rightarrow> (TcpReassembler \<times> TcpReassembler) res" where
  "converse [] cs = Ok cs"
| "converse ((from_client, header, data) # rest) (client, server) =
     (if from_client
      then bind_res (onSent client header data) (\<lambda>client. converse rest (client, onReceived server header))
      else bind_res (onSent server header data) (\<lambda>server. converse rest (onReceived client header, server)))"

definition control :: "u8 \<Rightarrow> u32 \<Rightarrow> u32 \<Rightarrow> tcp_Header" where
  "control flags seq ack = \<lparr> tcp_src_port = 0, tcp_dst_port = 0, tcp_seq_number = seq, tcp_ack_number = ack,
     tcp_data_offset_reserved = 0x50, tcp_flags = flags, tcp_window_size = 0, tcp_checksum = 0, tcp_urgent_pointer = 0 \<rparr>"

lemma control_simps [simp]:
  "tcp_seq_number (control f s a) = s" "tcp_ack_number (control f s a) = a"
  "tcp_syn (control f s a) = (f AND 0x02 \<noteq> 0)" "tcp_ack (control f s a) = (f AND 0x10 \<noteq> 0)"
  "tcp_fin (control f s a) = (f AND 0x01 \<noteq> 0)" "tcp_rst (control f s a) = (f AND 0x04 \<noteq> 0)"
  by (simp_all add: control_def tcp_syn_def tcp_ack_def tcp_fin_def tcp_rst_def)

lemma ingest_empty_now:
  "out_of_order st = [] \<Longrightarrow> ingest st (next_seq st) [] = Ok st"
  by (simp add: ingest_def drain_def)

section \<open>Properties\<close>

text \<open>
  C19. Reassembly is exact. Take any stream shorter than 2 GiB, starting at any sequence
  number (so also one that wraps around), and let pieces of it arrive in any order, with
  any overlap and repetition, interleaved with reads of any size, as long as all pieces
  together fit the 1 MiB buffer. Then no step fails, and what was read followed by what is
  readable is exactly the longest prefix of the stream without a missing byte;
  \<open>next_seq\<close> names the first missing byte.
\<close>

theorem reassembly_exact:
  assumes "length S < 2147483648" and "\<not> tcp_rst header" and "\<not> tcp_fin header"
    and "list_all (event_within S) es" and "sum_list (map event_size es) \<le> MAX_OOO_BYTES"
  shows "\<exists>st out. run_events S b header es
      (TcpReassembler_init \<lparr> state := Established, next_seq := b, seeded := True \<rparr>, []) = Ok (st, out) \<and>
    out @ unread st = take (first_gap S es) S \<and> next_seq st = b + of_nat (first_gap S es)"
proof -
  let ?st = "TcpReassembler_init \<lparr> state := Established, next_seq := b, seeded := True \<rparr>"
  have "stream_rel S b 0 0 ?st"
    by (simp add: stream_rel_def reassembler_inv_def strictly_ahead_def TcpReassembler_init_def queue_ok_def
        unread_def queued_pieces_def)
  moreover have "seg_bytes (out_of_order ?st) + sum_list (map event_size es) \<le> MAX_OOO_BYTES"
    using assms(5) by (simp add: TcpReassembler_init_def)
  ultimately obtain st k r where run: "run_events S b header es (?st, take 0 S) = Ok (st, take r S)"
    and rel: "stream_rel S b k r st"
    and cov: "\<forall>i. i < k \<or> queue_covers st k i \<longleftrightarrow> i < 0 \<or> queue_covers ?st 0 i \<or> list_ex (\<lambda>e. delivers e i) es"
    using run_events_stream [OF _ assms(1-4)] by blast
  have "\<not> queue_covers ?st 0 i" for i by (simp add: queue_covers_def TcpReassembler_init_def)
  moreover have "\<not> queue_covers st k k"
    using rel by (auto simp: stream_rel_def strictly_ahead_def queue_covers_def)
  ultimately have "first_gap S es = k"
    using cov rel by (intro first_gap_eq) (auto simp: stream_rel_def)
  moreover have "take r S @ drop r (take k S) = take k S"
    using rel by (simp add: stream_rel_def) (metis append_take_drop_id min.absorb1 take_take)
  ultimately show ?thesis using run rel by (simp add: stream_rel_def)
qed

theorem reassembly_exact_witness:
  "\<exists>st out. run_events [72, 101, 108, 108, 111] 0xFFFFFFFE (control 0x18 0 0) [Deliver 3 2, Deliver 1 3, Read 1, Deliver 0 2, Read 2]
      (TcpReassembler_init \<lparr> state := Established, next_seq := 0xFFFFFFFE, seeded := True \<rparr>, []) = Ok (st, out) \<and>
    out @ unread st = [72, 101, 108, 108, 111] \<and> next_seq st = 3"
proof -
  let ?S = "[72, 101, 108, 108, 111] :: u8 list" and ?es = "[Deliver 3 2, Deliver 1 3, Read 1, Deliver 0 2, Read 2]"
  have gap: "first_gap ?S ?es = 5" by (simp add: first_gap_def upt_rec)
  have wrap: "0xFFFFFFFE + of_nat 5 = (3 :: u32)" by (simp add: word_unat_eq_iff)
  have "list_all (event_within ?S) ?es" "sum_list (map event_size ?es) \<le> MAX_OOO_BYTES"
    by (simp_all add: MAX_OOO_BYTES_def)
  from reassembly_exact [OF _ _ _ this, of "control 0x18 0 0" "0xFFFFFFFE", unfolded gap wrap]
  show ?thesis by (simp del: run_events.simps)
qed



text \<open>
  The state machines of both sides follow a connection from handshake to close: for
  any initial sequence numbers, SYN, SYN-ACK and ACK establish both directions right behind
  their initial sequence numbers, and an orderly close started by the client leaves the
  client in \<open>TimeWait\<close> and the server \<open>Closed\<close>.
\<close>

theorem connection_lifecycle:
  "\<exists>c s. converse [(True, control 0x02 x 0, []), (False, control 0x12 y (x + 1), []),
       (True, control 0x10 (x + 1) (y + 1), [])] (TcpReassembler_init, TcpReassembler_init) = Ok (c, s) \<and>
     state c = Established \<and> state s = Established \<and> next_seq c = x + 1 \<and> next_seq s = y + 1 \<and>
     (\<exists>c' s'. converse [(True, control 0x11 (x + 1) (y + 1), []), (False, control 0x10 (y + 1) (x + 2), []),
         (False, control 0x11 (y + 1) (x + 2), []), (True, control 0x10 (x + 2) (y + 2), [])] (c, s) = Ok (c', s') \<and>
       state c' = TimeWait \<and> state s' = Closed)"
  by (simp add: onSent_def onReceived_def onData_def ingest_def drain_def acks_all_def TcpReassembler_init_def Let_def
      add.assoc)

text \<open>
  The 1 MiB limit does not bound the queue: a segment without payload ahead of
  \<open>next_seq\<close>, such as a bare acknowledgement after a loss, is queued at no cost, even when
  the buffer is full, so the queue grows with the number of distinct sequence numbers.
\<close>

theorem empty_segments_unbounded:
  assumes "reassembler_inv st" and "keep_payload st" and "0 < unat (seq - next_seq st)"
    and "unat (seq - next_seq st) < 2147483648" and "\<forall>s\<in>set (out_of_order st). seg_seq s \<noteq> seq"
  shows "\<exists>st'. ingest st seq [] = Ok st' \<and> length (out_of_order st') = Suc (length (out_of_order st)) \<and>
    ooo_bytes st' = ooo_bytes st"
proof -
  have len: "length ([] :: u8 list) < 4294967296" by simp
  have "seg_bytes (out_of_order st) \<le> MAX_OOO_BYTES" using assms(1) by (simp add: reassembler_inv_def)
  then have "length (out_of_order (enqueue st seq [])) = Suc (length (out_of_order st)) \<and>
      ooo_bytes (enqueue st seq []) = ooo_bytes st"
    using assms(5) by (cases rule: enqueue_cases [OF assms(1) len, of seq]) auto
  then show ?thesis using ingest_ahead [OF assms(2-4)] by simp
qed

end
