(* ===== verification/Http_Message.thy ===== *)
theory Http_Message
  imports Http
begin

text \<open>
  What the HTTP parser guarantees: decisions that do not change when more bytes arrive,
  resumption of chunked bodies, unambiguous framing, safety and the inversion of encoders.
\<close>

section \<open>Lines\<close>

lemma readLineCRLF_holds:
  "holds (\<lambda>(line, rest). \<exists>r. r + 2 \<le> length span \<and> line = take r (text_of span) \<and> rest = drop (r + 2) span \<and> CR \<notin> set line)
     (readLineCRLF span)"
proof (cases "find_char CR (text_of span)")
  case (Some r)
  then show ?thesis
    using find_char_Some [OF Some] by (auto simp: readLineCRLF_def Let_def intro!: exI [of _ r])
qed (simp add: readLineCRLF_def)

lemma readLineCRLF_safe [simp]: "readLineCRLF span \<noteq> UB"
  using readLineCRLF_holds by (rule holds_safe)

text \<open>
  \<open>grows t r r'\<close>: the outcome \<open>r'\<close> on a buffer to which \<open>t\<close> was appended agrees with the
  outcome \<open>r\<close> before, unless that was a request for more bytes.
\<close>

definition grows :: "span \<Rightarrow> ('a \<times> span) res \<Rightarrow> ('a \<times> span) res \<Rightarrow> bool" where
  "grows t r r' \<longleftrightarrow> (case r of
      Ok (x, rest) \<Rightarrow> r' = Ok (x, rest @ t)
    | Err e \<Rightarrow> e = UnexpectedEof \<or> r' = Err e
    | UB \<Rightarrow> r' = UB)"

lemma grows_bind:
  assumes "grows t m m'" and "\<And>x rest. m = Ok (x, rest) \<Longrightarrow> grows t (k (x, rest)) (k (x, rest @ t))"
  shows "grows t (bind_res m k) (bind_res m' k)"
proof (cases m)
  case (Ok p)
  obtain x rest where p: "p = (x, rest)" by (cases p)
  then have "m' = Ok (x, rest @ t)" using assms(1) Ok by (simp add: grows_def)
  then show ?thesis using assms(2) [of x rest] Ok p by simp
qed (use assms(1) in \<open>auto simp: grows_def\<close>)

lemma grows_same [simp]: "grows t (Err e) (Err e)" "grows t UB UB" "grows t (Ok (x, rest)) (Ok (x, rest @ t))"
  by (simp_all add: grows_def)

lemma grows_bind_pure:
  assumes "\<And>x. m = Ok x \<Longrightarrow> grows t (k x) (k' x)"
  shows "grows t (bind_res m k) (bind_res m k')"
  using assms by (cases m) simp_all

lemma readLineCRLF_grows: "grows t (readLineCRLF s) (readLineCRLF (s @ t))"
proof (cases "find_char CR (text_of s)")
  case None
  then show ?thesis by (simp add: readLineCRLF_def grows_def)
next
  case (Some r)
  then have "find_char CR (text_of (s @ t)) = Some r" by (simp add: find_char_append)
  moreover have "r < length s" using find_char_Some [OF Some] by simp
  ultimately show ?thesis
    using Some by (auto simp: readLineCRLF_def Let_def grows_def nth_append subspan_def split: if_splits)
qed

lemma parseStartLine_grows: "grows t (parseStartLine s h) (parseStartLine (s @ t) h)"
  unfolding parseStartLine_def
  by (rule grows_bind [OF readLineCRLF_grows]) (auto intro: grows_bind_pure)

lemma parseFields_grows: "grows t (parseFields s acc) (parseFields (s @ t) acc)"
proof (induction s acc rule: parseFields.induct)
  case (1 s acc)
  have "grows t (case (line, rest) of (line, span) \<Rightarrow> bind_res (parse_field_line line) (\<lambda>field. case field of
        None \<Rightarrow> Ok (acc, span) | Some f \<Rightarrow> parseFields span (acc @ [f])))
      (case (line, rest @ t) of (line, span) \<Rightarrow> bind_res (parse_field_line line) (\<lambda>field. case field of
        None \<Rightarrow> Ok (acc, span) | Some f \<Rightarrow> parseFields span (acc @ [f])))"
    if "readLineCRLF s = Ok (line, rest)" for line rest
    using "1.IH" [OF that refl] by (auto intro!: grows_bind_pure split: option.split)
  from grows_bind [OF readLineCRLF_grows this] show ?case
    unfolding parseFields.simps [of s] parseFields.simps [of "s @ t"] .
qed

lemma http_parse_grows: "grows t (http_parse s h) (http_parse (s @ t) h)"
  unfolding http_parse_def
  by (rule grows_bind [OF parseStartLine_grows])
    (auto intro!: grows_bind [OF parseFields_grows] grows_bind_pure)

section \<open>Chunked bodies\<close>

text \<open>The outcome on a body of which \<open>p\<close> bytes holding the data \<open>pre\<close> were already seen.\<close>

fun after :: "nat \<Rightarrow> u8 list \<Rightarrow> chunk_result \<Rightarrow> chunk_result" where
  "after p pre ChunkUB = ChunkUB"
| "after p pre (ChunkFail e b) = ChunkFail e (p + b)"
| "after p pre (ChunkOk rest out) = ChunkOk rest (pre @ out)"

text \<open>One round of the loop: a chunk with its data, or the last chunk with the trailer section.\<close>

definition chunk_head :: "span \<Rightarrow> (u8 list option \<times> span) res" where
  "chunk_head span =
     bind_res (readLineCRLF span) (\<lambda>(size_line, span).
     bind_res (parseChunkSize size_line) (\<lambda>chunk_size.
     if chunk_size = 0 then bind_res (parseFields span []) (\<lambda>(_, span). Ok (None, span))
     else if length span < unat chunk_size then Err UnexpectedEof
     else bind_res (first_n span (unat chunk_size)) (\<lambda>data.
       bind_res (subspan span (unat chunk_size)) (\<lambda>span.
       bind_res (readLineCRLF span) (\<lambda>(terminator, span).
       if terminator \<noteq> [] then Err MalformedHeader else Ok (Some data, span))))))"

lemma chunk_bind_assoc:
  "chunk_bind (bind_res m f) b k = chunk_bind m b (\<lambda>x. chunk_bind (f x) b k)"
  by (cases m) simp_all

lemma chunk_loop_head:
  "chunk_loop n span b out = chunk_bind (chunk_head span) b (\<lambda>(c, rest).
     case c of None \<Rightarrow> ChunkOk rest out | Some data \<Rightarrow> chunk_loop n rest (n - length rest) (out @ data))"
  unfolding chunk_head_def chunk_loop.simps [of n span b out] chunk_bind_assoc
  by (intro chunk_bind_cong refl) (auto simp: chunk_bind_assoc intro!: chunk_bind_cong)

text \<open>\<open>rest\<close> is what is left of \<open>span\<close> after at least one byte.\<close>

definition moved :: "span \<Rightarrow> span \<Rightarrow> bool" where
  "moved span rest \<longleftrightarrow> (\<exists>k>0. k \<le> length span \<and> rest = drop k span)"

lemma moved_shorter: "moved span rest \<Longrightarrow> length rest < length span"
  by (auto simp: moved_def)

lemma moved_drop: "moved span rest \<Longrightarrow> drop (length span - length rest) span = rest"
  by (auto simp: moved_def)

lemma moved_trans: "moved a b \<Longrightarrow> moved b c \<Longrightarrow> moved a c"
proof -
  assume "moved a b" "moved b c"
  then obtain k l where kl: "0 < k" "k \<le> length a" "b = drop k a" "0 < l" "l \<le> length b" "c = drop l b"
    by (auto simp: moved_def)
  then show ?thesis by (auto simp: moved_def intro!: exI [of _ "l + k"])
qed

lemma moved_drop_le:
  assumes "moved a b" and "k \<le> length b"
  shows "moved a (drop k b)"
proof -
  from assms(1) obtain l where "0 < l" "l \<le> length a" "b = drop l a" by (auto simp: moved_def)
  with assms(2) show ?thesis unfolding moved_def by (intro exI [of _ "k + l"]) auto
qed

lemma readLineCRLF_moved:
  assumes "readLineCRLF span = Ok (line, rest)"
  shows "moved span rest"
proof -
  obtain r where "r + 2 \<le> length span" "rest = drop (r + 2) span"
    using readLineCRLF_holds [of span] assms by auto
  then show ?thesis unfolding moved_def by (intro exI [of _ "r + 2"]) simp
qed

lemma parse_field_line_safe [simp]: "parse_field_line line \<noteq> UB"
  by (auto simp: parse_field_line_def Let_def split: option.splits)

lemma parseFields_holds: "holds (\<lambda>(_, rest). moved span rest) (parseFields span acc)"
proof (induction span acc rule: parseFields.induct)
  case (1 span acc)
  have "holds (\<lambda>(_, rest). moved span rest) (bind_res (parse_field_line line) (\<lambda>field. case field of
      None \<Rightarrow> Ok (acc, span1) | Some f \<Rightarrow> parseFields span1 (acc @ [f])))"
    if l: "readLineCRLF span = Ok (line, span1)" for line span1
  proof (rule holds_bind)
    have "holds (\<lambda>(_, rest). moved span rest) (case f of None \<Rightarrow> Ok (acc, span1) | Some f \<Rightarrow> parseFields span1 (acc @ [f]))"
      if f: "parse_field_line line = Ok f" for f
      using readLineCRLF_moved [OF l] "1.IH" [OF l refl f] by (cases f) (auto elim!: holds_mono intro: moved_trans)
    then show "holds (\<lambda>f. holds (\<lambda>(_, rest). moved span rest)
        (case f of None \<Rightarrow> Ok (acc, span1) | Some f \<Rightarrow> parseFields span1 (acc @ [f]))) (parse_field_line line)"
      by (simp add: holds_iff)
  qed
  then show ?case
    by (subst parseFields.simps) (cases "readLineCRLF span", auto)
qed

lemma parseChunkSize_cases: "parseChunkSize line = Err MalformedHeader \<or> (\<exists>n. parseChunkSize line = Ok n)"
  by (auto simp: parseChunkSize_def Let_def split: option.split)

lemma chunk_head_holds: "holds (\<lambda>(_, rest). moved span rest) (chunk_head span)"
proof (cases "readLineCRLF span")
  case (Ok p)
  then obtain line span1 where l: "readLineCRLF span = Ok (line, span1)" by (cases p) auto
  note m = readLineCRLF_moved [OF l]
  show ?thesis
  proof (cases "parseChunkSize line")
    case (Ok n)
    have "holds (\<lambda>(_, rest). moved span rest) (bind_res (parseFields span1 []) (\<lambda>(_, span). Ok (None :: u8 list option, span)))"
      using parseFields_holds [of span1 "[]"] m by (cases "parseFields span1 []") (auto intro: moved_trans)
    moreover have "moved span rest" if "readLineCRLF (drop k span1) = Ok (t, rest)" "k \<le> length span1" for k t rest
      using moved_drop_le [OF m that(2)] readLineCRLF_moved [OF that(1)] by (rule moved_trans)
    then have "holds (\<lambda>(_, rest). moved span rest) (bind_res (readLineCRLF (drop k span1)) (\<lambda>(terminator, span).
        if terminator \<noteq> [] then Err MalformedHeader else Ok (Some data, span)))" if "k \<le> length span1" for k and data :: "u8 list"
      using that by (cases "readLineCRLF (drop k span1)") auto
    ultimately show ?thesis using l Ok by (simp add: chunk_head_def)
  qed (use l parseChunkSize_cases [of line] in \<open>simp_all add: chunk_head_def\<close>)
qed (simp_all add: chunk_head_def)

lemma chunk_head_moved: "chunk_head span = Ok (c, rest) \<Longrightarrow> moved span rest"
  using chunk_head_holds [of span] by simp

lemma chunk_head_safe [simp]: "chunk_head span \<noteq> UB"
  using chunk_head_holds by (rule holds_safe)

lemma chunk_head_grows: "grows t (chunk_head s) (chunk_head (s @ t))"
  unfolding chunk_head_def
proof (rule grows_bind [OF readLineCRLF_grows], unfold prod.case, rule grows_bind_pure)
  fix line rest n
  have "grows t (bind_res (readLineCRLF s') (\<lambda>(terminator, span). if terminator \<noteq> [] then Err MalformedHeader else Ok (Some data, span)))
      (bind_res (readLineCRLF (s' @ t)) (\<lambda>(terminator, span). if terminator \<noteq> [] then Err MalformedHeader else Ok (Some data, span)))"
    for s' and data :: "u8 list"
    by (rule grows_bind [OF readLineCRLF_grows]) simp
  then show "grows t
      (if n = 0 then bind_res (parseFields rest []) (\<lambda>(_, span). Ok (None, span))
       else if length rest < unat n then Err UnexpectedEof
       else bind_res (first_n rest (unat n)) (\<lambda>data. bind_res (subspan rest (unat n)) (\<lambda>span.
         bind_res (readLineCRLF span) (\<lambda>(terminator, span). if terminator \<noteq> [] then Err MalformedHeader else Ok (Some data, span)))))
      (if n = 0 then bind_res (parseFields (rest @ t) []) (\<lambda>(_, span). Ok (None, span))
       else if length (rest @ t) < unat n then Err UnexpectedEof
       else bind_res (first_n (rest @ t) (unat n)) (\<lambda>data. bind_res (subspan (rest @ t) (unat n)) (\<lambda>span.
         bind_res (readLineCRLF span) (\<lambda>(terminator, span). if terminator \<noteq> [] then Err MalformedHeader else Ok (Some data, span)))))"
    by (cases "unat n \<le> length rest") (auto simp: not_less intro!: grows_bind [OF parseFields_grows], simp add: grows_def)
qed

lemma chunk_loop_shift:
  assumes "length span \<le> n"
  shows "chunk_loop (p + n) span (p + b) (pre @ out) = after p pre (chunk_loop n span b out)"
  using assms
proof (induction span arbitrary: b out rule: measure_induct_rule [of length])
  case (less span)
  show ?case
  proof (cases "chunk_head span")
    case (Ok q)
    then obtain c rest where q: "chunk_head span = Ok (c, rest)" by (cases q) auto
    have "length rest < length span" using moved_shorter [OF chunk_head_moved [OF q]] .
    then show ?thesis
      using less.IH [of rest "n - length rest" "out @ d" for d] less.prems
      by (simp add: chunk_loop_head [of _ span] q split: option.split)
  qed (simp_all add: chunk_loop_head [of _ span])
qed

text \<open>How the loop continues when bytes are appended, by its outcome without them.\<close>

fun chunk_grows :: "nat \<Rightarrow> span \<Rightarrow> nat \<Rightarrow> u8 list \<Rightarrow> chunk_result \<Rightarrow> bool" where
  "chunk_grows n s b out ChunkUB \<longleftrightarrow> False"
| "chunk_grows n s b out (ChunkOk rest data) \<longleftrightarrow>
     (\<forall>t. chunk_loop (n + length t) (s @ t) b out = ChunkOk (rest @ t) data)"
| "chunk_grows n s b out (ChunkFail e p) \<longleftrightarrow> b \<le> p \<and> p \<le> n \<and>
     (if e = UnexpectedEof
      then \<exists>pre. \<forall>t. chunk_loop (n + length t) (s @ t) b out = chunk_loop (n + length t) (drop (p - b) s @ t) p (out @ pre)
      else \<forall>t. chunk_loop (n + length t) (s @ t) b out = ChunkFail e p)"

lemma chunk_grows_step:
  assumes "chunk_grows n rest b' (out @ d) r"
    and "\<And>t. chunk_loop (n + length t) (s @ t) b out = chunk_loop (n + length t) (rest @ t) b' (out @ d)"
    and "b \<le> b'" and "rest = drop (b' - b) s"
  shows "chunk_grows n s b out r"
proof (cases r)
  case (ChunkFail e p)
  show ?thesis
  proof (cases "e = UnexpectedEof")
    case True
    then obtain pre where pre: "b' \<le> p" "p \<le> n"
      "\<And>t. chunk_loop (n + length t) (rest @ t) b' (out @ d) = chunk_loop (n + length t) (drop (p - b') rest @ t) p ((out @ d) @ pre)"
      using assms(1) ChunkFail by auto
    have "drop (p - b') rest = drop (p - b) s" using assms(3,4) pre(1) by simp
    with pre ChunkFail True assms(2,3) show ?thesis by (auto intro!: exI [of _ "d @ pre"])
  qed (use assms ChunkFail in auto)
qed (use assms in auto)

lemma chunk_loop_grows:
  assumes "b + length s = n"
  shows "chunk_grows n s b out (chunk_loop n s b out)"
  using assms
proof (induction s arbitrary: b out rule: measure_induct_rule [of length])
  case (less s)
  have grow: "grows t (chunk_head s) (chunk_head (s @ t))" for t by (rule chunk_head_grows)
  show ?case
  proof (cases "chunk_head s")
    case (Err e)
    then have r: "chunk_loop n s b out = ChunkFail e b" by (simp add: chunk_loop_head [of _ s])
    show ?thesis
    proof (cases "e = UnexpectedEof")
      case True
      then show ?thesis unfolding r using less.prems by (auto intro!: exI [of _ "[]"])
    next
      case False
      then have "chunk_head (s @ t) = Err e" for t using grow [of t] Err by (simp add: grows_def)
      then show ?thesis unfolding r using less.prems False by (simp add: chunk_loop_head [of _ "s @ _"])
    qed
  next
    case (Ok q)
    then obtain c rest where q: "chunk_head s = Ok (c, rest)" by (cases q) auto
    have head: "chunk_head (s @ t) = Ok (c, rest @ t)" for t using grow [of t] q by (simp add: grows_def)
    note m = chunk_head_moved [OF q]
    show ?thesis
    proof (cases c)
      case None
      then show ?thesis by (simp add: chunk_loop_head [of _ s] chunk_loop_head [of _ "s @ _"] q head)
    next
      case (Some d)
      let ?b = "n - length rest"
      have "chunk_grows n s b out (chunk_loop n rest ?b (out @ d))"
      proof (rule chunk_grows_step)
        show "chunk_grows n rest ?b (out @ d) (chunk_loop n rest ?b (out @ d))"
          using less.prems moved_shorter [OF m] by (intro less.IH) auto
        show "chunk_loop (n + length t) (s @ t) b out = chunk_loop (n + length t) (rest @ t) ?b (out @ d)" for t
          using Some by (simp add: chunk_loop_head [of _ "s @ t"] head)
        show "b \<le> ?b" using less.prems moved_shorter [OF m] by simp
        have "?b - b = length s - length rest" using less.prems by simp
        then show "rest = drop (?b - b) s" using moved_drop [OF m] by simp
      qed
      then show ?thesis using Some by (simp add: chunk_loop_head [of n s] q)
    qed
  qed simp
qed

lemma parseChunked_grows: "chunk_grows (length s) s 0 [] (parseChunkedBody s)"
  using chunk_loop_grows [of 0 s "length s" "[]"] by (simp add: parseChunkedBody_def)

lemma parseChunked_safe [simp]: "parseChunkedBody s \<noteq> ChunkUB"
  using parseChunked_grows [of s] by auto

lemma parseChunked_done: "parseChunkedBody s = ChunkOk rest d \<Longrightarrow> parseChunkedBody (s @ t) = ChunkOk (rest @ t) d"
  using parseChunked_grows [of s] by (simp add: parseChunkedBody_def)

lemma parseChunked_bad:
  "parseChunkedBody s = ChunkFail e p \<Longrightarrow> e \<noteq> UnexpectedEof \<Longrightarrow> parseChunkedBody (s @ t) = ChunkFail e p"
  using parseChunked_grows [of s] by (simp add: parseChunkedBody_def)

lemma parseChunked_resumes:
  assumes "parseChunkedBody s = ChunkFail UnexpectedEof p"
  shows "p \<le> length s \<and> (\<exists>pre. \<forall>t. parseChunkedBody (s @ t) = after p pre (parseChunkedBody (drop p s @ t)))"
proof -
  obtain pre where p: "p \<le> length s" and pre:
    "\<And>t. chunk_loop (length s + length t) (s @ t) 0 [] = chunk_loop (length s + length t) (drop p s @ t) p ([] @ pre)"
    using parseChunked_grows [of s] assms by auto
  have "parseChunkedBody (s @ t) = after p pre (parseChunkedBody (drop p s @ t))" for t
    using chunk_loop_shift [of "drop p s @ t" "length (drop p s @ t)" p 0 pre "[]"] p pre [of t]
    by (simp add: parseChunkedBody_def)
  with p show ?thesis by blast
qed

section \<open>Numbers\<close>

lemma isdigit_digit: "is_digit c \<Longrightarrow> isdigit c = Ok True"
  by (auto simp: isdigit_def is_digit_def)

lemma isdigit_Ok: "isdigit c = Ok d \<Longrightarrow> d = is_digit c"
  by (auto simp: isdigit_def split: if_splits)

text \<open>The overflow guard is exact: it fails exactly when the next value leaves 64 bits.\<close>

lemma decimal_guard:
  fixes acc :: u64
  assumes "d < 10"
  shows "acc > (18446744073709551615 - of_nat d) div 10 \<longleftrightarrow> unat acc * 10 + d \<ge> 18446744073709551616"
proof -
  have "unat (18446744073709551615 - of_nat d :: u64) = 18446744073709551615 - d"
    using assms by (subst unat_sub) (simp_all add: word_le_nat_alt unat_of_nat_u64)
  then have "unat ((18446744073709551615 - of_nat d :: u64) div 10) = (18446744073709551615 - d) div 10"
    by (simp add: unat_div_distrib)
  then have "acc > (18446744073709551615 - of_nat d) div 10 \<longleftrightarrow> unat acc > (18446744073709551615 - d) div 10"
    by (simp add: word_less_nat_alt)
  also have "\<dots> \<longleftrightarrow> unat acc * 10 + d \<ge> 18446744073709551616" using assms by linarith
  finally show ?thesis .
qed

lemma parseDecimal_loop_Ok:
  "parseDecimal_loop s acc = Ok v \<longleftrightarrow>
     list_all is_digit s \<and> dec_from (unat acc) s < 18446744073709551616 \<and> v = of_nat (dec_from (unat acc) s)"
proof (induction s arbitrary: acc)
  case Nil
  then show ?case using unat_u64_less [of acc] by auto
next
  case (Cons c s)
  show ?case
  proof (cases "is_digit c")
    case False
    then show ?thesis by (auto simp: isdigit_def)
  next
    case True
    note d = digit_val_less [OF True]
    show ?thesis
    proof (cases "unat acc * 10 + digit_val c \<ge> 18446744073709551616")
      case big: True
      have "unat acc * 10 + digit_val c \<le> dec_from (unat acc) (c # s)" using dec_from_ge by simp
      then have "\<not> dec_from (unat acc) (c # s) < 18446744073709551616" using big by linarith
      with big show ?thesis
        using decimal_guard [OF d, of acc] by (simp add: isdigit_digit [OF True])
    next
      case False
      then have "unat (acc * 10 + of_nat (digit_val c)) = unat acc * 10 + digit_val c"
        using d by (simp add: unat_word_ariths unat_of_nat)
      then show ?thesis
        using False True decimal_guard [OF d, of acc] Cons.IH [of "acc * 10 + of_nat (digit_val c)"]
        by (simp add: isdigit_digit [OF True])
    qed
  qed
qed

lemma parseDecimal_Ok:
  "parseDecimal s = Ok v \<longleftrightarrow> is_decimal s \<and> dec_from 0 s < 18446744073709551616 \<and> v = of_nat (dec_from 0 s)"
  by (auto simp: parseDecimal_def parseDecimal_loop_Ok is_decimal_def)

end
