(* ===== verification/Http_Roundtrip.thy ===== *)
theory Http_Roundtrip
  imports Http_Message
begin

text \<open>
  Framing decisions, memory safety and the inversion of encoders for HTTP messages, and the
  properties of the HTTP component.
\<close>

section \<open>Framing\<close>

definition te_values :: "Field list \<Rightarrow> string list" where
  "te_values fs = map (\<lambda>f. trimOws (field_value f)) (filter (\<lambda>f. isEquals (field_name f) ''Transfer-Encoding'') fs)"

definition cl_values :: "Field list \<Rightarrow> string list" where
  "cl_values fs = map field_value (filter (\<lambda>f. isEquals (field_name f) ''Content-Length'') fs)"

lemma te_cl_simps [simp]: "te_values [] = []" "cl_values [] = []"
  by (simp_all add: te_values_def cl_values_def)

lemma te_not_cl: "isEquals n ''Transfer-Encoding'' \<Longrightarrow> \<not> isEquals n ''Content-Length''"
  by (auto simp: isEquals_def split: if_splits)

lemma te_cl_Cons:
  "te_values (f # fs) = (if isEquals (field_name f) ''Transfer-Encoding'' then [trimOws (field_value f)] else []) @ te_values fs"
  "cl_values (f # fs) = (if isEquals (field_name f) ''Content-Length'' then [field_value f] else []) @ cl_values fs"
  by (simp_all add: te_values_def cl_values_def)

definition framing_post :: "Field list \<Rightarrow> framing \<Rightarrow> framing \<Rightarrow> bool" where
  "framing_post fs st st' \<longleftrightarrow>
     saw_transfer_encoding st' = (saw_transfer_encoding st \<or> te_values fs \<noteq> []) \<and>
     encodings st' = encodings st @ te_values fs \<and>
     saw_content_length st' = (saw_content_length st \<or> cl_values fs \<noteq> []) \<and>
     (if saw_content_length st then content_length_text st' = content_length_text st \<and> set (cl_values fs) \<subseteq> {content_length_text st}
      else cl_values fs \<noteq> [] \<longrightarrow> set (cl_values fs) = {content_length_text st'})"

lemma framing_loop_post: "framing_loop fs st = Ok st' \<Longrightarrow> framing_post fs st st'"
proof (induction fs arbitrary: st)
  case Nil
  then show ?case by (simp add: framing_post_def)
next
  case (Cons f fs)
  consider (te) "isEquals (field_name f) ''Transfer-Encoding''"
    | (cl) "\<not> isEquals (field_name f) ''Transfer-Encoding''" "isEquals (field_name f) ''Content-Length''"
    | (other) "\<not> isEquals (field_name f) ''Transfer-Encoding''" "\<not> isEquals (field_name f) ''Content-Length''" by blast
  then show ?case
  proof cases
    case te
    have "framing_loop fs (st \<lparr> saw_transfer_encoding := True, encodings := encodings st @ [trimOws (field_value f)] \<rparr>) = Ok st'"
      using Cons.prems te by simp
    from Cons.IH [OF this] show ?thesis
      using te te_not_cl [OF te] by (cases "saw_content_length st") (simp_all add: framing_post_def te_cl_Cons)
  next
    case cl
    show ?thesis
    proof (cases "saw_content_length st")
      case True
      then have "field_value f = content_length_text st" "framing_loop fs st = Ok st'"
        using Cons.prems cl by (auto split: if_splits)
      with Cons.IH [OF this(2)] show ?thesis using cl True by (simp add: framing_post_def te_cl_Cons)
    next
      case False
      then have "framing_loop fs (st \<lparr> saw_content_length := True, content_length_text := field_value f \<rparr>) = Ok st'"
        using Cons.prems cl by simp
      from Cons.IH [OF this] show ?thesis using cl False by (auto simp: framing_post_def te_cl_Cons)
    qed
  next
    case other
    then have "framing_loop fs st = Ok st'" using Cons.prems by simp
    from Cons.IH [OF this] show ?thesis using other by (simp add: framing_post_def te_cl_Cons)
  qed
qed

definition framing_ok :: "http_Header \<Rightarrow> bool" where
  "framing_ok h \<longleftrightarrow>
     (if http_chunked h then \<not> http_has_content_length h \<and> cl_values (http_fields h) = [] \<and>
        te_values (http_fields h) \<noteq> [] \<and> isEquals (last (te_values (http_fields h))) ''chunked''
      else if http_has_content_length h then te_values (http_fields h) = [] \<and>
        (\<exists>v. set (cl_values (http_fields h)) = {v} \<and> is_decimal v \<and> dec_from 0 v < 18446744073709551616 \<and>
           http_content_length h = of_nat (dec_from 0 v))
      else te_values (http_fields h) = [] \<and> cl_values (http_fields h) = [])"

lemma parseFraming_ok:
  assumes "parseFraming h = Ok h'" and "\<not> http_chunked h" and "\<not> http_has_content_length h"
  shows "framing_ok h' \<and> http_fields h' = http_fields h"
proof -
  obtain st where st: "framing_loop (http_fields h) framing_init = Ok st"
    using assms(1) by (auto simp: parseFraming_def bind_res_Ok_iff)
  have post: "saw_transfer_encoding st \<longleftrightarrow> te_values (http_fields h) \<noteq> []" "encodings st = te_values (http_fields h)"
    "saw_content_length st \<longleftrightarrow> cl_values (http_fields h) \<noteq> []"
    "cl_values (http_fields h) \<noteq> [] \<longrightarrow> set (cl_values (http_fields h)) = {content_length_text st}"
    using framing_loop_post [OF st] by (simp_all add: framing_post_def framing_init_def)
  show ?thesis
  proof (cases "saw_transfer_encoding st")
    case True
    then have "\<not> saw_content_length st" "isEquals (last (encodings st)) ''chunked''" "h' = h \<lparr> http_chunked := True \<rparr>"
      using assms(1) by (auto simp: parseFraming_def st split: if_splits)
    then show ?thesis using True assms(3) post by (simp add: framing_ok_def)
  next
    case te: False
    show ?thesis
    proof (cases "saw_content_length st")
      case True
      then obtain v where "parseDecimal (content_length_text st) = Ok v"
        "h' = h \<lparr> http_has_content_length := True, http_content_length := v \<rparr>"
        using assms(1) te by (auto simp: parseFraming_def st bind_res_Ok_iff)
      then show ?thesis using True te assms(2) post by (simp add: framing_ok_def parseDecimal_Ok)
    next
      case False
      then have "h' = h" using assms(1) te by (simp add: parseFraming_def st)
      then show ?thesis using False te assms(2,3) post by (simp add: framing_ok_def)
    qed
  qed
qed

section \<open>Undefined behaviour\<close>

text \<open>The bytes that \<open>std::isdigit\<close> must not be given.\<close>

definition clean :: "span \<Rightarrow> bool" where
  "clean s \<longleftrightarrow> list_all (\<lambda>b. unat b < 128 \<or> unat b = 255) s"

definition clean_text :: "string \<Rightarrow> bool" where
  "clean_text s \<longleftrightarrow> (\<forall>c\<in>set s. (of_char c :: nat) < 128 \<or> (of_char c :: nat) = 255)"

lemma of_char_chr8 [simp]: "of_char (chr8 b) = unat b"
  using unat_u8_less [of b] by (simp add: chr8_def)

lemma clean_text_of: "clean s \<Longrightarrow> clean_text (text_of s)"
  by (auto simp: clean_def clean_text_def text_of_def list_all_iff)

lemma clean_text_mono: "clean_text s \<Longrightarrow> set s' \<subseteq> set s \<Longrightarrow> clean_text s'"
  by (auto simp: clean_text_def)

lemma clean_moved: "clean s \<Longrightarrow> moved s rest \<Longrightarrow> clean rest"
  by (auto simp: clean_def moved_def list_all_iff dest: in_set_dropD)

lemma isdigit_clean: "clean_text s \<Longrightarrow> c \<in> set s \<Longrightarrow> isdigit c \<noteq> UB"
  by (auto simp: isdigit_def clean_text_def)

lemma parseDecimal_clean: "clean_text s \<Longrightarrow> parseDecimal s \<noteq> UB"
proof -
  have "clean_text s \<Longrightarrow> parseDecimal_loop s acc \<noteq> UB" for acc
  proof (induction s arbitrary: acc)
    case (Cons c s)
    have "isdigit c \<noteq> UB" "clean_text s"
      using isdigit_clean [OF Cons.prems, of c] clean_text_mono [OF Cons.prems, of s] by auto
    then show ?case using Cons.IH by (cases "isdigit c") (auto simp: Let_def)
  qed simp
  then show "clean_text s \<Longrightarrow> parseDecimal s \<noteq> UB" by (simp add: parseDecimal_def)
qed

lemma status_digits_clean: "clean_text s \<Longrightarrow> status_digits s \<noteq> UB"
proof (cases "length s = 3")
  case True
  assume c: "clean_text s"
  then have "isdigit (s ! i) \<noteq> UB" if "i < 3" for i using isdigit_clean [OF c] True that by simp
  from this [of 0] this [of 1] this [of 2] show ?thesis by (auto simp: status_digits_def bind_res_UB_iff)
qed (simp add: status_digits_def)

lemma start_line_clean: "clean_text line \<Longrightarrow> start_line_header line h \<noteq> UB"
proof -
  assume c: "clean_text line"
  have "set (take n (drop m line)) \<subseteq> set line" "set (drop m line) \<subseteq> set line" for n m
    by (meson set_take_subset set_drop_subset subset_trans)+
  then have "status_digits (take n (drop m line)) \<noteq> UB" "status_digits (drop m line) \<noteq> UB" for n m
    using status_digits_clean clean_text_mono [OF c] by blast+
  then show ?thesis
    by (auto simp: start_line_header_def parse_status_line_def Let_def bind_res_UB_iff split: option.splits if_splits)
qed

lemma set_trimOws: "set (trimOws s) \<subseteq> set s"
  by (auto simp: trimOws_def dest!: set_dropWhileD)

lemma parse_field_line_value: "parse_field_line line = Ok (Some f) \<Longrightarrow> set (field_value f) \<subseteq> set line"
  using set_trimOws set_drop_subset
  by (fastforce simp: parse_field_line_def Let_def split: if_splits option.splits)

lemma parseFields_clean:
  assumes "parseFields span acc = Ok (fs, rest)" and "clean span" and "\<forall>f\<in>set acc. clean_text (field_value f)"
  shows "\<forall>f\<in>set fs. clean_text (field_value f)"
  using assms
proof (induction span acc rule: parseFields.induct)
  case (1 span acc)
  from "1.prems"(1) obtain line span1 where l: "readLineCRLF span = Ok (line, span1)"
    by (subst (asm) parseFields.simps) (auto simp: bind_res_Ok_iff)
  with "1.prems"(1) obtain f where f: "parse_field_line line = Ok f"
    "(case f of None \<Rightarrow> Ok (acc, span1) | Some f \<Rightarrow> parseFields span1 (acc @ [f])) = Ok (fs, rest)"
    by (subst (asm) parseFields.simps) (auto simp: bind_res_Ok_iff)
  show ?case
  proof (cases f)
    case None
    then show ?thesis using f(2) "1.prems"(3) by simp
  next
    case (Some fd)
    have "clean_text line"
      using clean_text_of [OF "1.prems"(2)] readLineCRLF_holds [of span] l
      by (auto elim!: clean_text_mono dest: in_set_takeD)
    then have "clean_text (field_value fd)" using f(1) Some parse_field_line_value clean_text_mono by blast
    moreover have "clean span1" using clean_moved [OF "1.prems"(2) readLineCRLF_moved [OF l]] .
    ultimately show ?thesis using "1.IH" [OF l refl f(1) Some] f(2) Some "1.prems"(3) by simp
  qed
qed

lemma start_line_keeps:
  "start_line_header line h = Ok h' \<Longrightarrow>
     http_fields h' = http_fields h \<and> http_chunked h' = http_chunked h \<and> http_has_content_length h' = http_has_content_length h"
  by (auto simp: start_line_header_def parse_status_line_def Let_def bind_res_Ok_iff split: option.splits if_splits)

lemma framing_loop_safe [simp]: "framing_loop fs st \<noteq> UB"
  by (induction fs arbitrary: st) auto

lemma parseFraming_clean:
  assumes "\<forall>f\<in>set (http_fields h). clean_text (field_value f)"
  shows "parseFraming h \<noteq> UB"
proof
  assume "parseFraming h = UB"
  then obtain st where st: "framing_loop (http_fields h) framing_init = Ok st" "saw_content_length st"
    "parseDecimal (content_length_text st) = UB"
    by (auto simp: parseFraming_def bind_res_UB_iff split: if_splits)
  have "content_length_text st \<in> set (cl_values (http_fields h))"
    using framing_loop_post [OF st(1)] st(2) by (auto simp: framing_post_def framing_init_def)
  then have "clean_text (content_length_text st)" using assms by (auto simp: cl_values_def)
  then show False using parseDecimal_clean st(3) by blast
qed

lemma parseStartLine_clean: "clean s \<Longrightarrow> parseStartLine s h \<noteq> UB"
proof -
  assume c: "clean s"
  have "start_line_header line h \<noteq> UB" if "readLineCRLF s = Ok (line, rest)" for line rest
    using readLineCRLF_holds [of s] that
    by (intro start_line_clean clean_text_mono [OF clean_text_of [OF c]]) (auto dest: in_set_takeD)
  then show ?thesis by (auto simp: parseStartLine_def bind_res_UB_iff)
qed

lemma parseStartLine_Ok:
  assumes "parseStartLine s h = Ok (h1, rest)"
  shows "moved s rest \<and> http_fields h1 = http_fields h \<and> http_chunked h1 = http_chunked h \<and>
    http_has_content_length h1 = http_has_content_length h"
  using assms readLineCRLF_moved start_line_keeps
  by (fastforce simp: parseStartLine_def bind_res_Ok_iff)

lemma http_parse_clean:
  assumes "clean s" and "http_fields h = []"
  shows "http_parse s h \<noteq> UB"
proof
  assume "http_parse s h = UB"
  then obtain h1 s1 where h1: "parseStartLine s h = Ok (h1, s1)"
    and ub: "bind_res (parseFields s1 (http_fields h1)) (\<lambda>(fs, span).
      bind_res (parseFraming (h1 \<lparr> http_fields := fs \<rparr>)) (\<lambda>header. Ok (header, span))) = UB"
    using parseStartLine_clean [OF assms(1)] by (auto simp: http_parse_def bind_res_UB_iff)
  note k = parseStartLine_Ok [OF h1]
  from ub obtain fs s2 where fs: "parseFields s1 [] = Ok (fs, s2)" "parseFraming (h1 \<lparr> http_fields := fs \<rparr>) = UB"
    using k assms(2) holds_safe [OF parseFields_holds] by (auto simp: bind_res_UB_iff)
  have "clean s1" using clean_moved [OF assms(1)] k by blast
  from parseFields_clean [OF fs(1) this] have "parseFraming (h1 \<lparr> http_fields := fs \<rparr>) \<noteq> UB"
    by (intro parseFraming_clean) simp
  with fs(2) show False by simp
qed

lemma http_parse_Ok:
  assumes "http_parse s h = Ok (h', rest)" and "\<not> http_chunked h" and "\<not> http_has_content_length h"
  shows "moved s rest \<and> framing_ok h'"
proof -
  from assms(1) obtain h1 s1 fs where h1: "parseStartLine s h = Ok (h1, s1)"
    and fs: "parseFields s1 (http_fields h1) = Ok (fs, rest)" and fr: "parseFraming (h1 \<lparr> http_fields := fs \<rparr>) = Ok h'"
    by (auto simp: http_parse_def bind_res_Ok_iff)
  note k = parseStartLine_Ok [OF h1]
  have "moved s1 rest" using parseFields_holds [of s1 "http_fields h1"] fs by simp
  with k have "moved s rest" using moved_trans by blast
  moreover have "framing_ok h'" using parseFraming_ok [OF fr] k assms(2,3) by simp
  ultimately show ?thesis ..
qed

section \<open>Encoders\<close>

abbreviation CRLF :: string where "CRLF \<equiv> [CR, newline]"

lemma find_char_first: "c \<notin> set xs \<Longrightarrow> find_char c (xs @ c # ys) = Some (length xs)"
  by (simp add: find_char_append find_char_None [THEN iffD2])

lemma readLineCRLF_bytes:
  assumes "CR \<notin> set line"
  shows "readLineCRLF (bytes_of (line @ CRLF) @ rest) = Ok (line, rest)"
proof -
  have view: "text_of (bytes_of (line @ CRLF) @ rest) = line @ CR # newline # text_of rest" 
    by (simp only: text_of_simps(3) text_of_bytes_of) simp
  show ?thesis
    unfolding readLineCRLF_def view Let_def find_char_first [OF assms] by (simp add: nth_append)
qed

text \<open>Chunks as RFC 9112 writes them.\<close>

definition enc_chunk :: "u8 list \<Rightarrow> span" where
  "enc_chunk d = bytes_of (hex_string (length d) @ CRLF) @ d @ bytes_of ([] @ CRLF)"

definition enc_chunks :: "u8 list list \<Rightarrow> span" where
  "enc_chunks ds = concat (map enc_chunk ds) @ bytes_of (''0'' @ CRLF) @ bytes_of ([] @ CRLF)"

lemma hex_val_digit: "n < 16 \<Longrightarrow> hex_val (hex_digit n) = Some n"
  by (auto simp: hex_val_def hex_digit_def)

lemma hex_digit_plain: "n < 16 \<Longrightarrow> hex_digit n \<noteq> CR \<and> hex_digit n \<noteq> CHR '';'' \<and> \<not> is_ows (hex_digit n)"
proof -
  assume "n < 16"
  then have "(of_char (hex_digit n) :: nat) \<ge> 48 \<and> (of_char (hex_digit n) :: nat) \<noteq> 59" by (auto simp: hex_digit_def)
  then show ?thesis by (auto simp: is_ows_def)
qed

lemma hex_string_digits:
  "hex_string n \<noteq> [] \<and> (\<forall>c\<in>set (hex_string n). \<exists>k<16. c = hex_digit k)"
proof (induction n rule: hex_string.induct)
  case (1 n)
  then show ?case
    by (cases "n < 16") (auto simp: hex_string.simps [of n], metis mod_less_divisor zero_less_numeral)
qed

lemma dropWhile_none: "\<forall>c\<in>set xs. \<not> P c \<Longrightarrow> dropWhile P xs = xs"
  by (cases xs) auto

lemma hex_from_append: "hex_from v (xs @ ys) = hex_from (hex_from v xs) ys"
  by (induction xs arbitrary: v) auto

lemma hex_from_hex_string: "hex_from 0 (hex_string n) = n"
proof (induction n rule: hex_string.induct)
  case (1 n)
  then show ?case by (cases "n < 16") (auto simp: hex_string.simps [of n] hex_from_append hex_val_digit)
qed

lemma parseChunkSize_hex: "n < 18446744073709551616 \<Longrightarrow> parseChunkSize (hex_string n) = Ok (of_nat n)"
proof -
  assume n: "n < 18446744073709551616"
  let ?s = "hex_string n"
  have plain: "CHR '';'' \<notin> set ?s" "\<forall>c\<in>set ?s. \<not> is_ows c" "\<forall>c\<in>set ?s. hex_val c \<noteq> None" "?s \<noteq> []"
    using hex_string_digits [of n] hex_digit_plain hex_val_digit by fastforce+
  have semi: "find_char CHR '';'' ?s = None" using plain(1) by (simp add: find_char_None)
  have digits: "takeWhile (\<lambda>c. hex_val c \<noteq> None) ?s = ?s" using plain(3) by (simp only: takeWhile_eq_all_conv)
  have trim: "dropWhile is_ows (rev ?s) = rev ?s" using plain(2) by (intro dropWhile_none) simp
  have "from_chars_hex ?s = Some (of_nat n, [])"
    unfolding from_chars_hex_def digits Let_def hex_from_hex_string using n plain(4) by simp
  then show ?thesis unfolding parseChunkSize_def Let_def semi option.case trim rev_rev_ident using plain(4) by simp
qed

lemma chunk_head_chunk:
  assumes "d \<noteq> []" and "length d < 18446744073709551616"
  shows "chunk_head (enc_chunk d @ rest) = Ok (Some d, rest)"
proof -
  have "CR \<notin> set (hex_string (length d))" using hex_string_digits [of "length d"] hex_digit_plain by fastforce
  from readLineCRLF_bytes [OF this, of "d @ bytes_of ([] @ CRLF) @ rest"]
  have line: "readLineCRLF (enc_chunk d @ rest) = Ok (hex_string (length d), d @ bytes_of ([] @ CRLF) @ rest)"
    by (simp add: enc_chunk_def)
  have "unat (of_nat (length d) :: u64) = length d" using assms(2) by (rule unat_of_nat_u64)
  then have "of_nat (length d) \<noteq> (0 :: u64)" using assms(1) by (metis length_0_conv unat_0)
  then show ?thesis
    using readLineCRLF_bytes [of "[]" rest] \<open>unat (of_nat (length d) :: u64) = length d\<close>
    by (simp add: chunk_head_def line parseChunkSize_hex [OF assms(2)])
qed

lemma chunk_head_last: "chunk_head (bytes_of (''0'' @ CRLF) @ bytes_of ([] @ CRLF) @ rest) = Ok (None, rest)"
proof -
  have zero: "parseChunkSize ''0'' = Ok 0"
  proof -
    have "hex_string 0 = ''0''" by (simp add: hex_string.simps hex_digit_def) code_simp
    then show ?thesis using parseChunkSize_hex [of 0] by simp
  qed
  have line: "readLineCRLF (bytes_of (''0'' @ CRLF) @ bytes_of ([] @ CRLF) @ rest) = Ok (''0'', bytes_of ([] @ CRLF) @ rest)"
    by (rule readLineCRLF_bytes) simp
  have "parseFields (bytes_of ([] @ CRLF) @ rest) [] = Ok ([], rest)"
    unfolding parseFields.simps [of "bytes_of ([] @ CRLF) @ rest"] using readLineCRLF_bytes [of "[]" rest]
    by (simp add: parse_field_line_def)
  then show ?thesis unfolding chunk_head_def line by (simp add: zero)
qed

lemma chunk_loop_bytes:
  assumes "\<forall>d\<in>set ds. d \<noteq> [] \<and> length d < 18446744073709551616"
  shows "chunk_loop n (enc_chunks ds @ rest) b out = ChunkOk rest (out @ concat ds)"
  using assms
proof (induction ds arbitrary: b out)
  case Nil
  then show ?case
    by (subst chunk_loop_head) (simp add: enc_chunks_def chunk_head_last [simplified])
next
  case (Cons d ds)
  have "enc_chunks (d # ds) @ rest = enc_chunk d @ enc_chunks ds @ rest" by (simp add: enc_chunks_def)
  then show ?case
    using Cons by (subst chunk_loop_head) (simp add: chunk_head_chunk)
qed

text \<open>Requests.\<close>

definition field_ok :: "Field \<Rightarrow> bool" where
  "field_ok f \<longleftrightarrow> isToken (field_name f) \<and> trimOws (field_value f) = field_value f \<and>
     CR \<notin> set (field_value f) \<and> newline \<notin> set (field_value f) \<and> CHR 0x00 \<notin> set (field_value f)"

definition field_line :: "Field \<Rightarrow> string" where
  "field_line f = field_name f @ '': '' @ field_value f"

definition enc_fields :: "Field list \<Rightarrow> span" where
  "enc_fields fs = concat (map (\<lambda>f. bytes_of (field_line f @ CRLF)) fs) @ bytes_of ([] @ CRLF)"

definition enc_request :: "string \<Rightarrow> string \<Rightarrow> string \<Rightarrow> Field list \<Rightarrow> span" where
  "enc_request method target version fs = bytes_of ((method @ '' '' @ target @ '' '' @ version) @ CRLF) @ enc_fields fs"

lemma token_char_plain:
  "isToken_char c \<Longrightarrow> c \<noteq> CR \<and> c \<noteq> newline \<and> c \<noteq> CHR '':'' \<and> c \<noteq> CHR '' '' \<and> c \<noteq> CHR ''/'' \<and> \<not> is_ows c"
  by (auto simp: isToken_char_def is_ows_def Let_def split: if_splits)

lemma token_plain:
  assumes "isToken s"
  shows "s \<noteq> []" and "CR \<notin> set s" and "newline \<notin> set s" and "CHR '':'' \<notin> set s" and "CHR '' '' \<notin> set s"
    and "CHR ''/'' \<notin> set s" and "\<forall>c\<in>set s. \<not> is_ows c"
  using assms token_char_plain by (auto simp: isToken_def list_all_iff split: if_splits)

lemma parse_field_line_bytes:
  assumes "field_ok f"
  shows "parse_field_line (field_line f) = Ok (Some f)"
proof -
  let ?n = "field_name f" and ?v = "field_value f"
  have tok: "isToken ?n" using assms by (simp add: field_ok_def)
  note plain = token_plain [OF tok]
  have colon: "find_char CHR '':'' (field_line f) = Some (length ?n)"
    unfolding field_line_def using find_char_first [OF plain(4)] by simp
  have "field_line f ! 0 = ?n ! 0" "field_line f ! (length ?n - 1) = ?n ! (length ?n - 1)"
    using plain(1) by (simp_all add: field_line_def nth_append)
  moreover have "\<not> is_ows (?n ! 0)" "\<not> is_ows (?n ! (length ?n - 1))" using plain(1,7) by simp_all
  moreover have "take (length ?n) (field_line f) = ?n" "drop (length ?n + 1) (field_line f) = CHR '' '' # ?v"
    by (simp_all add: field_line_def)
  moreover have "trimOws (CHR '' '' # ?v) = ?v" using assms by (simp add: field_ok_def trimOws_def is_ows_def)
  moreover have "find_char newline ?v = None" "find_char CHR 0x00 ?v = None"
    using assms by (simp_all add: find_char_None field_ok_def)
  ultimately show ?thesis
    using plain(1) tok colon unfolding parse_field_line_def by (simp add: Let_def) (simp add: field_line_def)
qed

lemma parseFields_bytes:
  assumes "list_all field_ok fs"
  shows "parseFields (enc_fields fs @ rest) acc = Ok (acc @ fs, rest)"
  using assms
proof (induction fs arbitrary: acc)
  case Nil
  then show ?case
    unfolding parseFields.simps [of "enc_fields [] @ rest"] using readLineCRLF_bytes [of "[]" rest]
    by (simp add: enc_fields_def parse_field_line_def)
next
  case (Cons f fs)
  have ok: "field_ok f" using Cons.prems by simp
  then have "CR \<notin> set (field_line f)" using token_plain(2) by (auto simp: field_ok_def field_line_def)
  from readLineCRLF_bytes [OF this, of "enc_fields fs @ rest"]
  have "readLineCRLF (enc_fields (f # fs) @ rest) = Ok (field_line f, enc_fields fs @ rest)" by (simp add: enc_fields_def)
  then show ?case
    using Cons unfolding parseFields.simps [of "enc_fields (f # fs) @ rest"] by (simp add: parse_field_line_bytes)
qed

lemma version_plain: "version_ok v \<Longrightarrow> CR \<notin> set v \<and> newline \<notin> set v"
  by (auto simp: version_ok_def)

lemma http_request_bytes:
  assumes "isToken method" and "target \<noteq> []" and "CHR '' '' \<notin> set target" and "CR \<notin> set target" and "newline \<notin> set target"
    and "version_ok version" and "list_all field_ok fs"
  shows "http_parse (enc_request method target version fs @ rest) http_Header_init =
    bind_res (parseFraming (http_Header_init \<lparr> http_type := MtRequest, http_method := method, http_target := target,
      http_version := version, http_fields := fs \<rparr>)) (\<lambda>h. Ok (h, rest))"
proof -
  let ?line = "method @ '' '' @ target @ '' '' @ version"
  note plain = token_plain [OF assms(1)]
  have "CR \<notin> set ?line" using plain(2) assms(4) version_plain [OF assms(6)] by simp
  from readLineCRLF_bytes [OF this, of "enc_fields fs @ rest"]
  have line: "readLineCRLF (enc_request method target version fs @ rest) = Ok (?line, enc_fields fs @ rest)"
    by (simp add: enc_request_def)
  have "find_char newline ?line = None"
    using plain(3) assms(5) version_plain [OF assms(6)] by (simp add: find_char_None)
  moreover have "find_char CHR '' '' ?line = Some (length method)" using find_char_first [OF plain(5)] by simp
  moreover have "find_char CHR '' '' (target @ '' '' @ version) = Some (length target)"
    using find_char_first [OF assms(3)] by simp
  moreover have "take 5 method \<noteq> ''HTTP/''"
    using plain(6) by (metis in_set_takeD list.set_intros(1,2))
  ultimately have "start_line_header ?line http_Header_init = Ok (http_Header_init \<lparr> http_type := MtRequest,
      http_method := method, http_target := target, http_version := version \<rparr>)"
    using assms(1,2,6) plain(1) by (simp add: start_line_header_def Let_def)
  then show ?thesis
    by (simp add: http_parse_def parseStartLine_def line parseFields_bytes [OF assms(7)] http_Header_init_def)
qed

section \<open>Properties\<close>

text \<open>
  C14. Framing is unambiguous: an accepted message is never both chunked and of announced
  length. Chunked framing is chosen only when there is no \<open>Content-Length\<close> field and the last
  \<open>Transfer-Encoding\<close> is \<open>chunked\<close>; a length only when there is no \<open>Transfer-Encoding\<close> and all
  \<open>Content-Length\<close> fields agree on one decimal number that fits 64 bits; and neither only when
  neither field occurs. This is the rule that rules out request smuggling.
\<close>

theorem http_framing_unambiguous:
  assumes "http_parse s http_Header_init = Ok (h, rest)"
  shows "framing_ok h"
  using http_parse_Ok [OF assms] by (simp add: http_Header_init_def)

theorem http_framing_unambiguous_witness:
  "framing_ok (http_Header_init \<lparr> http_type := MtRequest, http_method := ''GET'', http_target := ''/'', http_version := ''HTTP/1.1'',
     http_fields := [\<lparr> field_name = ''content-length'', field_value = ''12'' \<rparr>], http_has_content_length := True,
     http_content_length := 12 \<rparr>)"
proof (rule http_framing_unambiguous)
  let ?fs = "[\<lparr> field_name = ''content-length'', field_value = ''12'' \<rparr>]"
  have "list_all field_ok ?fs" "isToken ''GET''" "version_ok ''HTTP/1.1''" by code_simp+
  moreover have "parseFraming (http_Header_init \<lparr> http_type := MtRequest, http_method := ''GET'', http_target := ''/'',
      http_version := ''HTTP/1.1'', http_fields := ?fs \<rparr>) =
    Ok (http_Header_init \<lparr> http_type := MtRequest, http_method := ''GET'', http_target := ''/'', http_version := ''HTTP/1.1'',
     http_fields := ?fs, http_has_content_length := True, http_content_length := 12 \<rparr>)" by code_simp
  ultimately show "http_parse (enc_request ''GET'' ''/'' ''HTTP/1.1'' ?fs @ []) http_Header_init =
    Ok (http_Header_init \<lparr> http_type := MtRequest, http_method := ''GET'', http_target := ''/'', http_version := ''HTTP/1.1'',
     http_fields := ?fs, http_has_content_length := True, http_content_length := 12 \<rparr>, [])"
    by (subst http_request_bytes) simp_all
qed

text \<open>
  The verdict on a message does not depend on how much of the stream has arrived: once
  the parser accepts a message, or rejects it for any reason but missing bytes, it gives
  the same answer, with the same header, for every continuation of the buffer.
\<close>

theorem http_parse_stable:
  "case http_parse s h of
     Ok (h', rest) \<Rightarrow> http_parse (s @ t) h = Ok (h', rest @ t)
   | Err e \<Rightarrow> e = UnexpectedEof \<or> http_parse (s @ t) h = Err e
   | UB \<Rightarrow> http_parse (s @ t) h = UB"
  using http_parse_grows [of t s h] by (simp add: grows_def)

text \<open>
  A chunked body can be resumed where it was left: when the parser asks for more bytes
  and reports a complete prefix of \<open>p\<close> bytes, then for every continuation, parsing from the
  start and parsing from offset \<open>p\<close> have the same outcome, up to the data and the bytes of the
  chunks before \<open>p\<close>.
\<close>

theorem chunked_resume:
  assumes "parseChunkedBody s = ChunkFail UnexpectedEof p"
  shows "p \<le> length s \<and> (\<exists>pre. \<forall>t. parseChunkedBody (s @ t) = after p pre (parseChunkedBody (drop p s @ t)))"
  by (rule parseChunked_resumes [OF assms])

theorem chunked_resume_witness:
  "\<exists>pre. \<forall>t. parseChunkedBody ((enc_chunk [1, 2, 3] @ [50, 13]) @ t) = after 8 pre (parseChunkedBody ([50, 13] @ t))"
proof -
  let ?s = "enc_chunk [1, 2, 3] @ [50, 13]"
  have len: "length (enc_chunk [1, 2, 3]) = 8" by (simp add: enc_chunk_def hex_string.simps)
  have "readLineCRLF [50, 13] = Err UnexpectedEof" by code_simp
  then have "chunk_head [50, 13] = Err UnexpectedEof" by (simp add: chunk_head_def)
  then have "parseChunkedBody ?s = ChunkFail UnexpectedEof 8"
    by (simp add: parseChunkedBody_def chunk_loop_head [of _ "enc_chunk [1, 2, 3] @ _"] chunk_head_chunk
        chunk_loop_head [of _ "[50, 13]"] len)
  from chunked_resume [OF this] show ?thesis using len by simp
qed

text \<open>
  The chunked decoder inverts the chunked encoder: for any non-empty chunks, written with
  their hexadecimal sizes, it returns their concatenation and leaves what follows the body.
\<close>

theorem chunked_roundtrip:
  assumes "\<forall>d\<in>set ds. d \<noteq> [] \<and> length d < 18446744073709551616"
  shows "parseChunkedBody (enc_chunks ds @ rest) = ChunkOk rest (concat ds)"
  using chunk_loop_bytes [OF assms, of _ rest 0 "[]"] by (simp add: parseChunkedBody_def)

text \<open>
  Requests survive the wire: a request line and fields written as RFC 9112 prescribes are
  parsed back to the same method, target, version and fields, and the body is left over; the
  framing is that of the fields.
\<close>

theorem http_request_roundtrip:
  assumes "isToken method" and "target \<noteq> []" and "CHR '' '' \<notin> set target" and "CR \<notin> set target" and "newline \<notin> set target"
    and "version_ok version" and "list_all field_ok fs"
    and "parseFraming (http_Header_init \<lparr> http_type := MtRequest, http_method := method, http_target := target,
      http_version := version, http_fields := fs \<rparr>) = Ok h"
  shows "http_parse (enc_request method target version fs @ body) http_Header_init = Ok (h, body)"
  using http_request_bytes [OF assms(1-7)] assms(8) by simp

theorem http_request_roundtrip_witness:
  "http_parse (enc_request ''GET'' ''/x'' ''HTTP/1.1'' [\<lparr> field_name = ''Host'', field_value = ''a'' \<rparr>] @ [1, 2]) http_Header_init =
   Ok (http_Header_init \<lparr> http_type := MtRequest, http_method := ''GET'', http_target := ''/x'', http_version := ''HTTP/1.1'',
     http_fields := [\<lparr> field_name = ''Host'', field_value = ''a'' \<rparr>] \<rparr>, [1, 2])"
  by (rule http_request_roundtrip) (code_simp+)

text \<open>
  The parser is memory safe and makes progress on every buffer without bytes from
  \<open>0x80\<close> to \<open>0xFE\<close>: no undefined behaviour, and what an accepted message leaves is a proper
  tail of the buffer.
\<close>

theorem http_parse_safe:
  assumes "clean s"
  shows "holds (\<lambda>(h, rest). moved s rest) (http_parse s http_Header_init)"
  using http_parse_clean [OF assms] http_parse_Ok [of s http_Header_init] by (auto simp: holds_iff http_Header_init_def)

text \<open>
  With such a byte the parser can run into undefined behaviour: \<open>std::isdigit\<close> is applied
  to a plain \<open>char\<close>, in the status code and in a \<open>Content-Length\<close> value.
\<close>

theorem http_isdigit_undefined:
  "http_parse (bytes_of ((''HTTP/1.1 2'' @ [CHR 0x80] @ ''0 OK'') @ CRLF) @ rest) http_Header_init = UB \<and>
   http_parse (enc_request ''GET'' ''/'' ''HTTP/1.1'' [\<lparr> field_name = ''Content-Length'', field_value = [CHR 0x80] \<rparr>] @ rest)
     http_Header_init = UB"
proof
  let ?line = "''HTTP/1.1 2'' @ [CHR 0x80] @ ''0 OK''"
  have "CR \<notin> set ?line" by simp
  note line = readLineCRLF_bytes [OF this, of rest]
  have "start_line_header ?line http_Header_init = UB" by code_simp
  then show "http_parse (bytes_of (?line @ CRLF) @ rest) http_Header_init = UB"
    unfolding http_parse_def parseStartLine_def line by simp
  let ?fs = "[\<lparr> field_name = ''Content-Length'', field_value = [CHR 0x80] \<rparr>]"
  have "list_all field_ok ?fs" "isToken ''GET''" "version_ok ''HTTP/1.1''" by code_simp+
  moreover have "parseFraming (http_Header_init \<lparr> http_type := MtRequest, http_method := ''GET'', http_target := ''/'',
      http_version := ''HTTP/1.1'', http_fields := ?fs \<rparr>) = UB" by code_simp
  ultimately show "http_parse (enc_request ''GET'' ''/'' ''HTTP/1.1'' ?fs @ rest) http_Header_init = UB"
    by (subst http_request_bytes) simp_all
qed

end
