(* ===== verification/App_Decoder.thy ===== *)
theory App_Decoder
  imports Flow_Table Dns_Table Reassembly Http_Roundtrip
begin

text \<open>
  The application decoder (\<^verbatim>\<open>src/net/decode/app_decoder.cpp\<close>): after every packet of a flow
  on port 53 or 80 the reassembled stream is polled for complete DNS or HTTP messages.

  The program keeps the per-flow state in a map and hands out references into it; a flow
  remembers a pointer to its node. The model names a node by its key and looks it up again
  where the program follows the pointer; following a pointer to an erased node is \<open>UB\<close>.
  \<open>dnsTable_\<close> is a reference to a table of the enclosing decoder and is passed along.
\<close>

section \<open>State\<close>

definition MAX_HTTP_HEADER_BYTES :: nat where "MAX_HTTP_HEADER_BYTES = 32 * 1024"
definition MAX_HTTP_MESSAGE_BYTES :: nat where "MAX_HTTP_MESSAGE_BYTES = 8 * 1024 * 1024"
definition MAX_PENDING_REQUESTS :: nat where "MAX_PENDING_REQUESTS = 1024"

record Applications =
  decode_failures :: u64
  http_bodies_skipped :: u64
  dns_messages :: "dns_Header list"
  http_messages :: "http_Header list"
  http_chunk_prefix :: nat
  http_resync_scanned :: nat
  http_skip :: nat
  pending_head_requests :: "bool list"
  http_body_until_close :: bool

definition Applications_init :: Applications where
  "Applications_init = \<lparr> decode_failures = 0, http_bodies_skipped = 0, dns_messages = [], http_messages = [],
     http_chunk_prefix = 0, http_resync_scanned = 0, http_skip = 0, pending_head_requests = [],
     http_body_until_close = False \<rparr>"

record FlowApplications =
  fa_fwd :: Applications
  fa_rev :: Applications

definition FlowApplications_init :: FlowApplications where
  "FlowApplications_init = \<lparr> fa_fwd = Applications_init, fa_rev = Applications_init \<rparr>"

type_synonym AppDecoder = "(FlowKey, FlowApplications) umap"

section \<open>Resynchronisation\<close>

definition resync_markers :: "string list" where
  "resync_markers = [''HTTP/1.0'', ''HTTP/1.1'', ''GET '', ''POST '', ''PUT '', ''DELETE '', ''HEAD '',
     ''OPTIONS '', ''PATCH '', ''TRACE '', ''CONNECT '']"

text \<open>\<open>std::string_view::find(c, pos)\<close>.\<close>

definition find_from :: "char \<Rightarrow> string \<Rightarrow> nat \<Rightarrow> nat option" where
  "find_from c v pos = map_option (\<lambda>i. pos + i) (find_char c (drop pos v))"

lemma find_from_Some: "find_from c v pos = Some p \<Longrightarrow> pos \<le> p \<and> p < length v \<and> v ! p = c"
  by (auto simp: find_from_def dest!: find_char_Some)

text \<open>The loop over the line ends at or after \<open>p\<close>.\<close>

function resync_scan :: "string \<Rightarrow> nat \<Rightarrow> nat option" where
  "resync_scan v p =
     (case find_from newline v p of
        None \<Rightarrow> None
      | Some p \<Rightarrow>
          if p < 2 \<or> v ! (p - 1) \<noteq> CR then resync_scan v (p + 1)
          else let rest = drop (p + 1) v in
            if list_ex (\<lambda>m. take (length m) rest = m) resync_markers then Some (p + 1)
            else resync_scan v (p + 1))"
  by pat_completeness auto
termination
  by (relation "measure (\<lambda>(v, p). length v - p)") (auto dest: find_from_Some)

declare resync_scan.simps [simp del]

definition findHttpResync :: "span \<Rightarrow> nat \<Rightarrow> nat option" where
  "findHttpResync buf from_pos = resync_scan (text_of buf) (if from_pos < 1 then 1 else from_pos)"

definition resyncHttp :: "TcpReassembler \<Rightarrow> Applications \<Rightarrow> (bool \<times> TcpReassembler \<times> Applications) res" where
  "resyncHttp stream app =
     (let app = app \<lparr> http_chunk_prefix := 0, http_body_until_close := False \<rparr>; avail = available stream in
      bind_res (peek stream) (\<lambda>buf.
      case findHttpResync buf (http_resync_scanned app) of
        Some at \<Rightarrow>
          Ok (True, consume stream at, app \<lparr> decode_failures := decode_failures app + 1, http_resync_scanned := 0 \<rparr>)
      | None \<Rightarrow>
          let app = app \<lparr> http_resync_scanned := (if avail > 8 then avail - 8 else 0) \<rparr> in
          if avail > MAX_HTTP_MESSAGE_BYTES
          then Ok (True, consume stream avail, app \<lparr> decode_failures := decode_failures app + 1, http_resync_scanned := 0 \<rparr>)
          else Ok (False, stream, app)))"

section \<open>DNS over TCP\<close>

lemma available_after_consume: "available (consume st n) = available st - n"
  by (auto simp: available_def consume_def Let_def)

function dns_poll_loop :: "TcpReassembler \<Rightarrow> Applications \<Rightarrow> DnsTable \<Rightarrow> (TcpReassembler \<times> Applications \<times> DnsTable) res" where
  "dns_poll_loop stream app table =
     (if available stream < 2 then Ok (stream, app, table)
      else bind_res (peek stream) (\<lambda>span. bind_res (byte_at span 0) (\<lambda>hi. bind_res (byte_at span 1) (\<lambda>lo.
        let msg_len = unat (push_bit 8 (ucast hi) OR ucast lo :: u16) in
        if available stream < 2 + msg_len then Ok (stream, app, table)
        else bind_res (subspan_n span 2 msg_len) (\<lambda>msg.
          case dns_parse msg Big of
            UB \<Rightarrow> UB
          | Err _ \<Rightarrow> dns_poll_loop (consume stream (2 + msg_len)) (app \<lparr> decode_failures := decode_failures app + 1 \<rparr>) table
          | Ok (header, _) \<Rightarrow>
              dns_poll_loop (consume stream (2 + msg_len)) (app \<lparr> dns_messages := dns_messages app @ [header] \<rparr>)
                (DnsTable_record table header))))))"
  by pat_completeness auto
termination
  by (relation "measure (\<lambda>(stream, _, _). available stream)") (auto simp: available_after_consume)

declare dns_poll_loop.simps [simp del]

section \<open>HTTP\<close>

text \<open>The variables of the HTTP loop, and how one turn of it ends.\<close>

record http_poll =
  hp_stream :: TcpReassembler
  hp_app :: Applications
  hp_peer :: Applications

datatype 'a loop_step = Break 'a | Continue 'a

datatype body_outcome = BodyDone span Applications | BodyIncomplete span Applications | BodyBad

definition resync_step :: "http_poll \<Rightarrow> http_poll loop_step res" where
  "resync_step st =
     bind_res (resyncHttp (hp_stream st) (hp_app st)) (\<lambda>(resynced, stream, app).
       let st = st \<lparr> hp_stream := stream, hp_app := app \<rparr> in
       Ok (if \<not> resynced then Break st else Continue st))"

text \<open>A response takes the oldest pending request of the other direction.\<close>

definition take_head_response :: "http_Header \<Rightarrow> http_poll \<Rightarrow> bool \<times> http_poll" where
  "take_head_response header st =
     (let pending = pending_head_requests (hp_peer st) in
      if http_isResponse header \<and> http_status_code header \<ge> 200 \<and> pending \<noteq> []
      then (hd pending, st \<lparr> hp_peer := hp_peer st \<lparr> pending_head_requests := tl pending \<rparr> \<rparr>)
      else (False, st))"

definition http_body :: "http_Header \<Rightarrow> bool \<Rightarrow> span \<Rightarrow> Applications \<Rightarrow> body_outcome res" where
  "http_body header head_response span app =
     (if bodyForbidden header \<or> head_response then Ok (BodyDone span app)
      else if http_chunked header then
        bind_res (subspan span (http_chunk_prefix app)) (\<lambda>span.
        case parseChunkedBody span of
          ChunkUB \<Rightarrow> UB
        | ChunkFail e validated \<Rightarrow>
            if e = UnexpectedEof
            then Ok (BodyIncomplete span (app \<lparr> http_chunk_prefix := http_chunk_prefix app + validated \<rparr>))
            else Ok BodyBad
        | ChunkOk span _ \<Rightarrow> Ok (BodyDone span (app \<lparr> http_chunk_prefix := 0 \<rparr>)))
      else if http_has_content_length header then
        if length span < unat (http_content_length header) then Ok (BodyIncomplete span app)
        else bind_res (subspan span (unat (http_content_length header))) (\<lambda>span. Ok (BodyDone span app))
      else if http_isResponse header then Ok (BodyDone span (app \<lparr> http_body_until_close := True \<rparr>))
      else Ok (BodyDone span app))"

definition note_request :: "http_Header \<Rightarrow> Applications \<Rightarrow> Applications" where
  "note_request header app =
     (if http_isRequest header \<and> length (pending_head_requests app) < MAX_PENDING_REQUESTS
      then app \<lparr> pending_head_requests := pending_head_requests app @ [http_method header = ''HEAD''] \<rparr>
      else app)"

definition push_message :: "http_Header \<Rightarrow> Applications \<Rightarrow> Applications" where
  "push_message header app = app \<lparr> http_messages := http_messages app @ [header] \<rparr>"

text \<open>The turn after a header was parsed, with \<open>span\<close> at the body.\<close>

definition http_message :: "http_poll \<Rightarrow> http_Header \<Rightarrow> nat \<Rightarrow> span \<Rightarrow> http_poll loop_step res" where
  "http_message st header start_size span =
     (let (head_response, st) = take_head_response header st in
      bind_res (http_body header head_response span (hp_app st)) (\<lambda>outcome.
      case outcome of
        BodyBad \<Rightarrow> resync_step st
      | BodyIncomplete span app \<Rightarrow>
          let st = st \<lparr> hp_app := app \<rparr> in
          if available (hp_stream st) > MAX_HTTP_MESSAGE_BYTES then
            if http_has_content_length header \<and> \<not> http_chunked header then
              let header_bytes = start_size - length span; body_len = unat (http_content_length header);
                  app = push_message header (note_request header app) in
              Ok (Continue (st \<lparr> hp_stream := consume (hp_stream st) header_bytes,
                     hp_app := app \<lparr> http_skip := body_len, http_bodies_skipped := http_bodies_skipped app + 1 \<rparr> \<rparr>))
            else resync_step st
          else Ok (Break st)
      | BodyDone span app \<Rightarrow>
          Ok (Continue (st \<lparr> hp_stream := consume (hp_stream st) (start_size - length span),
                 hp_app := push_message header (note_request header app) \<rparr>))))"

definition http_turn :: "http_poll \<Rightarrow> http_poll loop_step res" where
  "http_turn st =
     (let stream = hp_stream st; app = hp_app st in
      if http_skip app > 0 then
        let n = min (http_skip app) (available stream);
            st = st \<lparr> hp_stream := consume stream n, hp_app := app \<lparr> http_skip := http_skip app - n \<rparr> \<rparr> in
        Ok (if http_skip (hp_app st) > 0 then Break st else Continue st)
      else if http_body_until_close app then
        Ok (Break (st \<lparr> hp_stream := consume stream (available stream) \<rparr>))
      else
        bind_res (peek stream) (\<lambda>full.
        let start_size = length full; window = min start_size MAX_HTTP_HEADER_BYTES in
        bind_res (first_n full window) (\<lambda>span.
        case http_parse span http_Header_init of
          UB \<Rightarrow> UB
        | Err e \<Rightarrow>
            if e = UnexpectedEof then
              if available stream > MAX_HTTP_HEADER_BYTES then resync_step st else Ok (Break st)
            else resync_step st
        | Ok (header, span) \<Rightarrow>
            bind_res (subspan full (window - length span)) (\<lambda>span. http_message st header start_size span))))"

subsection \<open>Every turn that goes on has consumed bytes\<close>

lemma resync_scan_Some:
  "resync_scan v p = Some at \<Longrightarrow> 3 \<le> at \<and> p < at \<and> at \<le> length v"
proof (induction v p rule: resync_scan.induct)
  case (1 v p)
  obtain q where q: "find_from newline v p = Some q" using "1.prems" by (cases "find_from newline v p") (simp_all add: resync_scan.simps)
  note pos = find_from_Some [OF q]
  show ?case
  proof (cases "q < 2 \<or> v ! (q - 1) \<noteq> CR")
    case True
    then have "resync_scan v (q + 1) = Some at" using "1.prems" q by (simp add: resync_scan.simps [of v p])
    then show ?thesis using "1.IH"(1) [OF q True] pos by simp
  next
    case False
    show ?thesis
    proof (cases "list_ex (\<lambda>m. take (length m) (drop (q + 1) v) = m) resync_markers")
      case True
      then have "at = q + 1" using "1.prems" q False by (simp add: resync_scan.simps [of v p])
      then show ?thesis using pos False by simp
    next
      case no: False
      then have "resync_scan v (q + 1) = Some at" using "1.prems" q False by (simp add: resync_scan.simps [of v p])
      then show ?thesis using "1.IH"(2) [OF q False refl no] pos by simp
    qed
  qed
qed

lemma findHttpResync_Some: "findHttpResync buf n = Some at \<Longrightarrow> 3 \<le> at \<and> at \<le> length buf"
  unfolding findHttpResync_def using resync_scan_Some by fastforce

lemma peek_Ok: "peek st = Ok buf \<Longrightarrow> length buf = available st \<and> buf = unread st"
  by (auto simp: peek_def subspan_def available_def unread_def split: if_splits)

lemma resync_step_available:
  assumes "resync_step st = Ok r"
  shows "case r of
      Continue st' \<Rightarrow> available (hp_stream st') < available (hp_stream st)
    | Break st' \<Rightarrow> hp_stream st' = hp_stream st \<and> available (hp_stream st) \<le> MAX_HTTP_MESSAGE_BYTES"
proof -
  obtain buf where buf: "peek (hp_stream st) = Ok buf"
    using assms by (cases "peek (hp_stream st)") (simp_all add: resync_step_def resyncHttp_def Let_def)
  show ?thesis
  proof (cases "findHttpResync buf (http_resync_scanned (hp_app st))")
    case (Some at)
    then show ?thesis using assms buf findHttpResync_Some [OF Some] peek_Ok [OF buf]
      by (auto simp: resync_step_def resyncHttp_def Let_def available_after_consume)
  next
    case None
    then show ?thesis using assms buf
      by (auto simp: resync_step_def resyncHttp_def Let_def available_after_consume split: if_splits)
  qed
qed

lemma chunk_loop_moved: "chunk_loop n span b out = ChunkOk rest d \<Longrightarrow> moved span rest"
proof (induction span arbitrary: b out rule: measure_induct_rule [of length])
  case (less span)
  then obtain c next_span where h: "chunk_head span = Ok (c, next_span)"
    by (cases "chunk_head span") (auto simp: chunk_loop_head [of n span])
  note m = chunk_head_moved [OF h]
  show ?case
  proof (cases c)
    case None
    then show ?thesis using less.prems h m by (simp add: chunk_loop_head [of n span])
  next
    case (Some d')
    then have "chunk_loop n next_span (n - length next_span) (out @ d') = ChunkOk rest d"
      using less.prems h by (simp add: chunk_loop_head [of n span])
    then show ?thesis using less.IH [OF moved_shorter [OF m]] moved_trans [OF m] by blast
  qed
qed

lemma http_body_shorter:
  assumes "http_body header hr span app = Ok b"
  shows "case b of BodyDone rest _ \<Rightarrow> length rest \<le> length span
    | BodyIncomplete rest _ \<Rightarrow> http_chunked header \<or> rest = span
    | BodyBad \<Rightarrow> True"
proof (cases "\<not> bodyForbidden header \<and> \<not> hr \<and> http_chunked header")
  case True
  then obtain tail where tail: "subspan span (http_chunk_prefix app) = Ok tail"
    using assms by (cases "subspan span (http_chunk_prefix app)") (simp_all add: http_body_def)
  then have "length tail \<le> length span" by (auto simp: subspan_def split: if_splits)
  then show ?thesis using assms True tail
    by (auto simp: http_body_def parseChunkedBody_def split: chunk_result.splits if_splits dest!: chunk_loop_moved moved_shorter)
next
  case False
  then show ?thesis using assms by (auto simp: http_body_def split: if_splits)
qed

lemma take_head_response_keeps:
  "take_head_response header st = (hr, st') \<Longrightarrow> hp_stream st' = hp_stream st"
  "take_head_response header st = (hr, st') \<Longrightarrow> hp_app st' = hp_app st"
  by (auto simp: take_head_response_def Let_def split: if_splits)

lemma http_message_available:
  assumes "http_message st header n span = Ok r" and "n = available (hp_stream st)" and "length span < n"
  shows "case r of
      Continue st' \<Rightarrow> available (hp_stream st') < available (hp_stream st)
    | Break st' \<Rightarrow> available (hp_stream st') \<le> MAX_HTTP_MESSAGE_BYTES"
proof -
  obtain hr st1 where hr: "take_head_response header st = (hr, st1)" by (cases "take_head_response header st") auto
  note keep = take_head_response_keeps [OF hr]
  obtain b where b: "http_body header hr span (hp_app st1) = Ok b"
    using assms(1) hr by (cases "http_body header hr span (hp_app st1)") (simp_all add: http_message_def)
  note short = http_body_shorter [OF b]
  show ?thesis
  proof (cases b)
    case (BodyDone rest app)
    then show ?thesis using assms hr b short keep by (auto simp: http_message_def available_after_consume)
  next
    case (BodyIncomplete rest app)
    let ?st = "st1 \<lparr> hp_app := app \<rparr>"
    show ?thesis
    proof (cases "available (hp_stream st) > MAX_HTTP_MESSAGE_BYTES \<and> \<not> (http_has_content_length header \<and> \<not> http_chunked header)")
      case True
      then have "resync_step ?st = Ok r" using assms(1) hr b BodyIncomplete keep by (auto simp: http_message_def Let_def)
      from resync_step_available [OF this] show ?thesis using keep by (auto split: loop_step.splits)
    next
      case False
      have r: "r = (if available (hp_stream st) > MAX_HTTP_MESSAGE_BYTES
          then Continue (?st \<lparr> hp_stream := consume (hp_stream st) (n - length rest),
            hp_app := (push_message header (note_request header app)) \<lparr> http_skip := unat (http_content_length header),
              http_bodies_skipped := http_bodies_skipped (push_message header (note_request header app)) + 1 \<rparr> \<rparr>)
          else Break ?st)"
        using False assms(1) hr b BodyIncomplete keep by (simp add: http_message_def Let_def split: if_split_asm)
      show ?thesis
      proof (cases "available (hp_stream st) > MAX_HTTP_MESSAGE_BYTES")
        case True
        then have "rest = span" using False short BodyIncomplete by simp
        then show ?thesis using True assms(2,3) by (simp add: r available_after_consume)
      next
        case False
        then show ?thesis using keep by (simp add: r)
      qed
    qed
  next
    case BodyBad
    then have "resync_step st1 = Ok r" using assms(1) hr b by (simp add: http_message_def)
    from resync_step_available [OF this] show ?thesis using keep by (auto split: loop_step.splits)
  qed
qed

lemma http_turn_available:
  assumes "http_turn st = Ok r"
  shows "case r of
      Continue st' \<Rightarrow> available (hp_stream st') < available (hp_stream st)
    | Break st' \<Rightarrow> available (hp_stream st') \<le> MAX_HTTP_MESSAGE_BYTES"
proof (cases "http_skip (hp_app st) > 0 \<or> http_body_until_close (hp_app st)")
  case True
  then show ?thesis using assms by (auto simp: http_turn_def Let_def available_after_consume min_def split: if_splits)
next
  case False
  obtain full where full: "peek (hp_stream st) = Ok full"
    using assms False by (cases "peek (hp_stream st)") (simp_all add: http_turn_def Let_def)
  note len = peek_Ok [OF full]
  let ?w = "min (length full) MAX_HTTP_HEADER_BYTES"
  show ?thesis
  proof (cases "http_parse (take ?w full) http_Header_init")
    case UB
    then show ?thesis using assms False full by (simp add: http_turn_def Let_def)
  next
    case (Err e)
    then have "resync_step st = Ok r \<or> r = Break st \<and> available (hp_stream st) \<le> MAX_HTTP_HEADER_BYTES"
      using assms False full by (auto simp: http_turn_def Let_def split: if_splits)
    then show ?thesis using resync_step_available [of st r]
      by (auto simp: MAX_HTTP_HEADER_BYTES_def MAX_HTTP_MESSAGE_BYTES_def split: loop_step.splits)
  next
    case (Ok q)
    then obtain header span where q: "http_parse (take ?w full) http_Header_init = Ok (header, span)" by (cases q) auto
    then have "moved (take ?w full) span" using http_parse_Ok [OF q] by (simp add: http_Header_init_def)
    then have short: "length span < ?w" using moved_shorter [of "take ?w full" span] by simp
    then have "http_message st header (length full) (drop (?w - length span) full) = Ok r"
      using assms False full q by (simp add: http_turn_def Let_def)
    then show ?thesis using short len by (intro http_message_available) auto
  qed
qed

function http_poll_loop :: "http_poll \<Rightarrow> http_poll res" where
  "http_poll_loop st =
     bind_res (http_turn st) (\<lambda>r. case r of Break st \<Rightarrow> Ok st | Continue st \<Rightarrow> http_poll_loop st)"
  by pat_completeness auto
termination
  by (relation "measure (\<lambda>st. available (hp_stream st))") (auto dest: http_turn_available)

declare http_poll_loop.simps [simp del]

section \<open>Operations of the decoder\<close>

definition pollStream :: "FlowKey \<Rightarrow> TcpReassembler \<Rightarrow> Applications \<Rightarrow> Applications \<Rightarrow> DnsTable \<Rightarrow>
    (TcpReassembler \<times> Applications \<times> Applications \<times> DnsTable) res" where
  "pollStream key stream app peer table =
     (if \<not> hasReadableData stream then Ok (stream, app, peer, table)
      else if fk_src_port key = dns_PORT \<or> fk_dst_port key = dns_PORT then
        bind_res (dns_poll_loop stream app table) (\<lambda>(stream, app, table). Ok (stream, app, peer, table))
      else if fk_src_port key = http_PORT \<or> fk_dst_port key = http_PORT then
        bind_res (http_poll_loop \<lparr> hp_stream = stream, hp_app = app, hp_peer = peer \<rparr>) (\<lambda>st.
        Ok (hp_stream st, hp_app st, hp_peer st, table))
      else Ok (stream, app, peer, table))"

text \<open>
  \<open>appStateFor\<close> returns a reference to the node of a flow; here the node's key, the flow with
  its pointer set, and the map. The pointer of a flow may outlive its node.
\<close>

definition appStateFor :: "FlowKey \<Rightarrow> Flow \<Rightarrow> bool \<Rightarrow> AppDecoder \<Rightarrow> (FlowKey \<times> Flow \<times> AppDecoder) res" where
  "appStateFor key flow flow_is_new apps =
     (let (node, flow, apps) =
        (case app_state flow of
           Some node \<Rightarrow> (node, flow, apps)
         | None \<Rightarrow> (key, flow \<lparr> app_state := Some key \<rparr>,
             if map_of apps key = None then AList.update key FlowApplications_init apps else apps)) in
      if map_of apps node = None then UB
      else Ok (node, flow, if flow_is_new then AList.update node FlowApplications_init apps else apps))"

definition node_at :: "AppDecoder \<Rightarrow> FlowKey \<Rightarrow> FlowApplications res" where
  "node_at apps node = (case map_of apps node of None \<Rightarrow> UB | Some fa \<Rightarrow> Ok fa)"

definition pollFlow :: "FlowKey \<Rightarrow> Flow \<Rightarrow> bool \<Rightarrow> AppDecoder \<Rightarrow> DnsTable \<Rightarrow> (Flow \<times> AppDecoder \<times> DnsTable) res" where
  "pollFlow key flow flow_is_new apps table =
     (if fk_src_port key \<noteq> dns_PORT \<and> fk_dst_port key \<noteq> dns_PORT \<and>
         fk_src_port key \<noteq> http_PORT \<and> fk_dst_port key \<noteq> http_PORT then Ok (flow, apps, table)
      else
        bind_res (appStateFor key flow flow_is_new apps) (\<lambda>(node, flow, apps).
        bind_res (node_at apps node) (\<lambda>fa.
        if is_reverse flow then
          bind_res (pollStream key (rev_tcp flow) (fa_rev fa) (fa_fwd fa) table) (\<lambda>(stream, app, peer, table).
          Ok (flow \<lparr> rev_tcp := stream \<rparr>, AList.update node \<lparr> fa_fwd = peer, fa_rev = app \<rparr> apps, table))
        else
          bind_res (pollStream key (fwd_tcp flow) (fa_fwd fa) (fa_rev fa) table) (\<lambda>(stream, app, peer, table).
          Ok (flow \<lparr> fwd_tcp := stream \<rparr>, AList.update node \<lparr> fa_fwd = app, fa_rev = peer \<rparr> apps, table)))))"

definition dns_datagram :: "span \<Rightarrow> Applications \<Rightarrow> DnsTable \<Rightarrow> (Applications \<times> DnsTable) res" where
  "dns_datagram datagram app table =
     (case dns_parse datagram Big of
        UB \<Rightarrow> UB
      | Err _ \<Rightarrow> Ok (app \<lparr> decode_failures := decode_failures app + 1 \<rparr>, table)
      | Ok (header, _) \<Rightarrow> Ok (app \<lparr> dns_messages := dns_messages app @ [header] \<rparr>, DnsTable_record table header))"

definition pollDatagram :: "FlowKey \<Rightarrow> Flow \<Rightarrow> span \<Rightarrow> bool \<Rightarrow> AppDecoder \<Rightarrow> DnsTable \<Rightarrow> (Flow \<times> AppDecoder \<times> DnsTable) res" where
  "pollDatagram key flow datagram flow_is_new apps table =
     (if datagram = [] then Ok (flow, apps, table)
      else if fk_src_port key \<noteq> dns_PORT \<and> fk_dst_port key \<noteq> dns_PORT then Ok (flow, apps, table)
      else
        bind_res (appStateFor key flow flow_is_new apps) (\<lambda>(node, flow, apps).
        bind_res (node_at apps node) (\<lambda>fa.
        if is_reverse flow then
          bind_res (dns_datagram datagram (fa_rev fa) table) (\<lambda>(app, table).
          Ok (flow, AList.update node (fa \<lparr> fa_rev := app \<rparr>) apps, table))
        else
          bind_res (dns_datagram datagram (fa_fwd fa) table) (\<lambda>(app, table).
          Ok (flow, AList.update node (fa \<lparr> fa_fwd := app \<rparr>) apps, table)))))"

definition AppDecoder_reset :: "FlowKey \<Rightarrow> AppDecoder \<Rightarrow> AppDecoder" where
  "AppDecoder_reset key apps = AList.delete key apps"

definition prune :: "FlowTable \<Rightarrow> AppDecoder \<Rightarrow> AppDecoder" where
  "prune table = filter (\<lambda>(key, _). map_of (flows table) key \<noteq> None)"

definition getApplications :: "AppDecoder \<Rightarrow> FlowKey \<Rightarrow> bool \<Rightarrow> Applications option" where
  "getApplications apps key reverse =
     map_option (\<lambda>fa. if reverse then fa_rev fa else fa_fwd fa) (map_of apps key)"

end
