(* ===== verification/Dns_Message.thy ===== *)
theory Dns_Message
  imports Dns
begin

text \<open>
  DNS messages on the wire: an encoder for names, questions and records as RFC 1035
  prescribes them (without compression), and the proof that the parser of \<open>Dns\<close> inverts it.
\<close>

section \<open>Encoders\<close>

definition enc_name :: "span list \<Rightarrow> span" where
  "enc_name ls = concat (map (\<lambda>l. of_nat (length l) # l) ls) @ [0]"

definition labels_ok :: "span list \<Rightarrow> bool" where
  "labels_ok ls \<longleftrightarrow> list_all (\<lambda>l. 0 < length l \<and> length l < 64) ls \<and> octets_of ls \<le> 255"

record question_data =
  qd_labels :: "span list"
  qd_type :: u16
  qd_class :: u16

record record_data =
  rd_labels :: "span list"
  rd_type :: u16
  rd_class :: u16
  rd_ttl :: u32
  rd_rdata :: span

definition enc_question :: "question_data \<Rightarrow> span" where
  "enc_question q = enc_name (qd_labels q) @ bytes16 (qd_type q) @ bytes16 (qd_class q)"

definition enc_record :: "record_data \<Rightarrow> span" where
  "enc_record r = enc_name (rd_labels r) @ bytes16 (rd_type r) @ bytes16 (rd_class r) @ bytes32 (rd_ttl r) @
     bytes16 (of_nat (length (rd_rdata r))) @ rd_rdata r"

definition question_of :: "question_data \<Rightarrow> dns_Question" where
  "question_of q = \<lparr> q_name = join_labels (qd_labels q), q_qtype = qd_type q, q_qclass = qd_class q \<rparr>"

definition record_of :: "record_data \<Rightarrow> dns_ResourceRecord" where
  "record_of r = \<lparr> rr_name = join_labels (rd_labels r), rr_type = rd_type r, rr_rclass = rd_class r,
     rr_ttl = rd_ttl r, rr_rdata = rd_rdata r \<rparr>"

definition enc_counts :: "u16 \<Rightarrow> u16 \<Rightarrow> nat \<Rightarrow> nat \<Rightarrow> nat \<Rightarrow> nat \<Rightarrow> span" where
  "enc_counts i f qd an ns ar = bytes16 i @ bytes16 f @ bytes16 (of_nat qd) @ bytes16 (of_nat an) @
     bytes16 (of_nat ns) @ bytes16 (of_nat ar)"

definition enc_message :: "u16 \<Rightarrow> u16 \<Rightarrow> question_data list \<Rightarrow> record_data list \<Rightarrow> record_data list \<Rightarrow> record_data list \<Rightarrow> span" where
  "enc_message i f qs an ns ar =
     enc_counts i f (length qs) (length an) (length ns) (length ar) @ concat (map enc_question qs) @
     concat (map enc_record an) @ concat (map enc_record ns) @ concat (map enc_record ar)"

definition message_of :: "u16 \<Rightarrow> u16 \<Rightarrow> question_data list \<Rightarrow> record_data list \<Rightarrow> record_data list \<Rightarrow> record_data list \<Rightarrow> dns_Header" where
  "message_of i f qs an ns ar =
     \<lparr> dns_id = i, dns_flags = f, dns_qdcount = of_nat (length qs), dns_ancount = of_nat (length an),
       dns_nscount = of_nat (length ns), dns_arcount = of_nat (length ar), dns_questions = map question_of qs,
       dns_answers = map record_of an, dns_authority = map record_of ns, dns_additional = map record_of ar \<rparr>"

section \<open>Reading at an offset\<close>

lemma drop_append_at: "drop off msg = xs @ rest \<Longrightarrow> drop (off + length xs) msg = rest"
  by (metis add.commute append_eq_conv_conj drop_drop)

lemma drop_at_length: "drop off msg = xs @ rest \<Longrightarrow> xs \<noteq> [] \<Longrightarrow> off + length xs \<le> length msg"
proof -
  assume "drop off msg = xs @ rest" "xs \<noteq> []"
  then have "length msg - off = length xs + length rest" "0 < length xs"
    by (metis length_append length_drop, simp)
  then show ?thesis by linarith
qed

lemma drop_at_nth: "drop off msg = x # rest \<Longrightarrow> off < length msg \<and> msg ! off = x"
  by (metis drop_eq_Nil hd_drop_conv_nth list.distinct(1) list.sel(1) not_le_imp_less)

lemma parse_name_bytes:
  assumes "drop cur msg = enc_name ls @ rest" and "off \<le> cur" and "off \<le> length msg"
    and "list_all (\<lambda>l. 0 < length l \<and> length l < 64) ls" and "octets + octets_of ls \<le> 255"
  shows "parseName_loop msg off cur 0 octets ceiling name = Ok (extend_name name ls, cur + length (enc_name ls))"
  using assms
proof (induction ls arbitrary: cur octets name)
  case Nil
  then have "drop cur msg = 0 # rest" by (simp add: enc_name_def)
  from drop_at_nth [OF this] show ?case
    using Nil.prems(2,3) by (subst parseName_step) (auto simp: enc_name_def)
next
  case (Cons l ls)
  have d: "drop cur msg = of_nat (length l) # l @ enc_name ls @ rest"
    using Cons.prems(1) by (simp add: enc_name_def)
  have len: "0 < length l" "length l < 64" using Cons.prems(4) by simp_all
  have b: "cur < length msg" "unat (msg ! cur) = length l"
    using drop_at_nth [OF d] len by (simp_all add: unat_of_nat_u8)
  have "drop (cur + 1) msg = l @ enc_name ls @ rest" using d by (metis drop_drop add.commute drop0 drop_Suc_Cons One_nat_def)
  then have lab: "take (length l) (drop (cur + 1) msg) = l" "cur + 1 + length l \<le> length msg"
    and next': "drop (cur + 1 + length l) msg = enc_name ls @ rest"
    using drop_at_length [of "cur + 1" msg l] len drop_append_at [of "cur + 1" msg l] by simp_all
  have "parseName_loop msg off (cur + 1 + length l) 0 (octets + (length l + 1)) ceiling
      ((if name \<noteq> [] then name @ ''.'' else name) @ text_of l) =
    Ok (extend_name ((if name \<noteq> [] then name @ ''.'' else name) @ text_of l) ls, cur + 1 + length l + length (enc_name ls))"
    using Cons.prems by (intro Cons.IH [OF next']) simp_all
  moreover have "octets + (length l + 1) \<le> 255" using Cons.prems(5) by simp
  ultimately show ?case
    using len lab b Cons.prems(2,3) unfolding parseName_step [OF b(1) impI [OF Cons.prems(2)] Cons.prems(3)] Let_def b(2)
    by (simp add: enc_name_def)
qed

lemma parseName_bytes:
  assumes "drop off msg = enc_name ls @ rest" and "labels_ok ls"
  shows "parseName msg off = Ok (join_labels ls, off + length (enc_name ls))"
proof -
  have "off \<le> length msg" using drop_at_length [OF assms(1)] by (simp add: enc_name_def)
  moreover have "\<forall>l\<in>set ls. l \<noteq> []" using assms(2) by (auto simp: labels_ok_def list_all_iff)
  ultimately show ?thesis
    using parse_name_bytes [OF assms(1) order.refl, of 0 "- 1" "[]"] assms(2)
    by (simp add: parseName_def labels_ok_def extend_name_join)
qed

lemma be16_drop: "be16 bs i = be16 (drop i bs) 0"
  by (simp add: be16_def)

lemma be32_drop: "be32 bs i = be32 (drop i bs) 0"
  by (simp add: be32_def)

lemma parseQuestion_bytes:
  assumes "drop off msg = enc_question q @ rest" and "labels_ok (qd_labels q)"
  shows "parseQuestion msg off Big = Ok (question_of q, off + length (enc_question q))"
proof -
  let ?n = "enc_name (qd_labels q)"
  let ?w = "bytes16 (qd_type q) @ bytes16 (qd_class q)"
  have d: "drop off msg = ?n @ ?w @ rest" using assms(1) by (simp add: enc_question_def)
  then have w: "drop (off + length ?n) msg = ?w @ rest" by (rule drop_append_at)
  have len: "off + length ?n + 4 \<le> length msg" using drop_at_length [OF w] by (simp add: bytes16_def)
  have "take 4 (drop (off + length ?n) msg) = ?w" by (simp add: w)
  moreover have "be16 ?w 0 = qd_type q" "be16 ?w 2 = qd_class q"
    using be16_bytes16 [of "qd_class q" "[]"] by (simp_all add: be16_drop [of _ 2])
  ultimately show ?thesis
    using len by (simp add: parseQuestion_def parseName_bytes [OF d assms(2)] QUESTION_HEADER_LEN_def question_of_def
        toHost16_raw16 enc_question_def)
qed

lemma parseResourceRecord_bytes:
  assumes "drop off msg = enc_record r @ rest" and "labels_ok (rd_labels r)" and "length (rd_rdata r) < 65536"
  shows "parseResourceRecord msg off Big = Ok (record_of r, off + length (enc_record r))"
proof -
  let ?n = "enc_name (rd_labels r)" and ?l = "of_nat (length (rd_rdata r)) :: u16"
  let ?w = "bytes16 (rd_type r) @ bytes16 (rd_class r) @ bytes32 (rd_ttl r) @ bytes16 ?l"
  have d: "drop off msg = ?n @ ?w @ rd_rdata r @ rest" using assms(1) by (simp add: enc_record_def)
  then have w: "drop (off + length ?n) msg = ?w @ rd_rdata r @ rest" by (rule drop_append_at)
  then have rdata: "drop (off + length ?n + 10) msg = rd_rdata r @ rest"
    using drop_append_at [of "off + length ?n" msg ?w] by simp
  have len: "off + length ?n + 10 + length (rd_rdata r) \<le> length msg"
    using drop_at_length [of "off + length ?n" msg "?w @ rd_rdata r" rest] w by (simp add: bytes16_def)
  then have room: "\<not> length msg - (off + length ?n) < 10" "\<not> length msg - (off + length ?n + 10) < length (rd_rdata r)"
    by linarith+
  have "take 10 (drop (off + length ?n) msg) = ?w" by (simp add: w)
  moreover have "be16 ?w 0 = rd_type r" "be16 ?w 2 = rd_class r" "be32 ?w 4 = rd_ttl r" "be16 ?w 8 = ?l"
    using be16_bytes16 [of ?l "[]"] by (simp_all add: be16_drop [of _ 2] be16_drop [of _ 8] be32_drop [of _ 4])
  ultimately show ?thesis
    using len rdata room assms(3) by (simp add: parseResourceRecord_def parseName_bytes [OF d assms(2)] RESOURCE_HEADER_LEN_def
        record_of_def toHost16_raw16 toHost32_raw32 enc_record_def unat_of_nat_u16 Let_def)
qed

lemma parse_section_bytes:
  assumes "\<And>off x rest. x \<in> set xs \<Longrightarrow> drop off msg = enc x @ rest \<Longrightarrow> parse1 off = Ok (dec x, off + length (enc x))"
    and "drop off msg = concat (map enc xs) @ rest"
  shows "parse_section parse1 (length xs) off = Ok (map dec xs, off + length (concat (map enc xs)))"
  using assms
proof (induction xs arbitrary: off)
  case (Cons x xs)
  have d: "drop off msg = enc x @ concat (map enc xs) @ rest" using Cons.prems(2) by simp
  have "parse1 off = Ok (dec x, off + length (enc x))" using Cons.prems(1) [OF _ d] by simp
  moreover have "parse_section parse1 (length xs) (off + length (enc x)) =
      Ok (map dec xs, off + length (enc x) + length (concat (map enc xs)))"
    by (rule Cons.IH) (use Cons.prems(1) drop_append_at [OF d] in auto)
  ultimately show ?case by simp
qed simp

section \<open>Sizes\<close>

lemma length_enc_name: "length (enc_name ls) = octets_of ls + 1"
  by (induction ls) (simp_all add: enc_name_def)

lemma length_enc_question_ge: "5 \<le> length (enc_question q)"
  by (simp add: enc_question_def length_enc_name)

lemma length_enc_record_ge: "11 \<le> length (enc_record r)"
  by (simp add: enc_record_def length_enc_name)

lemma length_concat_ge: "(\<And>x. n \<le> length (f x)) \<Longrightarrow> n * length xs \<le> length (concat (map f xs))"
proof (induction xs)
  case (Cons x xs)
  then show ?case using add_mono [OF Cons.prems [of x] Cons.IH [OF Cons.prems]] by simp
qed simp

lemma length_enc_counts [simp]: "length (enc_counts i f qd an ns ar) = 12"
  by (simp add: enc_counts_def)

lemma enc_counts_fields:
  fixes i f :: u16 and qd an ns ar :: nat
  defines "b \<equiv> enc_counts i f qd an ns ar"
  shows "toHost16 (raw16 b 0) Big = i" "toHost16 (raw16 b 2) Big = f" "toHost16 (raw16 b 4) Big = of_nat qd"
    "toHost16 (raw16 b 6) Big = of_nat an" "toHost16 (raw16 b 8) Big = of_nat ns" "toHost16 (raw16 b 10) Big = of_nat ar"
proof -
  have "be16 b 0 = i" "be16 b 2 = f" "be16 b 4 = of_nat qd" "be16 b 6 = of_nat an" "be16 b 8 = of_nat ns"
    "be16 b 10 = of_nat ar"
    using be16_bytes16 [of "of_nat ar" "[]"]
    by (simp_all add: b_def enc_counts_def be16_drop [of _ 2] be16_drop [of _ 4] be16_drop [of _ 6]
        be16_drop [of _ 8] be16_drop [of _ 10])
  then show "toHost16 (raw16 b 0) Big = i" "toHost16 (raw16 b 2) Big = f" "toHost16 (raw16 b 4) Big = of_nat qd"
    "toHost16 (raw16 b 6) Big = of_nat an" "toHost16 (raw16 b 8) Big = of_nat ns" "toHost16 (raw16 b 10) Big = of_nat ar"
    by (simp_all add: toHost16_raw16 b_def)
qed

lemma room_arith:
  fixes a x y z q X Y Z m r :: nat
  assumes "5 * a \<le> q" and "11 * x \<le> X" and "11 * y \<le> Y" and "11 * z \<le> Z" and "m = 12 + q + X + Y + Z + r"
  shows "\<not> m - 12 < a * 5 + (x + y + z) * 11"
  using assms by (simp add: add_mult_distrib)

section \<open>Properties\<close>

text \<open>
  C15. Any byte sequence can be handed to the DNS parser: it never reads outside the message,
  always returns, and what it accepts has as many entries in each section as the header
  announces, no more than the message has room for, names of at most 254 characters, and
  leaves a proper part of the buffer.
\<close>

theorem dns_parse_safe:
  "holds (\<lambda>(h, rest). dns_wf msg h \<and> sublist rest msg \<and> length rest < length msg) (dns_parse msg endian)"
  by (rule dns_parse_holds)

text \<open>
  C16. Name parsing refines RFC 1035: when \<open>parseName\<close> accepts, there is exactly one list of
  labels that the message holds at that offset, read through compression pointers, and the
  result is those labels joined by dots, within the limit of 255 octets.
\<close>

theorem parseName_refines:
  assumes "parseName msg off = Ok (name, off')" and "off \<le> length msg"
  shows "\<exists>!ls. name_at msg off ls \<and> name = join_labels ls \<and> octets_of ls \<le> 255"
proof -
  have "name_post msg off off 0 0 [] (name, off')"
    using parseName_loop_holds [of 0 off off msg 0 "[]" "- 1"] assms by (simp add: parseName_def)
  then obtain ls where ls: "name_at msg off ls" "name = extend_name [] ls" "octets_of ls \<le> 255"
    by (auto simp: name_post_def)
  have "extend_name [] ls = join_labels ls" using name_at_labels [OF ls(1)] by (intro extend_name_join) auto
  with ls show ?thesis using name_at_unique by metis
qed

theorem parseName_refines_witness:
  "\<exists>!ls. name_at [1, 97, 0, 2, 98, 99, 0xC0, 0] 3 ls \<and> ''bc.a'' = join_labels ls \<and> octets_of ls \<le> 255"
proof -
  have "parseName [1, 97, 0, 2, 98, 99, 0xC0, 0] 3 = Ok (''bc.a'', 8)"
    by code_simp
  from parseName_refines [OF this] show ?thesis by simp
qed

text \<open>
  C17. The parser reads back what an encoder writes: for any questions and records whose names
  have labels of 1 to 63 octets and at most 255 octets together, the encoded message parses
  to those questions and records, and what follows the message is left over.
\<close>

theorem dns_parse_roundtrip:
  assumes "length qs < 65536" and "length an < 65536" and "length ns < 65536" and "length ar < 65536"
    and "\<forall>q\<in>set qs. labels_ok (qd_labels q)"
    and "\<forall>r\<in>set (an @ ns @ ar). labels_ok (rd_labels r) \<and> length (rd_rdata r) < 65536"
  shows "dns_parse (enc_message i f qs an ns ar @ rest) Big = Ok (message_of i f qs an ns ar, rest)"
proof -
  let ?h = "enc_counts i f (length qs) (length an) (length ns) (length ar)"
  let ?q = "concat (map enc_question qs)" and ?R = "\<lambda>rs. concat (map enc_record rs)"
  define msg where "msg = enc_message i f qs an ns ar @ rest"
  have msg: "msg = ?h @ ?q @ ?R an @ ?R ns @ ?R ar @ rest" by (simp add: msg_def enc_message_def)
  have q: "drop 12 msg = ?q @ ?R an @ ?R ns @ ?R ar @ rest" by (simp add: msg)
  note an = drop_append_at [OF q] note ns = drop_append_at [OF an] note ar = drop_append_at [OF ns]
  have questions: "parse_section (\<lambda>off. parseQuestion msg off Big) (length qs) 12 = Ok (map question_of qs, 12 + length ?q)"
    using assms(5) by (intro parse_section_bytes [OF _ q] parseQuestion_bytes) auto
  have sec: "parse_section (\<lambda>off. parseResourceRecord msg off Big) (length rs) off = Ok (map record_of rs, off + length (?R rs))"
    if "set rs \<subseteq> set (an @ ns @ ar)" "drop off msg = ?R rs @ tail" for rs off tail
    using assms(6) that(1) by (intro parse_section_bytes [OF _ that(2)] parseResourceRecord_bytes) auto
  have "5 * length qs \<le> length ?q" by (rule length_concat_ge [OF length_enc_question_ge])
  moreover have "11 * length rs \<le> length (?R rs)" for rs by (rule length_concat_ge [OF length_enc_record_ge])
  note this [of an] this [of ns] this [of ar]
  moreover have length_msg: "length msg = 12 + length ?q + length (?R an) + length (?R ns) + length (?R ar) + length rest" by (simp add: msg)
  ultimately have room: "\<not> length msg - 12 < length qs * 5 + (length an + length ns + length ar) * 11" by (rule room_arith)
  have "take 12 msg = ?h" by (simp add: msg)
  then have hdr: "memcpy msg 12 = Ok ?h" by (simp add: memcpy_def msg)
  have "set an \<subseteq> set (an @ ns @ ar)" "set ns \<subseteq> set (an @ ns @ ar)" "set ar \<subseteq> set (an @ ns @ ar)" by auto
  note sections = sec [OF this(1) an] sec [OF this(2) ns] sec [OF this(3) ar]
  have "dns_parse msg Big = Ok (message_of i f qs an ns ar, rest)"
    using room assms(1-4) sections drop_append_at [OF ar]
    by (simp add: dns_parse_def dns_HEADER_LEN_def QUESTION_HEADER_LEN_def RESOURCE_HEADER_LEN_def hdr enc_counts_fields
        unat_of_nat_u16 Let_def questions message_of_def length_msg)
  then show ?thesis by (simp only: msg_def)
qed

theorem dns_parse_roundtrip_witness:
  "\<exists>h. dns_parse ([0, 7, 0x81, 0x80, 0, 1, 0, 1, 0, 0, 0, 0, 1, 97, 0, 0, 1, 0, 1,
      1, 97, 0, 0, 1, 0, 1, 0, 0, 0, 60, 0, 4, 10, 0, 0, 1] @ []) Big = Ok (h, []) \<and>
    dns_questions h = [\<lparr> q_name = ''a'', q_qtype = 1, q_qclass = 1 \<rparr>] \<and>
    dns_answers h = [\<lparr> rr_name = ''a'', rr_type = 1, rr_rclass = 1, rr_ttl = 60, rr_rdata = [10, 0, 0, 1] \<rparr>]"
proof -
  let ?q = "\<lparr> qd_labels = [[97]], qd_type = 1, qd_class = 1 \<rparr>"
  let ?r = "\<lparr> rd_labels = [[97]], rd_type = 1, rd_class = 1, rd_ttl = 60, rd_rdata = [10, 0, 0, 1] \<rparr>"
  have bytes: "enc_message 7 0x8180 [?q] [?r] [] [] =
      [0, 7, 0x81, 0x80, 0, 1, 0, 1, 0, 0, 0, 0, 1, 97, 0, 0, 1, 0, 1,
       1, 97, 0, 0, 1, 0, 1, 0, 0, 0, 60, 0, 4, 10, 0, 0, 1]"
    by (simp add: enc_message_def enc_counts_def enc_question_def enc_record_def enc_name_def bytes16_def bytes32_def)
  have name: "join_labels [[97]] = ''a''" by code_simp
  have "labels_ok [[97]]" by (simp add: labels_ok_def)
  then show ?thesis
    using dns_parse_roundtrip [of "[?q]" "[?r]" "[]" "[]" 7 "0x8180" "[]", unfolded bytes]
    by (simp add: message_of_def question_of_def record_of_def name)
qed

end
