(* ===== verification/App_Dns.thy ===== *)
theory App_Dns
  imports App_Decoder Dns_Message
begin

text \<open>
  DNS over TCP: what a poll of a stream on port 53 does, as a function of the bytes of the
  stream, and that it does not depend on how the bytes were cut into segments.
\<close>

section \<open>Frames\<close>

text \<open>The specification: a stream is a sequence of messages, each after its length in two bytes.\<close>

function dns_frames :: "u8 list \<Rightarrow> span list \<times> u8 list" where
  "dns_frames (hi # lo # rest) =
     (let n = unat hi * 256 + unat lo in
      if length rest < n then ([], hi # lo # rest)
      else (case dns_frames (drop n rest) of (msgs, left) \<Rightarrow> (take n rest # msgs, left)))"
| "dns_frames [] = ([], [])"
| "dns_frames [b] = ([], [b])"
  by pat_completeness auto
termination
  by (relation "measure length") auto

definition dns_frame :: "span \<Rightarrow> u8 list" where
  "dns_frame msg = [of_nat (length msg div 256), of_nat (length msg mod 256)] @ msg"

lemma dns_frames_frame:
  assumes "length msg < 65536"
  shows "dns_frames (dns_frame msg @ s) = (msg # fst (dns_frames s), snd (dns_frames s))"
proof -
  have "length msg div 256 < 256" using assms by simp
  then have "unat (of_nat (length msg div 256) :: u8) * 256 + unat (of_nat (length msg mod 256) :: u8) = length msg"
    by (simp add: unat_of_nat_u8)
  then show ?thesis by (simp add: dns_frame_def case_prod_unfold)
qed

lemma dns_frames_all:
  "\<forall>m\<in>set ms. length m < 65536 \<Longrightarrow> dns_frames (concat (map dns_frame ms)) = (ms, [])"
  by (induction ms) (simp_all add: dns_frames_frame)

text \<open>Frames can be read piecewise: what is left over is continued by what comes.\<close>

lemma dns_frames_append:
  "dns_frames (s @ t) =
     (fst (dns_frames s) @ fst (dns_frames (snd (dns_frames s) @ t)), snd (dns_frames (snd (dns_frames s) @ t)))"
proof (induction s rule: dns_frames.induct)
  case (1 hi lo rest)
  let ?n = "unat hi * 256 + unat lo"
  show ?case
  proof (cases "length rest < ?n")
    case False
    then show ?thesis using 1 [OF refl False] by (simp add: Let_def case_prod_unfold)
  qed (simp add: Let_def prod_eq_iff)
qed simp_all

lemma dns_frames_left: "length (snd (dns_frames s)) < 65537"
proof (induction s rule: dns_frames.induct)
  case (1 hi lo rest)
  have "unat hi * 256 + unat lo < 65536" using unat_u8_less [of hi] unat_u8_less [of lo] by linarith
  then show ?case using 1 by (simp add: Let_def case_prod_unfold)
qed simp_all

section \<open>One poll\<close>

text \<open>What reading leaves alone in a reassembler.\<close>

definition conn_of :: "TcpReassembler \<Rightarrow> TcpReassembler" where
  "conn_of st = st \<lparr> assembled := [], read_pos := 0 \<rparr>"

lemma conn_of_consume [simp]: "conn_of (consume st n) = conn_of st"
  by (simp add: conn_of_def consume_def Let_def)

definition dns_headers :: "span list \<Rightarrow> dns_Header list" where
  "dns_headers ms = List.map_filter (\<lambda>m. case dns_parse m Big of Ok (h, _) \<Rightarrow> Some h | _ \<Rightarrow> None) ms"

definition dns_failed :: "span list \<Rightarrow> nat" where
  "dns_failed ms = length (filter (\<lambda>m. \<exists>e. dns_parse m Big = Err e) ms)"

lemma dns_headers_simps [simp]:
  "dns_headers [] = []" "dns_headers (xs @ ys) = dns_headers xs @ dns_headers ys"
  "dns_parse m Big = Ok (h, r) \<Longrightarrow> dns_headers (m # ms) = h # dns_headers ms"
  "dns_parse m Big = Err e \<Longrightarrow> dns_headers (m # ms) = dns_headers ms"
  by (simp_all add: dns_headers_def List.map_filter_def)

lemma dns_failed_simps [simp]:
  "dns_failed [] = 0" "dns_failed (xs @ ys) = dns_failed xs + dns_failed ys"
  "dns_parse m Big = Ok q \<Longrightarrow> dns_failed (m # ms) = dns_failed ms"
  "dns_parse m Big = Err e \<Longrightarrow> dns_failed (m # ms) = Suc (dns_failed ms)"
  by (simp_all add: dns_failed_def)

definition dns_decoded :: "span list \<Rightarrow> Applications \<Rightarrow> Applications" where
  "dns_decoded ms app = app \<lparr> dns_messages := dns_messages app @ dns_headers ms,
     decode_failures := decode_failures app + of_nat (dns_failed ms) \<rparr>"

lemma dns_decoded_append: "dns_decoded ys (dns_decoded xs app) = dns_decoded (xs @ ys) app"
  by (simp add: dns_decoded_def add.assoc)

lemma frame_length: "unat (push_bit 8 (ucast hi) OR ucast lo :: u16) = unat hi * 256 + unat lo" for hi lo :: u8
proof -
  have up: "unat (ucast b :: u16) = unat b" for b :: u8 using unat_u8_less [of b] by (simp add: unsigned_ucast_eq take_bit_eq_mod)
  have "unat (push_bit 8 (ucast hi :: u16) OR ucast lo) = unat (ucast hi :: u16) * 2 ^ 8 + unat (ucast lo :: u16)"
    using unat_u8_less [of hi] unat_u8_less [of lo]
    by (intro unat_push_bit_or [where m = 8]) (simp_all add: up)
  then show ?thesis by (simp add: up)
qed

definition dns_polled :: "TcpReassembler \<Rightarrow> Applications \<Rightarrow> DnsTable \<Rightarrow> TcpReassembler \<times> Applications \<times> DnsTable \<Rightarrow> bool" where
  "dns_polled stream app table r = (case r of (stream', app', table') \<Rightarrow>
     readable stream' \<and> conn_of stream' = conn_of stream \<and> unread stream' = snd (dns_frames (unread stream)) \<and>
     app' = dns_decoded (fst (dns_frames (unread stream))) app \<and>
     table' = foldl DnsTable_record table (dns_headers (fst (dns_frames (unread stream)))))"

lemma dns_frames_short: "length s < 2 \<Longrightarrow> dns_frames s = ([], s)"
  by (cases s rule: dns_frames.cases) simp_all

lemma dns_poll_loop_exact:
  assumes "readable stream"
  shows "\<exists>r. dns_poll_loop stream app table = Ok r \<and> dns_polled stream app table r"
  using assms
proof (induction stream app table rule: dns_poll_loop.induct)
  case (1 stream app table)
  note inv = "1.prems"
  have av: "available stream = length (unread stream)" by (rule read_buffer.available_view [OF inv])
  have stop: "dns_polled stream app table (stream, app, table)" if "dns_frames (unread stream) = ([], unread stream)"
    using that inv by (simp add: dns_polled_def dns_decoded_def)
  show ?case
  proof (cases "available stream < 2")
    case True
    then show ?thesis using stop dns_frames_short av by (simp add: dns_poll_loop.simps [of stream])
  next
    case False
    then obtain hi lo rest where u: "unread stream = hi # lo # rest"
      by (cases "unread stream" rule: dns_frames.cases) (simp_all add: av)
    let ?n = "unat hi * 256 + unat lo"
    show ?thesis
    proof (cases "available stream < 2 + ?n")
      case True
      then show ?thesis using stop False u av inv
        by (simp add: dns_poll_loop.simps [of stream] read_buffer.peek_view frame_length Let_def)
    next
      case enough: False
      let ?msg = "take ?n rest" and ?s = "consume stream (2 + ?n)"
      have next_inv: "readable ?s" "unread ?s = drop ?n rest"
        using read_buffer.consume_ok [OF inv] read_buffer.consume_view [OF inv] u by simp_all
      have frames: "dns_frames (unread stream) = (?msg # fst (dns_frames (drop ?n rest)), snd (dns_frames (drop ?n rest)))"
        using enough u av by (simp add: Let_def case_prod_unfold)
      have step: "dns_poll_loop stream app table = (case dns_parse ?msg Big of UB \<Rightarrow> UB
          | Err _ \<Rightarrow> dns_poll_loop ?s (app \<lparr> decode_failures := decode_failures app + 1 \<rparr>) table
          | Ok (h, _) \<Rightarrow> dns_poll_loop ?s (app \<lparr> dns_messages := dns_messages app @ [h] \<rparr>) (DnsTable_record table h))"
        using False enough u av inv
        by (simp add: dns_poll_loop.simps [of stream] read_buffer.peek_view frame_length Let_def)
      have IH: "\<exists>r. dns_poll_loop ?s app' table' = Ok r \<and> dns_polled ?s app' table' r"
        if "(\<exists>e. dns_parse ?msg Big = Err e) \<and> app' = app \<lparr> decode_failures := decode_failures app + 1 \<rparr> \<and> table' = table \<or>
          (\<exists>h r. dns_parse ?msg Big = Ok (h, r) \<and> app' = app \<lparr> dns_messages := dns_messages app @ [h] \<rparr> \<and> table' = DnsTable_record table h)"
        for app' table'
        using "1.IH" False enough u av inv that next_inv(1) by (auto simp: read_buffer.peek_view frame_length)
      show ?thesis
      proof (cases "dns_parse ?msg Big")
        case UB
        then show ?thesis using holds_safe [OF dns_parse_holds [of ?msg Big]] by simp
      next
        case (Err e)
        then show ?thesis using IH next_inv
          by (fastforce simp: step dns_polled_def frames dns_decoded_def)
      next
        case (Ok q)
        then obtain h r where "dns_parse ?msg Big = Ok (h, r)" by (cases q) auto
        then show ?thesis using IH next_inv
          by (fastforce simp: step dns_polled_def frames dns_decoded_def)
      qed
    qed
  qed
qed

section \<open>A stream in pieces\<close>

text \<open>The next bytes of the stream arrive in order, and the decoder polls, as after every packet.\<close>

fun poll_feed :: "FlowKey \<Rightarrow> span list \<Rightarrow> TcpReassembler \<times> Applications \<times> Applications \<times> DnsTable \<Rightarrow>
    (TcpReassembler \<times> Applications \<times> Applications \<times> DnsTable) res" where
  "poll_feed key [] s = Ok s"
| "poll_feed key (bs # pieces) (stream, app, peer, table) =
     bind_res (ingest stream (next_seq stream) bs) (\<lambda>stream.
     bind_res (pollStream key stream app peer table) (\<lambda>s. poll_feed key pieces s))"

definition in_order :: "TcpReassembler \<Rightarrow> bool" where
  "in_order st \<longleftrightarrow> reassembler_inv st \<and> keep_payload st \<and> out_of_order st = [] \<and> state st = Established"

lemma ingest_in_order:
  assumes "in_order st"
  shows "\<exists>st'. ingest st (next_seq st) bs = Ok st' \<and> in_order st' \<and> unread st' = unread st @ bs"
  using assms
  by (auto simp: ingest_def drain_def in_order_def reassembler_inv_def unread_def Let_def queue_ok_def)

lemma in_order_conn: "in_order st \<Longrightarrow> conn_of st' = conn_of st \<Longrightarrow> readable st' \<Longrightarrow> in_order st'"
  by (cases st; cases st') (simp add: in_order_def conn_of_def readable_def reassembler_inv_def)

lemma dns_frames_none: "fst (dns_frames s) = [] \<Longrightarrow> snd (dns_frames s) = s"
  by (cases s rule: dns_frames.cases) (auto simp: Let_def case_prod_unfold split: if_splits)

lemma dns_frames_left_none: "fst (dns_frames (snd (dns_frames s))) = []"
proof (induction s rule: dns_frames.induct)
  case (1 hi lo rest)
  then show ?case by (simp add: Let_def case_prod_unfold)
qed simp_all

lemma pollStream_dns:
  assumes "fk_src_port key = dns_PORT \<or> fk_dst_port key = dns_PORT" and "in_order stream"
  shows "\<exists>stream'. pollStream key stream app peer table =
      Ok (stream', dns_decoded (fst (dns_frames (unread stream))) app, peer,
        foldl DnsTable_record table (dns_headers (fst (dns_frames (unread stream))))) \<and>
    in_order stream' \<and> unread stream' = snd (dns_frames (unread stream))"
proof -
  have inv: "readable stream" and read: "hasReadableData stream"
    using assms(2) by (simp_all add: in_order_def hasReadableData_def readable_inv)
  obtain r where r: "dns_poll_loop stream app table = Ok r" "dns_polled stream app table r"
    using dns_poll_loop_exact [OF inv] by blast
  obtain stream' app' table' where "r = (stream', app', table')" by (cases r) auto
  with r show ?thesis using assms read in_order_conn [OF assms(2), of stream']
    by (auto simp: pollStream_def dns_polled_def)
qed

lemma poll_feed_dns:
  assumes "fk_src_port key = dns_PORT \<or> fk_dst_port key = dns_PORT"
    and "in_order stream" and "fst (dns_frames (unread stream)) = []"
  shows "\<exists>stream'. poll_feed key pieces (stream, app, peer, table) =
      Ok (stream', dns_decoded (fst (dns_frames (unread stream @ concat pieces))) app, peer,
        foldl DnsTable_record table (dns_headers (fst (dns_frames (unread stream @ concat pieces))))) \<and>
    unread stream' = snd (dns_frames (unread stream @ concat pieces))"
  using assms(2,3)
proof (induction pieces arbitrary: stream app table)
  case Nil
  then show ?case by (simp add: dns_decoded_def dns_frames_none)
next
  case (Cons bs pieces)
  obtain st1 where st1: "ingest stream (next_seq stream) bs = Ok st1" "in_order st1" "unread st1 = unread stream @ bs"
    using ingest_in_order [OF Cons.prems(1)] by blast
  obtain st2 where st2: "in_order st2" "unread st2 = snd (dns_frames (unread st1))"
    "pollStream key st1 app peer table = Ok (st2, dns_decoded (fst (dns_frames (unread st1))) app, peer,
        foldl DnsTable_record table (dns_headers (fst (dns_frames (unread st1)))))"
    using pollStream_dns [OF assms(1) st1(2)] by blast
  have "fst (dns_frames (unread st2)) = []" by (simp add: st2(2) dns_frames_left_none)
  from Cons.IH [OF st2(1) this, of "dns_decoded (fst (dns_frames (unread st1))) app"
      "foldl DnsTable_record table (dns_headers (fst (dns_frames (unread st1))))"]
  moreover have "unread stream @ concat (bs # pieces) = unread st1 @ concat pieces" by (simp add: st1(3))
  ultimately show ?case using st1(1) st2
    by (simp add: dns_decoded_append dns_frames_append [of "unread st1" "concat pieces"] del: concat.simps)
qed

section \<open>Properties\<close>

text \<open>
  C6. DNS over TCP is decoded exactly, however the stream is cut into segments: when the
  length-prefixed messages \<open>ms\<close> arrive in order in any pieces, with a poll after each, the
  headers recorded are those of the messages that parse, in order, the failures are the
  others, every answer is in the table, no byte is left and nothing undefined happens.
\<close>

theorem dns_over_tcp_exact:
  assumes "fk_src_port key = dns_PORT \<or> fk_dst_port key = dns_PORT" and "in_order stream" and "unread stream = []"
    and "concat pieces = concat (map dns_frame ms)" and "\<forall>m\<in>set ms. length m < 65536"
  shows "\<exists>stream' app'. poll_feed key pieces (stream, app, peer, table) =
      Ok (stream', app', peer, foldl DnsTable_record table (dns_headers ms)) \<and> unread stream' = [] \<and>
    dns_messages app' = dns_messages app @ dns_headers ms \<and>
    decode_failures app' = decode_failures app + of_nat (length ms - length (dns_headers ms))"
proof -
  have "length ms = length (dns_headers ms) + dns_failed ms"
  proof (induction ms)
    case (Cons m ms)
    show ?case using Cons holds_safe [OF dns_parse_holds [of m Big]] by (cases "dns_parse m Big") auto
  qed simp
  moreover have "dns_frames (unread stream @ concat pieces) = (ms, [])"
    using assms(3-5) dns_frames_all by simp
  ultimately show ?thesis
    using poll_feed_dns [OF assms(1,2), of pieces app peer table] assms(3) by (auto simp: dns_decoded_def)
qed

theorem dns_over_tcp_exact_witness:
  "\<exists>stream' app'. poll_feed (FlowKey_zero \<lparr> fk_dst_port := 53 \<rparr>) [[0], [3, 1], [2, 3]]
      (TcpReassembler_init \<lparr> state := Established \<rparr>, Applications_init, Applications_init, []) =
      Ok (stream', app', Applications_init, foldl DnsTable_record [] (dns_headers [[1, 2, 3]])) \<and> unread stream' = [] \<and>
    dns_messages app' = dns_messages Applications_init @ dns_headers [[1, 2, 3]] \<and>
    decode_failures app' = decode_failures Applications_init + of_nat (length [[1, 2, 3 :: u8]] - length (dns_headers [[1, 2, 3]]))"
  by (rule dns_over_tcp_exact)
     (simp_all add: dns_PORT_def in_order_def reassembler_inv_def TcpReassembler_init_def queue_ok_def unread_def dns_frame_def)

end
