(* ===== verification/App_Http.thy ===== *)
theory App_Http
  imports App_Dns
begin

text \<open>
  HTTP streams: the poll of the application decoder as a function of the unread bytes, and
  that it refines the program's loop over the reassembler's buffer whenever no \<open>HEAD\<close> request
  of the other direction is pending.
\<close>

section \<open>The poll over bytes\<close>

type_synonym http_view = "u8 list \<times> Applications"

definition q_resync :: "u8 list \<Rightarrow> Applications \<Rightarrow> http_view loop_step" where
  "q_resync u app =
     (let app = app \<lparr> http_chunk_prefix := 0, http_body_until_close := False \<rparr> in
      case findHttpResync u (http_resync_scanned app) of
        Some at \<Rightarrow> Continue (drop at u, app \<lparr> decode_failures := decode_failures app + 1, http_resync_scanned := 0 \<rparr>)
      | None \<Rightarrow>
          if length u > MAX_HTTP_MESSAGE_BYTES
          then Continue ([], app \<lparr> decode_failures := decode_failures app + 1, http_resync_scanned := 0 \<rparr>)
          else Break (u, app \<lparr> http_resync_scanned := length u - 8 \<rparr>))"

definition q_message :: "u8 list \<Rightarrow> Applications \<Rightarrow> http_Header \<Rightarrow> span \<Rightarrow> http_view loop_step res" where
  "q_message u app header span =
     bind_res (http_body header False span app) (\<lambda>outcome.
     Ok (case outcome of
        BodyBad \<Rightarrow> q_resync u app
      | BodyIncomplete span app \<Rightarrow>
          if length u > MAX_HTTP_MESSAGE_BYTES then
            if http_has_content_length header \<and> \<not> http_chunked header then
              let app = push_message header (note_request header app) in
              Continue (drop (length u - length span) u, app \<lparr> http_skip := unat (http_content_length header),
                http_bodies_skipped := http_bodies_skipped app + 1 \<rparr>)
            else q_resync u app
          else Break (u, app)
      | BodyDone span app \<Rightarrow> Continue (drop (length u - length span) u, push_message header (note_request header app))))"

definition http_window :: "u8 list \<Rightarrow> span" where
  "http_window u = take MAX_HTTP_HEADER_BYTES u"

definition q_turn :: "http_view \<Rightarrow> http_view loop_step res" where
  "q_turn v = (case v of (u, app) \<Rightarrow>
     if http_skip app > 0 then
       let n = min (http_skip app) (length u); v' = (drop n u, app \<lparr> http_skip := http_skip app - n \<rparr>) in
       Ok (if n < http_skip app then Break v' else Continue v')
     else if http_body_until_close app then Ok (Break ([], app))
     else case http_parse (http_window u) http_Header_init of
         UB \<Rightarrow> UB
       | Err e \<Rightarrow> Ok (if e = UnexpectedEof \<and> length u \<le> MAX_HTTP_HEADER_BYTES then Break (u, app) else q_resync u app)
       | Ok (header, span) \<Rightarrow> q_message u app header (drop (length (http_window u) - length span) u))"

section \<open>Refinement of a turn\<close>

definition http_abs :: "http_poll \<Rightarrow> http_view" where
  "http_abs st = (unread (hp_stream st), hp_app st)"

definition no_head_pending :: "Applications \<Rightarrow> bool" where
  "no_head_pending app \<longleftrightarrow> True \<notin> set (pending_head_requests app)"

text \<open>What the loop keeps of the stream and the other direction.\<close>

definition http_kept :: "http_poll \<Rightarrow> http_poll \<Rightarrow> bool" where
  "http_kept st st' \<longleftrightarrow> reassembler_inv (hp_stream st') \<and> conn_of (hp_stream st') = conn_of (hp_stream st) \<and>
     (\<exists>n. hp_peer st' = hp_peer st \<lparr> pending_head_requests := drop n (pending_head_requests (hp_peer st)) \<rparr>)"

fun turn_refines :: "http_poll \<Rightarrow> http_poll loop_step res \<Rightarrow> http_view loop_step res \<Rightarrow> bool" where
  "turn_refines st UB UB = True"
| "turn_refines st (Ok (Break st')) (Ok (Break v)) \<longleftrightarrow> http_abs st' = v \<and> http_kept st st'"
| "turn_refines st (Ok (Continue st')) (Ok (Continue v)) \<longleftrightarrow> http_abs st' = v \<and> http_kept st st'"
| "turn_refines st r q = False"

lemma http_kept_refl: "reassembler_inv (hp_stream st) \<Longrightarrow> http_kept st st"
  by (auto simp: http_kept_def intro!: exI [of _ 0])

lemma http_kept_trans: "http_kept a b \<Longrightarrow> http_kept b c \<Longrightarrow> http_kept a c"
  by (auto simp: http_kept_def)

lemma no_head_pending_kept: "no_head_pending (hp_peer st) \<Longrightarrow> http_kept st st' \<Longrightarrow> no_head_pending (hp_peer st')"
  by (auto simp: http_kept_def no_head_pending_def dest: in_set_dropD)

lemma turn_refines_kept:
  "http_kept st st1 \<Longrightarrow> turn_refines st1 r q \<Longrightarrow> turn_refines st r q"
  by (cases "(st1, r, q)" rule: turn_refines.cases) (auto dest: http_kept_trans)

lemma resync_step_refines:
  assumes "reassembler_inv (hp_stream st)"
  shows "turn_refines st (resync_step st) (Ok (q_resync (unread (hp_stream st)) (hp_app st)))"
proof -
  note view = tcp_stream.peek_view [OF assms] tcp_stream.available_view [OF assms]
  have kept: "http_kept st (st \<lparr> hp_stream := consume (hp_stream st) n, hp_app := app \<rparr>)"
    "http_kept st (st \<lparr> hp_app := app \<rparr>)" for n app
    using http_kept_refl [of st] tcp_stream.consume_ok [OF assms] assms by (auto simp: http_kept_def)
  show ?thesis
    using kept assms tcp_stream.consume_view [OF assms]
    by (auto simp: resync_step_def resyncHttp_def q_resync_def Let_def view http_abs_def split: option.split)
qed

lemma http_body_no_Err: "http_body header hr span app \<noteq> Err e"
  by (auto simp: http_body_def subspan_def split: chunk_result.split)

lemma http_message_refines:
  assumes "reassembler_inv (hp_stream st)" and "no_head_pending (hp_peer st)"
  shows "turn_refines st (http_message st header (length (unread (hp_stream st))) span) (q_message (unread (hp_stream st)) (hp_app st) header span)"
proof -
  obtain hr st1 where hr: "take_head_response header st = (hr, st1)" by (cases "take_head_response header st") auto
  note keep = take_head_response_keeps [OF hr]
  have "\<not> hr" using hr assms(2)
    by (auto simp: take_head_response_def no_head_pending_def Let_def split: if_splits dest: hd_in_set)
  have peer: "\<exists>n. hp_peer st1 = hp_peer st \<lparr> pending_head_requests := drop n (pending_head_requests (hp_peer st)) \<rparr>"
  proof (cases "st1 = st")
    case False
    then have "hp_peer st1 = hp_peer st \<lparr> pending_head_requests := drop 1 (pending_head_requests (hp_peer st)) \<rparr>"
      using hr by (auto simp: take_head_response_def Let_def drop_Suc split: if_splits)
    then show ?thesis by blast
  qed (auto intro: exI [of _ 0])
  have kept: "http_kept st (st1 \<lparr> hp_stream := consume (hp_stream st) n, hp_app := app \<rparr>)" for n app
    using peer assms(1) tcp_stream.consume_ok [OF assms(1)] by (auto simp: http_kept_def)
  have kept0: "http_kept st (st1 \<lparr> hp_app := app \<rparr>)" for app
    using peer assms(1) keep(1) by (auto simp: http_kept_def)
  have resync: "turn_refines st (resync_step (st1 \<lparr> hp_app := app \<rparr>)) (Ok (q_resync (unread (hp_stream st)) app))" for app
  proof (rule turn_refines_kept)
    show "http_kept st (st1 \<lparr> hp_app := app \<rparr>)" by (rule kept0)
    show "turn_refines (st1 \<lparr> hp_app := app \<rparr>) (resync_step (st1 \<lparr> hp_app := app \<rparr>)) (Ok (q_resync (unread (hp_stream st)) app))"
      using resync_step_refines [of "st1 \<lparr> hp_app := app \<rparr>"] assms(1) keep(1) by simp
  qed
  have now: "st1 \<lparr> hp_app := hp_app st \<rparr> = st1" using keep by simp
  note view = tcp_stream.available_view [OF assms(1)] and cview = tcp_stream.consume_view [OF assms(1)]
  show ?thesis
  proof (cases "http_body header False span (hp_app st)")
    case (Ok outcome)
    have stay: "turn_refines st (Ok (Break (st1 \<lparr> hp_app := app \<rparr>))) (Ok (Break (unread (hp_stream st), app)))" for app
      using kept0 keep(1) by (simp add: http_abs_def)
    have go: "turn_refines st (Ok (Continue (st1 \<lparr> hp_stream := consume (hp_stream st) n, hp_app := app \<rparr>)))
        (Ok (Continue (drop n (unread (hp_stream st)), app)))" for n app
      using kept cview by (simp add: http_abs_def)
    show ?thesis
      using stay go resync resync [of "hp_app st"] keep \<open>\<not> hr\<close>
      by (cases outcome) (simp_all add: http_message_def q_message_def hr Ok Let_def view now)
  next
    case (Err e)
    then show ?thesis by (simp add: http_body_no_Err)
  next
    case UB
    then show ?thesis using keep \<open>\<not> hr\<close> by (simp add: http_message_def q_message_def hr)
  qed
qed

lemma http_turn_refines:
  assumes "reassembler_inv (hp_stream st)" and "no_head_pending (hp_peer st)"
  shows "turn_refines st (http_turn st) (q_turn (http_abs st))"
proof -
  let ?u = "unread (hp_stream st)" and ?app = "hp_app st"
  note view = tcp_stream.peek_view [OF assms(1)] tcp_stream.available_view [OF assms(1)]
  have window: "take (length (http_window ?u)) ?u = http_window ?u"
    "min (length ?u) MAX_HTTP_HEADER_BYTES = length (http_window ?u)"
    by (simp_all add: http_window_def min_def)
  have kept: "http_kept st (st \<lparr> hp_stream := consume (hp_stream st) n, hp_app := app \<rparr>)"
    "http_kept st (st \<lparr> hp_stream := consume (hp_stream st) n \<rparr>)" for n app
    using http_kept_refl [of st] tcp_stream.consume_ok [OF assms(1)] assms(1) by (auto simp: http_kept_def)
  show ?thesis
  proof (cases "http_skip ?app > 0 \<or> http_body_until_close ?app")
    case True
    then show ?thesis using kept tcp_stream.consume_view [OF assms(1)]
      by (auto simp: http_turn_def q_turn_def http_abs_def view Let_def)
  next
    case False
    show ?thesis
    proof (cases "http_parse (http_window ?u) http_Header_init")
      case UB
      then show ?thesis using False by (simp add: http_turn_def q_turn_def http_abs_def view Let_def window)
    next
      case (Err e)
      then show ?thesis using False resync_step_refines [OF assms(1)] http_kept_refl [OF assms(1)]
        by (simp add: http_turn_def q_turn_def http_abs_def view Let_def window)
    next
      case (Ok q)
      then obtain header span where q: "http_parse (http_window ?u) http_Header_init = Ok (header, span)" by (cases q) auto
      have len: "length (http_window ?u) - length span \<le> length ?u" by (simp add: http_window_def)
      show ?thesis using False q http_message_refines [OF assms] len
        by (simp add: http_turn_def q_turn_def http_abs_def view Let_def window)
    qed
  qed
qed

section \<open>Refinement of the poll\<close>

lemma q_resync_shorter: "q_resync u app = Continue (u', app') \<Longrightarrow> length u' < length u"
  by (auto simp: q_resync_def Let_def split: option.splits if_splits dest!: findHttpResync_Some)

lemma q_message_shorter:
  assumes "q_message u app header span = Ok (Continue (u', app'))" and "length span < length u"
  shows "length u' < length u"
proof -
  obtain outcome where o: "http_body header False span app = Ok outcome"
    using assms(1) by (auto simp: q_message_def bind_res_Ok_iff)
  show ?thesis using assms http_body_shorter [OF o] q_resync_shorter
    by (cases outcome) (auto simp: q_message_def o Let_def split: if_splits)
qed

lemma q_turn_shorter:
  assumes "q_turn (u, app) = Ok (Continue (u', app'))"
  shows "length u' < length u"
proof (cases "http_skip app > 0 \<or> http_body_until_close app")
  case True
  then show ?thesis using assms by (auto simp: q_turn_def Let_def split: if_splits)
next
  case False
  show ?thesis
  proof (cases "http_parse (http_window u) http_Header_init")
    case (Ok q)
    then obtain header span where q: "http_parse (http_window u) http_Header_init = Ok (header, span)" by (cases q) auto
    have "moved (http_window u) span" using http_parse_Ok [OF q] by (simp add: http_Header_init_def)
    then have "length span < length (http_window u)" by (rule moved_shorter)
    moreover have "length (http_window u) \<le> length u" by (simp add: http_window_def)
    ultimately show ?thesis using assms False q q_message_shorter [of u app header _ u' app']
      by (simp add: q_turn_def)
  qed (use assms False q_resync_shorter in \<open>auto simp: q_turn_def split: if_splits\<close>)
qed

function q_poll :: "http_view \<Rightarrow> http_view res" where
  "q_poll v = bind_res (q_turn v) (\<lambda>r. case r of Break v \<Rightarrow> Ok v | Continue v \<Rightarrow> q_poll v)"
  by pat_completeness auto
termination
  by (relation "measure (\<lambda>(u, _). length u)") (auto dest: q_turn_shorter)

declare q_poll.simps [simp del]

lemma http_poll_refines:
  assumes "reassembler_inv (hp_stream st)" and "no_head_pending (hp_peer st)"
  shows "case q_poll (http_abs st) of UB \<Rightarrow> http_poll_loop st = UB | Err e \<Rightarrow> False
    | Ok v \<Rightarrow> (\<exists>st'. http_poll_loop st = Ok st' \<and> http_abs st' = v \<and> http_kept st st')"
  using assms
proof (induction st rule: http_poll_loop.induct)
  case (1 st)
  note turn = http_turn_refines [OF "1.prems"]
  consider (ub) "http_turn st = UB" "q_turn (http_abs st) = UB"
    | (brk) st' where "http_turn st = Ok (Break st')" "q_turn (http_abs st) = Ok (Break (http_abs st'))" "http_kept st st'"
    | (cont) st' where "http_turn st = Ok (Continue st')" "q_turn (http_abs st) = Ok (Continue (http_abs st'))" "http_kept st st'"
    using turn by (cases "(st, http_turn st, q_turn (http_abs st))" rule: turn_refines.cases) auto
  then show ?case
  proof cases
    case cont
    then have inv: "reassembler_inv (hp_stream st')" "no_head_pending (hp_peer st')"
      using "1.prems"(2) no_head_pending_kept by (auto simp: http_kept_def)
    show ?thesis using "1.IH" [OF cont(1) refl inv] cont http_kept_trans [OF cont(3)]
      by (auto simp: http_poll_loop.simps [of st] q_poll.simps [of "http_abs st"] split: res.splits)
  qed (simp_all add: http_poll_loop.simps [of st] q_poll.simps [of "http_abs st"])
qed

end
