(* ===== verification/App_Segments.thy ===== *)
theory App_Segments
  imports App_Http
begin

text \<open>
  HTTP streams in segments: a poll that stopped for lack of bytes continues where it
  stopped, so that the outcome does not depend on how the stream was cut; and polls are
  memory safe on every stream without bytes from \<open>0x80\<close> to \<open>0xFE\<close> as long as no \<open>HEAD\<close> request
  is pending in the other direction.
\<close>

section \<open>Searching for the next message\<close>

definition resync_hit :: "string \<Rightarrow> nat \<Rightarrow> bool" where
  "resync_hit v p \<longleftrightarrow> 2 \<le> p \<and> p < length v \<and> v ! p = newline \<and> v ! (p - 1) = CR \<and>
     (\<exists>m\<in>set resync_markers. take (length m) (drop (p + 1) v) = m)"

lemma find_from_first: "find_from c v pos = Some p \<Longrightarrow> pos \<le> q \<Longrightarrow> q < p \<Longrightarrow> v ! q \<noteq> c"
proof -
  assume f: "find_from c v pos = Some p" and q: "pos \<le> q" "q < p"
  then obtain i where i: "find_char c (drop pos v) = Some i" "p = pos + i" by (auto simp: find_from_def)
  then have "c \<notin> set (take i (drop pos v))" "i < length (drop pos v)" using find_char_Some [OF i(1)] by auto
  then have "drop pos v ! (q - pos) \<noteq> c" using q i(2) by (metis (no_types, lifting) diff_less_mono in_set_conv_nth
      length_take min.absorb4 nth_take add_diff_cancel_left')
  moreover have "drop pos v ! (q - pos) = v ! q" using q i(2) find_char_Some [OF i(1)] by (subst nth_drop) auto
  ultimately show ?thesis by simp
qed

lemma find_from_none: "find_from c v pos = None \<Longrightarrow> pos \<le> q \<Longrightarrow> q < length v \<Longrightarrow> v ! q \<noteq> c"
  by (auto simp: find_from_def find_char_None in_set_conv_nth dest!: spec [of _ "q - pos"])

text \<open>The scan finds the first hit.\<close>

lemma resync_scan_first:
  "case resync_scan v p of
     None \<Rightarrow> \<forall>q\<ge>p. \<not> resync_hit v q
   | Some at \<Rightarrow> \<exists>q\<ge>p. at = q + 1 \<and> resync_hit v q \<and> (\<forall>q'. p \<le> q' \<and> q' < q \<longrightarrow> \<not> resync_hit v q')"
proof (induction v p rule: resync_scan.induct)
  case (1 v p)
  show ?case
  proof (cases "find_from newline v p")
    case None
    then show ?thesis using find_from_none [OF None] by (auto simp: resync_scan.simps [of v p] resync_hit_def)
  next
    case (Some q)
    note pos = find_from_Some [OF Some] and before = find_from_first [OF Some]
    have early: "\<not> resync_hit v q'" if "p \<le> q'" "q' < q" for q' using before that by (auto simp: resync_hit_def)
    show ?thesis
    proof (cases "resync_hit v q")
      case True
      then have "resync_scan v p = Some (q + 1)" using Some by (auto simp: resync_scan.simps [of v p] resync_hit_def list_ex_iff)
      then show ?thesis using True pos early by auto
    next
      case False
      then have next_scan: "resync_scan v p = resync_scan v (q + 1)"
        using Some pos by (auto simp: resync_scan.simps [of v p] resync_hit_def list_ex_iff Let_def)
      have "case resync_scan v (q + 1) of None \<Rightarrow> \<forall>q'\<ge>q + 1. \<not> resync_hit v q'
         | Some at \<Rightarrow> \<exists>q'\<ge>q + 1. at = q' + 1 \<and> resync_hit v q' \<and> (\<forall>q''. q + 1 \<le> q'' \<and> q'' < q' \<longrightarrow> \<not> resync_hit v q'')"
      proof (cases "q < 2 \<or> v ! (q - 1) \<noteq> CR")
        case True
        then show ?thesis using "1.IH"(1) [OF Some] by blast
      next
        case cr: False
        then have "\<not> list_ex (\<lambda>m. take (length m) (drop (q + 1) v) = m) resync_markers"
          using False pos by (auto simp: resync_hit_def list_ex_iff)
        then show ?thesis using "1.IH"(2) [OF Some cr refl] by blast
      qed
      moreover have "\<not> resync_hit v q'" if "p \<le> q'" "q' \<le> q" for q'
        using early False that by (cases "q' = q") auto
      ultimately show ?thesis
        unfolding next_scan using pos by (cases "resync_scan v (q + 1)") (force simp: not_less_eq_eq Suc_le_eq)+
    qed
  qed
qed

lemma resync_scan_eqI:
  assumes "\<And>q. p \<le> q \<Longrightarrow> resync_hit v q \<longleftrightarrow> p' \<le> q \<and> resync_hit v q" and "p \<le> p'"
  shows "resync_scan v p = resync_scan v p'"
proof -
  have hits: "p \<le> q \<and> resync_hit v q \<longleftrightarrow> p' \<le> q \<and> resync_hit v q" for q using assms by (meson order_trans)
  show ?thesis
  proof (cases "resync_scan v p'")
    case None
    then have "\<not> (p' \<le> q \<and> resync_hit v q)" for q using resync_scan_first [where v = v and p = p'] by auto
    then have "\<not> (p \<le> q \<and> resync_hit v q)" for q using hits by blast
    then show ?thesis using resync_scan_first [where v = v and p = p] None by (cases "resync_scan v p") auto
  next
    case (Some at)
    then obtain q where q: "p' \<le> q" "at = q + 1" "resync_hit v q" "\<And>q'. p' \<le> q' \<Longrightarrow> q' < q \<Longrightarrow> \<not> resync_hit v q'"
      using resync_scan_first [where v = v and p = p'] by auto
    then have pq: "p \<le> q" and least: "\<And>q'. p \<le> q' \<Longrightarrow> q' < q \<Longrightarrow> \<not> resync_hit v q'" using hits by blast+
    obtain at' where at': "resync_scan v p = Some at'"
      using resync_scan_first [where v = v and p = p] pq q(3) by (cases "resync_scan v p") auto
    then obtain r where r: "p \<le> r" "at' = r + 1" "resync_hit v r" "\<And>q'. p \<le> q' \<Longrightarrow> q' < r \<Longrightarrow> \<not> resync_hit v q'"
      using resync_scan_first [where v = v and p = p] by auto
    then have "r = q" using least [of r] r(4) [of q] pq q(3) by (meson linorder_neqE_nat)
    then show ?thesis using at' r(2) q(2) Some by simp
  qed
qed

lemma marker_facts: "m \<in> set resync_markers \<Longrightarrow> length m \<le> 8 \<and> newline \<notin> set m"
  by (auto simp: resync_markers_def)

lemma take_whole: "take (length m) xs = m \<longleftrightarrow> (\<exists>ys. xs = m @ ys)"
  by (metis append_eq_conv_conj)

lemma resync_hit_iff:
  "resync_hit v p \<longleftrightarrow> 2 \<le> p \<and> p < length v \<and> v ! p = newline \<and> v ! (p - 1) = CR \<and>
     (\<exists>m\<in>set resync_markers. \<exists>ys. drop (p + 1) v = m @ ys)"
  by (simp only: resync_hit_def take_whole)

lemma resync_hit_append:
  assumes "resync_hit v p"
  shows "resync_hit (v @ w) p"
proof -
  obtain m ys where "m \<in> set resync_markers" "drop (p + 1) v = m @ ys" using assms by (auto simp: resync_hit_iff)
  moreover from this have "drop (p + 1) (v @ w) = m @ (ys @ w)" using assms by (simp add: resync_hit_def)
  ultimately show ?thesis using assms unfolding resync_hit_iff by (auto simp: nth_append)
qed

lemma resync_hit_visible:
  assumes "resync_hit (v @ w) q" and "q < length v" and "length v < q + 9 \<Longrightarrow> \<exists>p>q. p < length v \<and> v ! p = newline"
  shows "resync_hit v q"
proof -
  from assms(1) obtain m ys where m: "m \<in> set resync_markers" and d: "drop (q + 1) (v @ w) = m @ ys"
    by (auto simp only: resync_hit_iff)
  have at: "(v @ w) ! (q + 1 + i) = m ! i" if "i < length m" for i
  proof -
    have "drop (q + 1) (v @ w) ! i = (v @ w) ! (q + 1 + i)" using assms(2) by (intro nth_drop) simp
    then show ?thesis unfolding d using that by (simp add: nth_append)
  qed
  have fits: "q + 1 + length m \<le> length v"
  proof (rule ccontr)
    assume long: "\<not> ?thesis"
    then obtain p where p: "q < p" "p < length v" "v ! p = newline" using marker_facts [OF m] assms(3) by fastforce
    then have "m ! (p - (q + 1)) = newline" "p - (q + 1) < length m"
      using at [of "p - (q + 1)"] long by (auto simp: nth_append)
    then show False using marker_facts [OF m] nth_mem by metis
  qed
  have "drop (q + 1) v = take (length v - (q + 1)) (m @ ys)" using assms(2) by (simp flip: d)
  then have "drop (q + 1) v = m @ take (length v - (q + 1) - length m) ys" using fits by simp
  moreover have "(v @ w) ! (q - 1) = v ! (q - 1)" "(v @ w) ! q = v ! q" using assms(2) by (auto simp: nth_append)
  ultimately show ?thesis using assms(1,2) m unfolding resync_hit_iff by auto
qed

definition resync_from :: "nat \<Rightarrow> nat" where "resync_from s = (if s < 1 then 1 else s)"

lemma findHttpResync_found:
  assumes "findHttpResync u s = Some at"
  shows "findHttpResync (u @ t) s = Some at"
proof -
  let ?v = "text_of u" and ?w = "text_of t" and ?p = "resync_from s"
  obtain q where q: "?p \<le> q" "at = q + 1" "resync_hit ?v q" "\<And>q'. ?p \<le> q' \<Longrightarrow> q' < q \<Longrightarrow> \<not> resync_hit ?v q'"
    using resync_scan_first [where v = ?v and p = ?p] assms by (auto simp: findHttpResync_def resync_from_def)
  have nl: "q < length ?v" "?v ! q = newline" using q(3) by (simp_all add: resync_hit_def)
  have least: "\<not> resync_hit (?v @ ?w) q'" if "?p \<le> q'" "q' < q" for q'
    using q(4) [OF that] resync_hit_visible [of ?v ?w q'] nl that by auto
  have hit: "resync_hit (?v @ ?w) q" by (rule resync_hit_append [OF q(3)])
  then obtain at' where at': "resync_scan (?v @ ?w) ?p = Some at'"
    using resync_scan_first [where v = "?v @ ?w" and p = ?p] q(1) by (cases "resync_scan (?v @ ?w) ?p") auto
  then obtain r where r: "?p \<le> r" "at' = r + 1" "resync_hit (?v @ ?w) r" "\<And>q'. ?p \<le> q' \<Longrightarrow> q' < r \<Longrightarrow> \<not> resync_hit (?v @ ?w) q'"
    using resync_scan_first [where v = "?v @ ?w" and p = ?p] by auto
  have "r = q" using least [of r] r(4) [of q] r(1,3) q(1) hit by (meson linorder_neqE_nat)
  then show ?thesis using at' r(2) q(2) by (simp add: findHttpResync_def resync_from_def)
qed

text \<open>Bytes searched in vain need not be searched again, except for the last eight.\<close>

lemma findHttpResync_resume:
  assumes "findHttpResync u s = None" and "s \<le> length u - 8"
  shows "findHttpResync (u @ t) (length u - 8) = findHttpResync (u @ t) s"
proof -
  let ?v = "text_of u" and ?w = "text_of t"
  have none: "\<not> resync_hit ?v q" if "resync_from s \<le> q" for q
    using resync_scan_first [where v = ?v and p = "resync_from s"] assms(1) that
    by (auto simp: findHttpResync_def resync_from_def)
  have le: "resync_from s \<le> resync_from (length u - 8)" using assms(2) by (cases "s = 0"; cases "length u \<le> 8") (simp_all add: resync_from_def)
  have "resync_scan (?v @ ?w) (resync_from s) = resync_scan (?v @ ?w) (resync_from (length u - 8))"
  proof (rule resync_scan_eqI [OF _ le])
    fix q assume q: "resync_from s \<le> q"
    have "resync_from (length u - 8) \<le> q" if "resync_hit (?v @ ?w) q"
    proof (rule ccontr)
      assume "\<not> ?thesis"
      then have "q < length u - 8" using q by (simp add: resync_from_def split: if_splits)
      then have "resync_hit ?v q" using resync_hit_visible [OF that] by simp
      then show False using none [OF q] by blast
    qed
    then show "resync_hit (?v @ ?w) q \<longleftrightarrow> resync_from (length u - 8) \<le> q \<and> resync_hit (?v @ ?w) q" by blast
  qed
  then show ?thesis by (simp add: findHttpResync_def resync_from_def)
qed

section \<open>Bytes appended to a message\<close>

text \<open>The body that follows a parsed header.\<close>

definition body_of :: "u8 list \<Rightarrow> span \<Rightarrow> span" where
  "body_of u span = drop (length (http_window u) - length span) u"

lemma q_turn_parse:
  assumes "http_skip app = 0" and "\<not> http_body_until_close app"
  shows "q_turn (u, app) = (case http_parse (http_window u) http_Header_init of
      UB \<Rightarrow> UB
    | Err e \<Rightarrow> Ok (if e = UnexpectedEof \<and> length u \<le> MAX_HTTP_HEADER_BYTES then Break (u, app) else q_resync u app)
    | Ok (header, span) \<Rightarrow> q_message u app header (body_of u span))"
  using assms by (simp add: q_turn_def body_of_def cong: res.case_cong)

lemma http_window_append: "\<exists>t'. http_window (u @ t) = http_window u @ t'"
  by (auto simp: http_window_def)

lemma http_window_full: "MAX_HTTP_HEADER_BYTES < length u \<Longrightarrow> http_window (u @ t) = http_window u"
  by (simp add: http_window_def)

lemma window_Ok:
  assumes "http_parse (http_window u) http_Header_init = Ok (h, span)"
  shows "\<exists>span'. http_parse (http_window (u @ t)) http_Header_init = Ok (h, span') \<and> body_of (u @ t) span' = body_of u span @ t"
    and "length (body_of u span) < length u"
proof -
  have m: "moved (http_window u) span" using http_parse_Ok [OF assms] by (simp add: http_Header_init_def)
  obtain t' where w: "http_window (u @ t) = http_window u @ t'" using http_window_append by blast
  have "http_parse (http_window (u @ t)) http_Header_init = Ok (h, span @ t')"
    using http_parse_grows [of t' "http_window u" http_Header_init] assms by (simp add: w grows_def)
  moreover have "length (http_window u) - length span \<le> length u" by (simp add: http_window_def)
  ultimately show "\<exists>span'. http_parse (http_window (u @ t)) http_Header_init = Ok (h, span') \<and> body_of (u @ t) span' = body_of u span @ t"
    by (auto simp: body_of_def w)
  have "length span < length (http_window u)" by (rule moved_shorter [OF m])
  then show "length (body_of u span) < length u" by (auto simp: body_of_def http_window_def)
qed

lemma window_Err:
  assumes "http_parse (http_window u) http_Header_init = Err e" and "e \<noteq> UnexpectedEof \<or> MAX_HTTP_HEADER_BYTES < length u"
  shows "http_parse (http_window (u @ t)) http_Header_init = Err e"
proof (cases "e = UnexpectedEof")
  case True
  then show ?thesis using assms http_window_full by simp
next
  case False
  obtain t' where w: "http_window (u @ t) = http_window u @ t'" using http_window_append by blast
  show ?thesis using http_parse_grows [of t' "http_window u" http_Header_init] assms(1) False by (simp add: w grows_def)
qed

definition chunk_seen :: "span \<Rightarrow> nat \<Rightarrow> bool" where
  "chunk_seen b p \<longleftrightarrow> p \<le> length b \<and> (\<exists>pre. \<forall>t. parseChunkedBody (b @ t) = after p pre (parseChunkedBody (drop p b @ t)))"

lemma chunk_seen_0: "chunk_seen b 0"
proof -
  have "after 0 [] r = r" for r by (cases r) simp_all
  then show ?thesis by (auto simp: chunk_seen_def intro!: exI [of _ "[]"])
qed

lemma after_after: "after p pre (after q pre' r) = after (p + q) (pre @ pre') r"
  by (cases r) simp_all

lemma chunk_seen_more:
  assumes "chunk_seen b p" and "parseChunkedBody (drop p b) = ChunkFail UnexpectedEof v"
  shows "chunk_seen b (p + v)"
proof -
  from assms(1) obtain pre where p: "p \<le> length b" and pre: "\<And>t. parseChunkedBody (b @ t) = after p pre (parseChunkedBody (drop p b @ t))"
    by (auto simp: chunk_seen_def)
  from parseChunked_resumes [OF assms(2)] obtain pre' where v: "v \<le> length (drop p b)"
    and pre': "\<And>t. parseChunkedBody (drop p b @ t) = after v pre' (parseChunkedBody (drop v (drop p b) @ t))" by auto
  have "parseChunkedBody (b @ t) = after (p + v) (pre @ pre') (parseChunkedBody (drop (p + v) b @ t))" for t
    using pre [of t] pre' [of t] by (simp add: after_after add.commute)
  then show ?thesis using p v unfolding chunk_seen_def by auto
qed

lemma chunk_seen_append: "chunk_seen b p \<Longrightarrow> chunk_seen (b @ t) p"
  unfolding chunk_seen_def by auto

lemma q_resync_ignores [simp]:
  "q_resync u (app \<lparr> http_chunk_prefix := n \<rparr>) = q_resync u app"
  by (simp add: q_resync_def)

lemma body_done:
  assumes "http_body h False b app = Ok (BodyDone rest app')"
  shows "http_body h False (b @ t) app = Ok (BodyDone (rest @ t) app')"
proof (cases "\<not> bodyForbidden h \<and> http_chunked h")
  case True
  then have p: "http_chunk_prefix app \<le> length b" using assms by (auto simp: http_body_def subspan_def split: if_splits)
  then show ?thesis using True assms parseChunked_done [of "drop (http_chunk_prefix app) b"]
    by (auto simp: http_body_def split: chunk_result.splits if_splits)
qed (use assms in \<open>auto simp: http_body_def split: if_splits\<close>)

lemma body_bad:
  assumes "http_body h False b app = Ok BodyBad" and "chunk_seen b (http_chunk_prefix app)"
    and "http_chunk_prefix app' = http_chunk_prefix app \<or> http_chunk_prefix app' = 0"
  shows "http_body h False (b @ t) app' = Ok BodyBad"
proof -
  let ?p = "http_chunk_prefix app"
  have h: "\<not> bodyForbidden h" "http_chunked h" and p: "?p \<le> length b"
    using assms(1,2) by (auto simp: http_body_def chunk_seen_def split: if_splits)
  then obtain e v where e: "parseChunkedBody (drop ?p b) = ChunkFail e v" "e \<noteq> UnexpectedEof"
    using assms(1) by (auto simp: http_body_def split: chunk_result.splits if_splits)
  note stay = parseChunked_bad [OF e, of t]
  obtain pre where "parseChunkedBody (b @ t) = after ?p pre (parseChunkedBody (drop ?p b @ t))"
    using assms(2) by (auto simp: chunk_seen_def)
  then have "parseChunkedBody (b @ t) = ChunkFail e (?p + v)" by (simp add: stay)
  then show ?thesis using assms(3) h p e(2) stay by (auto simp: http_body_def)
qed

lemma body_incomplete:
  assumes "http_body h False b app = Ok (BodyIncomplete rest app')" and "chunk_seen b (http_chunk_prefix app)"
  shows "\<exists>p. app' = app \<lparr> http_chunk_prefix := p \<rparr> \<and> chunk_seen b p \<and> (p \<noteq> http_chunk_prefix app \<longrightarrow> \<not> bodyForbidden h \<and> http_chunked h) \<and>
    (\<forall>w t. q_message w app' h (b @ t) = q_message w app h (b @ t))"
proof (cases "\<not> bodyForbidden h \<and> http_chunked h")
  case True
  let ?p = "http_chunk_prefix app"
  have p: "?p \<le> length b" using assms(2) by (simp add: chunk_seen_def)
  then obtain v where v: "parseChunkedBody (drop ?p b) = ChunkFail UnexpectedEof v" "app' = app \<lparr> http_chunk_prefix := ?p + v \<rparr>"
    using assms(1) True by (auto simp: http_body_def split: chunk_result.splits if_splits)
  from parseChunked_resumes [OF v(1)] obtain pre where len: "v \<le> length (drop ?p b)"
    and pre: "\<And>t. parseChunkedBody (drop ?p b @ t) = after v pre (parseChunkedBody (drop v (drop ?p b) @ t))" by auto
  have "q_message w app' h (b @ t) = q_message w app h (b @ t)" for w t
    using True p len pre [of t]
    by (cases "parseChunkedBody (drop (v + ?p) b @ t)")
       (auto simp: q_message_def http_body_def v(2) add.commute add.left_commute)
  then show ?thesis using v(2) True chunk_seen_more [OF assms(2) v(1)] by blast
next
  case False
  then have "app' = app" using assms(1) by (auto simp: http_body_def split: if_splits)
  then show ?thesis using assms(2) by (intro exI [of _ "http_chunk_prefix app"]) simp
qed

section \<open>The invariant\<close>

text \<open>
  A search position is only kept while the stream is stuck at bytes that are no message; a
  number of validated chunk bytes is only kept while the stream is at the chunked message
  they belong to.
\<close>

definition stuck :: "u8 list \<Rightarrow> Applications \<Rightarrow> bool" where
  "stuck u app \<longleftrightarrow> http_chunk_prefix app = 0 \<and> http_skip app = 0 \<and> \<not> http_body_until_close app \<and> (\<forall>t. q_turn (u @ t, app) = Ok (q_resync (u @ t) app))"

definition scan_inv :: "u8 list \<Rightarrow> Applications \<Rightarrow> bool" where
  "scan_inv u app \<longleftrightarrow> http_resync_scanned app = 0 \<or> http_resync_scanned app \<le> length u - 8 \<and> stuck u app"

definition prefix_inv :: "u8 list \<Rightarrow> Applications \<Rightarrow> bool" where
  "prefix_inv u app \<longleftrightarrow> http_chunk_prefix app = 0 \<or> http_skip app = 0 \<and> \<not> http_body_until_close app \<and>
     (\<exists>h span. http_parse (http_window u) http_Header_init = Ok (h, span) \<and> http_chunked h \<and> \<not> bodyForbidden h \<and>
        chunk_seen (body_of u span) (http_chunk_prefix app))"

definition q_inv :: "http_view \<Rightarrow> bool" where
  "q_inv v = (case v of (u, app) \<Rightarrow> scan_inv u app \<and> prefix_inv u app)"

lemma q_inv_init: "http_resync_scanned app = 0 \<Longrightarrow> http_chunk_prefix app = 0 \<Longrightarrow> q_inv (u, app)"
  by (simp add: q_inv_def scan_inv_def prefix_inv_def)

lemma q_inv_append: "q_inv (u, app) \<Longrightarrow> q_inv (u @ t, app)"
proof -
  assume inv: "q_inv (u, app)"
  have "scan_inv (u @ t) app" using inv by (auto simp: q_inv_def scan_inv_def stuck_def)
  moreover have "prefix_inv (u @ t) app"
    using inv window_Ok(1) [of u _ _ t] by (fastforce simp: q_inv_def prefix_inv_def dest: chunk_seen_append)
  ultimately show ?thesis by (simp add: q_inv_def)
qed

lemma prefix_inv_seen:
  assumes "prefix_inv u app" and "http_parse (http_window u) http_Header_init = Ok (h, span)"
  shows "chunk_seen (body_of u span) (http_chunk_prefix app)"
  using assms chunk_seen_0 by (cases "http_chunk_prefix app = 0") (auto simp: prefix_inv_def)

text \<open>The ways a turn can go.\<close>

definition q_bad :: "u8 list \<Rightarrow> Applications \<Rightarrow> bool" where
  "q_bad u app \<longleftrightarrow> (\<forall>t app'. http_skip app' = 0 \<and> \<not> http_body_until_close app' \<and>
     (http_chunk_prefix app' = http_chunk_prefix app \<or> http_chunk_prefix app' = 0) \<longrightarrow> q_turn (u @ t, app') = Ok (q_resync (u @ t) app'))"

lemma q_turn_cases:
  assumes "q_inv (u, app)" and "q_turn (u, app) = Ok r"
  obtains (skip) "http_skip app > 0"
  | (close) "http_skip app = 0" "http_body_until_close app"
  | (wait) "http_skip app = 0" "\<not> http_body_until_close app" "r = Break (u, app)"
  | (bad) "http_skip app = 0" "\<not> http_body_until_close app" "q_bad u app"
  | (message) h span outcome where "http_skip app = 0" "\<not> http_body_until_close app"
      "http_parse (http_window u) http_Header_init = Ok (h, span)" "chunk_seen (body_of u span) (http_chunk_prefix app)"
      "http_body h False (body_of u span) app = Ok outcome" "outcome \<noteq> BodyBad"
proof -
  consider "http_skip app > 0" | "http_skip app = 0" "http_body_until_close app"
    | (go) "http_skip app = 0" "\<not> http_body_until_close app" by auto
  then show thesis
  proof cases
    case go
    note parse = q_turn_parse [OF go]
    show thesis
    proof (cases "http_parse (http_window u) http_Header_init")
      case UB
      then show thesis using assms(2) by (simp add: parse)
    next
      case (Err e)
      show thesis
      proof (cases "e = UnexpectedEof \<and> length u \<le> MAX_HTTP_HEADER_BYTES")
        case True
        then show thesis using wait go assms(2) Err by (simp add: parse)
      next
        case False
        then have "q_bad u app"
          using window_Err [OF Err] by (auto simp: q_bad_def q_turn_parse)
        then show thesis using bad go by blast
      qed
    next
      case (Ok q)
      then obtain h span where q: "http_parse (http_window u) http_Header_init = Ok (h, span)" by (cases q) auto
      have seen: "chunk_seen (body_of u span) (http_chunk_prefix app)"
        using prefix_inv_seen [OF _ q] assms(1) by (simp add: q_inv_def)
      obtain outcome where outcome: "http_body h False (body_of u span) app = Ok outcome"
        using assms(2) by (auto simp: parse q q_message_def bind_res_Ok_iff)
      show thesis
      proof (cases "outcome = BodyBad")
        case True
        have "q_turn (u @ t, app') = Ok (q_resync (u @ t) app')"
          if "http_skip app' = 0" "\<not> http_body_until_close app'"
            "http_chunk_prefix app' = http_chunk_prefix app \<or> http_chunk_prefix app' = 0" for t app'
          using window_Ok(1) [OF q, of t] body_bad [OF outcome [unfolded True] seen that(3), of t]
          by (auto simp: q_turn_parse that q_message_def)
        then have "q_bad u app" unfolding q_bad_def by blast
        then show thesis using bad go by blast
      qed (use message [OF go q seen outcome] in blast)
    qed
  qed (use skip close in blast)+
qed

section \<open>Polling again after more bytes\<close>

lemma q_bad_now: "q_bad u app \<Longrightarrow> http_skip app = 0 \<Longrightarrow> \<not> http_body_until_close app \<Longrightarrow> q_turn (u @ t, app) = Ok (q_resync (u @ t) app)"
  by (simp add: q_bad_def)

lemma q_resync_found:
  assumes "q_resync u app = Continue (u', app')" and "length u \<le> MAX_HTTP_MESSAGE_BYTES"
  shows "q_resync (u @ t) app = Continue (u' @ t, app')" and "http_resync_scanned app' = 0" and "http_chunk_prefix app' = 0"
  using assms findHttpResync_found [of u _ _ t] findHttpResync_Some [of u]
  by (auto simp: q_resync_def Let_def split: option.splits if_splits)

lemma q_resync_waits:
  assumes "q_resync u app = Break (u', app')"
  shows "u' = u" and "app' = app \<lparr> http_chunk_prefix := 0, http_body_until_close := False, http_resync_scanned := length u - 8 \<rparr>"
    and "http_resync_scanned app \<le> length u - 8 \<Longrightarrow> q_resync (u @ t) app' = q_resync (u @ t) app"
  using assms findHttpResync_resume [of u "http_resync_scanned app" t]
  by (auto simp: q_resync_def Let_def split: option.splits if_splits)

lemma q_resync_restarts:
  "q_resync u app = Continue (u', app') \<Longrightarrow> http_resync_scanned app' = 0 \<and> http_chunk_prefix app' = 0"
  by (auto simp: q_resync_def Let_def split: option.splits if_splits)

lemma q_message_continue:
  assumes "http_body h False (body_of u span) app = Ok outcome" and "outcome \<noteq> BodyBad" and "length u \<le> MAX_HTTP_MESSAGE_BYTES"
    and "q_message u app h (body_of u span) = Ok (Continue (u', app'))" and "length (body_of u span) < length u"
  obtains rest app1 where "outcome = BodyDone rest app1" "u' = drop (length u - length rest) u" "length rest < length u"
    "app' = push_message h (note_request h app1)"
  using assms http_body_shorter [OF assms(1)] by (cases outcome) (auto simp: q_message_def)

lemma q_message_break:
  assumes "http_body h False (body_of u span) app = Ok outcome" and "outcome \<noteq> BodyBad"
    and "q_message u app h (body_of u span) = Ok (Break (u', app'))"
  obtains rest where "outcome = BodyIncomplete rest app'" "u' = u"
  using assms by (cases outcome) (auto simp: q_message_def q_resync_def Let_def split: if_splits option.splits)

lemma body_done_keeps:
  assumes "http_body h False b app = Ok (BodyDone rest app')"
  shows "http_messages app' = http_messages app" "http_resync_scanned app' = http_resync_scanned app" "http_skip app' = http_skip app"
    "http_chunk_prefix app' = (if \<not> bodyForbidden h \<and> http_chunked h then 0 else http_chunk_prefix app)"
  using assms by (auto simp: http_body_def subspan_def split: if_splits chunk_result.splits)

lemma push_note_keeps [simp]:
  "http_resync_scanned (push_message h (note_request h app)) = http_resync_scanned app"
  "http_chunk_prefix (push_message h (note_request h app)) = http_chunk_prefix app"
  "http_messages (push_message h (note_request h app)) = http_messages app @ [h]"
  "http_skip (push_message h (note_request h app)) = http_skip app"
  by (simp_all add: push_message_def note_request_def)

lemma q_resync_messages: "q_resync u app = Continue (u', app') \<Longrightarrow> http_messages app' = http_messages app"
  by (auto simp: q_resync_def Let_def split: option.splits if_splits)

lemma q_turn_continue:
  assumes "q_inv (u, app)" and "q_turn (u, app) = Ok (Continue (u', app'))" and "length u \<le> MAX_HTTP_MESSAGE_BYTES"
  shows "q_turn (u @ t, app) = Ok (Continue (u' @ t, app')) \<and> q_inv (u', app')"
  using assms(1,2)
proof (cases rule: q_turn_cases)
  case skip
  then have "http_chunk_prefix app = 0" "http_resync_scanned app = 0"
    using assms(1) by (auto simp: q_inv_def prefix_inv_def scan_inv_def stuck_def)
  then show ?thesis using skip assms(2) by (auto simp: q_turn_def Let_def intro!: q_inv_init split: if_splits)
next
  case bad
  note now = q_bad_now [OF bad(3,1,2)]
  have "q_resync u app = Continue (u', app')" using now [of "[]"] assms(2) by simp
  from q_resync_found [OF this assms(3)] show ?thesis using now [of t] by (auto intro!: q_inv_init)
next
  case (message h span outcome)
  obtain span' where grown: "http_parse (http_window (u @ t)) http_Header_init = Ok (h, span')" "body_of (u @ t) span' = body_of u span @ t"
    using window_Ok(1) [OF message(3)] by blast
  have "q_message u app h (body_of u span) = Ok (Continue (u', app'))"
    using assms(2) message by (simp add: q_turn_parse)
  then obtain rest app1 where o: "outcome = BodyDone rest app1" "u' = drop (length u - length rest) u" "length rest < length u"
    "app' = push_message h (note_request h app1)"
    using q_message_continue [OF message(5,6) assms(3) _ window_Ok(2) [OF message(3)]] by blast
  note keeps = body_done_keeps [OF message(5) [unfolded o(1)]]
  have "q_turn (u @ t, app) = Ok (Continue (u' @ t, app'))"
    using body_done [OF message(5) [unfolded o(1)], of t] message(1,2) grown o
    by (simp add: q_turn_parse q_message_def)
  moreover have "http_resync_scanned app = 0"
  proof (rule ccontr)
    assume "http_resync_scanned app \<noteq> 0"
    then have "q_resync u app = Continue (u', app')"
      using assms(1,2) by (auto simp: q_inv_def scan_inv_def stuck_def dest: spec [of _ "[]"])
    then show False using q_resync_messages [of u app] o(4) keeps(1) by fastforce
  qed
  moreover have "http_chunk_prefix app1 = 0"
    using keeps(4) assms(1) message(3) by (auto simp: q_inv_def prefix_inv_def)
  ultimately show ?thesis using o(4) keeps(2) by (simp add: q_inv_init)
qed (use assms(2) in \<open>simp_all add: q_turn_def\<close>)

lemma scanned_stuck:
  assumes "q_inv (u, app)" and "http_resync_scanned app \<noteq> 0" and "q_turn (u, app) = Ok (Continue (u', app'))"
  shows "q_resync u app = Continue (u', app')"
  using assms by (auto simp: q_inv_def scan_inv_def stuck_def dest: spec [of _ "[]"])

lemma q_inv_continue:
  assumes "q_inv (u, app)" and "q_turn (u, app) = Ok (Continue (u', app'))"
  shows "q_inv (u', app')"
proof (cases "length u \<le> MAX_HTTP_MESSAGE_BYTES \<or> http_resync_scanned app \<noteq> 0")
  case True
  then show ?thesis
    using q_turn_continue [OF assms] scanned_stuck [OF assms(1) _ assms(2)] q_resync_restarts [of u app u' app']
    by (auto intro: q_inv_init)
next
  case False
  show ?thesis using assms
  proof (cases rule: q_turn_cases)
    case skip
    then have "http_chunk_prefix app = 0" using assms(1) by (auto simp: q_inv_def prefix_inv_def)
    then show ?thesis using skip False assms(2) by (auto simp: q_turn_def Let_def intro!: q_inv_init split: if_splits)
  next
    case bad
    then show ?thesis using q_bad_now [OF bad(3,1,2), of "[]"] assms(2) q_resync_restarts [of u app u' app'] by (auto intro: q_inv_init)
  next
    case (message h span outcome)
    have m: "q_message u app h (body_of u span) = Ok (Continue (u', app'))" using assms(2) message by (simp add: q_turn_parse)
    have chunked: "http_chunk_prefix app = 0" if "\<not> (\<not> bodyForbidden h \<and> http_chunked h)"
      using that assms(1) message(3) by (auto simp: q_inv_def prefix_inv_def)
    show ?thesis
    proof (cases outcome)
      case (BodyDone rest app1)
      note keeps = body_done_keeps [OF message(5) [unfolded BodyDone]]
      then show ?thesis using m message(5) BodyDone chunked False by (auto simp: q_message_def intro!: q_inv_init)
    next
      case (BodyIncomplete rest app1)
      show ?thesis
      proof (cases "http_has_content_length h \<and> \<not> http_chunked h")
        case True
        then have "app1 = app" using message(5) BodyIncomplete by (auto simp: http_body_def split: if_splits)
        then show ?thesis using True m message(5) BodyIncomplete chunked False by (auto simp: q_message_def Let_def intro!: q_inv_init)
      next
        case no: False
        then have "q_resync u app1 = Continue (u', app')" using m message(5) BodyIncomplete False by (auto simp: q_message_def)
        then show ?thesis using q_resync_restarts by (auto intro: q_inv_init)
      qed
    qed (use message(6) in simp)
  qed (use assms(2) in \<open>simp_all add: q_turn_def\<close>)
qed

lemma q_turn_break:
  assumes "q_inv (u, app)" and "q_turn (u, app) = Ok (Break (u', app'))" and "length u \<le> MAX_HTTP_MESSAGE_BYTES"
  shows "q_turn (u' @ t, app') = q_turn (u @ t, app)"
  using assms(1,2)
proof (cases rule: q_turn_cases)
  case skip
  then have "u' = []" "app' = app \<lparr> http_skip := http_skip app - length u \<rparr>" "length u < http_skip app"
    using assms(2) by (auto simp: q_turn_def Let_def min_def split: if_splits)
  then show ?thesis by (auto simp: q_turn_def Let_def min_def)
next
  case close
  then show ?thesis using assms(2) by (auto simp: q_turn_def)
next
  case bad
  note now = q_bad_now [OF bad(3,1,2)]
  have r: "q_resync u app = Break (u', app')" using now [of "[]"] assms(2) by simp
  note w = q_resync_waits [OF r]
  have "http_resync_scanned app \<le> length u - 8" using assms(1) by (auto simp: q_inv_def scan_inv_def)
  then have "q_resync (u @ t) app' = q_resync (u @ t) app" by (rule w(3))
  moreover have "q_turn (u @ t, app') = Ok (q_resync (u @ t) app')" using bad w(2) by (simp add: q_bad_def)
  ultimately show ?thesis using now [of t] w(1) by simp
next
  case (message h span outcome)
  obtain span' where grown: "http_parse (http_window (u @ t)) http_Header_init = Ok (h, span')" "body_of (u @ t) span' = body_of u span @ t"
    using window_Ok(1) [OF message(3)] by blast
  have "q_message u app h (body_of u span) = Ok (Break (u', app'))" using assms(2) message by (simp add: q_turn_parse)
  then obtain rest where o: "outcome = BodyIncomplete rest app'" "u' = u" using q_message_break [OF message(5,6)] by blast
  obtain p where p: "app' = app \<lparr> http_chunk_prefix := p \<rparr>" "\<And>w t. q_message w app' h (body_of u span @ t) = q_message w app h (body_of u span @ t)"
    using body_incomplete [OF message(5) [unfolded o(1)] message(4)] by blast
  have "http_skip app' = 0" "\<not> http_body_until_close app'" using message(1,2) p(1) by simp_all
  then show ?thesis using grown message(1,2) p(2) o(2) by (simp add: q_turn_parse)
qed simp

lemma q_inv_break:
  assumes "q_inv (u, app)" and "q_turn (u, app) = Ok (Break (u', app'))"
  shows "q_inv (u', app')"
  using assms(1,2)
proof (cases rule: q_turn_cases)
  case skip
  then have "http_chunk_prefix app = 0" "http_resync_scanned app = 0"
    using assms(1) by (auto simp: q_inv_def prefix_inv_def scan_inv_def stuck_def)
  then show ?thesis using skip assms(2) by (auto simp: q_turn_def Let_def intro!: q_inv_init split: if_splits)
next
  case close
  then have "http_chunk_prefix app = 0" "http_resync_scanned app = 0"
    using assms(1) by (auto simp: q_inv_def prefix_inv_def scan_inv_def stuck_def)
  then show ?thesis using close assms(2) by (auto simp: q_turn_def intro!: q_inv_init)
next
  case bad
  note now = q_bad_now [OF bad(3,1,2)]
  have r: "q_resync u app = Break (u', app')" using now [of "[]"] assms(2) by simp
  note w = q_resync_waits [OF r]
  have "q_turn (u @ t, app') = Ok (q_resync (u @ t) app')" for t using bad w(2) by (simp add: q_bad_def)
  then show ?thesis using w(1,2) bad by (simp add: q_inv_def scan_inv_def prefix_inv_def stuck_def)
next
  case (message h span outcome)
  have "q_message u app h (body_of u span) = Ok (Break (u', app'))" using assms(2) message by (simp add: q_turn_parse)
  then obtain rest where o: "outcome = BodyIncomplete rest app'" "u' = u" using q_message_break [OF message(5,6)] by blast
  obtain p where p: "app' = app \<lparr> http_chunk_prefix := p \<rparr>" "chunk_seen (body_of u span) p"
    "p \<noteq> http_chunk_prefix app \<longrightarrow> \<not> bodyForbidden h \<and> http_chunked h"
    using body_incomplete [OF message(5) [unfolded o(1)] message(4)] by blast
  have "prefix_inv u app'"
    using p message(1-3) assms(1) by (cases "p = http_chunk_prefix app") (auto simp: prefix_inv_def q_inv_def)
  moreover have "scan_inv u app'"
  proof (cases "http_resync_scanned app = 0")
    case False
    then have "q_resync u app = Break (u', app')" "http_chunk_prefix app = 0"
      using assms(1,2) by (auto simp: q_inv_def scan_inv_def stuck_def dest: spec [of _ "[]"])
    note w = q_resync_waits [OF this(1)]
    then have "http_chunk_prefix app' = 0" by simp
    then have "p = 0" using p(1) by simp
    then have "app' = app" using p(1) \<open>http_chunk_prefix app = 0\<close> by (cases app) simp
    then show ?thesis using assms(1) by (simp add: q_inv_def)
  qed (simp add: scan_inv_def p(1))
  ultimately show ?thesis using o(2) by (simp add: q_inv_def)
qed (use assms(1) in simp)

lemma q_turn_break_length: "q_turn (u, app) = Ok (Break (u', app')) \<Longrightarrow> length u' \<le> length u"
proof (cases "http_skip app > 0 \<or> http_body_until_close app")
  case False
  assume turn: "q_turn (u, app) = Ok (Break (u', app'))"
  have message: "q_message u app h b = Ok (Break (u', app')) \<Longrightarrow> u' = u" for h b
    using http_body_no_Err [of h False b app]
    by (cases "http_body h False b app")
       (auto simp: q_message_def Let_def dest: q_resync_waits(1) split: body_outcome.splits if_splits)
  show ?thesis using turn False message
    by (cases "http_parse (http_window u) http_Header_init")
       (auto simp: q_turn_parse split: if_splits dest: q_resync_waits(1))
qed (auto simp: q_turn_def Let_def split: if_splits)

lemma q_poll_segments:
  assumes "q_inv v" and "q_poll v = Ok (u', app')" and "length (fst v) \<le> MAX_HTTP_MESSAGE_BYTES"
  shows "q_poll (u' @ t, app') = q_poll (fst v @ t, snd v) \<and> q_inv (u', app') \<and> length u' \<le> length (fst v)"
  using assms
proof (induction v rule: q_poll.induct)
  case (1 v)
  obtain u app where v: "v = (u, app)" by (cases v)
  consider (brk) "q_turn (u, app) = Ok (Break (u', app'))"
    | (cont) u1 app1 where "q_turn (u, app) = Ok (Continue (u1, app1))" "q_poll (u1, app1) = Ok (u', app')"
  proof (cases "q_turn (u, app)")
    case (Ok r)
    then show thesis using "1.prems"(2) that by (cases r) (auto simp: v q_poll.simps [of "(u, app)"])
  qed (use "1.prems"(2) in \<open>simp_all add: v q_poll.simps [of "(u, app)"]\<close>)
  then show ?case
  proof cases
    case brk
    have "length u' \<le> length u" by (rule q_turn_break_length [OF brk])
    then show ?thesis
      using "1.prems" brk q_turn_break [of u app u' app' t] q_inv_break [of u app u' app']
      by (simp add: v q_poll.simps [of "(u' @ t, app')"] q_poll.simps [of "(u @ t, app)"])
  next
    case cont
    note turn = q_turn_continue [OF "1.prems"(1) [unfolded v] cont(1) "1.prems"(3) [unfolded v fst_conv]]
    have short: "length u1 < length u" by (rule q_turn_shorter [OF cont(1)])
    have "q_poll (u' @ t, app') = q_poll (u1 @ t, app1) \<and> q_inv (u', app') \<and> length u' \<le> length u1"
      using "1.IH" [OF cont(1) [folded v] refl] turn cont(2) short "1.prems"(3) by (simp add: v)
    then show ?thesis using turn [of t] short by (simp add: v q_poll.simps [of "(u @ t, app)"])
  qed
qed

section \<open>No undefined behaviour\<close>

lemma q_turn_UB:
  assumes "q_inv (u, app)" and "q_turn (u, app) = UB"
  shows "http_parse (http_window u) http_Header_init = UB \<and> (\<forall>t. q_turn (u @ t, app) = UB)"
proof -
  have go: "http_skip app = 0" "\<not> http_body_until_close app" using assms(2) by (auto simp: q_turn_def Let_def split: if_splits)
  show ?thesis
  proof (cases "http_parse (http_window u) http_Header_init")
    case UB
    have "http_parse (http_window (u @ t)) http_Header_init = UB" for t
    proof -
      obtain t' where "http_window (u @ t) = http_window u @ t'" using http_window_append by blast
      then show ?thesis using http_parse_grows [of t' "http_window u" http_Header_init] UB by (simp add: grows_def)
    qed
    then show ?thesis using UB go by (simp add: q_turn_parse)
  next
    case (Err e)
    then show ?thesis using assms(2) go by (simp add: q_turn_parse)
  next
    case (Ok q)
    then obtain h span where q: "http_parse (http_window u) http_Header_init = Ok (h, span)" by (cases q) auto
    have "http_chunk_prefix app \<le> length (body_of u span)"
      using prefix_inv_seen [OF _ q] assms(1) by (simp add: q_inv_def chunk_seen_def)
    then have "http_body h False (body_of u span) app \<noteq> UB"
      by (auto simp: http_body_def split: chunk_result.split)
    then show ?thesis using assms(2) go q by (auto simp: q_turn_parse q_message_def bind_res_UB_iff)
  qed
qed

fun step_view :: "'a loop_step \<Rightarrow> 'a" where
  "step_view (Break v) = v"
| "step_view (Continue v) = v"

lemma q_resync_subset: "set (fst (step_view (q_resync u app))) \<subseteq> set u"
  by (auto simp: q_resync_def Let_def split: option.split dest: in_set_dropD)

lemma q_message_subset: "q_message u app h b = Ok r \<Longrightarrow> set (fst (step_view r)) \<subseteq> set u"
  using q_resync_subset [of u]
  by (cases "http_body h False b app"; auto simp: q_message_def Let_def split: body_outcome.splits if_splits dest: in_set_dropD)

lemma q_turn_subset: "q_turn (u, app) = Ok r \<Longrightarrow> set (fst (step_view r)) \<subseteq> set u"
proof (cases "http_skip app > 0 \<or> http_body_until_close app")
  case False
  assume "q_turn (u, app) = Ok r"
  then show ?thesis using False q_resync_subset [of u app] q_message_subset [of u app _ _ r]
    by (cases "http_parse (http_window u) http_Header_init") (auto simp: q_turn_parse split: if_splits)
qed (auto simp: q_turn_def Let_def split: if_splits dest: in_set_dropD)

lemma clean_subset: "clean u \<Longrightarrow> set u' \<subseteq> set u \<Longrightarrow> clean u'"
  by (auto simp: clean_def list_all_iff)

lemma q_poll_safe:
  assumes "q_inv v" and "clean (fst v)"
  shows "\<exists>v'. q_poll v = Ok v' \<and> q_inv v' \<and> clean (fst v')"
  using assms
proof (induction v rule: q_poll.induct)
  case (1 v)
  obtain u app where v: "v = (u, app)" by (cases v)
  have "clean (http_window u)" using "1.prems"(2) by (auto simp: v http_window_def intro: clean_subset dest: in_set_takeD)
  then have "http_parse (http_window u) http_Header_init \<noteq> UB" by (rule http_parse_clean) (simp add: http_Header_init_def)
  then have "q_turn (u, app) \<noteq> UB" using q_turn_UB [of u app] "1.prems"(1) by (auto simp: v)
  moreover have "q_turn (u, app) \<noteq> Err e" for e
    by (auto simp: q_turn_def Let_def q_message_def bind_res_Err_iff http_body_no_Err split: res.splits prod.splits)
  ultimately obtain r where r: "q_turn (u, app) = Ok r" by (cases "q_turn (u, app)") auto
  obtain u1 app1 where r1: "step_view r = (u1, app1)" by (cases "step_view r")
  have c: "clean u1" using clean_subset [OF _ q_turn_subset [OF r]] "1.prems"(2) r1 by (simp add: v)
  show ?case
  proof (cases r)
    case (Break w)
    then show ?thesis using r r1 c "1.prems"(1) q_inv_break [of u app u1 app1] by (simp add: v q_poll.simps [of "(u, app)"])
  next
    case (Continue w)
    then have "q_inv w" using r r1 "1.prems"(1) q_inv_continue [of u app u1 app1] by (simp add: v)
    then show ?thesis using "1.IH" [OF r [folded v] Continue] Continue r r1 c by (simp add: v q_poll.simps [of "(u, app)"])
  qed
qed

lemma q_poll_UB:
  assumes "q_inv v" and "q_poll v = UB" and "length (fst v) \<le> MAX_HTTP_MESSAGE_BYTES"
  shows "q_poll (fst v @ t, snd v) = UB"
  using assms
proof (induction v rule: q_poll.induct)
  case (1 v)
  obtain u app where v: "v = (u, app)" by (cases v)
  show ?case
  proof (cases "q_turn (u, app)")
    case UB
    then show ?thesis using q_turn_UB [of u app] "1.prems"(1) by (simp add: v q_poll.simps [of "(u @ t, app)"])
  next
    case (Ok r)
    then obtain u1 app1 where c: "q_turn (u, app) = Ok (Continue (u1, app1))" "q_poll (u1, app1) = UB"
      using "1.prems"(2) by (cases r) (auto simp: v q_poll.simps [of "(u, app)"])
    note turn = q_turn_continue [OF "1.prems"(1) [unfolded v] c(1) "1.prems"(3) [unfolded v fst_conv]]
    show ?thesis using "1.IH" [OF c(1) [folded v] refl] turn c(2) q_turn_shorter [OF c(1)] "1.prems"(3)
      by (simp add: v q_poll.simps [of "(u @ t, app)"])
  qed (use "1.prems"(2) in \<open>simp add: v q_poll.simps [of "(u, app)"]\<close>)
qed

lemma q_poll_no_Err: "q_poll v \<noteq> Err e"
proof (induction v rule: q_poll.induct)
  case (1 v)
  have "q_turn v \<noteq> Err e" for e
    by (auto simp: q_turn_def Let_def q_message_def bind_res_Err_iff http_body_no_Err split: res.splits prod.splits)
  then show ?case using 1 by (auto simp: q_poll.simps [of v] bind_res_Err_iff split: loop_step.splits)
qed

end
