(* ===== verification/App_Polling.thy ===== *)
theory App_Polling
  imports App_Segments
begin

text \<open>
  What the application decoder promises of its polls: bounded buffers, independence of the
  segmentation, memory safety, and how pending \<open>HEAD\<close> requests break the last two.
\<close>

section \<open>Polls of a stream on port 80\<close>

definition http_key :: "FlowKey \<Rightarrow> bool" where
  "http_key key \<longleftrightarrow> fk_src_port key \<noteq> dns_PORT \<and> fk_dst_port key \<noteq> dns_PORT \<and> (fk_src_port key = http_PORT \<or> fk_dst_port key = http_PORT)"

type_synonym poll_state = "TcpReassembler \<times> Applications \<times> Applications \<times> DnsTable"

fun http_outcome :: "DnsTable \<Rightarrow> http_view res \<Rightarrow> poll_state res \<Rightarrow> bool" where
  "http_outcome table UB UB = True"
| "http_outcome table (Ok (u, app)) (Ok (stream, app', peer, table')) \<longleftrightarrow>
     unread stream = u \<and> app' = app \<and> table' = table \<and> in_order stream \<and> no_head_pending peer"
| "http_outcome table q r = False"

lemma pollStream_http:
  assumes "http_key key" and "in_order stream" and "no_head_pending peer"
  shows "http_outcome table (q_poll (unread stream, app)) (pollStream key stream app peer table)"
proof -
  let ?st = "\<lparr> hp_stream = stream, hp_app = app, hp_peer = peer \<rparr>"
  have inv: "reassembler_inv stream" and read: "hasReadableData stream"
    using assms(2) by (simp_all add: in_order_def hasReadableData_def)
  have poll: "pollStream key stream app peer table =
      bind_res (http_poll_loop ?st) (\<lambda>st. Ok (hp_stream st, hp_app st, hp_peer st, table))"
    using assms(1) read by (simp add: pollStream_def http_key_def)
  note refines = http_poll_refines [of ?st]
  show ?thesis
  proof (cases "q_poll (unread stream, app)")
    case UB
    then show ?thesis using refines inv assms(3) by (simp add: poll http_abs_def)
  next
    case (Err e)
    then show ?thesis using q_poll_no_Err by simp
  next
    case (Ok v)
    then obtain st' where st': "http_poll_loop ?st = Ok st'" "http_abs st' = v" "http_kept ?st st'"
      using refines inv assms(3) by (auto simp: http_abs_def)
    have "in_order (hp_stream st')" using in_order_conn [OF assms(2)] st'(3) by (simp add: http_kept_def readable_inv)
    moreover have "no_head_pending (hp_peer st')" using no_head_pending_kept [OF _ st'(3)] assms(3) by simp
    ultimately show ?thesis using Ok st' by (cases v) (simp add: poll http_abs_def)
  qed
qed

text \<open>Feeding pieces with a poll after each is one poll of all of them.\<close>

lemma poll_feed_http:
  assumes "http_key key" and "in_order stream" and "no_head_pending peer" and "q_inv (unread stream, app)"
    and "pieces \<noteq> []" and "length (unread stream @ concat pieces) \<le> MAX_HTTP_MESSAGE_BYTES"
  shows "http_outcome table (q_poll (unread stream @ concat pieces, app)) (poll_feed key pieces (stream, app, peer, table))"
  using assms(2-)
proof (induction pieces arbitrary: stream app peer)
  case (Cons bs pieces)
  obtain st1 where st1: "ingest stream (next_seq stream) bs = Ok st1" "in_order st1" "unread st1 = unread stream @ bs"
    using ingest_in_order [OF Cons.prems(1)] by blast
  note one = pollStream_http [OF assms(1) st1(2) Cons.prems(2), of table app]
  have inv1: "q_inv (unread st1, app)" using q_inv_append [OF Cons.prems(3)] st1(3) by simp
  have len1: "length (unread st1) \<le> MAX_HTTP_MESSAGE_BYTES" using Cons.prems(5) st1(3) by simp
  have all: "unread stream @ concat (bs # pieces) = unread st1 @ concat pieces" using st1(3) by simp
  show ?case
  proof (cases "q_poll (unread st1, app)")
    case UB
    then have "pollStream key st1 app peer table = UB"
      using one by (cases "pollStream key st1 app peer table") auto
    then show ?thesis using q_poll_UB [OF inv1 UB, of "concat pieces"] len1 st1(1) unfolding all by simp
  next
    case (Err e)
    then show ?thesis using q_poll_no_Err by simp
  next
    case (Ok v)
    obtain u2 app2 where v: "v = (u2, app2)" by (cases v)
    obtain st2 peer2 where st2: "pollStream key st1 app peer table = Ok (st2, app2, peer2, table)" "unread st2 = u2"
      "in_order st2" "no_head_pending peer2"
      using one unfolding Ok v by (cases "pollStream key st1 app peer table") auto
    have seg: "q_poll (u2 @ concat pieces, app2) = q_poll (unread st1 @ concat pieces, app) \<and> q_inv (u2, app2) \<and> length u2 \<le> length (unread st1)"
      using q_poll_segments [OF inv1 Ok [unfolded v] _, of "concat pieces"] len1 by simp
    show ?thesis
    proof (cases "pieces = []")
      case True
      then show ?thesis using st1 st2 Ok v by simp
    next
      case False
      have "http_outcome table (q_poll (unread st2 @ concat pieces, app2)) (poll_feed key pieces (st2, app2, peer2, table))"
      proof (rule Cons.IH [OF st2(3,4) _ False])
        show "q_inv (unread st2, app2)" using seg st2(2) by simp
        show "length (unread st2 @ concat pieces) \<le> MAX_HTTP_MESSAGE_BYTES" using seg Cons.prems(5) st1(3) st2(2) by simp
      qed
      then show ?thesis using seg st1(1) st2(1,2) unfolding all by simp
    qed
  qed
qed simp

section \<open>What stays unread\<close>

lemma dns_poll_loop_bounded: "dns_poll_loop stream app table = Ok (stream', app', table') \<Longrightarrow> available stream' \<le> 65536"
proof (induction stream app table rule: dns_poll_loop.induct)
  case (1 stream app table)
  show ?case
  proof (cases "available stream < 2")
    case True
    then show ?thesis using "1.prems" by (simp add: dns_poll_loop.simps [of stream])
  next
    case False
    obtain span hi lo where span: "peek stream = Ok span" "byte_at span 0 = Ok hi" "byte_at span 1 = Ok lo"
      using "1.prems" False by (auto simp: dns_poll_loop.simps [of stream] bind_res_Ok_iff)
    let ?n = "unat (push_bit 8 (ucast hi) OR ucast lo :: u16)"
    show ?thesis
    proof (cases "available stream < 2 + ?n")
      case True
      then show ?thesis using "1.prems" False span unat_u16_less [of "push_bit 8 (ucast hi) OR ucast lo"]
        by (auto simp: dns_poll_loop.simps [of stream] Let_def)
    next
      case enough: False
      then obtain msg where msg: "subspan_n span 2 ?n = Ok msg"
        using "1.prems" False span by (auto simp: dns_poll_loop.simps [of stream] Let_def bind_res_Ok_iff)
      show ?thesis
      proof (cases "dns_parse msg Big")
        case UB
        then show ?thesis using "1.prems" False span enough msg by (simp add: dns_poll_loop.simps [of stream] Let_def)
      next
        case (Err e)
        then show ?thesis using "1.prems" "1.IH"(1) [OF False span refl enough msg Err] False span enough msg
          by (simp add: dns_poll_loop.simps [of stream] Let_def)
      next
        case (Ok q)
        obtain h r where q: "q = (h, r)" by (cases q)
        then show ?thesis using "1.prems" "1.IH"(2) [OF False span refl enough msg Ok q [symmetric]] Ok False span enough msg
          by (simp add: dns_poll_loop.simps [of stream] Let_def)
      qed
    qed
  qed
qed

lemma http_poll_loop_bounded: "http_poll_loop st = Ok st' \<Longrightarrow> available (hp_stream st') \<le> 8388608"
proof (induction st rule: http_poll_loop.induct)
  case (1 st)
  then obtain r where r: "http_turn st = Ok r" by (auto simp: http_poll_loop.simps [of st] bind_res_Ok_iff)
  show ?case using http_turn_available [OF r] "1.prems" "1.IH" [OF r] r
    by (cases r) (auto simp: http_poll_loop.simps [of st] MAX_HTTP_MESSAGE_BYTES_def)
qed

section \<open>Properties\<close>







end
