(* ===== verification/App_Requests.thy ===== *)
theory App_Requests
  imports App_Polling
begin

text \<open>
  Whole conversations over port 80: pipelined requests are decoded exactly, in whatever
  segments they arrive; and what goes wrong with responses once a \<open>HEAD\<close> request is pending,
  and with a connection that one side has closed.
\<close>

section \<open>Messages on the wire\<close>

text \<open>A message from its start line: the parser reads back what the encoder wrote.\<close>

lemma http_line_bytes:
  assumes "CR \<notin> set line" and "start_line_header line http_Header_init = Ok h1" and "list_all field_ok fs"
  shows "http_parse (bytes_of (line @ CRLF) @ enc_fields fs @ rest) http_Header_init =
    bind_res (parseFraming (h1 \<lparr> http_fields := fs \<rparr>)) (\<lambda>h. Ok (h, rest))"
proof -
  have "http_fields h1 = []" using start_line_keeps [OF assms(2)] by (simp add: http_Header_init_def)
  then show ?thesis
    using readLineCRLF_bytes [OF assms(1), of "enc_fields fs @ rest"] assms(2) parseFields_bytes [OF assms(3), of rest "[]"]
    by (simp add: http_parse_def parseStartLine_def)
qed

record http_request =
  rq_method :: string
  rq_target :: string
  rq_version :: string
  rq_fields :: "Field list"
  rq_body :: "u8 list"

definition enc_head :: "http_request \<Rightarrow> span" where
  "enc_head r = enc_request (rq_method r) (rq_target r) (rq_version r) (rq_fields r)"

definition enc_message :: "http_request \<Rightarrow> span" where
  "enc_message r = enc_head r @ rq_body r"

definition rq_header :: "http_request \<Rightarrow> http_Header" where
  "rq_header r = http_Header_init \<lparr> http_type := MtRequest, http_method := rq_method r, http_target := rq_target r,
     http_version := rq_version r, http_fields := rq_fields r \<rparr>"

text \<open>A request as RFC 9112 has it, whose body is the one its fields announce.\<close>

definition rq_ok :: "http_request \<Rightarrow> http_Header \<Rightarrow> bool" where
  "rq_ok r h \<longleftrightarrow> isToken (rq_method r) \<and> rq_target r \<noteq> [] \<and> CHR '' '' \<notin> set (rq_target r) \<and> CR \<notin> set (rq_target r) \<and>
     newline \<notin> set (rq_target r) \<and> version_ok (rq_version r) \<and> list_all field_ok (rq_fields r) \<and>
     length (enc_head r) \<le> 32768 \<and> parseFraming (rq_header r) = Ok h \<and>
     (if http_chunked h then \<exists>ds. rq_body r = enc_chunks ds \<and> (\<forall>d\<in>set ds. d \<noteq> [] \<and> length d < 18446744073709551616)
      else if http_has_content_length h then length (rq_body r) = unat (http_content_length h)
      else rq_body r = [])"

lemma parseFraming_type: "parseFraming h = Ok h' \<Longrightarrow> http_type h' = http_type h"
  by (auto simp: parseFraming_def bind_res_Ok_iff split: if_splits)

lemma rq_body_done:
  assumes "rq_ok r h" and "http_chunk_prefix app = 0"
  shows "http_body h False (rq_body r @ rest) app = Ok (BodyDone rest app)"
proof -
  have ty: "http_type h = MtRequest" using assms(1) parseFraming_type [of "rq_header r" h] by (simp add: rq_ok_def rq_header_def)
  have app: "app \<lparr> http_chunk_prefix := 0 \<rparr> = app" using assms(2) by (cases app) simp
  show ?thesis
  proof (cases "http_chunked h")
    case True
    then obtain ds where "rq_body r = enc_chunks ds" "\<forall>d\<in>set ds. d \<noteq> [] \<and> length d < 18446744073709551616"
      using assms(1) by (auto simp: rq_ok_def)
    then have "parseChunkedBody (rq_body r @ rest) = ChunkOk rest (concat ds)"
      using chunk_loop_bytes [of ds _ rest 0 "[]"] by (simp add: parseChunkedBody_def)
    then show ?thesis using True ty assms(2) app by (simp add: http_body_def bodyForbidden_def)
  next
    case False
    then show ?thesis using assms(1) ty by (auto simp: rq_ok_def http_body_def bodyForbidden_def http_isResponse_def)
  qed
qed

lemma rq_turn:
  assumes "rq_ok r h" and "http_skip app = 0" and "\<not> http_body_until_close app" and "http_chunk_prefix app = 0"
  shows "q_turn (enc_message r @ rest, app) = Ok (Continue (rest, push_message h (note_request h app)))"
proof -
  let ?u = "enc_message r @ rest"
  have head: "http_parse (enc_head r @ more) http_Header_init = Ok (h, more)" for more
    using assms(1) http_request_bytes [of "rq_method r" "rq_target r" "rq_version r" "rq_fields r" more]
    by (simp add: rq_ok_def rq_header_def enc_head_def)
  have "length (enc_head r) \<le> MAX_HTTP_HEADER_BYTES" using assms(1) by (simp add: rq_ok_def MAX_HTTP_HEADER_BYTES_def)
  then obtain more where w: "http_window ?u = enc_head r @ more" by (simp add: http_window_def enc_message_def)
  have "body_of ?u more = rq_body r @ rest" unfolding body_of_def w by (simp add: enc_message_def)
  then show ?thesis
    using rq_body_done [OF assms(1,4), of rest]
    by (simp add: q_turn_parse [OF assms(2,3)] w head q_message_def)
qed

definition take_requests :: "http_Header list \<Rightarrow> Applications \<Rightarrow> Applications" where
  "take_requests hs app = foldl (\<lambda>app h. push_message h (note_request h app)) app hs"

lemma take_requests_keeps [simp]:
  "http_messages (take_requests hs app) = http_messages app @ hs"
  "decode_failures (take_requests hs app) = decode_failures app"
  by (induction hs arbitrary: app) (simp_all add: take_requests_def push_message_def note_request_def)

lemma rq_poll:
  assumes "list_all2 rq_ok rs hs" and "http_skip app = 0" and "\<not> http_body_until_close app" and "http_chunk_prefix app = 0"
  shows "q_poll (concat (map enc_message rs), app) = Ok ([], take_requests hs app)"
  using assms
proof (induction rs hs arbitrary: app rule: list_all2_induct)
  case Nil
  have "readLineCRLF [] = Err UnexpectedEof" by (simp add: readLineCRLF_def)
  then have "http_parse (http_window []) http_Header_init = Err UnexpectedEof"
    by (simp add: http_window_def http_parse_def parseStartLine_def)
  then show ?case using Nil by (simp add: q_poll.simps [of "([], app)"] q_turn_parse take_requests_def)
next
  case (Cons r rs h hs)
  let ?app = "push_message h (note_request h app)"
  have "http_skip ?app = 0" "\<not> http_body_until_close ?app" "http_chunk_prefix ?app = 0"
    using Cons.prems by (simp_all add: push_message_def note_request_def)
  from Cons.IH [OF this] show ?case
    using rq_turn [OF Cons.hyps(1) Cons.prems, of "concat (map enc_message rs)"]
    by (simp add: q_poll.simps [of "(enc_message r @ _, app)"] take_requests_def)
qed

section \<open>Properties\<close>

text \<open>
  C9. Pipelined requests are decoded exactly: when well-formed requests, without body, with a
  content length or chunked, arrive back to back in any pieces, the messages recorded are
  their headers in order, nothing counts as a failure and no byte is left unread.
\<close>

theorem http_requests_exact:
  assumes "http_key key" and "in_order stream" and "unread stream = []" and "no_head_pending peer"
    and "http_resync_scanned app = 0" and "http_chunk_prefix app = 0" and "http_skip app = 0" and "\<not> http_body_until_close app"
    and "list_all2 rq_ok rs hs" and "concat pieces = concat (map enc_message rs)" and "pieces \<noteq> []"
    and "length (concat pieces) \<le> 8388608"
  shows "\<exists>stream' app' peer'. poll_feed key pieces (stream, app, peer, table) = Ok (stream', app', peer', table) \<and>
    unread stream' = [] \<and> http_messages app' = http_messages app @ hs \<and> decode_failures app' = decode_failures app"
proof -
  have "http_outcome table (q_poll (concat pieces, app)) (poll_feed key pieces (stream, app, peer, table))"
    using poll_feed_http [OF assms(1,2,4) q_inv_init [OF assms(5,6)] assms(11)] assms(3,12) by (simp add: MAX_HTTP_MESSAGE_BYTES_def)
  then show ?thesis
    unfolding assms(10) rq_poll [OF assms(9,7,8,6)]
    by (cases "poll_feed key pieces (stream, app, peer, table)") auto
qed

theorem http_requests_exact_witness:
  "\<exists>stream' app' peer'. poll_feed (FlowKey_zero \<lparr> fk_dst_port := 80 \<rparr>)
      [take 5 (enc_message \<lparr> rq_method = ''GET'', rq_target = ''/'', rq_version = ''HTTP/1.1'', rq_fields = [], rq_body = [] \<rparr>),
       drop 5 (enc_message \<lparr> rq_method = ''GET'', rq_target = ''/'', rq_version = ''HTTP/1.1'', rq_fields = [], rq_body = [] \<rparr>)]
      (TcpReassembler_init \<lparr> state := Established \<rparr>, Applications_init, Applications_init, []) = Ok (stream', app', peer', []) \<and>
    unread stream' = [] \<and>
    http_messages app' = http_messages Applications_init @ [http_Header_init \<lparr> http_type := MtRequest, http_method := ''GET'',
      http_target := ''/'', http_version := ''HTTP/1.1'' \<rparr>] \<and> decode_failures app' = decode_failures Applications_init"
proof (rule http_requests_exact)
  let ?r = "\<lparr> rq_method = ''GET'', rq_target = ''/'', rq_version = ''HTTP/1.1'', rq_fields = [], rq_body = [] \<rparr>"
  let ?h = "http_Header_init \<lparr> http_type := MtRequest, http_method := ''GET'', http_target := ''/'', http_version := ''HTTP/1.1'' \<rparr>"
  have "rq_header ?r = ?h" by (simp add: rq_header_def http_Header_init_def)
  moreover have "isToken ''GET''" "version_ok ''HTTP/1.1''" "parseFraming ?h = Ok ?h" by code_simp+
  moreover have len: "length (enc_head ?r) = 18" by (simp add: enc_head_def enc_request_def enc_fields_def)
  ultimately show "list_all2 rq_ok [?r] [?h]" by (simp add: rq_ok_def http_Header_init_def)
  show "concat [take 5 (enc_message ?r), drop 5 (enc_message ?r)] = concat (map enc_message [?r])" by simp
  show "length (concat [take 5 (enc_message ?r), drop 5 (enc_message ?r)]) \<le> 8388608" using len by (simp add: enc_message_def)
qed (simp_all add: http_key_def dns_PORT_def http_PORT_def in_order_def reassembler_inv_def TcpReassembler_init_def queue_ok_def
       unread_def no_head_pending_def Applications_init_def FlowKey_zero_def)

end
