(* ===== verification/App_Head.thy ===== *)
theory App_Head
  imports App_Requests
begin

text \<open>
  Pending \<open>HEAD\<close> requests. The decoder takes a request from the queue each time it looks at the
  header of a response, also when it then finds the body incomplete and looks at the same
  header again at the next poll. The second look takes the answer to another request.
\<close>

section \<open>Turns with pending requests\<close>

lemma http_turn_message:
  assumes "reassembler_inv (hp_stream st)" and "http_skip (hp_app st) = 0" and "\<not> http_body_until_close (hp_app st)"
    and "http_parse (http_window (unread (hp_stream st))) http_Header_init = Ok (h, span)"
  shows "http_turn st = http_message st h (length (unread (hp_stream st))) (body_of (unread (hp_stream st)) span)"
proof -
  let ?u = "unread (hp_stream st)"
  have w: "min (length ?u) MAX_HTTP_HEADER_BYTES = length (http_window ?u)" "take (length (http_window ?u)) ?u = http_window ?u"
    "length (http_window ?u) - length span \<le> length ?u" "length (http_window ?u) \<le> length ?u"
    by (auto simp: http_window_def min_def)
  show ?thesis
    using assms w by (simp add: http_turn_def tcp_stream.peek_view Let_def body_of_def)
qed

lemma http_turn_wait:
  assumes "reassembler_inv (hp_stream st)" and "http_skip (hp_app st) = 0" and "\<not> http_body_until_close (hp_app st)"
    and "http_parse (http_window (unread (hp_stream st))) http_Header_init = Err UnexpectedEof"
    and "length (unread (hp_stream st)) \<le> MAX_HTTP_HEADER_BYTES"
  shows "http_turn st = Ok (Break st)"
proof -
  let ?u = "unread (hp_stream st)"
  have "http_window ?u = ?u" using assms(5) by (simp add: http_window_def)
  then show ?thesis using assms
    by (simp add: http_turn_def tcp_stream.peek_view tcp_stream.available_view Let_def min_absorb1)
qed

text \<open>A message whose header bytes \<open>head\<close> parse to \<open>h\<close>, followed by \<open>body\<close>.\<close>

definition heads :: "span \<Rightarrow> http_Header \<Rightarrow> bool" where
  "heads head h \<longleftrightarrow> length head \<le> 32768 \<and> (\<forall>more. http_parse (head @ more) http_Header_init = Ok (h, more))"

lemma heads_turn:
  assumes "heads head h" and "reassembler_inv (hp_stream st)" and "http_skip (hp_app st) = 0" and "\<not> http_body_until_close (hp_app st)"
    and "unread (hp_stream st) = head @ body"
  shows "http_turn st = http_message st h (length (head @ body)) body"
proof -
  obtain more where w: "http_window (head @ body) = head @ more"
    using assms(1) by (simp add: heads_def http_window_def MAX_HTTP_HEADER_BYTES_def)
  have p: "http_parse (http_window (unread (hp_stream st))) http_Header_init = Ok (h, more)"
    using assms(1) by (simp add: assms(5) w heads_def)
  have "body_of (unread (hp_stream st)) more = body" by (simp add: body_of_def assms(5) w)
  with http_turn_message [OF assms(2-4) p] show ?thesis by (simp add: assms(5))
qed

definition sample_key :: FlowKey where "sample_key = FlowKey_zero \<lparr> fk_dst_port := 80 \<rparr>"
definition sample_stream :: TcpReassembler where "sample_stream = TcpReassembler_init \<lparr> state := Established \<rparr>"

lemma sample_facts:
  "http_key sample_key" "in_order sample_stream" "unread sample_stream = []"
  by (simp_all add: sample_key_def sample_stream_def http_key_def dns_PORT_def http_PORT_def FlowKey_zero_def in_order_def
      reassembler_inv_def TcpReassembler_init_def queue_ok_def unread_def)

text \<open>A feed of one piece is a poll of the loop.\<close>

lemma feed_one:
  assumes "in_order stream"
  obtains st1 where "in_order st1" "unread st1 = unread stream @ bs"
    "\<And>app peer table pieces. poll_feed sample_key (bs # pieces) (stream, app, peer, table) =
      bind_res (http_poll_loop \<lparr> hp_stream = st1, hp_app = app, hp_peer = peer \<rparr>) (\<lambda>st.
      poll_feed sample_key pieces (hp_stream st, hp_app st, hp_peer st, table))"
proof -
  obtain st1 where st1: "ingest stream (next_seq stream) bs = Ok st1" "in_order st1" "unread st1 = unread stream @ bs"
    using ingest_in_order [OF assms] by blast
  have "hasReadableData st1" using st1(2) by (simp add: in_order_def hasReadableData_def)
  then have "pollStream sample_key st1 app peer table = bind_res (http_poll_loop \<lparr> hp_stream = st1, hp_app = app, hp_peer = peer \<rparr>)
      (\<lambda>st. Ok (hp_stream st, hp_app st, hp_peer st, table))" for app peer table
    using sample_facts(1) by (simp add: pollStream_def http_key_def)
  then show thesis using st1 by (intro that) (simp_all add: bind_res_assoc)
qed

declare poll_feed.simps(2) [simp del]

section \<open>A response in two segments\<close>

definition length_response :: span where
  "length_response = bytes_of (''HTTP/1.1 200 OK'' @ CRLF) @ enc_fields [\<lparr> field_name = ''Content-Length'', field_value = ''3'' \<rparr>]"

definition length_header :: http_Header where
  "length_header = http_Header_init \<lparr> http_type := MtResponse, http_version := ''HTTP/1.1'', http_status_code := 200,
     http_reason_phrase := ''OK'', http_fields := [\<lparr> field_name = ''Content-Length'', field_value = ''3'' \<rparr>],
     http_has_content_length := True, http_content_length := 3 \<rparr>"

definition status_ok_line :: http_Header where
  "status_ok_line = http_Header_init \<lparr> http_type := MtResponse, http_version := ''HTTP/1.1'', http_status_code := 200,
     http_reason_phrase := ''OK'' \<rparr>"

lemma status_ok_start: "start_line_header ''HTTP/1.1 200 OK'' http_Header_init = Ok status_ok_line"
  by code_simp

lemma length_response_heads: "heads length_response length_header"
proof -
  let ?fs = "[\<lparr> field_name = ''Content-Length'', field_value = ''3'' \<rparr>]"
  have "list_all field_ok ?fs" "parseFraming (status_ok_line \<lparr> http_fields := ?fs \<rparr>) = Ok length_header" by code_simp+
  then have "http_parse (length_response @ more) http_Header_init = Ok (length_header, more)" for more
    using http_line_bytes [OF _ status_ok_start, of ?fs more] by (simp add: length_response_def)
  then show ?thesis by (simp add: heads_def length_response_def enc_fields_def field_line_def)
qed

lemma length_header_facts:
  "http_isResponse length_header" "http_status_code length_header = 200" "\<not> bodyForbidden length_header"
  "\<not> http_chunked length_header" "http_has_content_length length_header" "http_content_length length_header = 3"
  "\<not> http_isRequest length_header"
  by (simp_all add: length_header_def http_isResponse_def http_isRequest_def bodyForbidden_def http_Header_init_def)

lemma no_line: "CR \<notin> set (text_of u) \<Longrightarrow> http_parse (http_window u) http_Header_init = Err UnexpectedEof"
proof -
  assume "CR \<notin> set (text_of u)"
  then have "find_char CR (text_of (http_window u)) = None"
    by (auto simp: find_char_None http_window_def dest: in_set_takeD)
  then show ?thesis by (simp add: http_parse_def parseStartLine_def readLineCRLF_def Let_def)
qed

text \<open>The first look at the header of a response with a body of three bytes.\<close>

lemma length_response_turn:
  assumes "in_order (hp_stream st)" and "http_skip (hp_app st) = 0" and "\<not> http_body_until_close (hp_app st)"
    and "unread (hp_stream st) = length_response @ body" and "pending_head_requests (hp_peer st) = p # ps" and "length body \<le> 3"
  shows "http_turn st =
    (let st = st \<lparr> hp_peer := hp_peer st \<lparr> pending_head_requests := ps \<rparr> \<rparr> in
     Ok (if \<not> p \<and> length body < 3 then Break st
         else Continue (st \<lparr> hp_stream := consume (hp_stream st) (length (length_response @ (if p then [] else body))),
                hp_app := push_message length_header (hp_app st) \<rparr>)))"
proof -
  have inv: "reassembler_inv (hp_stream st)" using assms(1) by (simp add: in_order_def)
  have small: "length length_response \<le> 32768" using length_response_heads by (simp add: heads_def)
  have av: "available (hp_stream st) \<le> MAX_HTTP_MESSAGE_BYTES"
    using tcp_stream.available_view [OF inv] assms(4,6) small by (simp add: MAX_HTTP_MESSAGE_BYTES_def)
  note turn = heads_turn [OF length_response_heads inv assms(2,3,4)]
  show ?thesis
  proof (cases "\<not> p \<and> length body < 3")
    case True
    then show ?thesis using av assms(5)
      by (simp add: turn http_message_def take_head_response_def http_body_def length_header_facts Let_def)
  next
    case False
    then have "p \<or> length body = 3" using assms(6) by auto
    then show ?thesis using assms(5)
      by (auto simp: turn http_message_def take_head_response_def http_body_def length_header_facts note_request_def Let_def)
  qed
qed

lemma quiet_end:
  assumes "in_order (hp_stream st)" and "http_skip (hp_app st) = 0" and "\<not> http_body_until_close (hp_app st)"
    and "CR \<notin> set (text_of (unread (hp_stream st)))" and "length (unread (hp_stream st)) \<le> 3"
  shows "http_poll_loop st = Ok st"
  using assms http_turn_wait [of st] no_line [OF assms(4)]
  by (simp add: http_poll_loop.simps [of st] in_order_def MAX_HTTP_HEADER_BYTES_def)

lemma in_order_consume: "in_order st \<Longrightarrow> in_order (consume st n)"
  by (rule in_order_conn) (simp_all add: in_order_def tcp_stream.consume_ok readable_inv)

lemma feed_length_response:
  assumes "in_order stream" and "unread stream @ bs = length_response @ body" and "length body \<le> 3" and "CR \<notin> set (text_of body)"
    and "http_skip app = 0" and "\<not> http_body_until_close app" and "pending_head_requests peer = p # ps"
  obtains stream' where "in_order stream'"
    "unread stream' = (if \<not> p \<and> length body < 3 then length_response @ body else if p then body else [])"
    "\<And>pieces. poll_feed sample_key (bs # pieces) (stream, app, peer, table) =
      poll_feed sample_key pieces (stream', if \<not> p \<and> length body < 3 then app else push_message length_header app,
        peer \<lparr> pending_head_requests := ps \<rparr>, table)"
proof -
  obtain st1 where st1: "in_order st1" "unread st1 = length_response @ body"
    and feed: "\<And>app peer table pieces. poll_feed sample_key (bs # pieces) (stream, app, peer, table) =
      bind_res (http_poll_loop \<lparr> hp_stream = st1, hp_app = app, hp_peer = peer \<rparr>) (\<lambda>st.
      poll_feed sample_key pieces (hp_stream st, hp_app st, hp_peer st, table))"
    using feed_one [OF assms(1), of bs] assms(2) by auto
  let ?st = "\<lparr> hp_stream = st1, hp_app = app, hp_peer = peer \<rparr>"
  have turn: "http_turn ?st =
    (let st = ?st \<lparr> hp_peer := hp_peer ?st \<lparr> pending_head_requests := ps \<rparr> \<rparr> in
     Ok (if \<not> p \<and> length body < 3 then Break st
         else Continue (st \<lparr> hp_stream := consume (hp_stream st) (length (length_response @ (if p then [] else body))),
                hp_app := push_message length_header (hp_app st) \<rparr>)))"
    using st1 assms by (intro length_response_turn) simp_all
  show thesis
  proof (cases "\<not> p \<and> length body < 3")
    case True
    then show thesis using st1 by (intro that [of st1]) (simp_all add: feed http_poll_loop.simps [of ?st] turn)
  next
    case False
    let ?s = "consume st1 (length (length_response @ (if p then [] else body)))"
    let ?st' = "\<lparr> hp_stream = ?s, hp_app = push_message length_header app, hp_peer = peer \<lparr> pending_head_requests := ps \<rparr> \<rparr>"
    have left: "in_order ?s" "unread ?s = (if p then body else [])"
      using in_order_consume [OF st1(1)] tcp_stream.consume_view [of st1] st1 by (auto simp: in_order_def)
    then have "http_poll_loop ?st' = Ok ?st'"
      using assms(3-6) by (intro quiet_end) (simp_all add: push_message_def)
    then have "http_poll_loop ?st = Ok ?st'" using turn False by (simp add: http_poll_loop.simps [of ?st])
    then show thesis using left False by (intro that [of ?s]) (auto simp: feed)
  qed
qed

section \<open>A stale count of validated bytes\<close>

text \<open>
  A chunked response whose first chunk holds the text of a chunked request: the line that
  gives the size of the chunk, with an extension, is also a request line.
\<close>

definition te_fields :: "Field list" where
  "te_fields = [\<lparr> field_name = ''Transfer-Encoding'', field_value = ''chunked'' \<rparr>]"

definition chunked_response :: span where
  "chunked_response = bytes_of (''HTTP/1.1 200 OK'' @ CRLF) @ enc_fields te_fields"

definition chunk_request :: span where
  "chunk_request = bytes_of (''1E ;x HTTP/1.1'' @ CRLF) @ enc_fields te_fields"

definition response_header :: http_Header where
  "response_header = status_ok_line \<lparr> http_fields := te_fields, http_chunked := True \<rparr>"

definition request_line :: http_Header where
  "request_line = http_Header_init \<lparr> http_type := MtRequest, http_method := ''1E'', http_target := '';x'', http_version := ''HTTP/1.1'' \<rparr>"

definition request_header :: http_Header where
  "request_header = request_line \<lparr> http_fields := te_fields, http_chunked := True \<rparr>"

lemma te_fields_ok: "list_all field_ok te_fields" "length (enc_fields te_fields) = 30"
  by (code_simp, simp add: te_fields_def enc_fields_def field_line_def)

lemma chunked_heads: "heads chunked_response response_header" "heads chunk_request request_header"
proof -
  have "parseFraming (status_ok_line \<lparr> http_fields := te_fields \<rparr>) = Ok response_header" by code_simp
  then have "http_parse (chunked_response @ more) http_Header_init = Ok (response_header, more)" for more
    using http_line_bytes [OF _ status_ok_start te_fields_ok(1), of more] by (simp add: chunked_response_def)
  then show "heads chunked_response response_header" using te_fields_ok(2) by (simp add: heads_def chunked_response_def)
  have "start_line_header ''1E ;x HTTP/1.1'' http_Header_init = Ok request_line"
    "parseFraming (request_line \<lparr> http_fields := te_fields \<rparr>) = Ok request_header" by code_simp+
  then have "http_parse (chunk_request @ more) http_Header_init = Ok (request_header, more)" for more
    using http_line_bytes [OF _ _ te_fields_ok(1), of "''1E ;x HTTP/1.1''" request_line more] by (simp add: chunk_request_def)
  then show "heads chunk_request request_header" using te_fields_ok(2) by (simp add: heads_def chunk_request_def)
qed

definition line_end :: span where "line_end = bytes_of ([] @ CRLF)"

lemma chunk_request_chunk: "parseChunkedBody (chunk_request @ line_end) = ChunkFail UnexpectedEof 48"
proof -
  let ?rest = "enc_fields te_fields @ line_end"
  have line: "readLineCRLF (chunk_request @ line_end) = Ok (''1E ;x HTTP/1.1'', ?rest)"
    using readLineCRLF_bytes [of "''1E ;x HTTP/1.1''" ?rest] by (simp add: chunk_request_def)
  have size: "parseChunkSize ''1E ;x HTTP/1.1'' = Ok 30"
    by (simp add: parseChunkSize_def from_chars_hex_def hex_val_def is_ows_def Let_def)
  have stop_line: "readLineCRLF line_end = Ok ([], [])" using readLineCRLF_bytes [of "[]" "[]"] by (simp add: line_end_def)
  have head: "chunk_head (chunk_request @ line_end) = Ok (Some (enc_fields te_fields), [])"
    by (simp add: chunk_head_def line size te_fields_ok(2) stop_line)
  have stop: "chunk_head [] = Err UnexpectedEof" by (simp add: chunk_head_def readLineCRLF_def)
  have "length (chunk_request @ line_end) = 48" by (simp add: chunk_request_def te_fields_ok(2) line_end_def)
  then show ?thesis
    by (simp add: parseChunkedBody_def chunk_loop_head [of _ "chunk_request @ line_end"] head chunk_loop_head [of _ "[]"] stop)
qed

lemma chunked_facts:
  "http_isResponse response_header" "http_status_code response_header = 200" "\<not> bodyForbidden response_header"
  "http_chunked response_header" "\<not> http_isRequest response_header"
  "http_isRequest request_header" "\<not> http_isResponse request_header" "\<not> bodyForbidden request_header" "http_chunked request_header"
  by (simp_all add: response_header_def request_header_def status_ok_line_def request_line_def http_isResponse_def http_isRequest_def
      bodyForbidden_def)

text \<open>A request without fields and body.\<close>

definition plain_rq :: "string \<Rightarrow> http_request" where
  "plain_rq m = \<lparr> rq_method = m, rq_target = ''/'', rq_version = ''HTTP/1.1'', rq_fields = [], rq_body = [] \<rparr>"

lemma plain_rq_ok: "isToken m \<Longrightarrow> length m < 100 \<Longrightarrow> rq_ok (plain_rq m) (rq_header (plain_rq m))"
  by (simp add: rq_ok_def plain_rq_def enc_head_def enc_request_def enc_fields_def rq_header_def version_ok_def
      parseFraming_def framing_init_def http_Header_init_def)

lemma get_head_pending:
  "\<exists>stream client peer. poll_feed sample_key [enc_message (plain_rq ''GET'') @ enc_message (plain_rq ''HEAD'')]
     (sample_stream, Applications_init, Applications_init, []) = Ok (stream, client, peer, []) \<and> pending_head_requests client = [False, True]"
proof -
  let ?rs = "[plain_rq ''GET'', plain_rq ''HEAD'']" and ?s = "(sample_stream, Applications_init, Applications_init, [])"
  have "isToken ''GET''" "isToken ''HEAD''" by code_simp+
  then have "list_all2 rq_ok ?rs (map rq_header ?rs)" by (simp add: plain_rq_ok)
  from rq_poll [OF this, of Applications_init]
  have poll: "q_poll (concat (map enc_message ?rs), Applications_init) = Ok ([], take_requests (map rq_header ?rs) Applications_init)"
    by (simp add: Applications_init_def)
  have len: "length (concat (map enc_message ?rs)) < 100"
    by (simp add: enc_message_def plain_rq_def enc_head_def enc_request_def enc_fields_def)
  have "http_outcome [] (q_poll (unread sample_stream @ concat [concat (map enc_message ?rs)], Applications_init))
      (poll_feed sample_key [concat (map enc_message ?rs)] ?s)"
    using sample_facts len
    by (intro poll_feed_http) (simp_all add: no_head_pending_def Applications_init_def MAX_HTTP_MESSAGE_BYTES_def q_inv_init)
  then have "\<exists>stream peer. poll_feed sample_key [concat (map enc_message ?rs)] ?s =
      Ok (stream, take_requests (map rq_header ?rs) Applications_init, peer, [])"
    using poll sample_facts(3) by (cases "poll_feed sample_key [concat (map enc_message ?rs)] ?s") auto
  moreover have "pending_head_requests (take_requests (map rq_header ?rs) Applications_init) = [False, True]"
    by (simp add: take_requests_def push_message_def note_request_def rq_header_def plain_rq_def http_isRequest_def
        Applications_init_def MAX_PENDING_REQUESTS_def)
  ultimately show ?thesis by auto
qed

text \<open>The two looks at the chunked response.\<close>

lemma chunked_first_look:
  assumes "in_order st" and "unread st = chunked_response @ chunk_request @ line_end" and "pending_head_requests client = [False, True]"
  shows "http_poll_loop \<lparr> hp_stream = st, hp_app = Applications_init, hp_peer = client \<rparr> =
    Ok \<lparr> hp_stream = st, hp_app = Applications_init \<lparr> http_chunk_prefix := 48 \<rparr>, hp_peer = client \<lparr> pending_head_requests := [True] \<rparr> \<rparr>"
proof -
  let ?st = "\<lparr> hp_stream = st, hp_app = Applications_init, hp_peer = client \<rparr>"
  have inv: "reassembler_inv st" using assms(1) by (simp add: in_order_def)
  have "length (unread st) < 200"
    by (simp add: assms(2) chunked_response_def chunk_request_def te_fields_ok(2) line_end_def)
  then have small: "\<not> available st > MAX_HTTP_MESSAGE_BYTES"
    using tcp_stream.available_view [OF inv] by (simp add: MAX_HTTP_MESSAGE_BYTES_def)
  have app: "http_chunk_prefix Applications_init = 0" by (simp add: Applications_init_def)
  have turn: "http_turn ?st = http_message ?st response_header (length (chunked_response @ chunk_request @ line_end)) (chunk_request @ line_end)"
    using assms(2) inv by (intro heads_turn [OF chunked_heads(1)]) (simp_all add: Applications_init_def)
  show ?thesis
    using small assms(3)
    by (simp add: http_poll_loop.simps [of ?st] turn http_message_def take_head_response_def http_body_def chunked_facts
        chunk_request_chunk app Let_def)
qed

lemma chunked_second_look:
  assumes "in_order st" and "unread st = chunked_response @ chunk_request @ line_end @ [65]"
    and "pending_head_requests client = [True]"
  shows "http_poll_loop \<lparr> hp_stream = st, hp_app = Applications_init \<lparr> http_chunk_prefix := 48 \<rparr>, hp_peer = client \<rparr> = UB"
proof -
  let ?app = "Applications_init \<lparr> http_chunk_prefix := 48 \<rparr>"
  let ?st = "\<lparr> hp_stream = st, hp_app = ?app, hp_peer = client \<rparr>"
  let ?st' = "\<lparr> hp_stream = consume st (length chunked_response), hp_app = push_message response_header ?app,
      hp_peer = client \<lparr> pending_head_requests := [] \<rparr> \<rparr>"
  have inv: "reassembler_inv st" using assms(1) by (simp add: in_order_def)
  have turn: "http_turn ?st = http_message ?st response_header (length (chunked_response @ chunk_request @ line_end @ [65])) (chunk_request @ line_end @ [65])"
    using assms(2) inv by (intro heads_turn [OF chunked_heads(1)]) (simp_all add: Applications_init_def)
  then have first: "http_turn ?st = Ok (Continue ?st')"
    using assms(3) by (simp add: http_message_def take_head_response_def http_body_def chunked_facts note_request_def)
  have "http_turn ?st' = http_message ?st' request_header (length (chunk_request @ line_end @ [65])) (line_end @ [65])"
    using tcp_stream.consume_view [OF inv, of "length chunked_response"] tcp_stream.consume_ok [OF inv] assms(2)
    by (intro heads_turn [OF chunked_heads(2)]) (simp_all add: push_message_def Applications_init_def)
  then have "http_turn ?st' = UB"
    by (simp add: http_message_def take_head_response_def http_body_def chunked_facts subspan_def push_message_def line_end_def)
  then show ?thesis by (simp add: http_poll_loop.simps [of ?st] first http_poll_loop.simps [of ?st'])
qed

section \<open>Properties\<close>



text \<open>
  C12. The same slip reaches undefined behaviour: the count of validated chunk bytes is kept for
  a response that the second look takes for the answer to a \<open>HEAD\<close> request, and is then applied
  to the next message. For a crafted conversation, all of it 7-bit text, \<open>span.subspan\<close> is asked
  for bytes beyond the end: the client asks \<open>GET\<close> and \<open>HEAD\<close>, the response arrives, and one more
  byte.
\<close>

theorem stale_chunk_prefix_undefined:
  "\<exists>stream client peer. poll_feed sample_key [enc_message (plain_rq ''GET'') @ enc_message (plain_rq ''HEAD'')]
     (sample_stream, Applications_init, Applications_init, []) = Ok (stream, client, peer, []) \<and>
   poll_feed sample_key [chunked_response @ chunk_request @ line_end, [65]] (sample_stream, Applications_init, client, []) = UB"
proof -
  obtain stream client peer where client: "pending_head_requests client = [False, True]"
    and asked: "poll_feed sample_key [enc_message (plain_rq ''GET'') @ enc_message (plain_rq ''HEAD'')]
     (sample_stream, Applications_init, Applications_init, []) = Ok (stream, client, peer, [])"
    using get_head_pending by blast
  obtain st1 where st1: "in_order st1" "unread st1 = chunked_response @ chunk_request @ line_end"
    and feed1: "\<And>app peer table pieces. poll_feed sample_key ((chunked_response @ chunk_request @ line_end) # pieces) (sample_stream, app, peer, table) =
      bind_res (http_poll_loop \<lparr> hp_stream = st1, hp_app = app, hp_peer = peer \<rparr>) (\<lambda>st.
      poll_feed sample_key pieces (hp_stream st, hp_app st, hp_peer st, table))"
    using feed_one [OF sample_facts(2), of "chunked_response @ chunk_request @ line_end"] sample_facts(3) by auto
  obtain st2 where st2: "in_order st2" "unread st2 = unread st1 @ [65]"
    and feed2: "\<And>app peer table pieces. poll_feed sample_key ([65] # pieces) (st1, app, peer, table) =
      bind_res (http_poll_loop \<lparr> hp_stream = st2, hp_app = app, hp_peer = peer \<rparr>) (\<lambda>st.
      poll_feed sample_key pieces (hp_stream st, hp_app st, hp_peer st, table))"
    using feed_one [OF st1(1), of "[65]"] by blast
  have "http_poll_loop \<lparr> hp_stream = st2, hp_app = Applications_init \<lparr> http_chunk_prefix := 48 \<rparr>,
      hp_peer = client \<lparr> pending_head_requests := [True] \<rparr> \<rparr> = UB"
    using st1(2) st2 by (intro chunked_second_look) simp_all
  then have "poll_feed sample_key [chunked_response @ chunk_request @ line_end, [65]] (sample_stream, Applications_init, client, []) = UB"
    by (simp add: feed1 feed2 chunked_first_look [OF st1 client])
  then show ?thesis using asked by blast
qed



end
