(* ===== verification/Decoder.thy ===== *)
theory Decoder
  imports App_Head
begin

text \<open>
  The decoder (\<^verbatim>\<open>src/net/decode/decoder.cpp\<close>): one captured packet goes through the packet
  decoder, the filter, the flow table, the reassemblers of its flow and the application
  decoder. The calls of the stopwatches around these steps are added in \<open>Timed_Reader\<close>.
  The statistics engine only holds references to the parts below.

  The flow that \<open>addPacket\<close> hands out is a pointer to the entry of the table under the key;
  the model looks the entry up and writes it back.
\<close>

section \<open>State\<close>

record Config =
  print_limit :: nat
  verify_checksum :: bool
  flow_active_timeout_us :: u64
  flow_idle_timeout_us :: u64
  cfg_filter :: FlowKey

definition Config_init :: Config where
  "Config_init = \<lparr> print_limit = 0, verify_checksum = True, flow_active_timeout_us = 0,
     flow_idle_timeout_us = DEFAULT_IDLE_TIMEOUT_US, cfg_filter = FlowKey_zero \<rparr>"

record Decoder =
  flowTable :: FlowTable
  dnsTable :: DnsTable
  appDecoder :: AppDecoder
  config :: Config
  decoded :: u64

definition Decoder_init :: "Config \<Rightarrow> Decoder" where
  "Decoder_init cfg = \<lparr> flowTable = FlowTable_init (flow_active_timeout_us cfg) (flow_idle_timeout_us cfg),
     dnsTable = [], appDecoder = [], config = cfg, decoded = 0 \<rparr>"

section \<open>One packet\<close>

definition passes_filter :: "FlowKey \<Rightarrow> Packet \<Rightarrow> bool" where
  "passes_filter f p \<longleftrightarrow> \<not> (isNonZero f \<and> (case keyFromPacket p of Ok key \<Rightarrow> \<not> matches f key | _ \<Rightarrow> True))"

definition reassemble :: "Packet \<Rightarrow> Flow \<Rightarrow> Flow res" where
  "reassemble p flow =
     (case transport p of
        Tp_Tcp h \<Rightarrow>
          if is_reverse flow then
            bind_res (onSent (rev_tcp flow) h (payload p)) (\<lambda>self.
            Ok (flow \<lparr> rev_tcp := self, fwd_tcp := onReceived (fwd_tcp flow) h \<rparr>))
          else
            bind_res (onSent (fwd_tcp flow) h (payload p)) (\<lambda>self.
            Ok (flow \<lparr> fwd_tcp := self, rev_tcp := onReceived (rev_tcp flow) h \<rparr>))
      | _ \<Rightarrow> Ok flow)"

definition app_decode :: "FlowKey \<Rightarrow> Packet \<Rightarrow> Flow \<Rightarrow> bool \<Rightarrow> AppDecoder \<Rightarrow> DnsTable \<Rightarrow> (Flow \<times> AppDecoder \<times> DnsTable) res" where
  "app_decode key p flow is_new apps table =
     (if isTcp p then pollFlow key flow is_new apps table
      else if isUdp p then pollDatagram key flow (payload p) is_new apps table
      else Ok (flow, apps, table))"

text \<open>The steps after \<open>addPacket\<close>, with the flow it found.\<close>

definition decode_flow :: "Packet \<Rightarrow> FlowTable \<Rightarrow> (FlowKey \<times> bool) option \<Rightarrow> Decoder \<Rightarrow> Decoder res" where
  "decode_flow p table found d =
     (case found of
        None \<Rightarrow> Ok (d \<lparr> flowTable := table \<rparr>)
      | Some (key, is_new) \<Rightarrow>
          (case map_of (flows table) key of
             None \<Rightarrow> UB
           | Some flow \<Rightarrow>
               bind_res (reassemble p flow) (\<lambda>flow.
               bind_res (app_decode key p flow is_new (appDecoder d) (dnsTable d)) (\<lambda>(flow, apps, names).
               Ok (d \<lparr> flowTable := table \<lparr> flows := AList.update key flow (flows table) \<rparr>, appDecoder := apps, dnsTable := names \<rparr>)))))"

definition decode :: "span \<Rightarrow> Capture \<Rightarrow> Decoder \<Rightarrow> (Capture \<times> Decoder) res" where
  "decode span capture d =
     (let capture = capture \<lparr> pkt := Packet_reset (pkt capture) \<rparr> in
      bind_res (decodePacket span (pkt capture) (verify_checksum (config d))) (\<lambda>(p, _).
      let capture = capture \<lparr> pkt := p \<rparr> in
      if \<not> passes_filter (cfg_filter (config d)) p then Err Filtered
      else
        bind_res (addPacket (flowTable d) capture) (\<lambda>(table, found).
        bind_res (decode_flow p table found d) (\<lambda>d.
        Ok (capture, d \<lparr> decoded := decoded d + 1 \<rparr>)))))"

definition finish :: "Decoder \<Rightarrow> Decoder" where
  "finish d =
     (let table = flush (flowTable d) in
      d \<lparr> decoded := 0, flowTable := table, appDecoder := prune table (appDecoder d) \<rparr>)"

end
