(* ===== verification/Printers.thy ===== *)
theory Printers
  imports Packets Pcap
begin

text \<open>
  The printers of the protocol headers and of a packet: \<open>Header::toString\<close> and \<open>Header::toJson\<close>
  of every file under \<^verbatim>\<open>src/net/protocols\<close>, and \<open>Packet::toString\<close> and \<open>Packet::toJson\<close> of
  \<^verbatim>\<open>src/net/decode/packet.cpp\<close>. Each builds its text in an \<open>ostringstream\<close> of its own; \<open>std::hex\<close>
  with \<open>std::setfill('0')\<close> and \<open>std::setw(n)\<close> is \<open>hex0 n\<close>, and the streams are back in decimal
  wherever a number is printed without them.

  The address fields of an ARP header are pointers into the captured bytes; \<open>printHex\<close> reads the
  \<open>len\<close> bytes from there, which the parser has checked to exist.
\<close>

section \<open>Numbers\<close>

abbreviation dec :: "'a::len word \<Rightarrow> string" where "dec w \<equiv> dec_string (unat w)"
abbreviation hex :: "'a::len word \<Rightarrow> string" where "hex w \<equiv> hex_string (unat w)"
abbreviation hex0 :: "nat \<Rightarrow> 'a::len word \<Rightarrow> string" where "hex0 n w \<equiv> pad0 n (hex_string (unat w))"
abbreviation nl :: string where "nl \<equiv> [newline]"

section \<open>Ethernet and VLAN\<close>

definition ethernet_toString :: "ethernet_Header \<Rightarrow> string" where
  "ethernet_toString h =
     ''EthernetHeader {'' @ nl @
     ''  dst_mac: '' @ printMac (eth_dst_mac h) @ nl @
     ''  src_mac: '' @ printMac (eth_src_mac h) @ nl @
     ''  ethertype: 0x'' @ hex0 4 (eth_ethertype h) @ '' ('' @ ethertypeName (eth_ethertype h) @ '')'' @ nl @
     ''}''"

definition ethernet_toJson :: "ethernet_Header \<Rightarrow> string" where
  "ethernet_toJson h =
     ''\"ethernet\": {'' @ nl @
     ''  \"dst_mac\": \"'' @ printMac (eth_dst_mac h) @ ''\",'' @ nl @
     ''  \"src_mac\": \"'' @ printMac (eth_src_mac h) @ ''\",'' @ nl @
     ''  \"ethertype\": \"0x'' @ hex0 4 (eth_ethertype h) @ ''\"'' @ nl @
     ''}''"

definition vlan_toString :: "vlan_Header \<Rightarrow> string" where
  "vlan_toString h =
     ''VLANHeader {'' @ nl @
     ''  pcp: '' @ dec (vlan_pcp h) @ nl @
     ''  dei: '' @ dec (vlan_dei h) @ nl @
     ''  vid: '' @ dec (vlan_vid h) @ nl @
     ''  ethertype: 0x'' @ hex0 4 (vlan_ethertype h) @ '' ('' @ ethertypeName (vlan_ethertype h) @ '')'' @ nl @
     ''}''"

definition vlan_toJson :: "vlan_Header \<Rightarrow> string" where
  "vlan_toJson h =
     ''\"vlan\": {'' @ nl @
     ''  \"pcp\": '' @ dec (vlan_pcp h) @ '','' @ nl @
     ''  \"dei\": '' @ dec (vlan_dei h) @ '','' @ nl @
     ''  \"vid\": '' @ dec (vlan_vid h) @ '','' @ nl @
     ''  \"ethertype\": \"0x'' @ hex0 4 (vlan_ethertype h) @ ''\"'' @ nl @
     ''}''"

section \<open>ARP\<close>

fun printHex_loop :: "bool \<Rightarrow> u8 list \<Rightarrow> string" where
  "printHex_loop first [] = []"
| "printHex_loop first (b # bs) = (if first then [] else ''-'') @ hex0 2 b @ printHex_loop False bs"

definition arp_printHex :: "span \<Rightarrow> u8 \<Rightarrow> string" where
  "arp_printHex p len = printHex_loop True (take (unat len) p)"

definition arp_printHw :: "arp_Header \<Rightarrow> span \<Rightarrow> string" where
  "arp_printHw h p =
     (if arp_htype h = HTYPE_ETHERNET \<and> arp_hlen h = 6 then printMac p else arp_printHex p (arp_hlen h))"

definition arp_printProto :: "arp_Header \<Rightarrow> span \<Rightarrow> string" where
  "arp_printProto h p =
     (if arp_ptype h = ETHERTYPE_IPV4 \<and> arp_plen h = 4 then v4_printIp_bytes p else arp_printHex p (arp_plen h))"

definition arp_toString :: "arp_Header \<Rightarrow> string" where
  "arp_toString h =
     ''ArpHeader {'' @ nl @
     ''  htype: '' @ dec (arp_htype h) @ (if arp_htype h = HTYPE_ETHERNET then '' (Ethernet)'' else []) @ nl @
     ''  ptype: 0x'' @ hex0 4 (arp_ptype h) @ (if arp_ptype h = ETHERTYPE_IPV4 then '' (IPv4)'' else []) @ nl @
     ''  oper: '' @ dec (arp_oper h) @
       (if arp_oper h = OPER_REQUEST then '' (request)'' else if arp_oper h = OPER_REPLY then '' (reply)'' else []) @ nl @
     ''  sha: '' @ arp_printHw h (arp_sha h) @ nl @
     ''  spa: '' @ arp_printProto h (arp_spa h) @ nl @
     ''  tha: '' @ arp_printHw h (arp_tha h) @ nl @
     ''  tpa: '' @ arp_printProto h (arp_tpa h) @ nl @
     ''}''"

definition arp_toJson :: "arp_Header \<Rightarrow> string" where
  "arp_toJson h =
     ''\"arp\": {'' @ nl @
     ''  \"htype\": '' @ dec (arp_htype h) @ '','' @ nl @
     ''  \"ptype\": \"0x'' @ hex0 4 (arp_ptype h) @ ''\",'' @ nl @
     ''  \"oper\": '' @ dec (arp_oper h) @ '','' @ nl @
     ''  \"sha\": \"'' @ arp_printHw h (arp_sha h) @ ''\",'' @ nl @
     ''  \"spa\": \"'' @ arp_printProto h (arp_spa h) @ ''\",'' @ nl @
     ''  \"tha\": \"'' @ arp_printHw h (arp_tha h) @ ''\",'' @ nl @
     ''  \"tpa\": \"'' @ arp_printProto h (arp_tpa h) @ ''\"'' @ nl @
     ''}''"

section \<open>IPv4 and IPv6\<close>

definition v4_toString :: "v4_Header \<Rightarrow> string" where
  "v4_toString h =
     ''IPv4Header {'' @ nl @
     ''  version: '' @ dec (v4_version h) @ nl @
     ''  ihl: '' @ dec (v4_ihl h) @ nl @
     ''  tos: 0x'' @ hex0 2 (v4_tos h) @ nl @
     ''  total_length: '' @ dec (v4_total_length h) @ nl @
     ''  identification: '' @ dec (v4_identification h) @ nl @
     ''  flags: '' @
       (if v4_dontFragment h then ''DF'' else []) @
       (if v4_moreFragments h then ''MF'' else []) @
       (if \<not> v4_dontFragment h \<and> \<not> v4_moreFragments h then ''none'' else []) @
       '' (0b'' @ dec (drop_bit 2 (v4_flags h) AND 1) @ dec (drop_bit 1 (v4_flags h) AND 1) @ dec (v4_flags h AND 1) @ '')'' @ nl @
     ''  fragment: '' @ hex0 4 (v4_fragment h) @ nl @
     ''  ttl: '' @ dec (v4_ttl h) @ nl @
     ''  protocol: '' @ dec (v4_protocol h) @ '' ('' @ protocolName (v4_protocol h) @ '')'' @ nl @
     ''  checksum: 0x'' @ hex (v4_checksum h) @ nl @
     ''  src_ip: '' @ v4_printIp (v4_src_ip h) @ nl @
     ''  dst_ip: '' @ v4_printIp (v4_dst_ip h) @ nl @
     ''}''"

definition v4_json_flags :: "v4_Header \<Rightarrow> string" where
  "v4_json_flags h =
     (if v4_dontFragment h then ''\"DF\"'' else []) @
     (if v4_moreFragments h then (if v4_dontFragment h then '', '' else []) @ ''\"MF\"'' else [])"

definition v4_toJson :: "v4_Header \<Rightarrow> string" where
  "v4_toJson h =
     ''\"ipv4\": {'' @ nl @
     ''  \"version\": '' @ dec (v4_version h) @ '','' @ nl @
     ''  \"ihl\": '' @ dec (v4_ihl h) @ '','' @ nl @
     ''  \"tos\": \"0x'' @ hex0 2 (v4_tos h) @ ''\",'' @ nl @
     ''  \"total_length\": '' @ dec (v4_total_length h) @ '','' @ nl @
     ''  \"identification\": '' @ dec (v4_identification h) @ '','' @ nl @
     ''  \"flags\": ['' @ v4_json_flags h @ ''],'' @ nl @
     ''  \"fragment\": \"0x'' @ hex0 4 (v4_fragment h) @ ''\",'' @ nl @
     ''  \"ttl\": '' @ dec (v4_ttl h) @ '','' @ nl @
     ''  \"protocol\": '' @ dec (v4_protocol h) @ '','' @ nl @
     ''  \"checksum\": \"0x'' @ hex (v4_checksum h) @ ''\",'' @ nl @
     ''  \"src_ip\": \"'' @ v4_printIp (v4_src_ip h) @ ''\",'' @ nl @
     ''  \"dst_ip\": \"'' @ v4_printIp (v4_dst_ip h) @ ''\"'' @ nl @
     ''}''"

definition v6_toString :: "v6_Header \<Rightarrow> string" where
  "v6_toString h =
     ''IPv6Header {'' @ nl @
     ''  version: '' @ dec (v6_version h) @ nl @
     ''  traffic_class: '' @ dec (v6_tc h) @ nl @
     ''  flow_label: 0x'' @ hex0 5 (v6_fl h) @ nl @
     ''  payload_length: '' @ dec (v6_payload_length h) @ nl @
     ''  next_header: '' @ dec (v6_next_header h) @ '' ('' @ protocolName (v6_next_header h) @ '')'' @ nl @
     ''  hop_limit: '' @ dec (v6_hop_limit h) @ nl @
     ''  src_ip: '' @ v6_printIp (v6_src_ip h) @ nl @
     ''  dst_ip: '' @ v6_printIp (v6_dst_ip h) @ nl @
     ''}''"

definition v6_toJson :: "v6_Header \<Rightarrow> string" where
  "v6_toJson h =
     ''\"ipv6\": {'' @ nl @
     ''  \"version\": '' @ dec (v6_version h) @ '','' @ nl @
     ''  \"traffic_class\": '' @ dec (v6_tc h) @ '','' @ nl @
     ''  \"flow_label\": \"0x'' @ hex0 5 (v6_fl h) @ ''\",'' @ nl @
     ''  \"payload_length\": '' @ dec (v6_payload_length h) @ '','' @ nl @
     ''  \"next_header\": '' @ dec (v6_next_header h) @ '','' @ nl @
     ''  \"hop_limit\": '' @ dec (v6_hop_limit h) @ '','' @ nl @
     ''  \"src_ip\": \"'' @ v6_printIp (v6_src_ip h) @ ''\",'' @ nl @
     ''  \"dst_ip\": \"'' @ v6_printIp (v6_dst_ip h) @ ''\"'' @ nl @
     ''}''"

definition ext_text_fields :: "ext_Header \<Rightarrow> string" where
  "ext_text_fields h =
     (if ext_type h = PROTOCOL_IPV6_ROUTE then
        ''  routing_type: '' @ dec (ext_routing_type h) @ nl @
        ''  segments_left: '' @ dec (ext_segments_left h) @ nl @
        (if ext_has_final_dst h then ''  final_dst: '' @ v6_printIp (ext_final_dst h) @ nl else [])
      else if ext_type h = PROTOCOL_IPV6_FRAG then
        ''  fragment_offset: '' @ dec (ext_fragment_offset h) @ nl @
        ''  more_fragments: '' @ (if ext_more_fragments h then ''true'' else ''false'') @ nl @
        ''  identification: 0x'' @ hex0 8 (ext_identification h) @ nl
      else if ext_type h = PROTOCOL_AH then ''  spi: 0x'' @ hex0 8 (ext_spi h) @ nl
      else [])"

definition ext_toString :: "ext_Header \<Rightarrow> string" where
  "ext_toString h =
     ''IPv6ExtHeader {'' @ nl @
     ''  type: '' @ dec (ext_type h) @ '' ('' @ protocolName (ext_type h) @ '')'' @ nl @
     ''  next_header: '' @ dec (ext_next_header h) @ '' ('' @ protocolName (ext_next_header h) @ '')'' @ nl @
     ''  length: '' @ dec (ext_length h) @ nl @
     ext_text_fields h @
     ''}''"

definition ext_json_fields :: "ext_Header \<Rightarrow> string" where
  "ext_json_fields h =
     (if ext_type h = PROTOCOL_IPV6_ROUTE then
        '','' @ nl @
        ''  \"routing_type\": '' @ dec (ext_routing_type h) @ '','' @ nl @
        ''  \"segments_left\": '' @ dec (ext_segments_left h) @
        (if ext_has_final_dst h then '','' @ nl @ ''  \"final_dst\": \"'' @ v6_printIp (ext_final_dst h) @ ''\"'' else [])
      else if ext_type h = PROTOCOL_IPV6_FRAG then
        '','' @ nl @
        ''  \"fragment_offset\": '' @ dec (ext_fragment_offset h) @ '','' @ nl @
        ''  \"more_fragments\": '' @ (if ext_more_fragments h then ''true'' else ''false'') @ '','' @ nl @
        ''  \"identification\": \"0x'' @ hex0 8 (ext_identification h) @ ''\"''
      else if ext_type h = PROTOCOL_AH then
        '','' @ nl @
        ''  \"spi\": \"0x'' @ hex0 8 (ext_spi h) @ ''\"''
      else [])"

definition ext_toJson :: "ext_Header \<Rightarrow> string" where
  "ext_toJson h =
     ''\"ipv6_ext\": {'' @ nl @
     ''  \"type\": '' @ dec (ext_type h) @ '','' @ nl @
     ''  \"name\": \"'' @ protocolName (ext_type h) @ ''\",'' @ nl @
     ''  \"next_header\": '' @ dec (ext_next_header h) @ '','' @ nl @
     ''  \"length\": '' @ dec (ext_length h) @
     ext_json_fields h @ nl @
     ''}''"

section \<open>TCP and UDP\<close>

definition tcp_toString :: "tcp_Header \<Rightarrow> string" where
  "tcp_toString h =
     ''TCPHeader {'' @ nl @
     ''  src_port: '' @ dec (tcp_src_port h) @ nl @
     ''  dst_port: '' @ dec (tcp_dst_port h) @ nl @
     ''  seq_number: '' @ dec (tcp_seq_number h) @ nl @
     ''  ack_number: '' @ dec (tcp_ack_number h) @ nl @
     ''  data_offset: 0x'' @ hex (tcp_data_offset h) @ nl @
     ''  flags: '' @
       (if tcp_cwr h then ''CWR '' else []) @ (if tcp_ece h then ''ECE '' else []) @
       (if tcp_urg h then ''URG '' else []) @ (if tcp_ack h then ''ACK '' else []) @
       (if tcp_psh h then ''PSH '' else []) @ (if tcp_rst h then ''RST '' else []) @
       (if tcp_syn h then ''SYN '' else []) @ (if tcp_fin h then ''FIN '' else []) @
       (if tcp_flags h = 0 then ''none '' else []) @
       ''(0x'' @ hex0 2 (tcp_flags h) @ '')'' @ nl @
     ''  window_size: '' @ dec (tcp_window_size h) @ nl @
     ''  checksum: 0x'' @ hex0 4 (tcp_checksum h) @ nl @
     ''  urgent_pointer: '' @ dec (tcp_urgent_pointer h) @ nl @
     ''}''"

definition tcp_toJson :: "tcp_Header \<Rightarrow> string" where
  "tcp_toJson h =
     ''\"tcp\": {'' @ nl @
     ''  \"src_port\": '' @ dec (tcp_src_port h) @ '','' @ nl @
     ''  \"dst_port\": '' @ dec (tcp_dst_port h) @ '','' @ nl @
     ''  \"seq_number\": '' @ dec (tcp_seq_number h) @ '','' @ nl @
     ''  \"ack_number\": '' @ dec (tcp_ack_number h) @ '','' @ nl @
     ''  \"data_offset\": '' @ dec (tcp_data_offset h) @ '','' @ nl @
     ''  \"flags\": \"0x'' @ hex0 2 (tcp_flags h) @ ''\",'' @ nl @
     ''  \"window_size\": '' @ dec (tcp_window_size h) @ '','' @ nl @
     ''  \"checksum\": \"0x'' @ hex0 4 (tcp_checksum h) @ ''\",'' @ nl @
     ''  \"urgent_pointer\": '' @ dec (tcp_urgent_pointer h) @ nl @
     ''}''"

definition udp_toString :: "udp_Header \<Rightarrow> string" where
  "udp_toString h =
     ''UDPHeader {'' @ nl @
     ''  src_port: '' @ dec (udp_src_port h) @ nl @
     ''  dst_port: '' @ dec (udp_dst_port h) @ nl @
     ''  length: '' @ dec (udp_length h) @ nl @
     ''  checksum: 0x'' @ hex0 4 (udp_checksum h) @ nl @
     ''}''"

definition udp_toJson :: "udp_Header \<Rightarrow> string" where
  "udp_toJson h =
     ''\"udp\": {'' @ nl @
     ''  \"src_port\": '' @ dec (udp_src_port h) @ '','' @ nl @
     ''  \"dst_port\": '' @ dec (udp_dst_port h) @ '','' @ nl @
     ''  \"length\": '' @ dec (udp_length h) @ '','' @ nl @
     ''  \"checksum\": \"0x'' @ hex0 4 (udp_checksum h) @ ''\"'' @ nl @
     ''}''"

section \<open>ICMP and ICMPv6\<close>

definition icmp_type_name :: "u8 \<Rightarrow> string" where
  "icmp_type_name type =
     (if type = ICMP_ECHO_REPLY then ''echo reply''
      else if type = ICMP_UNREACHABLE then ''unreachable''
      else if type = ICMP_SOURCE_QUENCH then ''source quench''
      else if type = ICMP_REDIRECT then ''redirect''
      else if type = ICMP_ECHO_REQUEST then ''echo request''
      else if type = ICMP_TTL_EXCEEDED then ''TTL exceeded''
      else if type = ICMP_PARAM_PROBLEM then ''param problem''
      else if type = ICMP_TIMESTAMP then ''timestamp''
      else if type = ICMP_TIMESTAMP_REPLY then ''timestamp reply''
      else if type = ICMP_INFO_REQUEST then ''info request''
      else if type = ICMP_INFO_REPLY then ''info reply''
      else ''unknown'')"

text \<open>The code constants: 0, 1 and 3 for unreachable, 0 to 3 for redirect, 0 and 1 for the other two.\<close>

definition icmp_code_text :: "u8 \<Rightarrow> u8 \<Rightarrow> string" where
  "icmp_code_text type code =
     (if type = ICMP_UNREACHABLE then
        (if code = 0 then '' (net unreachable)'' else if code = 1 then '' (host unreachable)''
         else if code = 3 then '' (port unreachable)'' else [])
      else if type = ICMP_REDIRECT then
        (if code = 0 then '' (redirect for network)'' else if code = 1 then '' (redirect for host)''
         else if code = 2 then '' (redirect for TOS and network)'' else if code = 3 then '' (redirect for TOS and host)'' else [])
      else if type = ICMP_TTL_EXCEEDED then
        (if code = 0 then '' (TTL exceeded in transit)'' else if code = 1 then '' (fragment reassembly exceeded)'' else [])
      else if type = ICMP_PARAM_PROBLEM then
        (if code = 0 then '' (bad header)'' else if code = 1 then '' (missing option)'' else [])
      else [])"

definition icmp_text_fields :: "icmp_Header \<Rightarrow> string" where
  "icmp_text_fields h =
     (let type = icmp_type h;
          code = ''  code: '' @ dec (icmp_code h) @ icmp_code_text type (icmp_code h) @ nl in
      if type = ICMP_UNREACHABLE then code
      else if type = ICMP_REDIRECT then code @ ''  gateway: '' @ v4_printIp (icmp_gateway h) @ nl
      else if type = ICMP_TTL_EXCEEDED then code
      else if type = ICMP_PARAM_PROBLEM then code @ ''  pointer: '' @ dec (icmp_pointer h) @ nl
      else if type = ICMP_ECHO_REQUEST \<or> type = ICMP_ECHO_REPLY then
        ''  id: '' @ dec (icmp_echo_id h) @ nl @ ''  seq: '' @ dec (icmp_echo_seq h) @ nl
      else [])"

definition icmp_toString :: "icmp_Header \<Rightarrow> string" where
  "icmp_toString h =
     ''ICMPHeader {'' @ nl @
     ''  type: '' @ dec (icmp_type h) @ '' ('' @ icmp_type_name (icmp_type h) @ '')'' @ nl @
     icmp_text_fields h @
     ''  checksum: 0x'' @ hex0 4 (icmp_checksum h) @ nl @
     ''}''"

definition icmp_json_fields :: "icmp_Header \<Rightarrow> string" where
  "icmp_json_fields h =
     (let type = icmp_type h in
      if type = ICMP_REDIRECT then ''  \"gateway\": \"'' @ v4_printIp (icmp_gateway h) @ ''\",'' @ nl
      else if type = ICMP_PARAM_PROBLEM then ''  \"pointer\": '' @ dec (icmp_pointer h) @ '','' @ nl
      else if type = ICMP_ECHO_REQUEST \<or> type = ICMP_ECHO_REPLY then
        ''  \"id\": '' @ dec (icmp_echo_id h) @ '','' @ nl @ ''  \"seq\": '' @ dec (icmp_echo_seq h) @ '','' @ nl
      else [])"

definition icmp_toJson :: "icmp_Header \<Rightarrow> string" where
  "icmp_toJson h =
     ''\"icmp\": {'' @ nl @
     ''  \"type\": '' @ dec (icmp_type h) @ '','' @ nl @
     ''  \"code\": '' @ dec (icmp_code h) @ '','' @ nl @
     icmp_json_fields h @
     ''  \"checksum\": \"0x'' @ hex0 4 (icmp_checksum h) @ ''\"'' @ nl @
     ''}''"

definition icmpv6_type_name :: "u8 \<Rightarrow> string" where
  "icmpv6_type_name type =
     (if type = ICMPV6_UNREACHABLE then ''unreachable''
      else if type = ICMPV6_PACKET_TOO_BIG then ''packet too big''
      else if type = ICMPV6_TTL_EXCEEDED then ''TTL exceeded''
      else if type = ICMPV6_PARAM_PROBLEM then ''param problem''
      else if type = ICMPV6_ECHO_REQUEST then ''echo request''
      else if type = ICMPV6_ECHO_REPLY then ''echo reply''
      else ''unknown'')"

definition icmpv6_code_text :: "u8 \<Rightarrow> u8 \<Rightarrow> string" where
  "icmpv6_code_text type code =
     (if type = ICMPV6_UNREACHABLE then
        (if code = 0 then '' (no route to destination)'' else if code = 1 then '' (admin prohibited)''
         else if code = 2 then '' (beyond scope of source address)'' else if code = 3 then '' (address unreachable)''
         else if code = 4 then '' (port unreachable)'' else [])
      else if type = ICMPV6_TTL_EXCEEDED then
        (if code = 0 then '' (hop limit exceeded in transit)'' else if code = 1 then '' (fragment reassembly time exceeded)'' else [])
      else if type = ICMPV6_PARAM_PROBLEM then
        (if code = 0 then '' (erroneous header field)'' else if code = 1 then '' (unrecognized next header)''
         else if code = 2 then '' (unrecognized option)'' else [])
      else [])"

definition icmpv6_text_fields :: "icmpv6_Header \<Rightarrow> string" where
  "icmpv6_text_fields h =
     (let type = icmpv6_type h;
          code = ''  code: '' @ dec (icmpv6_code h) @ icmpv6_code_text type (icmpv6_code h) @ nl in
      if type = ICMPV6_UNREACHABLE then code
      else if type = ICMPV6_PACKET_TOO_BIG then ''  mtu: '' @ dec (icmpv6_mtu h) @ nl
      else if type = ICMPV6_TTL_EXCEEDED then code
      else if type = ICMPV6_PARAM_PROBLEM then code @ ''  pointer: '' @ dec (icmpv6_pointer h) @ nl
      else if type = ICMPV6_ECHO_REQUEST \<or> type = ICMPV6_ECHO_REPLY then
        ''  id: '' @ dec (icmpv6_echo_id h) @ nl @ ''  seq: '' @ dec (icmpv6_echo_seq h) @ nl
      else [])"

definition icmpv6_toString :: "icmpv6_Header \<Rightarrow> string" where
  "icmpv6_toString h =
     ''ICMPv6Header {'' @ nl @
     ''  type: '' @ dec (icmpv6_type h) @ '' ('' @ icmpv6_type_name (icmpv6_type h) @ '')'' @ nl @
     icmpv6_text_fields h @
     ''  checksum: 0x'' @ hex0 4 (icmpv6_checksum h) @ nl @
     ''}''"

definition icmpv6_json_fields :: "icmpv6_Header \<Rightarrow> string" where
  "icmpv6_json_fields h =
     (let type = icmpv6_type h in
      if type = ICMPV6_PACKET_TOO_BIG then ''  \"mtu\": '' @ dec (icmpv6_mtu h) @ '','' @ nl
      else if type = ICMPV6_PARAM_PROBLEM then ''  \"pointer\": '' @ dec (icmpv6_pointer h) @ '','' @ nl
      else if type = ICMPV6_ECHO_REQUEST \<or> type = ICMPV6_ECHO_REPLY then
        ''  \"id\": '' @ dec (icmpv6_echo_id h) @ '','' @ nl @ ''  \"seq\": '' @ dec (icmpv6_echo_seq h) @ '','' @ nl
      else [])"

definition icmpv6_toJson :: "icmpv6_Header \<Rightarrow> string" where
  "icmpv6_toJson h =
     ''\"icmpv6\": {'' @ nl @
     ''  \"type\": '' @ dec (icmpv6_type h) @ '','' @ nl @
     ''  \"code\": '' @ dec (icmpv6_code h) @ '','' @ nl @
     icmpv6_json_fields h @
     ''  \"checksum\": \"0x'' @ hex0 4 (icmpv6_checksum h) @ ''\"'' @ nl @
     ''}''"

section \<open>A packet\<close>

definition datalink_text :: "DataLinkHeader \<Rightarrow> string" where
  "datalink_text d = (case d of DL_Ethernet h \<Rightarrow> ethernet_toString h @ nl | DL_monostate \<Rightarrow> [])"

definition Packet_toString :: "Packet \<Rightarrow> string" where
  "Packet_toString p =
     datalink_text (datalink p) @
     concat (map (\<lambda>h. vlan_toString h @ nl) (vlan_tags p)) @
     (case network p of Net_Ipv4 h \<Rightarrow> v4_toString h @ nl | Net_Ipv6 h \<Rightarrow> v6_toString h @ nl | _ \<Rightarrow> []) @
     concat (map (\<lambda>h. ext_toString h @ nl) (ipv6_ext p)) @
     (case network p of Net_Arp h \<Rightarrow> arp_toString h @ nl | _ \<Rightarrow> []) @
     (case transport p of
        Tp_Udp h \<Rightarrow> udp_toString h @ nl
      | Tp_Tcp h \<Rightarrow> tcp_toString h @ nl
      | Tp_Icmp h \<Rightarrow> icmp_toString h @ nl
      | Tp_Icmpv6 h \<Rightarrow> icmpv6_toString h @ nl
      | Tp_monostate \<Rightarrow> [])"

text \<open>\<open>printProtocol\<close> and the two array sections extend the text and clear \<open>first\<close>.\<close>

definition json_section :: "string \<Rightarrow> string \<times> bool \<Rightarrow> string \<times> bool" where
  "json_section body = (\<lambda>(oss, first). (oss @ (if first then [] else '','' @ nl) @ body, False))"

definition printProtocol :: "string option \<Rightarrow> string \<times> bool \<Rightarrow> string \<times> bool" where
  "printProtocol value st = (case value of None \<Rightarrow> st | Some json \<Rightarrow> json_section (indent json ''  '') st)"

fun json_items :: "bool \<Rightarrow> string list \<Rightarrow> string" where
  "json_items first [] = []"
| "json_items first (x # xs) = (if first then [] else '','' @ nl) @ indent x ''    '' @ json_items False xs"

definition json_array_section :: "string \<Rightarrow> string list \<Rightarrow> string \<times> bool \<Rightarrow> string \<times> bool" where
  "json_array_section name items st =
     (if items = [] then st
      else json_section (''  \"'' @ name @ ''\": ['' @ nl @ json_items True items @ nl @ ''  ]'') st)"

definition network_v4_json :: "NetworkHeader \<Rightarrow> string option" where
  "network_v4_json n = (case n of Net_Ipv4 h \<Rightarrow> Some (v4_toJson h) | _ \<Rightarrow> None)"

definition network_v6_json :: "NetworkHeader \<Rightarrow> string option" where
  "network_v6_json n = (case n of Net_Ipv6 h \<Rightarrow> Some (v6_toJson h) | _ \<Rightarrow> None)"

definition network_arp_json :: "NetworkHeader \<Rightarrow> string option" where
  "network_arp_json n = (case n of Net_Arp h \<Rightarrow> Some (arp_toJson h) | _ \<Rightarrow> None)"

text \<open>At most one of the four transport calls prints.\<close>

definition transport_json :: "TransportHeader \<Rightarrow> string option" where
  "transport_json t =
     (case t of
        Tp_Udp h \<Rightarrow> Some (udp_toJson h)
      | Tp_Tcp h \<Rightarrow> Some (tcp_toJson h)
      | Tp_Icmp h \<Rightarrow> Some (icmp_toJson h)
      | Tp_Icmpv6 h \<Rightarrow> Some (icmpv6_toJson h)
      | Tp_monostate \<Rightarrow> None)"

definition Packet_toJson :: "Packet \<Rightarrow> string" where
  "Packet_toJson p =
     (let st = (''\"packet\": {'' @ nl, True);
          st = printProtocol (case datalink p of DL_Ethernet h \<Rightarrow> Some (ethernet_toJson h) | _ \<Rightarrow> None) st;
          st = json_array_section ''vlan'' (map (\<lambda>h. drop 8 (vlan_toJson h)) (vlan_tags p)) st;
          st = printProtocol (network_v4_json (network p)) st;
          st = printProtocol (network_v6_json (network p)) st;
          st = json_array_section ''ipv6_ext'' (map (\<lambda>h. drop 12 (ext_toJson h)) (ipv6_ext p)) st;
          st = printProtocol (network_arp_json (network p)) st;
          st = printProtocol (transport_json (transport p)) st in
      case st of (oss, first) \<Rightarrow> oss @ (if first then [] else nl) @ ''}'' @ nl)"

end
