(* ===== verification/Floating.thy ===== *)
theory Floating
  imports Text_Util
begin

text \<open>
  The floating-point numbers that the reports print. Every \<open>double\<close> of the program is the result
  of products and quotients of non-negative integers that stay far inside the exponent range, so
  a \<open>double\<close> is modelled as a non-negative fraction, rounded after each operation to 53
  significant bits, ties to even (IEEE 754). The default stream format prints six significant
  digits (\<open>%g\<close>), \<open>std::fixed\<close> with \<open>std::setprecision(p)\<close> prints \<open>p\<close> decimals (\<open>%f\<close>); both round the
  exact value, ties to even.

  \<open>util::printDuration\<close> and \<open>util::printRate\<close> of \<^verbatim>\<open>src/net/util/text.cpp\<close> are here too.
\<close>

section \<open>Rounding\<close>

type_synonym dbl = "nat \<times> nat"

definition round_div :: "nat \<Rightarrow> nat \<Rightarrow> nat" where
  "round_div a b =
     (let q = a div b; r = a mod b in
      if 2 * r < b then q else if b < 2 * r then q + 1 else if even q then q else q + 1)"

text \<open>Scaling \<open>a / b\<close> into a window of one power of the base; the last component counts the steps.\<close>

function scale_up :: "nat \<Rightarrow> nat \<Rightarrow> nat \<Rightarrow> nat \<Rightarrow> nat \<Rightarrow> nat \<times> nat" where
  "scale_up base low a b e = (if 1 < base \<and> 0 < a \<and> a < low * b then scale_up base low (base * a) b (e + 1) else (a, e))"
  by pat_completeness auto
termination
proof (relation "measure (\<lambda>(base, low, a, b, e). low * b - a)", goal_cases)
  case (2 base low a b e)
  then have "a < base * a" by simp
  then show ?case using 2 by (simp add: diff_less_mono2)
qed simp

function scale_down :: "nat \<Rightarrow> nat \<Rightarrow> nat \<Rightarrow> nat \<Rightarrow> nat \<Rightarrow> nat \<times> nat" where
  "scale_down base high a b e = (if 1 < base \<and> 0 < b \<and> 0 < high \<and> high * b \<le> a then scale_down base high a (base * b) (e + 1) else (b, e))"
  by pat_completeness auto
termination
proof (relation "measure (\<lambda>(base, high, a, b, e). a + 1 - high * b)", goal_cases)
  case (2 base high a b e)
  then have "high * b < high * (base * b)" "high * b < a + 1" by simp_all
  then show ?case by (simp only: in_measure prod.case diff_less_mono2)
qed simp

declare scale_up.simps [simp del] scale_down.simps [simp del]

definition dbl_round :: "dbl \<Rightarrow> dbl" where
  "dbl_round x =
     (case x of (a, b) \<Rightarrow>
        if a = 0 then (0, 1)
        else if a < 2 ^ 52 * b then
          (case scale_up 2 (2 ^ 52) a b 0 of (a, e) \<Rightarrow> (round_div a b, 2 ^ e))
        else
          (case scale_down 2 (2 ^ 53) a b 0 of (b, e) \<Rightarrow> (round_div a b * 2 ^ e, 1)))"

definition dbl_of_u64 :: "u64 \<Rightarrow> dbl" where "dbl_of_u64 n = dbl_round (unat n, 1)"

definition dbl_mul :: "dbl \<Rightarrow> dbl \<Rightarrow> dbl" where "dbl_mul x y = dbl_round (fst x * fst y, snd x * snd y)"

text \<open>The divisor is never zero where the code divides.\<close>

definition dbl_div :: "dbl \<Rightarrow> dbl \<Rightarrow> dbl" where "dbl_div x y = dbl_round (fst x * snd y, snd x * fst y)"

definition dbl_less :: "dbl \<Rightarrow> dbl \<Rightarrow> bool" where "dbl_less x y = (fst x * snd y < fst y * snd x)"

definition dbl_lit :: "nat \<Rightarrow> dbl" where "dbl_lit n = (n, 1)"

section \<open>Printing\<close>

definition show_fixed :: "nat \<Rightarrow> dbl \<Rightarrow> string" where
  "show_fixed p x =
     (let n = round_div (fst x * 10 ^ p) (snd x) in
      dec_string (n div 10 ^ p) @ ''.'' @ pad0 p (dec_string (n mod 10 ^ p)))"

text \<open>
  Six significant digits as a number from 100000 to 999999 with the decimal exponent of the
  first one.
\<close>

definition six_digits :: "dbl \<Rightarrow> nat \<times> int" where
  "six_digits x =
     (case x of (a, b) \<Rightarrow>
      let (n, k) =
        (if a < b then (case scale_up 10 1 a b 0 of (a, e) \<Rightarrow> (round_div (a * 10 ^ 5) b, - int e))
         else (case scale_down 10 10 a b 0 of (b, e) \<Rightarrow> (round_div (a * 10 ^ 5) b, int e))) in
      if n = 10 ^ 6 then (10 ^ 5, k + 1) else (n, k))"

definition strip_zeros :: "string \<Rightarrow> string" where
  "strip_zeros s = List.rev (dropWhile (\<lambda>c. c = CHR ''0'') (List.rev s))"

definition with_point :: "string \<Rightarrow> string \<Rightarrow> string" where
  "with_point i f = (let f = strip_zeros f in if f = [] then i else i @ ''.'' @ f)"

definition show_general :: "dbl \<Rightarrow> string" where
  "show_general x =
     (if fst x = 0 then ''0''
      else case six_digits x of (n, k) \<Rightarrow>
        let ds = dec_string n in
        if k < - 4 \<or> 6 \<le> k then
          with_point (take 1 ds) (drop 1 ds) @ ''e'' @ (if k < 0 then ''-'' else ''+'') @ pad0 2 (dec_string (nat \<bar>k\<bar>))
        else if k < 0 then with_point ''0'' (replicate (nat (- k) - 1) CHR ''0'' @ ds)
        else with_point (take (nat k + 1) ds) (drop (nat k + 1) ds))"

section \<open>Durations and rates\<close>

definition printDuration :: "u64 \<Rightarrow> string" where
  "printDuration ns =
     (if 1000000000 \<le> ns then show_fixed 3 (dbl_div (dbl_of_u64 ns) (dbl_lit 1000000000)) @ ''s''
      else if 1000000 \<le> ns then show_fixed 2 (dbl_div (dbl_of_u64 ns) (dbl_lit 1000000)) @ ''ms''
      else if 1000 \<le> ns then show_fixed 2 (dbl_div (dbl_of_u64 ns) (dbl_lit 1000)) @ ''us''
      else dec_string (unat ns) @ ''ns'')"

definition printRate :: "dbl \<Rightarrow> string" where
  "printRate bps =
     (if \<not> dbl_less bps (dbl_lit 1000000000) then show_fixed 2 (dbl_div bps (dbl_lit 1000000000)) @ ''Gbps''
      else if \<not> dbl_less bps (dbl_lit 1000000) then show_fixed 2 (dbl_div bps (dbl_lit 1000000)) @ ''Mbps''
      else if \<not> dbl_less bps (dbl_lit 1000) then show_fixed 2 (dbl_div bps (dbl_lit 1000)) @ ''Kbps''
      else show_fixed 2 bps @ ''bps'')"

end
