(* ===== verification/Benchmark.thy ===== *)
theory Benchmark
  imports Floating
begin

text \<open>
  The benchmark (\<^verbatim>\<open>src/net/analysis/benchmark.cpp\<close>): per phase a stopwatch with the number of
  calls and the time spent. The steady clock is an argument of \<open>start\<close> and \<open>stop\<close>, in
  nanoseconds; who calls them is in \<open>Timed_Reader\<close>.
\<close>

section \<open>State\<close>

datatype Phase = Total | FileHeaderPhase | PacketHeaderPhase | DecodePhase | DecodePacketPhase | FlowLookup | TcpReassembly | AppDecode

definition all_phases :: "Phase list" where
  "all_phases = [Total, FileHeaderPhase, PacketHeaderPhase, DecodePhase, DecodePacketPhase, FlowLookup, TcpReassembly, AppDecode]"

fun toString_Phase :: "Phase \<Rightarrow> string" where
  "toString_Phase Total = ''total''"
| "toString_Phase FileHeaderPhase = ''file header''"
| "toString_Phase PacketHeaderPhase = ''packet header''"
| "toString_Phase DecodePhase = ''decode''"
| "toString_Phase DecodePacketPhase = ''decode packet''"
| "toString_Phase FlowLookup = ''flow lookup''"
| "toString_Phase TcpReassembly = ''tcp reassembly''"
| "toString_Phase AppDecode = ''app decode''"

record PhaseStats =
  ps_calls :: u64
  ps_elapsed_ns :: u64

record PhaseState =
  ph_stats :: PhaseStats
  ph_started :: u64
  ph_running :: bool

definition PhaseState_init :: PhaseState where
  "PhaseState_init = \<lparr> ph_stats = \<lparr> ps_calls = 0, ps_elapsed_ns = 0 \<rparr>, ph_started = 0, ph_running = False \<rparr>"

record Benchmark =
  phases :: "Phase \<Rightarrow> PhaseState"
  bm_bytes :: u64
  bm_detailed :: bool

definition Benchmark_init :: Benchmark where
  "Benchmark_init = \<lparr> phases = (\<lambda>_. PhaseState_init), bm_bytes = 0, bm_detailed = False \<rparr>"

definition setDetailed :: "bool \<Rightarrow> Benchmark \<Rightarrow> Benchmark" where "setDetailed on b = b \<lparr> bm_detailed := on \<rparr>"
definition setBytes :: "u64 \<Rightarrow> Benchmark \<Rightarrow> Benchmark" where "setBytes n b = b \<lparr> bm_bytes := n \<rparr>"

definition isPerPacket :: "Phase \<Rightarrow> bool" where "isPerPacket phase \<longleftrightarrow> phase \<noteq> Total \<and> phase \<noteq> FileHeaderPhase"

definition phase_stats :: "Benchmark \<Rightarrow> Phase \<Rightarrow> PhaseStats" where "phase_stats b phase = ph_stats (phases b phase)"
definition elapsedNs :: "Benchmark \<Rightarrow> Phase \<Rightarrow> u64" where "elapsedNs b phase = ps_elapsed_ns (phase_stats b phase)"
definition bm_calls :: "Benchmark \<Rightarrow> Phase \<Rightarrow> u64" where "bm_calls b phase = ps_calls (phase_stats b phase)"
definition bm_packets :: "Benchmark \<Rightarrow> u64" where "bm_packets b = bm_calls b PacketHeaderPhase"

section \<open>Stopwatches\<close>

definition Benchmark_start :: "Phase \<Rightarrow> u64 \<Rightarrow> Benchmark \<Rightarrow> Benchmark" where
  "Benchmark_start phase now b =
     (if \<not> bm_detailed b \<and> isPerPacket phase then b
      else b \<lparr> phases := (phases b)(phase := (phases b phase) \<lparr> ph_started := now, ph_running := True \<rparr>) \<rparr>)"

definition Benchmark_stop :: "Phase \<Rightarrow> u64 \<Rightarrow> Benchmark \<Rightarrow> Benchmark" where
  "Benchmark_stop phase now b =
     (let st = phases b phase in
      if \<not> bm_detailed b \<and> isPerPacket phase then b
      else if \<not> ph_running st then b
      else b \<lparr> phases := (phases b)(phase := st \<lparr> ph_running := False,
             ph_stats := \<lparr> ps_calls = ps_calls (ph_stats st) + 1, ps_elapsed_ns = ps_elapsed_ns (ph_stats st) + (now - ph_started st) \<rparr> \<rparr>) \<rparr>)"

section \<open>Reports\<close>

definition formatDuration :: "u64 \<Rightarrow> string" where "formatDuration ns = printDuration ns"

text \<open>\<open>std::left << std::setw(w)\<close>.\<close>

definition pad_right :: "nat \<Rightarrow> string \<Rightarrow> string" where
  "pad_right w s = s @ replicate (w - length s) CHR '' ''"

definition VALUE_COLUMN :: nat where "VALUE_COLUMN = 24"

definition printPhase :: "Benchmark \<Rightarrow> Phase \<Rightarrow> nat \<Rightarrow> string" where
  "printPhase b phase ind =
     (let stats = phase_stats b phase in
      replicate ind CHR '' '' @ pad_right (VALUE_COLUMN - ind) (toString_Phase phase) @
      printDuration (ps_elapsed_ns stats) @
      ''  ('' @ dec_string (unat (ps_calls stats)) @ (if ps_calls stats = 1 then '' call'' else '' calls'') @
      (if ps_calls stats \<noteq> 0 then '', '' @ printDuration (ps_elapsed_ns stats div ps_calls stats) @ '' avg'' else []) @
      '')'' @ [newline])"

definition bits_per_second :: "u64 \<Rightarrow> dbl \<Rightarrow> dbl" where
  "bits_per_second n seconds = dbl_div (dbl_mul (dbl_of_u64 n) (dbl_lit 8)) seconds"

definition packets_per_second :: "u64 \<Rightarrow> dbl \<Rightarrow> nat" where
  "packets_per_second n seconds = (case dbl_div (dbl_of_u64 n) seconds of (a, b) \<Rightarrow> a div b)"

definition Benchmark_toString :: "Benchmark \<Rightarrow> string" where
  "Benchmark_toString b =
     (let seconds = dbl_div (dbl_of_u64 (elapsedNs b Total)) (dbl_lit 1000000000);
          timed = dbl_less (dbl_lit 0) seconds in
      ''benchmark {'' @ [newline] @
      ''  '' @ pad_right (VALUE_COLUMN - 2) ''total'' @ printDuration (elapsedNs b Total) @ [newline] @
      concat (map (\<lambda>phase. printPhase b phase 4) [FileHeaderPhase, PacketHeaderPhase]) @
      printPhase b DecodePhase 4 @
      concat (map (\<lambda>phase. printPhase b phase 6) [DecodePacketPhase, FlowLookup, TcpReassembly, AppDecode]) @
      ''  '' @ pad_right (VALUE_COLUMN - 2) ''throughput'' @ printBytes (bm_bytes b) @
      '' in '' @ printDuration (elapsedNs b Total) @
      ''  ('' @ printRate (if timed then bits_per_second (bm_bytes b) seconds else dbl_lit 0) @
      '', '' @ dec_string (if timed then packets_per_second (bm_packets b) seconds else 0) @ '' pkt/s)'' @ [newline] @
      ''}'')"

definition json_phase :: "Benchmark \<Rightarrow> Phase \<Rightarrow> string" where
  "json_phase b phase =
     ''    {'' @ [newline] @
     ''      \"phase\": \"'' @ toString_Phase phase @ ''\",'' @ [newline] @
     ''      \"calls\": '' @ dec_string (unat (ps_calls (phase_stats b phase))) @ '','' @ [newline] @
     ''      \"elapsed_ns\": '' @ dec_string (unat (ps_elapsed_ns (phase_stats b phase))) @ [newline] @
     ''    }''"

fun json_phases :: "Benchmark \<Rightarrow> bool \<Rightarrow> Phase list \<Rightarrow> string" where
  "json_phases b first [] = []"
| "json_phases b first (p # ps) = (if first then [] else '','' @ [newline]) @ json_phase b p @ json_phases b False ps"

definition Benchmark_toJson :: "Benchmark \<Rightarrow> string" where
  "Benchmark_toJson b =
     ''\"benchmark\": {'' @ [newline] @
     ''  \"bytes\": '' @ dec_string (unat (bm_bytes b)) @ '','' @ [newline] @
     ''  \"phases\": ['' @ [newline] @
     json_phases b True all_phases @
     [newline] @ ''  ]'' @ [newline] @
     ''}''"

section \<open>What the stopwatches measure\<close>

text \<open>
  A bracketed phase adds its own duration and one call, to that phase only, and only when it
  is measured; a stop without a start is ignored.
\<close>

definition timed_phase :: "Phase \<Rightarrow> u64 \<times> u64 \<Rightarrow> Benchmark \<Rightarrow> Benchmark" where
  "timed_phase phase span b = Benchmark_stop phase (snd span) (Benchmark_start phase (fst span) b)"

lemma stop_not_running: "\<not> ph_running (phases b phase) \<Longrightarrow> Benchmark_stop phase now b = b"
  by (simp add: Benchmark_stop_def Let_def)

lemma timed_phase_stats:
  "phase_stats (timed_phase phase span b) p =
     (if p = phase \<and> (bm_detailed b \<or> \<not> isPerPacket phase)
      then \<lparr> ps_calls = bm_calls b p + 1, ps_elapsed_ns = elapsedNs b p + (snd span - fst span) \<rparr> else phase_stats b p)"
  by (auto simp: timed_phase_def Benchmark_stop_def Benchmark_start_def Let_def phase_stats_def bm_calls_def elapsedNs_def)

lemma timed_phase_detailed [simp]: "bm_detailed (timed_phase phase span b) = bm_detailed b"
  by (simp add: timed_phase_def Benchmark_stop_def Benchmark_start_def Let_def)

lemma timed_phases:
  assumes "bm_detailed b \<or> \<not> isPerPacket phase"
  shows "bm_calls (fold (timed_phase phase) spans b) phase = bm_calls b phase + of_nat (length spans) \<and>
    elapsedNs (fold (timed_phase phase) spans b) phase = elapsedNs b phase + sum_list (map (\<lambda>s. snd s - fst s) spans)"
  using assms
proof (induction spans arbitrary: b)
  case (Cons s spans)
  have "bm_detailed (timed_phase phase s b) \<or> \<not> isPerPacket phase" using Cons.prems by simp
  from Cons.IH [OF this] show ?case
    using Cons.prems by (auto simp: bm_calls_def elapsedNs_def timed_phase_stats algebra_simps)
qed simp

text \<open>Without \<open>--bench\<close> the packet phases are not measured, so the packet rate of the report is zero.\<close>

lemma undetailed_packets:
  assumes "\<not> bm_detailed b" and "isPerPacket phase"
  shows "phases (Benchmark_stop phase now (Benchmark_start phase now' b)) = phases b"
  using assms by (simp add: Benchmark_stop_def Benchmark_start_def)

end
