(* ===== verification/Stats_Engine.thy ===== *)
theory Stats_Engine
  imports Decoder Printers Benchmark
begin

text \<open>
  The reports over a read capture (\<^verbatim>\<open>src/net/analysis/stats_engine.cpp\<close>): flows and protocols
  by bytes, resolved names and HTTP messages. The engine holds references to the flow table, the
  application decoder, the DNS table and the benchmark; the definitions take them as arguments.

  \<open>sortedProtocolsByBytes\<close> sorts the entries of an unordered map by their bytes alone, so
  protocols with equally many bytes come in an order that the standard leaves open; the model
  keeps the order of first occurrence.
\<close>

section \<open>Protocols by bytes\<close>

definition add_protocol :: "(u8, u64) umap \<Rightarrow> FlowKey \<times> Flow \<Rightarrow> (u8, u64) umap" where
  "add_protocol m kf =
     (let p = fk_protocol (fst kf) in
      AList.update p ((case map_of m p of Some n \<Rightarrow> n | None \<Rightarrow> 0) + totalBytes (snd kf)) m)"

definition sortedProtocolsByBytes :: "(FlowKey \<times> Flow) list \<Rightarrow> (u8 \<times> u64) list" where
  "sortedProtocolsByBytes sortedFlow = sort_by (\<lambda>a b. snd a > snd b) (foldl add_protocol [] sortedFlow)"

section \<open>Flows as text\<close>

definition payloadPercent :: "Flow \<Rightarrow> u64 \<Rightarrow> dbl" where
  "payloadPercent flow total_bytes_all =
     (if total_bytes_all = 0 then dbl_lit 0
      else dbl_div (dbl_mul (dbl_lit 100) (dbl_of_u64 (totalBytes flow))) (dbl_of_u64 total_bytes_all))"

definition protocol_percent :: "u64 \<Rightarrow> u64 \<Rightarrow> dbl" where
  "protocol_percent n bytes_all = (if bytes_all \<noteq> 0 then dbl_div (dbl_mul (dbl_lit 100) (dbl_of_u64 n)) (dbl_of_u64 bytes_all) else dbl_lit 0)"

definition flow_bps :: "Flow \<Rightarrow> dbl" where
  "flow_bps flow =
     dbl_div (dbl_mul (dbl_mul (dbl_of_u64 (totalBytes flow)) (dbl_lit 8)) (dbl_lit 1000000)) (dbl_of_u64 (durationUs flow))"

text \<open>The first domain name of an address, if it has any.\<close>

definition first_domain :: "DnsTable \<Rightarrow> u8 list \<Rightarrow> bool \<Rightarrow> string option" where
  "first_domain table ip v4 = (case domainsFor table ip v4 of Some (d # ds) \<Rightarrow> Some d | _ \<Rightarrow> None)"

definition flow_domains :: "DnsTable \<Rightarrow> FlowKey \<Rightarrow> string" where
  "flow_domains table key =
     (let src = first_domain table (fk_src_ip key) (fk_isIpv4 key);
          dst = first_domain table (fk_dst_ip key) (fk_isIpv4 key) in
      if src \<noteq> None \<or> dst \<noteq> None then
        ''  ['' @ (case src of Some d \<Rightarrow> ''src='' @ d | None \<Rightarrow> []) @
        (case dst of Some d \<Rightarrow> (if src \<noteq> None then '', '' else []) @ ''dst='' @ d | None \<Rightarrow> []) @ '']''
      else [])"

definition printStats :: "string \<Rightarrow> FlowStats \<Rightarrow> string" where
  "printStats label s =
     (if bytes s = 0 then []
      else ''  '' @ label @ ''='' @ dec (packets s) @ ''pkts/'' @ printBytes (bytes s) @
        (if 1 < packets s then '' avg='' @ dec (bytes s div packets s) @ ''B'' else []))"

definition printFlow :: "u64 \<Rightarrow> DnsTable \<Rightarrow> FlowKey \<Rightarrow> Flow \<Rightarrow> string" where
  "printFlow bytes_all table key flow =
     (let percent = payloadPercent flow bytes_all in
      ''('' @ (if dbl_less (dbl_lit 0) percent \<and> dbl_less percent (dbl_round (1, 100)) then ''<0.01'' else show_fixed 2 percent) @
      ''%)  '' @ FlowKey_toString key @
      flow_domains table key @
      printStats ''fwd'' (fwd_stats flow) @
      printStats ''rev'' (rev_stats flow) @
      (if fk_protocol key = PROTOCOL_TCP
       then ''  TCP='' @ toString_TcpState (state (fwd_tcp flow)) @ ''/'' @ toString_TcpState (state (rev_tcp flow)) else []) @
      (if durationUs flow \<noteq> 0 \<and> 1 < totalPackets flow then ''  rate='' @ printRate (flow_bps flow) else []) @ nl)"

fun toString_protocols :: "u64 \<Rightarrow> bool \<Rightarrow> (u8 \<times> u64) list \<Rightarrow> string" where
  "toString_protocols bytes_all first [] = []"
| "toString_protocols bytes_all first ((p, n) # ps) =
     (if first then [] else ''  '') @ protocolName p @ '': '' @ show_fixed 2 (protocol_percent n bytes_all) @ ''%'' @
     toString_protocols bytes_all False ps"

text \<open>The loops over rows stop in front of row \<open>print_limit\<close>, if that is not zero.\<close>

fun toString_flows :: "nat \<Rightarrow> u64 \<Rightarrow> DnsTable \<Rightarrow> nat \<Rightarrow> (FlowKey \<times> Flow) list \<Rightarrow> string" where
  "toString_flows limit bytes_all table printed [] = []"
| "toString_flows limit bytes_all table printed ((key, flow) # fs) =
     (if printed \<noteq> 0 \<and> printed = limit then ''  ... limit reached'' @ nl
      else ''  '' @ printFlow bytes_all table key flow @ toString_flows limit bytes_all table (printed + 1) fs)"

definition StatsEngine_toString :: "FlowTable \<Rightarrow> DnsTable \<Rightarrow> nat \<Rightarrow> string" where
  "StatsEngine_toString ft table limit =
     (let sortedFlow = allFlows ft; sortedProtocols = sortedProtocolsByBytes sortedFlow in
      ''FlowTable ('' @ dec_string (length sortedFlow) @ '' flows'' @
      (if limit \<noteq> 0 \<and> limit \<noteq> length sortedFlow then '', showing '' @ dec_string limit else []) @
      '')  ['' @ toString_protocols (total_bytes ft) True sortedProtocols @ ''] {'' @ nl @
      toString_flows limit (total_bytes ft) table 0 sortedFlow @
      ''}'' @ nl)"

section \<open>Flows as JSON\<close>

definition jsonStats :: "string \<Rightarrow> FlowStats \<Rightarrow> string" where
  "jsonStats label s = ''\"'' @ label @ ''\": { \"packets\": '' @ dec (packets s) @ '', \"bytes\": '' @ dec (bytes s) @ '' }''"

fun json_protocols :: "u64 \<Rightarrow> bool \<Rightarrow> (u8 \<times> u64) list \<Rightarrow> string" where
  "json_protocols bytes_all first [] = []"
| "json_protocols bytes_all first ((p, n) # ps) =
     (if first then [] else '','' @ nl) @
     ''    {'' @ nl @
     ''      \"protocol\": \"'' @ protocolName p @ ''\",'' @ nl @
     ''      \"bytes\": '' @ dec n @ '','' @ nl @
     ''      \"percent\": '' @ show_general (protocol_percent n bytes_all) @ nl @
     ''    }'' @ json_protocols bytes_all False ps"

definition json_domain :: "string \<Rightarrow> string option \<Rightarrow> string" where
  "json_domain name d = (case d of Some d \<Rightarrow> ''      \"'' @ name @ ''\": \"'' @ jsonEscape d @ ''\",'' @ nl | None \<Rightarrow> [])"

definition json_flow :: "u64 \<Rightarrow> DnsTable \<Rightarrow> FlowKey \<Rightarrow> Flow \<Rightarrow> string" where
  "json_flow bytes_all table key flow =
     ''    {'' @ nl @
     ''      \"percent\": '' @ show_general (payloadPercent flow bytes_all) @ '','' @ nl @
     indent (FlowKey_toJson key) ''      '' @ '','' @ nl @
     json_domain ''src_domain'' (first_domain table (fk_src_ip key) (fk_isIpv4 key)) @
     json_domain ''dst_domain'' (first_domain table (fk_dst_ip key) (fk_isIpv4 key)) @
     ''      '' @ jsonStats ''fwd'' (fwd_stats flow) @ '','' @ nl @
     ''      '' @ jsonStats ''rev'' (rev_stats flow) @
     (if fk_protocol key = PROTOCOL_TCP
      then '','' @ nl @ ''      \"tcp\": { \"fwd_state\": \"'' @ toString_TcpState (state (fwd_tcp flow)) @
        ''\", \"rev_state\": \"'' @ toString_TcpState (state (rev_tcp flow)) @ ''\" }'' else []) @
     '','' @ nl @ ''      \"duration_us\": '' @ dec (durationUs flow) @
     (if durationUs flow \<noteq> 0 \<and> 1 < totalPackets flow
      then '','' @ nl @ ''      \"rate_bps\": '' @ show_general (flow_bps flow) else []) @
     nl @ ''    }''"

text \<open>The rows with whether the limit was reached.\<close>

fun json_flows :: "nat \<Rightarrow> u64 \<Rightarrow> DnsTable \<Rightarrow> nat \<Rightarrow> (FlowKey \<times> Flow) list \<Rightarrow> string \<times> bool" where
  "json_flows limit bytes_all table printed [] = ([], False)"
| "json_flows limit bytes_all table printed ((key, flow) # fs) =
     (if printed \<noteq> 0 \<and> printed = limit then ([], True)
      else case json_flows limit bytes_all table (printed + 1) fs of (rest, reached) \<Rightarrow>
        ((if printed \<noteq> 0 then '','' @ nl else []) @ json_flow bytes_all table key flow @ rest, reached))"

definition StatsEngine_toJson :: "FlowTable \<Rightarrow> DnsTable \<Rightarrow> nat \<Rightarrow> string" where
  "StatsEngine_toJson ft table limit =
     (let sortedFlow = allFlows ft; sortedProtocols = sortedProtocolsByBytes sortedFlow;
          (rows, limit_reached) = json_flows limit (total_bytes ft) table 0 sortedFlow in
      ''\"stats_engine\": {'' @ nl @
      ''  \"flow_count\": '' @ dec_string (length sortedFlow) @ '','' @ nl @
      ''  \"total_bytes\": '' @ dec (total_bytes ft) @ '','' @ nl @
      ''  \"protocols\": ['' @ nl @
      json_protocols (total_bytes ft) True sortedProtocols @
      nl @ ''  ],'' @ nl @
      ''  \"flows\": ['' @ nl @
      rows @ nl @ ''  ]'' @
      (if limit_reached then '','' @ nl @ ''  \"limit_reached\": true'' else []) @
      nl @ ''}'')"

section \<open>Resolved names\<close>

text \<open>\<open>std::string\<close> compares as unsigned bytes; \<open>resolved\<close> is a \<open>std::map\<close>, ordered by name.\<close>

fun string_less :: "string \<Rightarrow> string \<Rightarrow> bool" where
  "string_less s [] = False"
| "string_less [] (d # ds) = True"
| "string_less (c # cs) (d # ds) = ((of_char c :: nat) < of_char d \<or> c = d \<and> string_less cs ds)"

fun map_push :: "string \<Rightarrow> 'v \<Rightarrow> (string \<times> 'v list) list \<Rightarrow> (string \<times> 'v list) list" where
  "map_push k v [] = [(k, [v])]"
| "map_push k v ((k', vs) # m) =
     (if k = k' then (k', vs @ [v]) # m else if string_less k k' then (k, [v]) # (k', vs) # m else (k', vs) # map_push k v m)"

definition ip_text :: "IpKey \<Rightarrow> string" where
  "ip_text ip = (if ik_isIpv4 ip then v4_printIp_bytes (ik_ip ip) else v6_printIp (ik_ip ip))"

definition resolve_entry :: "(string \<times> (IpKey \<times> string) list) list \<Rightarrow> IpKey \<times> string list \<Rightarrow> (string \<times> (IpKey \<times> string) list) list" where
  "resolve_entry resolved entry = foldl (\<lambda>m d. map_push d (fst entry, ip_text (fst entry)) m) resolved (snd entry)"

definition addr_before :: "IpKey \<times> string \<Rightarrow> IpKey \<times> string \<Rightarrow> bool" where
  "addr_before a b =
     (if ik_isIpv4 (fst a) \<noteq> ik_isIpv4 (fst b) then ik_isIpv4 (fst a) else memcmp (ik_ip (fst a)) (ik_ip (fst b)) < 0)"

definition resolved_names :: "DnsTable \<Rightarrow> (string \<times> (IpKey \<times> string) list) list" where
  "resolved_names table = map (\<lambda>(name, addrs). (name, sort_by addr_before addrs)) (foldl resolve_entry [] table)"

fun comma_list :: "bool \<Rightarrow> string list \<Rightarrow> string" where
  "comma_list first [] = []"
| "comma_list first (s # ss) = (if first then [] else '', '') @ s @ comma_list False ss"

fun dns_rows :: "nat \<Rightarrow> nat \<Rightarrow> (string \<times> (IpKey \<times> string) list) list \<Rightarrow> string" where
  "dns_rows limit printed [] = []"
| "dns_rows limit printed ((name, addrs) # rs) =
     (if printed \<noteq> 0 \<and> printed = limit then ''  ... limit reached'' @ nl
      else ''  '' @ pad_right 48 name @ '' '' @ comma_list True (map snd addrs) @ nl @ dns_rows limit (printed + 1) rs)"

definition printDns :: "DnsTable \<Rightarrow> nat \<Rightarrow> string" where
  "printDns table limit =
     (let resolved = resolved_names table in
      ''  names resolved    '' @ dec_string (length resolved) @ nl @
      dns_rows limit 0 resolved @
      (if resolved = [] then ''  (no answers)'' @ nl else []) @ nl)"

section \<open>HTTP messages\<close>

definition http_row :: "FlowKey \<Rightarrow> bool \<Rightarrow> http_Header \<Rightarrow> string" where
  "http_row key reverse msg =
     ''  '' @ FlowKey_toString key @ (if reverse then ''  <-  '' else ''  ->  '') @
     (if http_isRequest msg then
        http_method msg @ '' '' @ http_target msg @ '' '' @ http_version msg @
        (case fieldValue msg ''Host'' of Some host \<Rightarrow> ''  Host: '' @ host | None \<Rightarrow> [])
      else
        http_version msg @ '' '' @ dec (http_status_code msg) @
        (if http_reason_phrase msg \<noteq> [] then '' '' @ http_reason_phrase msg else []) @
        (case fieldValue msg ''Content-Type'' of Some ty \<Rightarrow> ''  '' @ ty | None \<Rightarrow> [])) @
     (if http_chunked msg then ''  [chunked]''
      else if http_has_content_length msg then ''  ['' @ dec (http_content_length msg) @ ''B]'' else []) @ nl"

text \<open>
  The three nested loops visit the messages of every listed flow, first those of the forward
  direction; the inner break on the limit ends all three.
\<close>

definition flow_messages :: "AppDecoder \<Rightarrow> FlowKey \<Rightarrow> bool \<Rightarrow> (FlowKey \<times> bool \<times> http_Header) list" where
  "flow_messages apps key reverse =
     (case getApplications apps key reverse of
        None \<Rightarrow> []
      | Some app \<Rightarrow> map (\<lambda>msg. (key, reverse, msg)) (http_messages app))"

definition listed_messages :: "FlowTable \<Rightarrow> AppDecoder \<Rightarrow> (FlowKey \<times> bool \<times> http_Header) list" where
  "listed_messages ft apps = concat (map (\<lambda>(key, flow). flow_messages apps key False @ flow_messages apps key True) (allFlows ft))"

text \<open>The rows, how many were printed and whether the listing was cut.\<close>

fun http_rows :: "nat \<Rightarrow> nat \<Rightarrow> (FlowKey \<times> bool \<times> http_Header) list \<Rightarrow> string \<times> nat \<times> bool" where
  "http_rows limit printed [] = ([], printed, False)"
| "http_rows limit printed ((key, reverse, msg) # ms) =
     (if limit \<noteq> 0 \<and> limit \<le> printed then ([], printed, True)
      else case http_rows limit (printed + 1) ms of (rest, n, truncated) \<Rightarrow> (http_row key reverse msg @ rest, n, truncated))"

definition printHttp :: "FlowTable \<Rightarrow> AppDecoder \<Rightarrow> nat \<Rightarrow> string" where
  "printHttp ft apps limit =
     (case http_rows limit 0 (listed_messages ft apps) of (rows, printed, truncated) \<Rightarrow>
        rows @ (if printed = 0 then ''  (none)'' @ nl else []) @ (if truncated then ''  ... limit reached'' @ nl else []) @ nl)"

definition printBenchmark :: "Benchmark \<Rightarrow> string" where
  "printBenchmark b = Benchmark_toString b @ nl"

end
