(* ===== verification/Stats_Listing.thy ===== *)
theory Stats_Listing
  imports Stats_Engine
begin

text \<open>
  What the listings of the statistics engine contain: the bytes of the protocols account for all
  listed flows, and the messages of a flow are listed once per flow of its key.
\<close>

section \<open>Protocols\<close>

interpretation by_bytes: strict_weak_order "\<lambda>a b :: u8 \<times> u64. snd a > snd b" "\<lambda>_. True"
  by unfold_locales auto

definition bytes_of_protocol :: "(FlowKey \<times> Flow) list \<Rightarrow> u8 \<Rightarrow> u64" where
  "bytes_of_protocol fs p = sum_list (map (\<lambda>kf. totalBytes (snd kf)) (filter (\<lambda>kf. fk_protocol (fst kf) = p) fs))"

lemma add_protocol_inv: "umap_inv m \<Longrightarrow> umap_inv (add_protocol m kf)"
  unfolding add_protocol_def Let_def by (rule umap.inv_assign)

lemma add_protocol_find:
  "umap_inv m \<Longrightarrow> map_of (add_protocol m kf) p =
     (if p = fk_protocol (fst kf) then Some ((case map_of m p of Some n \<Rightarrow> n | None \<Rightarrow> 0) + totalBytes (snd kf)) else map_of m p)"
  by (simp add: add_protocol_def Let_def umap.find_assign)

lemma add_protocol_sum:
  assumes "umap_inv m"
  shows "sum_list (map snd (add_protocol m kf)) = sum_list (map snd m) + totalBytes (snd kf)"
proof (cases "map_of m (fk_protocol (fst kf))")
  case None
  then show ?thesis using umap.total_assign_new [OF assms None, of snd] by (simp add: add_protocol_def Let_def)
next
  case (Some n)
  then show ?thesis
    using umap.total_assign [OF assms, of snd] umap.total_erase [OF assms Some, of snd] by (simp add: add_protocol_def Let_def)
qed

lemma add_protocols:
  assumes "umap_inv m"
  shows "umap_inv (foldl add_protocol m fs) \<and>
    map_of (foldl add_protocol m fs) p =
      (if p \<in> fk_protocol ` fst ` set fs then Some ((case map_of m p of Some n \<Rightarrow> n | None \<Rightarrow> 0) + bytes_of_protocol fs p) else map_of m p) \<and>
    sum_list (map snd (foldl add_protocol m fs)) = sum_list (map snd m) + sum_list (map (\<lambda>kf. totalBytes (snd kf)) fs)"
  using assms
proof (induction fs arbitrary: m)
  case (Cons kf fs)
  note IH = Cons.IH [OF add_protocol_inv [OF Cons.prems], of kf]
  have "p \<notin> fk_protocol ` fst ` set fs \<Longrightarrow> filter (\<lambda>kf. fk_protocol (fst kf) = p) fs = []"
    by (auto simp: filter_empty_conv)
  then show ?case
    using IH Cons.prems by (auto simp: add_protocol_find add_protocol_sum bytes_of_protocol_def add.assoc split: option.splits)
qed (simp add: bytes_of_protocol_def split: option.split)

section \<open>Messages\<close>

lemma mset_concat_map: "mset (concat (map g xs)) = (\<Sum>x \<in># mset xs. mset (g x))"
  by (induction xs) simp_all

lemma allFlows_mset: "mset (allFlows ft) = mset (completed ft) + mset (flows ft)"
proof -
  have "mset (insort_by prec x ys) = add_mset x (mset ys)" for prec and x :: "FlowKey \<times> Flow" and ys
    by (induction ys) auto
  then have "mset (sort_by prec xs) = mset xs" for prec and xs :: "(FlowKey \<times> Flow) list"
    by (induction xs) (auto simp: sort_by_def)
  then show ?thesis by (simp add: allFlows_def)
qed

lemma count_concat_twice:
  assumes "x \<in> set xs" and "y \<in> set ys" and "m \<in> set (g x)" and "m \<in> set (g y)"
  shows "2 \<le> count (\<Sum>z \<in># mset xs + mset ys. mset (g z)) m"
proof -
  have one: "1 \<le> count (\<Sum>z \<in># mset zs. mset (g z)) m" if "z \<in> set zs" "m \<in> set (g z)" for z zs
  proof -
    have "m \<in># (\<Sum>z \<in># mset zs. mset (g z))" using that by (induction zs) auto
    then show ?thesis by (simp only: count_greater_eq_one_iff)
  qed
  have "2 \<le> count (\<Sum>z \<in># mset xs. mset (g z)) m + count (\<Sum>z \<in># mset ys. mset (g z)) m"
    using add_mono [OF one [OF assms(1,3)] one [OF assms(2,4)]] by (simp only: one_add_one)
  then show ?thesis by (simp only: image_mset_union sum_mset.union count_union)
qed

section \<open>Properties\<close>

text \<open>
  C39. The protocol shares of a report account for every flow: each protocol of the listed flows
  has one entry with the bytes of its flows, the entries are sorted by bytes, and together
  they make up the bytes of all listed flows.
\<close>

theorem protocols_accounted:
  "distinct (map fst (sortedProtocolsByBytes fs)) \<and>
   map_of (sortedProtocolsByBytes fs) p = (if p \<in> fk_protocol ` fst ` set fs then Some (bytes_of_protocol fs p) else None) \<and>
   sorted_wrt (\<lambda>a b. snd b \<le> snd a) (sortedProtocolsByBytes fs) \<and>
   sum_list (map snd (sortedProtocolsByBytes fs)) = sum_list (map (\<lambda>kf. totalBytes (snd kf)) fs)"
proof -
  let ?m = "foldl add_protocol [] fs" and ?s = "sortedProtocolsByBytes fs"
  have m: "umap_inv ?m" "map_of ?m p = (if p \<in> fk_protocol ` fst ` set fs then Some (bytes_of_protocol fs p) else None)"
    "sum_list (map snd ?m) = sum_list (map (\<lambda>kf. totalBytes (snd kf)) fs)"
    using add_protocols [OF umap.inv_empty, of fs p] by auto
  have mset: "mset ?s = mset ?m" by (simp add: sortedProtocolsByBytes_def by_bytes.mset_sort_by)
  then have "mset (map fst ?s) = mset (map fst ?m)" by (simp only: mset_map)
  then have distinct: "distinct (map fst ?s)" using m(1) by (metis umap_inv_def distinct_count_atmost_1 set_mset_mset)
  have "map_of ?s = map_of ?m"
    using mset distinct m(1) by (intro map_of_inject_set [THEN iffD2]) (auto simp: umap_inv_def dest: mset_eq_setD)
  moreover have "sum_list (map snd ?s) = sum_list (map snd ?m)"
    using arg_cong [OF mset, of "\<lambda>M. \<Sum>x \<in># M. snd x"] by (simp add: sum_mset_sum_list flip: mset_map)
  moreover have "sorted_wrt (\<lambda>a b. snd b \<le> snd a) ?s"
    using by_bytes.sorted_sort_by [of ?m] by (simp add: sortedProtocolsByBytes_def not_less list_all_iff)
  ultimately show ?thesis using distinct m(2,3) by simp
qed

text \<open>
  C40. The HTTP listing looks the messages up by key for every listed flow: when an earlier flow of
  the key has been retired and the key has come back, each message of the current flow is listed
  twice, once in the place of the messages of the retired one.
\<close>

theorem retired_messages_repeated:
  assumes "(key, retired) \<in> set (completed ft)" and "(key, active) \<in> set (flows ft)"
    and "getApplications apps key reverse = Some app" and "msg \<in> set (http_messages app)"
  shows "2 \<le> count (mset (listed_messages ft apps)) (key, reverse, msg)"
proof -
  let ?g = "\<lambda>(key, flow). flow_messages apps key False @ flow_messages apps key True"
  have listed: "(key, reverse, msg) \<in> set (?g (key, flow))" for flow :: Flow
    using assms(3,4) by (cases reverse) (auto simp: flow_messages_def)
  have "mset (listed_messages ft apps) = (\<Sum>kf \<in># mset (completed ft) + mset (flows ft). mset (?g kf))"
    by (simp only: listed_messages_def mset_concat_map allFlows_mset)
  then show ?thesis
    using count_concat_twice [OF assms(1,2) listed [of retired] listed [of active]] by (simp only:)
qed

theorem retired_messages_repeated_witness:
  "2 \<le> count (mset (listed_messages
      (FlowTable_init 0 30 \<lparr> completed := [(FlowKey_zero, Flow_init)], flows := [(FlowKey_zero, Flow_init)] \<rparr>)
      [(FlowKey_zero, FlowApplications_init \<lparr> fa_fwd := Applications_init \<lparr> http_messages := [http_Header_init] \<rparr> \<rparr>)]))
    (FlowKey_zero, False, http_Header_init)"
  by (rule retired_messages_repeated [where retired = Flow_init and active = Flow_init and
        app = "Applications_init \<lparr> http_messages := [http_Header_init] \<rparr>"])
    (simp_all add: getApplications_def FlowApplications_init_def)

end
