(* ===== verification/Dns_Listing.thy ===== *)
theory Dns_Listing
  imports Stats_Engine
begin

text \<open>
  The listing of resolved names in the report (\<open>printDns\<close> in \<^verbatim>\<open>src/net/analysis/stats_engine.cpp\<close>):
  it is the table of names turned round, ordered by name and by address.
\<close>

section \<open>Order of names\<close>

lemma string_less_irrefl: "\<not> string_less s s"
  by (induction s) auto

lemma string_less_trans: "string_less a b \<Longrightarrow> string_less b c \<Longrightarrow> string_less a c"
proof (induction a b arbitrary: c rule: string_less.induct)
  case (2 d ds)
  then show ?case by (cases c) auto
next
  case (3 x a y b)
  then show ?case by (cases c) auto
qed simp

lemma of_char_neq: "c \<noteq> d \<Longrightarrow> (of_char c :: nat) < of_char d \<or> (of_char d :: nat) < of_char c"
  using of_char_eq_iff [where ?'a = nat, of c d] by linarith

lemma string_less_linear: "s \<noteq> t \<Longrightarrow> string_less s t \<or> string_less t s"
proof (induction s t rule: string_less.induct)
  case (1 s)
  then show ?case by (cases s) auto
next
  case (3 c s d t)
  then show ?case using of_char_neq [of c d] by auto
qed simp

lemma sorted_names_distinct: "sorted_wrt string_less names \<Longrightarrow> distinct names"
  using string_less_irrefl by (induction names) auto

section \<open>The map of names\<close>

definition listed :: "(string \<times> 'v list) list \<Rightarrow> string \<Rightarrow> 'v list" where
  "listed m name = (case map_of m name of None \<Rightarrow> [] | Some vs \<Rightarrow> vs)"

definition name_map :: "(string \<times> 'v list) list \<Rightarrow> bool" where
  "name_map m \<longleftrightarrow> sorted_wrt string_less (map fst m) \<and> (\<forall>(name, vs) \<in> set m. vs \<noteq> [])"

lemma name_map_Nil [simp]: "name_map []" "listed [] name = []"
  by (simp_all add: name_map_def listed_def)

lemma map_push_fst: "fst ` set (map_push k v m) = insert k (fst ` set m)"
  by (induction k v m rule: map_push.induct) (auto simp: image_iff)

lemma map_push_map:
  assumes "name_map m"
  shows "name_map (map_push k v m)"
proof -
  have ord: "sorted_wrt string_less (map fst m) \<Longrightarrow> sorted_wrt string_less (map fst (map_push k v m))"
  proof (induction m)
    case (Cons e m)
    obtain k' vs where e: "e = (k', vs)" by (cases e)
    have all: "\<forall>x \<in> fst ` set m. string_less k' x" using Cons.prems e by auto
    consider "k = k'" | "k \<noteq> k'" "string_less k k'" | "k \<noteq> k'" "\<not> string_less k k'" "string_less k' k"
      using string_less_linear by blast
    then show ?case
    proof cases
      case 2
      then have "string_less k x" if "x \<in> fst ` set m" for x using all that string_less_trans by blast
      then show ?thesis using 2 Cons.prems e by auto
    next
      case 3
      have "\<forall>x \<in> fst ` set (map_push k v m). string_less k' x" using 3 all by (simp add: map_push_fst)
      then show ?thesis using 3 Cons e by simp
    qed (use Cons.prems e in simp)
  qed simp
  have "\<forall>(name, vs) \<in> set m. vs \<noteq> [] \<Longrightarrow> \<forall>(name, vs) \<in> set (map_push k v m). vs \<noteq> []"
    by (induction k v m rule: map_push.induct) (auto split: if_splits)
  with ord assms show ?thesis by (simp add: name_map_def)
qed

lemma listed_map_push:
  assumes "name_map m"
  shows "listed (map_push k v m) name = listed m name @ (if name = k then [v] else [])"
proof -
  have "sorted_wrt string_less (map fst m) \<Longrightarrow> listed (map_push k v m) name = listed m name @ (if name = k then [v] else [])"
  proof (induction m)
    case (Cons e m)
    obtain k' vs where e: "e = (k', vs)" by (cases e)
    have "k \<notin> fst ` set (e # m)" if "k \<noteq> k'" "string_less k k'"
    proof
      assume "k \<in> fst ` set (e # m)"
      then have "string_less k' k" using that(1) Cons.prems e by auto
      then show False using that(2) string_less_trans string_less_irrefl by blast
    qed
    then have "k \<noteq> k' \<Longrightarrow> string_less k k' \<Longrightarrow> map_of (e # m) k = None" by (simp only: map_of_eq_None_iff) simp
    then show ?case using Cons e by (auto simp: listed_def)
  qed (simp add: listed_def)
  with assms show ?thesis by (simp add: name_map_def)
qed

lemma resolve_entry_map:
  assumes "name_map m" and "distinct ds"
  shows "name_map (resolve_entry m (ip, ds)) \<and>
    listed (resolve_entry m (ip, ds)) name = listed m name @ (if name \<in> set ds then [(ip, ip_text ip)] else [])"
  using assms
proof (induction ds arbitrary: m)
  case (Cons d ds)
  have step: "resolve_entry m (ip, d # ds) = resolve_entry (map_push d (ip, ip_text ip) m) (ip, ds)"
    by (simp add: resolve_entry_def)
  show ?case using Cons.IH [OF map_push_map [OF Cons.prems(1)], of d "(ip, ip_text ip)"] Cons.prems
    by (auto simp: step listed_map_push)
qed (simp add: resolve_entry_def)

lemma resolve_entries:
  assumes "name_map m" and "\<forall>(ip, ds) \<in> set t. distinct ds"
  shows "name_map (foldl resolve_entry m t) \<and>
    listed (foldl resolve_entry m t) name = listed m name @ map (\<lambda>(ip, ds). (ip, ip_text ip)) (filter (\<lambda>(ip, ds). name \<in> set ds) t)"
  using assms
proof (induction t arbitrary: m)
  case (Cons e t)
  obtain ip ds where e: "e = (ip, ds)" by (cases e)
  have one: "name_map (resolve_entry m e)"
    "listed (resolve_entry m e) name = listed m name @ (if name \<in> set ds then [(ip, ip_text ip)] else [])"
    using resolve_entry_map [OF Cons.prems(1), of ds ip name] Cons.prems(2) e by auto
  show ?case using Cons.IH [OF one(1)] one(2) Cons.prems(2) e by auto
qed simp

section \<open>Order of addresses\<close>

definition address_wf :: "IpKey \<times> string \<Rightarrow> bool" where "address_wf a \<longleftrightarrow> IpKey_wf (fst a)"

interpretation by_address: strict_weak_order addr_before address_wf
proof
  fix x y z :: "IpKey \<times> string"
  show "\<not> addr_before x x" using memcmp_swap [of "ik_ip (fst x)" "ik_ip (fst x)"] by (simp add: addr_before_def)
  assume wf: "address_wf x" "address_wf y" "address_wf z"
  then show "addr_before x y \<Longrightarrow> addr_before y z \<Longrightarrow> addr_before x z"
    using memcmp_trans [of "ik_ip (fst x)" "ik_ip (fst y)" "ik_ip (fst z)"]
    by (auto simp: addr_before_def address_wf_def IpKey_wf_def split: if_splits)
  from wf show "\<not> addr_before x y \<Longrightarrow> \<not> addr_before y z \<Longrightarrow> \<not> addr_before x z"
    using memcmp_not_less_trans [of "ik_ip (fst x)" "ik_ip (fst y)" "ik_ip (fst z)"]
    by (auto simp: addr_before_def address_wf_def IpKey_wf_def split: if_splits)
qed

text \<open>Different addresses are comparable, so the order of a list of them is determined.\<close>

lemma addr_before_linear:
  assumes "address_wf a" "address_wf b" and "fst a \<noteq> fst b" and "\<not> addr_before b a"
  shows "addr_before a b"
proof -
  have "memcmp (ik_ip (fst a)) (ik_ip (fst b)) \<noteq> 0 \<or> ik_isIpv4 (fst a) \<noteq> ik_isIpv4 (fst b)"
    using assms(1-3) by (cases "fst a"; cases "fst b") (auto simp: address_wf_def IpKey_wf_def memcmp_eq_0)
  then show ?thesis using assms(4) memcmp_swap [of "ik_ip (fst a)" "ik_ip (fst b)"]
    by (auto simp: addr_before_def split: if_splits)
qed

lemma strictly_sorted:
  "sorted_wrt (\<lambda>a b. \<not> addr_before b a) xs \<Longrightarrow> list_all address_wf xs \<Longrightarrow> distinct (map fst xs) \<Longrightarrow> sorted_wrt addr_before xs"
proof (induction xs)
  case (Cons x xs)
  have "addr_before x y" if "y \<in> set xs" for y
    using Cons.prems that by (intro addr_before_linear) (auto simp: list_all_iff)
  then show ?case using Cons by simp
qed simp

lemma sort_addresses:
  assumes "list_all address_wf xs" and "distinct (map fst xs)"
  shows "sorted_wrt addr_before (sort_by addr_before xs)"
proof (rule strictly_sorted [OF by_address.sorted_sort_by [OF assms(1)]])
  have "set (sort_by addr_before xs) = set xs" by (metis by_address.mset_sort_by set_mset_mset)
  then show "list_all address_wf (sort_by addr_before xs)" using assms(1) by (simp add: list_all_iff)
  have "mset (map fst (sort_by addr_before xs)) = mset (map fst xs)" by (simp add: by_address.mset_sort_by)
  then show "distinct (map fst (sort_by addr_before xs))" using assms(2) by (metis mset_eq_imp_distinct_iff)
qed

section \<open>Properties\<close>

text \<open>
  C38. The listing of names is the table of names turned round: names in strictly ascending order, each
  with its addresses in strictly ascending order, the IPv4 ones first; and an address is
  listed under a name, once and as it is printed, exactly if the table has that name for it.
\<close>

theorem names_listed:
  assumes "dns_table_inv table"
  shows "sorted_wrt string_less (map fst (resolved_names table)) \<and>
    (\<forall>(name, addrs) \<in> set (resolved_names table). addrs \<noteq> [] \<and> sorted_wrt addr_before addrs \<and>
       set addrs = {(ip, ip_text ip) | ip. name \<in> set (names_at table ip)}) \<and>
    (\<forall>ip. \<forall>name \<in> set (names_at table ip). name \<in> fst ` set (resolved_names table))"
proof -
  let ?m = "foldl resolve_entry [] table"
  have inv: "distinct (map fst table)" and entries: "\<And>ip ds. (ip, ds) \<in> set table \<Longrightarrow> IpKey_wf ip \<and> distinct ds"
    using assms by (auto simp: dns_table_inv_def umap_inv_def)
  have m: "name_map ?m"
    and listed: "listed ?m name = map (\<lambda>(ip, ds). (ip, ip_text ip)) (filter (\<lambda>(ip, ds). name \<in> set ds) table)" for name
    using resolve_entries [of "[]" table name] entries by auto
  have at: "name \<in> set (names_at table ip) \<longleftrightarrow> (\<exists>ds. (ip, ds) \<in> set table \<and> name \<in> set ds)" for name ip
    using inv by (auto simp: names_at_def split: option.split dest: map_of_SomeD)
  have set: "set (listed ?m name) = {(ip, ip_text ip) | ip. name \<in> set (names_at table ip)}" for name
    by (auto simp: listed at)
  have wf: "list_all address_wf (listed ?m name)" for name
    using entries by (auto simp: listed list_all_iff address_wf_def)
  have distinct: "distinct (map fst (listed ?m name))" for name
    using inv by (simp add: listed case_prod_unfold comp_def distinct_map_filter)
  have fst: "map fst (resolved_names table) = map fst ?m"
    by (simp add: resolved_names_def case_prod_unfold comp_def)
  have entry: "addrs \<noteq> [] \<and> sorted_wrt addr_before addrs \<and> set addrs = {(ip, ip_text ip) | ip. name \<in> set (names_at table ip)}"
    if in_list: "(name, addrs) \<in> set (resolved_names table)" for name addrs
  proof -
    obtain vs where vs: "(name, vs) \<in> set ?m" "addrs = sort_by addr_before vs"
      using in_list by (auto simp: resolved_names_def)
    have "map_of ?m name = Some vs"
      using m vs(1) by (simp add: name_map_def sorted_names_distinct)
    then have "vs = listed ?m name" by (simp add: listed_def)
    moreover have "set addrs = set vs" using vs(2) by (metis by_address.mset_sort_by set_mset_mset)
    moreover have "vs \<noteq> []" using m vs(1) by (auto simp: name_map_def)
    ultimately show ?thesis
      using vs(2) sort_addresses [OF wf distinct, of name] set [of name] by (metis set_empty)
  qed
  have "name \<in> fst ` set (resolved_names table)" if "name \<in> set (names_at table ip)" for name ip
  proof -
    have "listed ?m name \<noteq> []" using set [of name] that by auto
    then have "name \<in> fst ` set ?m" by (auto simp: listed_def split: option.splits dest!: map_of_SomeD simp: image_iff) force
    then show ?thesis using fst by (metis list.set_map)
  qed
  with entry m fst show ?thesis by (auto simp: name_map_def)
qed

definition two_names :: DnsTable where
  "two_names = [(IpKey_of True [10, 0, 0, 1], [''b'', ''a'']), (IpKey_of True [10, 0, 0, 2], [''a''])]"

theorem names_listed_witness:
  "sorted_wrt string_less (map fst (resolved_names two_names)) \<and> ''a'' \<in> fst ` set (resolved_names two_names)"
proof -
  have "dns_table_inv two_names"
    by (simp add: two_names_def dns_table_inv_def umap_inv_def IpKey_of_def IpKey_wf_def)
  moreover have "''a'' \<in> set (names_at two_names (IpKey_of True [10, 0, 0, 1]))"
    by (simp add: two_names_def names_at_def)
  ultimately show ?thesis using names_listed [of two_names] by blast
qed

end
