(* ===== verification/Pcap_Reader.thy ===== *)
theory Pcap_Reader
  imports Decoder
begin

text \<open>
  The capture reader (\<^verbatim>\<open>src/net/capture/pcap_reader.cpp\<close>): the file header, then one record
  after the other, from the bytes of the capture on, as the second constructor does; opening and
  mapping a file is in \<open>Reader_Mapping\<close>. The calls of the stopwatches are in \<open>Timed_Reader\<close>.

  \<open>readPacket\<close> returns a \<open>ParseError\<close> where \<open>NoError\<close> means that a packet was decoded. A record that
  is filtered or fails to decode is passed over inside the loop. After a failed parse the
  half-written header stays in \<open>capture_\<close> or \<open>file_header_\<close>; reading has ended then, and the model keeps
  the old one.
\<close>

section \<open>State\<close>

record Reader =
  rd_span :: span
  rd_capture :: Capture
  rd_file_header :: FileHeader
  rd_decoder :: Decoder
  rd_is_nsec :: bool
  rd_endian :: Endian
  rd_header_err :: ParseError
  rd_skipped :: u64
  rd_last_skip_err :: ParseError
  rd_json :: bool

definition FileHeader_zero :: FileHeader where
  "FileHeader_zero = \<lparr> fh_magic_number = 0, fh_major_version = 0, fh_minor_version = 0, fh_reserved1 = 0, fh_reserved2 = 0,
     fh_snaplen = 0, fh_linktype = 0 \<rparr>"

definition Capture_zero :: Capture where
  "Capture_zero = \<lparr> ts_us = 0, packetHeader = \<lparr> ph_ts_sec = 0, ph_ts_usec = 0, ph_incl_len = 0, ph_orig_len = 0 \<rparr>,
     pkt = \<lparr> datalink = DL_monostate, vlan_tags = [], network = Net_monostate, ipv6_ext = [], transport = Tp_monostate, payload = [] \<rparr> \<rparr>"

definition is_nsec_magic :: "u32 \<Rightarrow> bool" where
  "is_nsec_magic magic \<longleftrightarrow> magic = PCAP_MAGIC_NSEC_LE \<or> magic = PCAP_MAGIC_NSEC_BE"

definition readFileHeader :: "Reader \<Rightarrow> (ParseError \<times> Reader) res" where
  "readFileHeader r =
     (if length (rd_span r) < FILE_HEADER_LEN then Ok (UnexpectedEofF, r)
      else case parse_FileHeader (rd_span r) of
          UB \<Rightarrow> UB
        | Err e \<Rightarrow> Ok (e, r)
        | Ok (header, endian, span) \<Rightarrow>
            Ok (NoError, r \<lparr> rd_file_header := header, rd_endian := endian, rd_span := span,
                    rd_is_nsec := is_nsec_magic (fh_magic_number header) \<rparr>))"

definition Reader_new :: "span \<Rightarrow> Config \<Rightarrow> Reader" where
  "Reader_new data cfg = \<lparr> rd_span = data, rd_capture = Capture_zero, rd_file_header = FileHeader_zero,
     rd_decoder = Decoder_init cfg, rd_is_nsec = False, rd_endian = Little, rd_header_err = NoError, rd_skipped = 0,
     rd_last_skip_err = NoError, rd_json = False \<rparr>"

definition Reader_init :: "span \<Rightarrow> Config \<Rightarrow> Reader res" where
  "Reader_init data cfg =
     bind_res (readFileHeader (Reader_new data cfg)) (\<lambda>(err, r). Ok (r \<lparr> rd_header_err := err \<rparr>))"

definition setJson :: "bool \<Rightarrow> Reader \<Rightarrow> Reader" where "setJson json r = r \<lparr> rd_json := json \<rparr>"

section \<open>Reading packets\<close>

definition packet_time :: "bool \<Rightarrow> PacketHeader \<Rightarrow> u64" where
  "packet_time is_nsec h =
     (if is_nsec then ucast (ph_ts_sec h) * 1000000 + ucast (ph_ts_usec h div 1000)
      else ucast (ph_ts_sec h) * 1000000 + ucast (ph_ts_usec h))"

text \<open>What the loop does with a complete record: whether it was decoded, and the new state.\<close>

definition read_record :: "Reader \<Rightarrow> PacketHeader \<Rightarrow> span \<Rightarrow> (bool \<times> Reader) res" where
  "read_record r header packet_span =
     (let capture = rd_capture r;
          capture = capture \<lparr> packetHeader := header, pkt := setDatatypeFromLinktype (pkt capture) (fh_linktype (rd_file_header r)),
             ts_us := packet_time (rd_is_nsec r) header \<rparr>;
          r = r \<lparr> rd_capture := capture \<rparr> in
      case decode packet_span capture (rd_decoder r) of
        UB \<Rightarrow> UB
      | Err e \<Rightarrow> Ok (False, if e = Filtered then r else r \<lparr> rd_skipped := rd_skipped r + 1, rd_last_skip_err := e \<rparr>)
      | Ok (capture, d) \<Rightarrow> Ok (True, r \<lparr> rd_capture := capture, rd_decoder := d \<rparr>))"

lemma parse_PacketHeader_no_NoError [simp]: "parse_PacketHeader span endian \<noteq> Err NoError"
  by (simp add: parse_PacketHeader_def Let_def)

lemma read_record_span: "read_record r h s = Ok (ok, r') \<Longrightarrow> rd_span r' = rd_span r"
  by (auto simp: read_record_def Let_def split: res.splits if_splits prod.splits)

function readPacket_loop :: "Reader \<Rightarrow> (ParseError \<times> Reader) res" where
  "readPacket_loop r =
     (if length (rd_span r) < PACKET_HEADER_LEN then Ok (UnexpectedEofF, r)
      else case parse_PacketHeader (rd_span r) (rd_endian r) of
          UB \<Rightarrow> UB
        | Err e \<Rightarrow> Ok (e, r)
        | Ok (header, span) \<Rightarrow>
            let n = unat (ph_incl_len header) in
            if length span < n then Ok (UnexpectedEofF, r \<lparr> rd_span := span, rd_capture := rd_capture r \<lparr> packetHeader := header \<rparr> \<rparr>)
            else bind_res (read_record (r \<lparr> rd_span := drop n span \<rparr>) header (take n span)) (\<lambda>(ok, r).
              if \<not> ok then readPacket_loop r else Ok (NoError, r)))"
  by pat_completeness auto
termination
  by (relation "measure (\<lambda>r. length (rd_span r))")
     (auto dest!: read_record_span parse_PacketHeader_Ok simp: PACKET_HEADER_LEN_def)

declare readPacket_loop.simps [simp del]

definition readPacket :: "Reader \<Rightarrow> (ParseError \<times> Reader) res" where
  "readPacket r = (if rd_header_err r \<noteq> NoError then Ok (rd_header_err r, r) else readPacket_loop r)"

text \<open>Reading goes on until the first error; the callback sees each decoded packet with the state at that point.\<close>

lemma readPacket_loop_shorter: "readPacket_loop r = Ok (e, r') \<Longrightarrow> e = NoError \<Longrightarrow> length (rd_span r') < length (rd_span r)"
proof (induction r rule: readPacket_loop.induct)
  case (1 r)
  then have long: "\<not> length (rd_span r) < PACKET_HEADER_LEN" by (auto simp: readPacket_loop.simps [of r])
  obtain header span where h: "parse_PacketHeader (rd_span r) (rd_endian r) = Ok (header, span)"
    using "1.prems" long by (cases "parse_PacketHeader (rd_span r) (rd_endian r)") (auto simp: readPacket_loop.simps [of r])
  let ?n = "unat (ph_incl_len header)"
  have n: "\<not> length span < ?n" using "1.prems" long h by (auto simp: readPacket_loop.simps [of r] Let_def)
  obtain ok r1 where r1: "read_record (r \<lparr> rd_span := drop ?n span \<rparr>) header (take ?n span) = Ok (ok, r1)"
    and rest: "(if \<not> ok then readPacket_loop r1 else Ok (NoError, r1)) = Ok (e, r')"
    using "1.prems" long h n by (auto simp: readPacket_loop.simps [of r] Let_def bind_res_Ok_iff)
  have "length (rd_span r1) < length (rd_span r)"
    using read_record_span [OF r1] parse_PacketHeader_Ok [OF h] by auto
  then show ?case using "1.IH" [OF long h refl refl n r1 refl] rest "1.prems"(2) by (auto split: if_splits)
qed

function readAllPackets :: "Reader \<Rightarrow> ((u64 \<times> Capture) list \<times> ParseError \<times> Reader) res" where
  "readAllPackets r =
     bind_res (readPacket r) (\<lambda>(e, r).
     if e = NoError then
       bind_res (readAllPackets r) (\<lambda>(seen, e, r'). Ok ((decoded (rd_decoder r), rd_capture r) # seen, e, r'))
     else Ok ([], e, r))"
  by pat_completeness auto
termination
  by (relation "measure (\<lambda>r. length (rd_span r))")
     (auto simp: readPacket_def dest: readPacket_loop_shorter split: if_splits)

declare readAllPackets.simps [simp del]

end
