(* ===== verification/Capture_Reading.thy ===== *)
theory Capture_Reading
  imports Pcap_Reader
begin

text \<open>
  Reading a whole capture: the two nested loops of the reader process the records of the file
  one by one and in order, every record has exactly one fate, and the counters count them.
\<close>

section \<open>The records of a file\<close>

function records :: "Endian \<Rightarrow> span \<Rightarrow> (PacketHeader \<times> span) list \<times> ParseError" where
  "records endian s =
     (if length s < 16 then ([], UnexpectedEofF)
      else case parse_PacketHeader s endian of
          UB \<Rightarrow> ([], NoError)
        | Err e \<Rightarrow> ([], e)
        | Ok (h, rest) \<Rightarrow>
            let n = unat (ph_incl_len h) in
            if length rest < n then ([], UnexpectedEofF)
            else (case records endian (drop n rest) of (rs, e) \<Rightarrow> ((h, take n rest) # rs, e)))"
  by pat_completeness auto
termination
  by (relation "measure (\<lambda>(_, s). length s)") (auto dest!: parse_PacketHeader_Ok)

declare records.simps [simp del]

text \<open>A file of complete records in one byte order.\<close>

definition record_ok :: "PacketHeader \<times> span \<Rightarrow> bool" where
  "record_ok rec = (case rec of (h, s) \<Rightarrow> ph_incl_len h \<noteq> 0 \<and> ph_incl_len h \<le> ph_orig_len h \<and> length s = unat (ph_incl_len h))"

definition enc_pcap_record :: "Endian \<Rightarrow> PacketHeader \<times> span \<Rightarrow> span" where
  "enc_pcap_record endian rec = (case rec of (h, s) \<Rightarrow> PacketHeader_bytes endian h @ s)"

lemma records_enc_pcap:
  "list_all record_ok recs \<Longrightarrow> records endian (concat (map (enc_pcap_record endian) recs)) = (recs, UnexpectedEofF)"
proof (induction recs)
  case Nil
  then show ?case by (simp add: records.simps)
next
  case (Cons rec recs)
  obtain h s where hs: "rec = (h, s)" by (cases rec)
  let ?rest = "s @ concat (map (enc_pcap_record endian) recs)"
  have ok: "ph_incl_len h \<noteq> 0" "ph_incl_len h \<le> ph_orig_len h" "length s = unat (ph_incl_len h)"
    using Cons.prems by (simp_all add: hs record_ok_def)
  have len: "\<not> length (PacketHeader_bytes endian h @ ?rest) < 16" by (simp add: PacketHeader_bytes_def)
  have IH: "records endian (concat (map (enc_pcap_record endian) recs)) = (recs, UnexpectedEofF)" using Cons by simp
  have "concat (map (enc_pcap_record endian) (rec # recs)) = PacketHeader_bytes endian h @ ?rest"
    by (simp add: hs enc_pcap_record_def [of endian "(h, s)"])
  moreover have "records endian (PacketHeader_bytes endian h @ ?rest) = ((h, s) # recs, UnexpectedEofF)"
    using len IH ok(3) by (simp add: records.simps [of endian "PacketHeader_bytes endian h @ ?rest"]
        PacketHeader_bytes_parse [OF ok(1,2), of endian ?rest] Let_def)
  ultimately show ?case by (simp add: hs)
qed

section \<open>The fates of records\<close>

datatype fate = Decoded | FilteredOut | Skipped ParseError

definition next_capture :: "Reader \<Rightarrow> PacketHeader \<Rightarrow> Capture" where
  "next_capture r h = rd_capture r \<lparr> packetHeader := h,
     pkt := setDatatypeFromLinktype (pkt (rd_capture r)) (fh_linktype (rd_file_header r)), ts_us := packet_time (rd_is_nsec r) h \<rparr>"

definition record_fate :: "Reader \<Rightarrow> PacketHeader \<Rightarrow> span \<Rightarrow> fate" where
  "record_fate r h s =
     (case decode s (next_capture r h) (rd_decoder r) of
        Err e \<Rightarrow> if e = Filtered then FilteredOut else Skipped e
      | _ \<Rightarrow> Decoded)"

fun run_records :: "Reader \<Rightarrow> (PacketHeader \<times> span) list \<Rightarrow> (fate list \<times> (u64 \<times> Capture) list \<times> Reader) res" where
  "run_records r [] = Ok ([], [], r)"
| "run_records r ((h, s) # recs) =
     bind_res (read_record r h s) (\<lambda>(ok, r1).
     bind_res (run_records r1 recs) (\<lambda>(fates, seen, r2).
     Ok (record_fate r h s # fates, (if ok then [(decoded (rd_decoder r1), rd_capture r1)] else []) @ seen, r2)))"

lemma read_record_alt:
  "read_record r h s =
     (case decode s (next_capture r h) (rd_decoder r) of
        UB \<Rightarrow> UB
      | Err e \<Rightarrow> Ok (False, if e = Filtered then r \<lparr> rd_capture := next_capture r h \<rparr>
          else r \<lparr> rd_capture := next_capture r h, rd_skipped := rd_skipped r + 1, rd_last_skip_err := e \<rparr>)
      | Ok (c, d) \<Rightarrow> Ok (True, r \<lparr> rd_capture := c, rd_decoder := d \<rparr>))"
  by (simp add: read_record_def next_capture_def Let_def split: res.split)

lemma read_record_keeps:
  assumes "read_record r h s = Ok (ok, r1)"
  shows "rd_header_err r1 = rd_header_err r" "rd_endian r1 = rd_endian r" "rd_span r1 = rd_span r"
  using assms by (auto simp: read_record_alt split: res.splits if_splits prod.splits)

text \<open>The bytes still to be read do not matter to a record.\<close>

definition at_span :: "span \<Rightarrow> bool \<times> Reader \<Rightarrow> bool \<times> Reader" where
  "at_span sp = (\<lambda>(ok, r). (ok, r \<lparr> rd_span := sp \<rparr>))"

lemma read_record_at:
  "read_record (r \<lparr> rd_span := sp \<rparr>) h s = bind_res (read_record r h s) (\<lambda>q. Ok (at_span sp q))"
  by (simp add: read_record_alt next_capture_def at_span_def split: res.split)

lemma record_fate_at [simp]: "record_fate (r \<lparr> rd_span := sp \<rparr>) h s = record_fate r h s"
  by (simp add: record_fate_def next_capture_def)

section \<open>The loops\<close>

lemma readAllPackets_record:
  assumes "rd_header_err r = NoError"
  shows "readAllPackets r =
     (if length (rd_span r) < 16 then Ok ([], UnexpectedEofF, r)
      else case parse_PacketHeader (rd_span r) (rd_endian r) of
          UB \<Rightarrow> UB
        | Err e \<Rightarrow> Ok ([], e, r)
        | Ok (h, span) \<Rightarrow>
            if length span < unat (ph_incl_len h)
            then Ok ([], UnexpectedEofF, r \<lparr> rd_span := span, rd_capture := rd_capture r \<lparr> packetHeader := h \<rparr> \<rparr>)
            else bind_res (read_record (r \<lparr> rd_span := drop (unat (ph_incl_len h)) span \<rparr>) h (take (unat (ph_incl_len h)) span)) (\<lambda>(ok, r1).
              bind_res (readAllPackets r1) (\<lambda>(seen, e, r2).
              Ok ((if ok then [(decoded (rd_decoder r1), rd_capture r1)] else []) @ seen, e, r2))))"
proof (cases "length (rd_span r) < 16")
  case True
  then show ?thesis using assms
    by (simp add: readAllPackets.simps [of r] readPacket_def readPacket_loop.simps [of r] PACKET_HEADER_LEN_def)
next
  case long: False
  show ?thesis
  proof (cases "parse_PacketHeader (rd_span r) (rd_endian r)")
    case (Err e)
    then have "e \<noteq> NoError" by auto
    then show ?thesis using assms long Err
      by (simp add: readAllPackets.simps [of r] readPacket_def readPacket_loop.simps [of r] PACKET_HEADER_LEN_def)
  next
    case (Ok q)
    obtain h span where q: "q = (h, span)" by (cases q)
    let ?n = "unat (ph_incl_len h)"
    let ?rr = "read_record (r \<lparr> rd_span := drop ?n span \<rparr>) h (take ?n span)"
    show ?thesis
    proof (cases "length span < ?n")
      case True
      then show ?thesis using assms long Ok q
        by (simp add: readAllPackets.simps [of r] readPacket_def readPacket_loop.simps [of r] PACKET_HEADER_LEN_def Let_def)
    next
      case False
      have split: "readAllPackets r = bind_res ?rr (\<lambda>(ok, r1). bind_res (if \<not> ok then readPacket_loop r1 else Ok (NoError, r1))
          (\<lambda>(e, r). if e = NoError then bind_res (readAllPackets r) (\<lambda>(seen, e, r'). Ok ((decoded (rd_decoder r), rd_capture r) # seen, e, r'))
            else Ok ([], e, r)))"
        using assms long Ok q False
        by (simp add: readAllPackets.simps [of r] readPacket_def readPacket_loop.simps [of r] PACKET_HEADER_LEN_def Let_def
            bind_res_assoc case_prod_unfold)
      have again: "bind_res (readPacket_loop r1)
          (\<lambda>(e, r). if e = NoError then bind_res (readAllPackets r) (\<lambda>(seen, e, r'). Ok ((decoded (rd_decoder r), rd_capture r) # seen, e, r'))
            else Ok ([], e, r)) = bind_res (readAllPackets r1) (\<lambda>(seen, e, r2). Ok (seen, e, r2))" if "?rr = Ok (ok, r1)" for ok r1
      proof -
        have "rd_header_err r1 = NoError" using read_record_keeps(1) [OF that] assms by simp
        then have one: "readAllPackets r1 = bind_res (readPacket_loop r1)
          (\<lambda>(e, r). if e = NoError then bind_res (readAllPackets r) (\<lambda>(seen, e, r'). Ok ((decoded (rd_decoder r), rd_capture r) # seen, e, r'))
            else Ok ([], e, r))" by (subst readAllPackets.simps) (simp add: readPacket_def)
        have "bind_res m (\<lambda>(seen, e, r2). Ok (seen, e, r2)) = m" for m :: "((u64 \<times> Capture) list \<times> ParseError \<times> Reader) res"
          by (cases m) auto
        with one show ?thesis by simp
      qed
      show ?thesis unfolding split using long Ok q False again
        by (cases ?rr) (auto split: prod.splits)
    qed
  qed (use assms long in \<open>simp add: readAllPackets.simps [of r] readPacket_def readPacket_loop.simps [of r] PACKET_HEADER_LEN_def\<close>)
qed

lemma decode_counts: "decode s c d = Ok (c', d') \<Longrightarrow> decoded d' = decoded d + 1"
proof -
  have "decode_flow p t found d = Ok d' \<Longrightarrow> decoded d' = decoded d" for p t found d'
    by (auto simp: decode_flow_def bind_res_Ok_iff split: option.splits)
  then show "decode s c d = Ok (c', d') \<Longrightarrow> decoded d' = decoded d + 1"
    by (fastforce simp: decode_def bind_res_Ok_iff Let_def split: if_splits)
qed

text \<open>The nested loops are one pass over the records.\<close>

lemma readAllPackets_records:
  assumes "rd_header_err r = NoError"
  shows "case run_records (r \<lparr> rd_span := sp \<rparr>) (fst (records (rd_endian r) (rd_span r))) of
      UB \<Rightarrow> readAllPackets r = UB
    | Err e \<Rightarrow> False
    | Ok (fates, seen, r') \<Rightarrow> \<exists>sp' c. readAllPackets r = Ok (seen, snd (records (rd_endian r) (rd_span r)), r' \<lparr> rd_span := sp', rd_capture := c \<rparr>)"
  using assms
proof (induction "length (rd_span r)" arbitrary: r rule: less_induct)
  case less
  have stop: "\<exists>sp' c. x = (r \<lparr> rd_span := sp \<rparr>) \<lparr> rd_span := sp', rd_capture := c \<rparr>"
    if "x = r \<or> (\<exists>sp' c. x = r \<lparr> rd_span := sp', rd_capture := c \<rparr>)" for x
  proof -
    have "r = r \<lparr> rd_span := rd_span r, rd_capture := rd_capture r \<rparr>" by simp
    then have "\<exists>sp' c. x = r \<lparr> rd_span := sp', rd_capture := c \<rparr>" using that by metis
    then show ?thesis by simp
  qed
  show ?case
  proof (cases "length (rd_span r) < 16")
    case True
    then show ?thesis using stop [of r] by (simp add: readAllPackets_record [OF less.prems] records.simps [of _ "rd_span r"])
  next
    case long: False
    show ?thesis
    proof (cases "parse_PacketHeader (rd_span r) (rd_endian r)")
      case UB
      then show ?thesis by (simp add: packet_header.safe)
    next
      case (Err e)
      then show ?thesis using long stop [of r] by (simp add: readAllPackets_record [OF less.prems] records.simps [of _ "rd_span r"])
    next
      case (Ok q)
      obtain h span where q: "q = (h, span)" by (cases q)
      let ?n = "unat (ph_incl_len h)"
      show ?thesis
      proof (cases "length span < ?n")
        case True
        then show ?thesis using long Ok q
          by (simp add: readAllPackets_record [OF less.prems] records.simps [of _ "rd_span r"] Let_def) blast
      next
        case False
        let ?s = "take ?n span" and ?rest = "drop ?n span"
        have recs: "records (rd_endian r) (rd_span r) =
            ((h, ?s) # fst (records (rd_endian r) ?rest), snd (records (rd_endian r) ?rest))"
          using long Ok q False by (simp add: records.simps [of _ "rd_span r"] Let_def case_prod_unfold)
        have all: "readAllPackets r = bind_res (read_record r h ?s) (\<lambda>(ok, r1).
            bind_res (readAllPackets (r1 \<lparr> rd_span := ?rest \<rparr>)) (\<lambda>(seen, e, r2).
            Ok ((if ok then [(decoded (rd_decoder r1), rd_capture r1)] else []) @ seen, e, r2)))"
          using long Ok q False
          by (simp add: readAllPackets_record [OF less.prems] read_record_at bind_res_assoc at_span_def case_prod_unfold cong: if_cong)
        show ?thesis
        proof (cases "read_record r h ?s")
          case UB
          then show ?thesis by (simp add: recs all read_record_at)
        next
          case (Err e)
          then show ?thesis by (auto simp: read_record_alt split: res.splits prod.splits)
        next
          case (Ok p)
          obtain ok r1 where p: "read_record r h ?s = Ok (ok, r1)" using Ok by (cases p) auto
          let ?r1 = "r1 \<lparr> rd_span := ?rest \<rparr>"
          have "length ?rest < length (rd_span r)"
            using parse_PacketHeader_Ok [of "rd_span r" "rd_endian r" h span] \<open>parse_PacketHeader (rd_span r) (rd_endian r) = Ok q\<close> q by auto
          then have "case run_records (r1 \<lparr> rd_span := sp \<rparr>) (fst (records (rd_endian r) ?rest)) of
              UB \<Rightarrow> readAllPackets ?r1 = UB
            | Err e \<Rightarrow> False
            | Ok (fates, seen, r') \<Rightarrow> \<exists>sp' c. readAllPackets ?r1 = Ok (seen, snd (records (rd_endian r) ?rest), r' \<lparr> rd_span := sp', rd_capture := c \<rparr>)"
            using less.hyps [of ?r1] less.prems read_record_keeps [OF p] by (simp cong: res.case_cong)
          then show ?thesis
            by (auto simp: recs all read_record_at p at_span_def split: res.splits prod.splits) blast+
        qed
      qed
    qed
  qed
qed

section \<open>Accounting\<close>

definition fate_count :: "(fate \<Rightarrow> bool) \<Rightarrow> fate list \<Rightarrow> nat" where
  "fate_count P fates = length (filter P fates)"

fun is_skipped :: "fate \<Rightarrow> bool" where
  "is_skipped (Skipped e) = True"
| "is_skipped _ = False"

text \<open>The last error is that of the last skipped record.\<close>

fun last_skip :: "ParseError \<Rightarrow> fate list \<Rightarrow> ParseError" where
  "last_skip e [] = e"
| "last_skip e (Skipped e' # fates) = last_skip e' fates"
| "last_skip e (Decoded # fates) = last_skip e fates"
| "last_skip e (FilteredOut # fates) = last_skip e fates"

lemma run_records_counts:
  assumes "run_records r recs = Ok (fates, seen, r')"
  shows "length fates = length recs \<and> length seen = fate_count ((=) Decoded) fates \<and>
    decoded (rd_decoder r') = decoded (rd_decoder r) + of_nat (fate_count ((=) Decoded) fates) \<and>
    rd_skipped r' = rd_skipped r + of_nat (fate_count is_skipped fates) \<and>
    rd_last_skip_err r' = last_skip (rd_last_skip_err r) fates"
  using assms
proof (induction recs arbitrary: r fates seen)
  case Nil
  then show ?case by (simp add: fate_count_def)
next
  case (Cons rec recs)
  obtain h s where hs: "rec = (h, s)" by (cases rec)
  obtain ok r1 fates' seen' where r1: "read_record r h s = Ok (ok, r1)" and rest: "run_records r1 recs = Ok (fates', seen', r')"
    and out: "fates = record_fate r h s # fates'" "seen = (if ok then [(decoded (rd_decoder r1), rd_capture r1)] else []) @ seen'"
    using Cons.prems by (auto simp: hs bind_res_Ok_iff)
  note IH = Cons.IH [OF rest]
  show ?case
  proof (cases "decode s (next_capture r h) (rd_decoder r)")
    case UB
    then show ?thesis using r1 by (simp add: read_record_alt)
  next
    case (Err e)
    then show ?thesis using r1 IH out by (auto simp: read_record_alt record_fate_def fate_count_def split: if_splits)
  next
    case (Ok q)
    then show ?thesis using r1 IH out decode_counts [of s "next_capture r h" "rd_decoder r"]
      by (cases q) (auto simp: read_record_alt record_fate_def fate_count_def)
  qed
qed

lemma fates_partition: "fate_count ((=) Decoded) fates + fate_count is_skipped fates + fate_count ((=) FilteredOut) fates = length fates"
proof (induction fates)
  case (Cons f fates)
  then show ?case by (cases f) (simp_all add: fate_count_def)
qed (simp add: fate_count_def)

section \<open>Properties\<close>



end
