(* ===== verification/Timed_Reader.thy ===== *)
theory Timed_Reader
  imports Capture_Reading Benchmark
begin

text \<open>
  The stopwatches around the steps of reading: the reader and the decoder of \<open>Pcap_Reader\<close> and
  \<open>Decoder\<close> once more, with the calls of \<open>benchmark_.start\<close> and \<open>benchmark_.stop\<close> of
  \<^verbatim>\<open>src/net/capture/pcap_reader.cpp\<close> and \<^verbatim>\<open>src/net/decode/decoder.cpp\<close> as a trace. Without the
  trace they are the same functions.
\<close>

section \<open>Traces of stopwatches\<close>

datatype tick = Start Phase | Stop Phase

type_synonym 'a timed = "tick list \<times> 'a res"

definition untimed :: "'a res \<Rightarrow> 'a timed" where "untimed m = ([], m)"

definition clocked :: "tick \<Rightarrow> 'a timed \<Rightarrow> 'a timed" where "clocked t m = (t # fst m, snd m)"

definition bind_timed :: "'a timed \<Rightarrow> ('a \<Rightarrow> 'b timed) \<Rightarrow> 'b timed" where
  "bind_timed m f =
     (case m of
        (t, Ok x) \<Rightarrow> (t @ fst (f x), snd (f x))
      | (t, Err e) \<Rightarrow> (t, Err e)
      | (t, UB) \<Rightarrow> (t, UB))"

text \<open>A call between \<open>start\<close> and \<open>stop\<close>; its error is looked at after the stop.\<close>

definition stopwatch :: "Phase \<Rightarrow> 'a timed \<Rightarrow> 'a timed" where
  "stopwatch phase m =
     (case m of
        (t, UB) \<Rightarrow> (Start phase # t, UB)
      | (t, x) \<Rightarrow> (Start phase # t @ [Stop phase], x))"

lemma bind_timed_cong [fundef_cong]:
  "m = m' \<Longrightarrow> (\<And>t x. m' = (t, Ok x) \<Longrightarrow> f x = g x) \<Longrightarrow> bind_timed m f = bind_timed m' g"
  by (simp add: bind_timed_def split: prod.split res.split)

lemma clocked_cong [fundef_cong]: "t = t' \<Longrightarrow> m = m' \<Longrightarrow> clocked t m = clocked t' m'"
  by simp

lemma fst_untimed [simp]: "fst (untimed m) = []" by (simp add: untimed_def)
lemma fst_clocked [simp]: "fst (clocked t m) = t # fst m" by (simp add: clocked_def)

lemma snd_untimed [simp]: "snd (untimed m) = m" by (simp add: untimed_def)
lemma snd_clocked [simp]: "snd (clocked t m) = snd m" by (simp add: clocked_def)

lemma snd_bind_timed [simp]: "snd (bind_timed m f) = bind_res (snd m) (\<lambda>x. snd (f x))"
  by (simp add: bind_timed_def split: prod.split res.split)

lemma snd_stopwatch [simp]: "snd (stopwatch phase m) = snd m"
  by (simp add: stopwatch_def split: prod.split res.split)

lemma bind_timed_simps [simp]:
  "bind_timed (untimed (Ok x)) f = f x"
  "bind_timed (untimed (Err e)) f = untimed (Err e)"
  "bind_timed (untimed UB) f = untimed UB"
  "bind_timed (clocked t m) f = clocked t (bind_timed m f)"
  by (auto simp: bind_timed_def untimed_def clocked_def split: prod.split res.split)

section \<open>The decoder\<close>

definition decode_flow_timed :: "Packet \<Rightarrow> FlowTable \<Rightarrow> (FlowKey \<times> bool) option \<Rightarrow> Decoder \<Rightarrow> Decoder timed" where
  "decode_flow_timed p table found d =
     (case found of
        None \<Rightarrow> untimed (Ok (d \<lparr> flowTable := table \<rparr>))
      | Some (key, is_new) \<Rightarrow>
          (case map_of (flows table) key of
             None \<Rightarrow> untimed UB
           | Some flow \<Rightarrow>
               bind_timed (if isTcp p then stopwatch TcpReassembly (untimed (reassemble p flow)) else untimed (Ok flow)) (\<lambda>flow.
               bind_timed (stopwatch AppDecode (untimed (app_decode key p flow is_new (appDecoder d) (dnsTable d)))) (\<lambda>(flow, apps, names).
               untimed (Ok (d \<lparr> flowTable := table \<lparr> flows := AList.update key flow (flows table) \<rparr>,
                 appDecoder := apps, dnsTable := names \<rparr>))))))"

definition decode_timed :: "span \<Rightarrow> Capture \<Rightarrow> Decoder \<Rightarrow> (Capture \<times> Decoder) timed" where
  "decode_timed span capture d =
     (let capture = capture \<lparr> pkt := Packet_reset (pkt capture) \<rparr> in
      bind_timed (stopwatch DecodePacketPhase (untimed (decodePacket span (pkt capture) (verify_checksum (config d))))) (\<lambda>(p, _).
      let capture = capture \<lparr> pkt := p \<rparr> in
      if \<not> passes_filter (cfg_filter (config d)) p then untimed (Err Filtered)
      else
        bind_timed (stopwatch FlowLookup (untimed (addPacket (flowTable d) capture))) (\<lambda>(table, found).
        bind_timed (decode_flow_timed p table found d) (\<lambda>d.
        untimed (Ok (capture, d \<lparr> decoded := decoded d + 1 \<rparr>))))))"

section \<open>The reader\<close>

definition read_record_timed :: "Reader \<Rightarrow> PacketHeader \<Rightarrow> span \<Rightarrow> (bool \<times> Reader) timed" where
  "read_record_timed r header packet_span =
     (let r = r \<lparr> rd_capture := next_capture r header \<rparr> in
      case stopwatch DecodePhase (decode_timed packet_span (rd_capture r) (rd_decoder r)) of
        (t, UB) \<Rightarrow> (t, UB)
      | (t, Err e) \<Rightarrow> (t, Ok (False, if e = Filtered then r else r \<lparr> rd_skipped := rd_skipped r + 1, rd_last_skip_err := e \<rparr>))
      | (t, Ok (capture, d)) \<Rightarrow> (t, Ok (True, r \<lparr> rd_capture := capture, rd_decoder := d \<rparr>)))"

lemma snd_decode_flow_timed [simp]: "snd (decode_flow_timed p table found d) = decode_flow p table found d"
proof -
  have "reassemble p flow = Ok flow" if "\<not> isTcp p" for flow
    using that by (cases "transport p") (simp_all add: reassemble_def isTcp_def)
  then show ?thesis
    by (simp add: decode_flow_timed_def decode_flow_def case_prod_unfold if_distrib split: option.split)
qed

lemma snd_decode_timed [simp]: "snd (decode_timed s c d) = decode s c d"
  by (simp add: decode_timed_def decode_def Let_def case_prod_unfold if_distrib cong: if_cong)

lemma snd_read_record_timed [simp]: "snd (read_record_timed r h s) = read_record r h s"
proof (cases "decode_timed s (next_capture r h) (rd_decoder r)")
  case (Pair t m)
  have "decode s (next_capture r h) (rd_decoder r) = m" using snd_decode_timed [of s "next_capture r h" "rd_decoder r"] Pair by simp
  then show ?thesis using Pair
    by (cases m) (auto simp: read_record_timed_def read_record_alt stopwatch_def Let_def split: prod.splits)
qed

function readPacket_loop_timed :: "Reader \<Rightarrow> (ParseError \<times> Reader) timed" where
  "readPacket_loop_timed r =
     (if length (rd_span r) < PACKET_HEADER_LEN then untimed (Ok (UnexpectedEofF, r))
      else clocked (Start PacketHeaderPhase) (
        case parse_PacketHeader (rd_span r) (rd_endian r) of
          UB \<Rightarrow> untimed UB
        | Err e \<Rightarrow> clocked (Stop PacketHeaderPhase) (untimed (Ok (e, r)))
        | Ok (header, span) \<Rightarrow>
            let n = unat (ph_incl_len header) in
            if length span < n then
              clocked (Stop PacketHeaderPhase) (
              untimed (Ok (UnexpectedEofF, r \<lparr> rd_span := span, rd_capture := rd_capture r \<lparr> packetHeader := header \<rparr> \<rparr>)))
            else
              clocked (Stop PacketHeaderPhase) (
              bind_timed (read_record_timed (r \<lparr> rd_span := drop n span \<rparr>) header (take n span)) (\<lambda>(ok, r).
              if \<not> ok then readPacket_loop_timed r else untimed (Ok (NoError, r))))))"
  by pat_completeness auto
termination
proof (relation "measure (\<lambda>r. length (rd_span r))", goal_cases)
  case (2 r x h span n t q ok r1)
  have "read_record (r \<lparr> rd_span := drop n span \<rparr>) h (take n span) = Ok q"
    using 2 snd_read_record_timed by (metis snd_conv)
  with 2 show ?case by (auto dest!: read_record_span parse_PacketHeader_Ok simp: PACKET_HEADER_LEN_def)
qed simp

declare readPacket_loop_timed.simps [simp del]

definition readPacket_timed :: "Reader \<Rightarrow> (ParseError \<times> Reader) timed" where
  "readPacket_timed r = (if rd_header_err r \<noteq> NoError then untimed (Ok (rd_header_err r, r)) else readPacket_loop_timed r)"

lemma snd_readPacket_loop_timed: "snd (readPacket_loop_timed r) = readPacket_loop r"
proof (induction r rule: readPacket_loop_timed.induct)
  case (1 r)
  show ?case
  proof (cases "length (rd_span r) < PACKET_HEADER_LEN")
    case True
    then show ?thesis by (simp add: readPacket_loop_timed.simps [of r] readPacket_loop.simps [of r])
  next
    case long: False
    show ?thesis
    proof (cases "parse_PacketHeader (rd_span r) (rd_endian r)")
      case (Ok q)
      obtain header span where q: "q = (header, span)" by (cases q)
      let ?n = "unat (ph_incl_len header)"
      let ?m = "read_record_timed (r \<lparr> rd_span := drop ?n span \<rparr>) header (take ?n span)"
      have IH: "snd (readPacket_loop_timed r1) = readPacket_loop r1" if "\<not> length span < ?n" "?m = (t, Ok (False, r1))" for t r1
        by (rule "1.IH" [OF long Ok q [symmetric] refl that(1) that(2) refl]) simp
      have "bind_res (snd ?m) (\<lambda>(ok, r). if \<not> ok then snd (readPacket_loop_timed r) else Ok (NoError, r)) =
          bind_res (snd ?m) (\<lambda>(ok, r). if \<not> ok then readPacket_loop r else Ok (NoError, r))" if "\<not> length span < ?n"
        using IH [OF that] by (cases ?m) (auto intro!: bind_res_cong simp del: snd_read_record_timed)
      then show ?thesis using long Ok q
        by (simp add: readPacket_loop_timed.simps [of r] readPacket_loop.simps [of r] Let_def case_prod_unfold if_distrib cong: if_cong)
    qed (use long in \<open>simp_all add: readPacket_loop_timed.simps [of r] readPacket_loop.simps [of r]\<close>)
  qed
qed

lemma snd_readPacket_timed [simp]: "snd (readPacket_timed r) = readPacket r"
  by (simp add: readPacket_timed_def readPacket_def snd_readPacket_loop_timed)

text \<open>Both forms of \<open>readAllPackets\<close>, with and without a callback, have the same loop.\<close>

function read_loop_timed :: "Reader \<Rightarrow> ((u64 \<times> Capture) list \<times> ParseError \<times> Reader) timed" where
  "read_loop_timed r =
     bind_timed (readPacket_timed r) (\<lambda>(e, r).
     if e = NoError then
       bind_timed (read_loop_timed r) (\<lambda>(seen, e, r'). untimed (Ok ((decoded (rd_decoder r), rd_capture r) # seen, e, r')))
     else untimed (Ok ([], e, r)))"
  by pat_completeness auto
termination
proof (relation "measure (\<lambda>r. length (rd_span r))", goal_cases)
  case (2 r t q e r1)
  have "readPacket r = Ok q" using 2 snd_readPacket_timed by (metis snd_conv)
  with 2 show ?case by (auto simp: readPacket_def dest: readPacket_loop_shorter split: if_splits)
qed simp

declare read_loop_timed.simps [simp del]

lemma snd_read_loop_timed [simp]: "snd (read_loop_timed r) = readAllPackets r"
proof (induction r rule: read_loop_timed.induct)
  case (1 r)
  let ?m = "readPacket_timed r"
  have "bind_res (snd ?m) (\<lambda>(e, r). if e = NoError then
        bind_res (snd (read_loop_timed r)) (\<lambda>(seen, e, r'). Ok ((decoded (rd_decoder r), rd_capture r) # seen, e, r')) else Ok ([], e, r)) =
      bind_res (snd ?m) (\<lambda>(e, r). if e = NoError then
        bind_res (readAllPackets r) (\<lambda>(seen, e, r'). Ok ((decoded (rd_decoder r), rd_capture r) # seen, e, r')) else Ok ([], e, r))"
    using "1.IH" by (cases ?m) (auto intro!: bind_res_cong simp del: snd_readPacket_timed)
  then show ?case
    by (simp add: read_loop_timed.simps [of r] readAllPackets.simps [of r] case_prod_unfold if_distrib cong: if_cong)
qed

definition readAllPackets_timed :: "Reader \<Rightarrow> ((u64 \<times> Capture) list \<times> ParseError \<times> Reader) timed" where
  "readAllPackets_timed r = stopwatch Total (read_loop_timed r)"

lemma snd_readAllPackets_timed [simp]: "snd (readAllPackets_timed r) = readAllPackets r"
  by (simp add: readAllPackets_timed_def)

definition Reader_init_timed :: "span \<Rightarrow> Config \<Rightarrow> Reader timed" where
  "Reader_init_timed data cfg =
     bind_timed (stopwatch FileHeaderPhase (untimed (readFileHeader (Reader_new data cfg)))) (\<lambda>(err, r).
     untimed (Ok (r \<lparr> rd_header_err := err \<rparr>)))"

lemma snd_Reader_init_timed [simp]: "snd (Reader_init_timed data cfg) = Reader_init data cfg"
  by (simp add: Reader_init_timed_def Reader_init_def case_prod_unfold)

section \<open>What the stopwatches show\<close>

text \<open>The clock reads \<open>clock n\<close> at the call number \<open>n\<close> of \<open>start\<close> or \<open>stop\<close>.\<close>

fun run_ticks :: "(nat \<Rightarrow> u64) \<Rightarrow> nat \<Rightarrow> tick list \<Rightarrow> Benchmark \<Rightarrow> Benchmark" where
  "run_ticks clock n [] b = b"
| "run_ticks clock n (Start phase # t) b = run_ticks clock (Suc n) t (Benchmark_start phase (clock n) b)"
| "run_ticks clock n (Stop phase # t) b = run_ticks clock (Suc n) t (Benchmark_stop phase (clock n) b)"

text \<open>The calls from the construction of a reader of \<open>data\<close> to the end of \<open>readAllPackets\<close>, and the benchmark after them.\<close>

definition reading_ticks :: "span \<Rightarrow> Config \<Rightarrow> Reader \<Rightarrow> tick list" where
  "reading_ticks data cfg r = fst (Reader_init_timed data cfg) @ fst (readAllPackets_timed r)"

definition Reader_benchmark :: "(nat \<Rightarrow> u64) \<Rightarrow> bool \<Rightarrow> span \<Rightarrow> tick list \<Rightarrow> Benchmark" where
  "Reader_benchmark clock detailed data ticks =
     run_ticks clock 0 ticks (setBytes (of_nat (length data)) (setDetailed detailed Benchmark_init))"

text \<open>The number of bytes is only shown.\<close>

lemma run_ticks_setBytes: "run_ticks clock n t (setBytes k b) = setBytes k (run_ticks clock n t b)"
proof (induction clock n t b rule: run_ticks.induct)
  case (2 clock n p t b)
  have "Benchmark_start p (clock n) (setBytes k b) = setBytes k (Benchmark_start p (clock n) b)"
    by (simp add: Benchmark_start_def setBytes_def)
  with 2 show ?case by simp
next
  case (3 clock n p t b)
  have "Benchmark_stop p (clock n) (setBytes k b) = setBytes k (Benchmark_stop p (clock n) b)"
    by (simp add: Benchmark_stop_def setBytes_def Let_def)
  with 3 show ?case by simp
qed simp

lemma Reader_benchmark_elapsed:
  "elapsedNs (Reader_benchmark clock detailed data t) p = elapsedNs (Reader_benchmark clock detailed data' t) p"
  by (simp add: Reader_benchmark_def run_ticks_setBytes) (simp add: setBytes_def elapsedNs_def phase_stats_def)

lemma run_ticks_append: "run_ticks clock n (s @ t) b = run_ticks clock (n + length s) t (run_ticks clock n s b)"
  by (induction clock n s b rule: run_ticks.induct) simp_all

end
