(* ===== verification/Cli.thy ===== *)
theory Cli
  imports Timed_Reader Stats_Engine Ipv6_Address
begin

text \<open>
  The command line (\<^verbatim>\<open>src/cli/cli.cpp\<close>) and \<open>Reader::print\<close>: options, the report sections, the
  files they go to and the exit status. Arguments are the C strings after \<open>argv[0]\<close>.

  What the operating system answers is the record \<open>Env\<close>: whether the directory and the output
  files can be made and written, the bytes of the capture or the message of the exception that
  opening it throws, the readings of the steady clock, and the version that the build defines.
\<close>

section \<open>Options\<close>

definition kProgram :: string where "kProgram = ''analyzer''"

record Options =
  opt_path :: string
  show_flows :: bool
  show_http :: bool
  show_dns :: bool
  show_summary :: bool
  show_bench :: bool
  show_packets :: bool
  opt_json :: bool
  out_dir :: string
  opt_config :: Config
  opt_idle_timeout_us :: u64
  opt_help :: bool
  opt_version :: bool

definition Options_init :: Options where
  "Options_init = \<lparr> opt_path = [], show_flows = False, show_http = False, show_dns = False, show_summary = False,
     show_bench = False, show_packets = False, opt_json = False, out_dir = [], opt_config = Config_init,
     opt_idle_timeout_us = DEFAULT_IDLE_TIMEOUT_US, opt_help = False, opt_version = False \<rparr>"

definition cli_matches :: "string \<Rightarrow> string \<Rightarrow> string \<Rightarrow> bool" where
  "cli_matches arg shortFlag longFlag \<longleftrightarrow> arg = shortFlag \<or> arg = longFlag"

definition printUsage :: string where
  "printUsage =
     ''usage: '' @ kProgram @ '' <capture.pcap> [options]'' @ nl @
     nl @
     ''output selection (default: --summary --flows)'' @ nl @
     ''  -f, --flows        per-flow table, sorted by bytes'' @ nl @
     ''  -H, --http         HTTP requests and responses, grouped by flow'' @ nl @
     ''  -d, --dns          DNS questions and answers, and resolved names'' @ nl @
     ''  -s, --summary      packet, flow and byte counters'' @ nl @
     ''  -b, --bench        capture read and decode timings'' @ nl @
     ''  -p, --packets      every decoded packet and its layers (not in --all)'' @ nl @
     ''  -a, --all          all of the above except --packets'' @ nl @
     nl @
     ''options'' @ nl @
     ''  -j, --json         print --packets/--flows as JSON instead of text'' @ nl @
     ''  -o, --out DIR      write each section to its own file in DIR'' @ nl @
     ''  -n, --limit N      print at most N rows per section (0 = no limit)'' @ nl @
     ''  -C, --no-checksum  accept packets with bad IP/TCP/UDP/ICMP checksums'' @ nl @
     ''  -t, --timeout SEC  retire an active flow after SEC seconds (default: 0 = never)'' @ nl @
     ''  -i, --idle SEC     retire a flow after SEC idle seconds (default: 30)'' @ nl @
     ''  -V, --version      print the version and exit'' @ nl @
     ''  -h, --help         this message'' @ nl @
     nl @
     ''filtering (directional, AND-combined; non-matching packets are dropped'' @ nl @
     ''before flow tracking and excluded from every section and the skip counter)'' @ nl @
     ''      --src-ip ADDR   keep only packets from this IPv4/IPv6 address'' @ nl @
     ''      --dst-ip ADDR   keep only packets to this IPv4/IPv6 address'' @ nl @
     ''      --src-port N    keep only packets from this port'' @ nl @
     ''      --dst-port N    keep only packets to this port'' @ nl @
     ''      --proto NAME    keep only this L4 protocol (tcp|udp|icmp|icmpv6|<num>)'' @ nl"

definition parseFilterIp :: "string \<Rightarrow> (u8 list \<times> bool) option" where
  "parseFilterIp s =
     (case v4_addressFromString s of
        Some v4 \<Rightarrow> Some (take 4 v4 @ replicate 12 0, True)
      | None \<Rightarrow> (case v6_addressFromString s of Some v6 \<Rightarrow> Some (take 16 v6, False) | None \<Rightarrow> None))"

section \<open>Parsing the arguments\<close>

text \<open>Options without a value; \<open>None\<close> for any other argument.\<close>

definition set_flag :: "string \<Rightarrow> Options \<Rightarrow> Options option" where
  "set_flag arg out =
     (if cli_matches arg ''-f'' ''--flows'' then Some (out \<lparr> show_flows := True \<rparr>)
      else if cli_matches arg ''-H'' ''--http'' then Some (out \<lparr> show_http := True \<rparr>)
      else if cli_matches arg ''-d'' ''--dns'' then Some (out \<lparr> show_dns := True \<rparr>)
      else if cli_matches arg ''-s'' ''--summary'' then Some (out \<lparr> show_summary := True \<rparr>)
      else if cli_matches arg ''-b'' ''--bench'' then Some (out \<lparr> show_bench := True \<rparr>)
      else if cli_matches arg ''-p'' ''--packets'' then Some (out \<lparr> show_packets := True \<rparr>)
      else if cli_matches arg ''-j'' ''--json'' then Some (out \<lparr> opt_json := True \<rparr>)
      else if cli_matches arg ''-a'' ''--all'' then
        Some (out \<lparr> show_summary := True, show_flows := True, show_http := True, show_dns := True, show_bench := True \<rparr>)
      else if cli_matches arg ''-C'' ''--no-checksum'' then
        Some (out \<lparr> opt_config := (opt_config out) \<lparr> verify_checksum := False \<rparr> \<rparr>)
      else None)"

text \<open>What \<open>nextValue\<close> is asked for, for the options with a value.\<close>

definition value_kind :: "string \<Rightarrow> string option" where
  "value_kind arg =
     (if cli_matches arg ''-o'' ''--out'' then Some ''a directory''
      else if cli_matches arg ''-n'' ''--limit'' then Some ''a count''
      else if cli_matches arg ''-t'' ''--timeout'' then Some ''a number of seconds''
      else if cli_matches arg ''-i'' ''--idle'' then Some ''a number of seconds''
      else if arg = ''--src-ip'' \<or> arg = ''--dst-ip'' then Some ''an address''
      else if arg = ''--src-port'' \<or> arg = ''--dst-port'' then Some ''a port''
      else if arg = ''--proto'' then Some ''a protocol''
      else None)"

definition quoted :: "string \<Rightarrow> string" where "quoted s = [CHR 0x27] @ s @ [CHR 0x27]"

definition invalid :: "string \<Rightarrow> string \<Rightarrow> string" where
  "invalid what s = kProgram @ '': invalid '' @ what @ '' '' @ quoted s @ nl"

definition SIZE_MAX :: u64 where "SIZE_MAX = 0xFFFFFFFFFFFFFFFF"
definition UINT64_MAX :: u64 where "UINT64_MAX = 0xFFFFFFFFFFFFFFFF"

text \<open>
  Options with a value: the new IP version of the address filter and options, or the message
  for the error stream. \<open>arg[2]\<close> tells source from destination.
\<close>

definition set_limit :: "string \<Rightarrow> Options \<Rightarrow> string + Options" where
  "set_limit s out =
     (case parseUint s SIZE_MAX of
        None \<Rightarrow> Inl (invalid ''count'' s)
      | Some v \<Rightarrow> Inr (out \<lparr> opt_config := (opt_config out) \<lparr> print_limit := unat v \<rparr> \<rparr>))"

definition set_timeout :: "string \<Rightarrow> Options \<Rightarrow> string + Options" where
  "set_timeout s out =
     (case parseUint s (UINT64_MAX div 1000000) of
        None \<Rightarrow> Inl (invalid ''timeout'' s)
      | Some sec \<Rightarrow> Inr (out \<lparr> opt_config := (opt_config out) \<lparr> flow_active_timeout_us := sec * 1000000 \<rparr> \<rparr>))"

definition set_idle :: "string \<Rightarrow> Options \<Rightarrow> string + Options" where
  "set_idle s out =
     (case parseUint s (UINT64_MAX div 1000000) of
        None \<Rightarrow> Inl (invalid ''idle timeout'' s)
      | Some sec \<Rightarrow> Inr (out \<lparr> opt_config := (opt_config out) \<lparr> flow_idle_timeout_us := sec * 1000000 \<rparr> \<rparr>))"

definition set_filter :: "(FlowKey \<Rightarrow> FlowKey) \<Rightarrow> Options \<Rightarrow> Options" where
  "set_filter f out = out \<lparr> opt_config := (opt_config out) \<lparr> cfg_filter := f (cfg_filter (opt_config out)) \<rparr> \<rparr>"

definition set_ip :: "bool \<Rightarrow> string \<Rightarrow> nat \<Rightarrow> Options \<Rightarrow> string + (nat \<times> Options)" where
  "set_ip dst s ip_version out =
     (case parseFilterIp s of
        None \<Rightarrow> Inl (invalid ''address'' s)
      | Some (ip, is_ipv4) \<Rightarrow>
          let version = (if is_ipv4 then 4 else 6) in
          if ip_version \<noteq> 0 \<and> ip_version \<noteq> version then Inl (kProgram @ '': mixed IPv4/IPv6 address filter'' @ nl)
          else Inr (version, set_filter (\<lambda>k. if dst then k \<lparr> fk_isIpv4 := is_ipv4, fk_dst_ip := ip \<rparr>
                                             else k \<lparr> fk_isIpv4 := is_ipv4, fk_src_ip := ip \<rparr>) out))"

definition set_port :: "bool \<Rightarrow> string \<Rightarrow> Options \<Rightarrow> string + Options" where
  "set_port dst s out =
     (case parseUint s 65535 of
        None \<Rightarrow> Inl (invalid ''port'' s)
      | Some v \<Rightarrow>
          if v = 0 then Inl (invalid ''port'' s)
          else Inr (set_filter (\<lambda>k. if dst then k \<lparr> fk_dst_port := ucast v \<rparr> else k \<lparr> fk_src_port := ucast v \<rparr>) out))"

definition set_proto :: "string \<Rightarrow> Options \<Rightarrow> string + Options" where
  "set_proto s out =
     (case protocolFromName s of
        None \<Rightarrow> Inl (invalid ''protocol'' s)
      | Some proto \<Rightarrow> if proto = 0 then Inl (invalid ''protocol'' s) else Inr (set_filter (\<lambda>k. k \<lparr> fk_protocol := proto \<rparr>) out))"

definition set_value :: "string \<Rightarrow> string \<Rightarrow> nat \<Rightarrow> Options \<Rightarrow> string + (nat \<times> Options)" where
  "set_value arg s ip_version out =
     (let same = map_sum (\<lambda>e. e) (Pair ip_version) in
      if cli_matches arg ''-o'' ''--out'' then
        (if s = [] then Inl (kProgram @ '': empty output directory'' @ nl) else Inr (ip_version, out \<lparr> out_dir := s \<rparr>))
      else if cli_matches arg ''-n'' ''--limit'' then same (set_limit s out)
      else if cli_matches arg ''-t'' ''--timeout'' then same (set_timeout s out)
      else if cli_matches arg ''-i'' ''--idle'' then same (set_idle s out)
      else if arg = ''--src-ip'' \<or> arg = ''--dst-ip'' then set_ip (arg = ''--dst-ip'') s ip_version out
      else if arg = ''--src-port'' \<or> arg = ''--dst-port'' then same (set_port (arg = ''--dst-port'') s out)
      else same (set_proto s out))"

text \<open>The checks and defaults after the loop.\<close>

definition finish_args :: "Options \<Rightarrow> string + Options" where
  "finish_args out =
     (if \<not> opt_help out \<and> \<not> opt_version out \<and> opt_path out = [] then Inl (kProgram @ '': no capture file given'' @ nl)
      else if \<not> show_flows out \<and> \<not> show_http out \<and> \<not> show_dns out \<and> \<not> show_summary out \<and> \<not> show_bench out \<and> \<not> show_packets out then
        if out_dir out = [] then Inr (out \<lparr> show_summary := True, show_flows := True \<rparr>)
        else Inr (out \<lparr> show_summary := True, show_flows := True, show_http := True, show_dns := True, show_bench := True, show_packets := True \<rparr>)
      else Inr out)"

fun parse_loop :: "string list \<Rightarrow> nat \<Rightarrow> Options \<Rightarrow> string + Options" where
  "parse_loop [] ip_version out = finish_args out"
| "parse_loop (arg # rest) ip_version out =
     (if cli_matches arg ''-h'' ''--help'' then Inr (out \<lparr> opt_help := True \<rparr>)
      else if cli_matches arg ''-V'' ''--version'' then Inr (out \<lparr> opt_version := True \<rparr>)
      else case set_flag arg out of
          Some out \<Rightarrow> parse_loop rest ip_version out
        | None \<Rightarrow>
            (case value_kind arg of
               Some what \<Rightarrow>
                 (case rest of
                    [] \<Rightarrow> Inl (kProgram @ '': '' @ arg @ '' requires '' @ what @ nl)
                  | s # rest' \<Rightarrow>
                      (case set_value arg s ip_version out of
                         Inl e \<Rightarrow> Inl e
                       | Inr (ip_version, out) \<Rightarrow> parse_loop rest' ip_version out))
             | None \<Rightarrow>
                 if take 1 arg = ''-'' \<and> drop 1 arg \<noteq> [] then Inl (kProgram @ '': unknown option '' @ quoted arg @ nl)
                 else if opt_path out = [] then parse_loop rest ip_version (out \<lparr> opt_path := arg \<rparr>)
                 else Inl (kProgram @ '': unexpected argument '' @ quoted arg @ nl)))"

definition parseArgs :: "string list \<Rightarrow> string + Options" where
  "parseArgs args = parse_loop args 0 Options_init"

section \<open>Packets\<close>

text \<open>\<open>Reader::print\<close>, with the value of \<open>decoded\<close> at the time of the call.\<close>

definition Reader_print :: "bool \<Rightarrow> u64 \<Rightarrow> Capture \<Rightarrow> string" where
  "Reader_print json index out =
     (if json then
        ''{'' @ nl @
        ''  \"index\": '' @ dec index @ '','' @ nl @
        indent (PacketHeader_toJson (packetHeader out)) ''  '' @ '','' @ nl @
        indent (Packet_toJson (pkt out)) ''  '' @
        ''}'' @ nl
      else
        ''packet '' @ dec index @ nl @
        PacketHeader_toString (packetHeader out) @ nl @
        Packet_toString (pkt out) @ nl)"

text \<open>One call of the callback of \<open>readAllPackets\<close>: the text written so far and the packets in it.\<close>

definition on_packet :: "bool \<Rightarrow> nat \<Rightarrow> string \<times> nat \<Rightarrow> u64 \<times> Capture \<Rightarrow> string \<times> nat" where
  "on_packet json limit st seen =
     (case st of (out, packets_written) \<Rightarrow>
        if limit \<noteq> 0 \<and> limit \<le> packets_written then st
        else
          (out @ (if json \<and> 0 < packets_written then '','' @ nl else []) @ Reader_print json (fst seen) (snd seen) @
           (if \<not> json \<and> packets_written + 1 = limit then ''  ... limit reached'' @ nl else []),
           packets_written + 1))"

definition packets_text :: "bool \<Rightarrow> nat \<Rightarrow> (u64 \<times> Capture) list \<Rightarrow> string \<times> nat" where
  "packets_text json limit seen =
     (case foldl (on_packet json limit) (if json then ''['' @ nl else [], 0) seen of
        (out, n) \<Rightarrow> (out @ (if json then '']'' @ nl else []), n))"

section \<open>Summary\<close>

record counts =
  c_http :: u64
  c_dns :: u64
  c_failures :: u64
  c_skipped :: u64

definition add_counts :: "AppDecoder \<Rightarrow> FlowKey \<Rightarrow> counts \<Rightarrow> bool \<Rightarrow> counts" where
  "add_counts apps key c reverse =
     (case getApplications apps key reverse of
        None \<Rightarrow> c
      | Some app \<Rightarrow> \<lparr> c_http = c_http c + of_nat (length (http_messages app)), c_dns = c_dns c + of_nat (length (dns_messages app)),
          c_failures = c_failures c + decode_failures app, c_skipped = c_skipped c + http_bodies_skipped app \<rparr>)"

definition app_counts :: "FlowTable \<Rightarrow> AppDecoder \<Rightarrow> counts" where
  "app_counts table apps =
     foldl (\<lambda>c (key, flow). foldl (add_counts apps key) c [False, True])
       \<lparr> c_http = 0, c_dns = 0, c_failures = 0, c_skipped = 0 \<rparr> (allFlows table)"

definition printSummary :: "Reader \<Rightarrow> Benchmark \<Rightarrow> string" where
  "printSummary r b =
     (let d = rd_decoder r; table = flowTable d; c = app_counts table (appDecoder d) in
      ''summary'' @ nl @
      ''  packets decoded   '' @ dec (decoded d) @ nl @
      ''  packets skipped   '' @ dec (rd_skipped r) @
        (if rd_skipped r \<noteq> 0 then ''  (last: '' @ toString_ParseError (rd_last_skip_err r) @ '')'' else []) @ nl @
      ''  bytes             '' @ dec (total_bytes table) @ nl @
      ''  flows             '' @ dec_string (length (completed table) + length (flows table)) @
        ''  ('' @ dec_string (length (flows table)) @ '' active, '' @ dec_string (length (completed table)) @ '' retired)'' @ nl @
      (if c_dns c \<noteq> 0 then ''  dns messages      '' @ dec (c_dns c) @ nl else []) @
      (if c_http c \<noteq> 0 then ''  http messages     '' @ dec (c_http c) @ nl else []) @
      (if c_failures c \<noteq> 0 then ''  decode failures   '' @ dec (c_failures c) @ nl else []) @
      (if c_skipped c \<noteq> 0
       then ''  http bodies skipped '' @ dec (c_skipped c) @
         ''  (>'' @ dec_string (MAX_HTTP_MESSAGE_BYTES div (1024 * 1024)) @ ''MB, not decode failures)'' @ nl else []) @
      ''  total time        '' @ formatDuration (elapsedNs b Total) @ nl @
      nl)"

section \<open>The program\<close>

record Env =
  env_version :: string
  env_create_directories :: "string \<Rightarrow> string option"
  env_capture :: "string \<Rightarrow> string + span"
  env_opens :: "string \<Rightarrow> bool"
  env_writes :: "string \<Rightarrow> bool"
  env_clock :: "nat \<Rightarrow> u64"

record Outcome =
  out_stdout :: string
  out_stderr :: string
  out_files :: "(string \<times> string) list"
  out_written :: "string list"
  out_failed :: bool

definition flows_text :: "Options \<Rightarrow> Reader \<Rightarrow> string" where
  "flows_text o' r =
     (let d = rd_decoder r; limit = print_limit (config d) in
      if opt_json o' then ''{'' @ nl @ indent (StatsEngine_toJson (flowTable d) (dnsTable d) limit) ''  '' @ nl @ ''}'' @ nl
      else StatsEngine_toString (flowTable d) (dnsTable d) limit @ nl)"

definition sections :: "Options \<Rightarrow> Reader \<Rightarrow> Benchmark \<Rightarrow> (string \<times> string) list" where
  "sections o' r b =
     (let d = rd_decoder r; limit = print_limit (config d) in
      (if show_summary o' then [(''summary.txt'', printSummary r b)] else []) @
      (if show_flows o' then [(if opt_json o' then ''flows.json'' else ''flows.txt'', flows_text o' r)] else []) @
      (if show_http o' then [(''http.txt'', printHttp (flowTable d) (appDecoder d) limit)] else []) @
      (if show_dns o' then [(''dns.txt'', printDns (dnsTable d) limit)] else []) @
      (if show_bench o' then [(''bench.txt'', printBenchmark b)] else []))"

text \<open>\<open>operator/\<close> of a directory and a file name.\<close>

definition path_join :: "string \<Rightarrow> string \<Rightarrow> string" where
  "path_join dir name = (if dir \<noteq> [] \<and> last dir = CHR ''/'' then dir @ name else dir @ ''/'' @ name)"

definition emit :: "Env \<Rightarrow> Options \<Rightarrow> Outcome \<Rightarrow> string \<times> string \<Rightarrow> Outcome" where
  "emit env o' st section =
     (case section of (name, body) \<Rightarrow>
        let path = path_join (out_dir o') name in
        if out_dir o' = [] then st \<lparr> out_stdout := out_stdout st @ body \<rparr>
        else if env_opens env path \<and> env_writes env path then
          st \<lparr> out_files := out_files st @ [(path, body)], out_written := out_written st @ [name] \<rparr>
        else st \<lparr> out_stderr := out_stderr st @ kProgram @ '': cannot write '' @ path @ nl, out_failed := True \<rparr>)"

definition packets_name :: "Options \<Rightarrow> string" where
  "packets_name o' = (if opt_json o' then ''packets.json'' else ''packets.txt'')"

definition write_packets :: "Env \<Rightarrow> Options \<Rightarrow> string \<Rightarrow> Outcome \<Rightarrow> Outcome" where
  "write_packets env o' body st =
     (let path = path_join (out_dir o') (packets_name o') in
      if \<not> show_packets o' then st
      else if out_dir o' = [] then st \<lparr> out_stdout := out_stdout st @ body \<rparr>
      else if env_writes env path then
        st \<lparr> out_files := out_files st @ [(path, body)], out_written := out_written st @ [packets_name o'] \<rparr>
      else st \<lparr> out_stderr := out_stderr st @ kProgram @ '': failed writing '' @ path @ nl, out_failed := True \<rparr>)"

definition written_text :: "Options \<Rightarrow> nat \<Rightarrow> Outcome \<Rightarrow> string" where
  "written_text o' packets_written st =
     (if out_dir o' \<noteq> [] \<and> out_written st \<noteq> [] then
        kProgram @ '': wrote '' @ dec_string (length (out_written st)) @
        (if length (out_written st) = 1 then '' file to '' else '' files to '') @ out_dir o' @ nl @
        concat (map (\<lambda>name. ''  '' @ name @
          (if name = packets_name o' then ''  ('' @ dec_string packets_written @ '' packets)'' else []) @ nl) (out_written st))
      else [])"

text \<open>What is left on the streams and in files, with the exit status.\<close>

definition Outcome_init :: Outcome where
  "Outcome_init = \<lparr> out_stdout = [], out_stderr = [], out_files = [], out_written = [], out_failed = False \<rparr>"

definition run_benchmark :: "Env \<Rightarrow> Options \<Rightarrow> span \<Rightarrow> Reader \<Rightarrow> Benchmark" where
  "run_benchmark env o' data r =
     Reader_benchmark (env_clock env) (show_bench o') data (reading_ticks data (opt_config o') r)"

definition analyze :: "Env \<Rightarrow> Options \<Rightarrow> span \<Rightarrow> (Outcome \<times> nat) res" where
  "analyze env o' data =
     bind_res (Reader_init data (opt_config o')) (\<lambda>r.
     let path = path_join (out_dir o') (packets_name o') in
     if show_packets o' \<and> out_dir o' \<noteq> [] \<and> \<not> env_opens env path then
       Ok (Outcome_init \<lparr> out_stderr := kProgram @ '': cannot write '' @ path @ nl \<rparr>, 2)
     else
       let b = run_benchmark env o' data (setJson (opt_json o') r) in
       bind_res (readAllPackets (setJson (opt_json o') r)) (\<lambda>(seen, err, r).
       case packets_text (opt_json o') (print_limit (opt_config o')) seen of (body, packets_written) \<Rightarrow>
       let st = write_packets env o' body Outcome_init;
           st = foldl (emit env o') st (sections o' r b);
           st = st \<lparr> out_stdout := out_stdout st @ written_text o' packets_written st \<rparr> in
       Ok (st, if out_failed st then 1 else 0)))"

definition cli :: "Env \<Rightarrow> string list \<Rightarrow> (Outcome \<times> nat) res" where
  "cli env args =
     (case parseArgs args of
        Inl e \<Rightarrow> Ok (Outcome_init \<lparr> out_stderr := e @ ''try '' @ quoted (kProgram @ '' --help'') @ nl \<rparr>, 2)
      | Inr o' \<Rightarrow>
          if opt_help o' then Ok (Outcome_init \<lparr> out_stdout := printUsage \<rparr>, 0)
          else if opt_version o' then Ok (Outcome_init \<lparr> out_stdout := kProgram @ '' '' @ env_version env @ nl \<rparr>, 0)
          else
            case (if out_dir o' \<noteq> [] then env_create_directories env (out_dir o') else None) of
              Some message \<Rightarrow> Ok (Outcome_init \<lparr> out_stderr := kProgram @ '': '' @ out_dir o' @ '': '' @ message @ nl \<rparr>, 2)
            | None \<Rightarrow>
                (case env_capture env (opt_path o') of
                   Inl what \<Rightarrow> Ok (Outcome_init \<lparr> out_stderr := kProgram @ '': '' @ opt_path o' @ '': '' @ what @ nl \<rparr>, 1)
                 | Inr data \<Rightarrow> analyze env o' data))"

end
