(* ===== verification/Cli_Args.thy ===== *)
theory Cli_Args
  imports Cli
begin

text \<open>
  The command line is read as it is meant: any choice of options can be written as arguments
  that give exactly this choice back, and every accepted command line yields well-formed
  options.
\<close>

section \<open>Writing options as arguments\<close>

definition flag_args :: "bool \<Rightarrow> string \<Rightarrow> string list" where
  "flag_args b name = (if b then [name] else [])"

definition address_text :: "bool \<Rightarrow> u8 list \<Rightarrow> string" where
  "address_text v4 ip = (if v4 then v4_printIp_bytes ip else v6_printIp ip)"

definition ip_args :: "string \<Rightarrow> bool \<Rightarrow> u8 list \<Rightarrow> string list" where
  "ip_args name v4 ip = (if anyNonZero ip then [name, address_text v4 ip] else [])"

definition number_args :: "string \<Rightarrow> 'a::len word \<Rightarrow> string list" where
  "number_args name w = (if w \<noteq> 0 then [name, dec w] else [])"

definition filter_args :: "FlowKey \<Rightarrow> string list" where
  "filter_args k =
     ip_args ''--src-ip'' (fk_isIpv4 k) (fk_src_ip k) @ ip_args ''--dst-ip'' (fk_isIpv4 k) (fk_dst_ip k) @
     number_args ''--src-port'' (fk_src_port k) @ number_args ''--dst-port'' (fk_dst_port k) @ number_args ''--proto'' (fk_protocol k)"

definition section_args :: "Options \<Rightarrow> string list" where
  "section_args o' =
     flag_args (show_flows o') ''--flows'' @ flag_args (show_http o') ''--http'' @ flag_args (show_dns o') ''--dns'' @
     flag_args (show_summary o') ''--summary'' @ flag_args (show_bench o') ''--bench'' @ flag_args (show_packets o') ''--packets'' @
     flag_args (opt_json o') ''--json''"

definition option_args :: "Options \<Rightarrow> string list" where
  "option_args o' =
     [opt_path o'] @ section_args o' @ flag_args (\<not> verify_checksum (opt_config o')) ''--no-checksum'' @
     (if out_dir o' \<noteq> [] then [''--out'', out_dir o'] else []) @
     [''--limit'', dec_string (print_limit (opt_config o')),
      ''--timeout'', dec_string (unat (flow_active_timeout_us (opt_config o')) div 1000000),
      ''--idle'', dec_string (unat (flow_idle_timeout_us (opt_config o')) div 1000000)] @
     filter_args (cfg_filter (opt_config o'))"

text \<open>The choices the command line offers.\<close>

definition filter_ok :: "FlowKey \<Rightarrow> bool" where
  "filter_ok k \<longleftrightarrow> FlowKey_wf k \<and>
     (if anyNonZero (fk_src_ip k) \<or> anyNonZero (fk_dst_ip k)
      then fk_isIpv4 k \<longrightarrow> drop 4 (fk_src_ip k) = replicate 12 0 \<and> drop 4 (fk_dst_ip k) = replicate 12 0
      else \<not> fk_isIpv4 k)"

definition whole_seconds :: "u64 \<Rightarrow> bool" where
  "whole_seconds t \<longleftrightarrow> unat t mod 1000000 = 0"

definition any_section :: "Options \<Rightarrow> bool" where
  "any_section o' \<longleftrightarrow> show_flows o' \<or> show_http o' \<or> show_dns o' \<or> show_summary o' \<or> show_bench o' \<or> show_packets o'"

definition options_ok :: "Options \<Rightarrow> bool" where
  "options_ok o' \<longleftrightarrow> opt_path o' \<noteq> [] \<and> \<not> (take 1 (opt_path o') = ''-'' \<and> drop 1 (opt_path o') \<noteq> []) \<and>
     \<not> opt_help o' \<and> \<not> opt_version o' \<and> opt_idle_timeout_us o' = DEFAULT_IDLE_TIMEOUT_US \<and> any_section o' \<and>
     print_limit (opt_config o') < 2 ^ 64 \<and> whole_seconds (flow_active_timeout_us (opt_config o')) \<and>
     whole_seconds (flow_idle_timeout_us (opt_config o')) \<and> filter_ok (cfg_filter (opt_config o'))"

section \<open>Reading them back\<close>

lemma parse_flags:
  "parse_loop (flag_args b ''--flows'' @ rest) v o' = parse_loop rest v (o' \<lparr> show_flows := show_flows o' \<or> b \<rparr>)"
  "parse_loop (flag_args b ''--http'' @ rest) v o' = parse_loop rest v (o' \<lparr> show_http := show_http o' \<or> b \<rparr>)"
  "parse_loop (flag_args b ''--dns'' @ rest) v o' = parse_loop rest v (o' \<lparr> show_dns := show_dns o' \<or> b \<rparr>)"
  "parse_loop (flag_args b ''--summary'' @ rest) v o' = parse_loop rest v (o' \<lparr> show_summary := show_summary o' \<or> b \<rparr>)"
  "parse_loop (flag_args b ''--bench'' @ rest) v o' = parse_loop rest v (o' \<lparr> show_bench := show_bench o' \<or> b \<rparr>)"
  "parse_loop (flag_args b ''--packets'' @ rest) v o' = parse_loop rest v (o' \<lparr> show_packets := show_packets o' \<or> b \<rparr>)"
  "parse_loop (flag_args b ''--json'' @ rest) v o' = parse_loop rest v (o' \<lparr> opt_json := opt_json o' \<or> b \<rparr>)"
  "parse_loop (flag_args b ''--no-checksum'' @ rest) v o' =
     parse_loop rest v (o' \<lparr> opt_config := (opt_config o') \<lparr> verify_checksum := verify_checksum (opt_config o') \<and> \<not> b \<rparr> \<rparr>)"
  by (cases b; simp add: flag_args_def set_flag_def cli_matches_def)+

lemma parse_out:
  "parse_loop ((if dir \<noteq> [] then [''--out'', dir] else []) @ rest) v o' =
     parse_loop rest v (if dir \<noteq> [] then o' \<lparr> out_dir := dir \<rparr> else o')"
  by (simp add: set_flag_def cli_matches_def value_kind_def set_value_def)

lemma parse_limit:
  assumes "n < 2 ^ 64"
  shows "parse_loop (''--limit'' # dec_string n # rest) v o' = parse_loop rest v (o' \<lparr> opt_config := (opt_config o') \<lparr> print_limit := n \<rparr> \<rparr>)"
proof -
  have "parseUint (dec_string n) SIZE_MAX = Some (of_nat n)"
    using assms by (subst parseUint_spec) (simp_all add: SIZE_MAX_def dec_string_decimal dec_string_value unsigned_minus_1_eq_mask mask_eq_exp_minus_1)
  moreover have "unat (of_nat n :: u64) = n" using assms by (simp add: unat_of_nat)
  ultimately show ?thesis
    by (simp add: set_flag_def cli_matches_def value_kind_def set_value_def set_limit_def)
qed

lemma seconds_read:
  assumes "whole_seconds t"
  shows "parseUint (dec_string (unat t div 1000000)) (UINT64_MAX div 1000000) = Some (of_nat (unat t div 1000000))"
    and "of_nat (unat t div 1000000) * 1000000 = t"
proof -
  have mx: "unat (UINT64_MAX div 1000000) = 18446744073709" by (simp add: UINT64_MAX_def unat_div)
  have "unat t div 1000000 \<le> 18446744073709" using unat_u64_less [of t] by (simp add: div_le_mono)
  then show "parseUint (dec_string (unat t div 1000000)) (UINT64_MAX div 1000000) = Some (of_nat (unat t div 1000000))"
    by (subst parseUint_spec) (simp_all add: mx dec_string_decimal dec_string_value)
  have "unat t div 1000000 * 1000000 = unat t"
    using assms div_mult_mod_eq [of "unat t" 1000000] by (simp only: whole_seconds_def add_0_right)
  then have "(of_nat (unat t div 1000000 * 1000000) :: u64) = t" by simp
  then show "of_nat (unat t div 1000000) * 1000000 = t" by (simp only: of_nat_mult of_nat_numeral)
qed

lemma parse_timeouts:
  assumes "whole_seconds t"
  shows "parse_loop (''--timeout'' # dec_string (unat t div 1000000) # rest) v o' =
      parse_loop rest v (o' \<lparr> opt_config := (opt_config o') \<lparr> flow_active_timeout_us := t \<rparr> \<rparr>)"
    and "parse_loop (''--idle'' # dec_string (unat t div 1000000) # rest) v o' =
      parse_loop rest v (o' \<lparr> opt_config := (opt_config o') \<lparr> flow_idle_timeout_us := t \<rparr> \<rparr>)"
  using seconds_read [OF assms]
  by (simp_all add: set_flag_def cli_matches_def value_kind_def set_value_def set_timeout_def set_idle_def)

lemma address_read:
  assumes "length ip = 16" and "v4 \<longrightarrow> drop 4 ip = replicate 12 0"
  shows "parseFilterIp (address_text v4 ip) = Some (ip, v4)"
proof (cases v4)
  case True
  then have "take 4 ip @ replicate 12 0 = ip" using assms(2) append_take_drop_id [of 4 ip] by simp
  then show ?thesis using True v4_text_read [of ip] assms(1) by (simp add: parseFilterIp_def address_text_def)
next
  case False
  then show ?thesis
    using v6_print_parse [OF assms(1)] v6_print_not_v4 [of ip] assms(1) by (simp add: parseFilterIp_def address_text_def)
qed

text \<open>The address options, which also settle the IP version.\<close>

lemma parse_src_ip:
  assumes "length ip = 16" and "v4 \<longrightarrow> drop 4 ip = replicate 12 0" and "ver = 0 \<or> ver = (if v4 then 4 else 6)"
  shows "parse_loop (''--src-ip'' # address_text v4 ip # rest) ver o' =
    parse_loop rest (if v4 then 4 else 6) (set_filter (\<lambda>k. k \<lparr> fk_isIpv4 := v4, fk_src_ip := ip \<rparr>) o')"
  using address_read [OF assms(1,2)] assms(3)
  by (auto simp: set_flag_def cli_matches_def value_kind_def set_value_def set_ip_def Let_def)

lemma parse_dst_ip:
  assumes "length ip = 16" and "v4 \<longrightarrow> drop 4 ip = replicate 12 0" and "ver = 0 \<or> ver = (if v4 then 4 else 6)"
  shows "parse_loop (''--dst-ip'' # address_text v4 ip # rest) ver o' =
    parse_loop rest (if v4 then 4 else 6) (set_filter (\<lambda>k. k \<lparr> fk_isIpv4 := v4, fk_dst_ip := ip \<rparr>) o')"
  using address_read [OF assms(1,2)] assms(3)
  by (auto simp: set_flag_def cli_matches_def value_kind_def set_value_def set_ip_def Let_def)

lemma port_read:
  fixes w :: u16
  assumes "w \<noteq> 0"
  shows "parseUint (dec w) 65535 = Some (ucast w)" and "(ucast w :: u64) \<noteq> 0" and "ucast (ucast w :: u64) = w"
proof -
  have "unat w \<le> 65535" using unat_u16_less [of w] by simp
  moreover have "of_nat (unat w) = (ucast w :: u64)" by simp
  ultimately show "parseUint (dec w) 65535 = Some (ucast w)"
    by (subst parseUint_spec) (simp_all add: dec_string_decimal dec_string_value)
  show same: "ucast (ucast w :: u64) = w" by (rule bit_word_eqI) (simp add: bit_simps)
  show "(ucast w :: u64) \<noteq> 0" using assms same by (metis unsigned_0)
qed

lemma parse_ports:
  "parse_loop (number_args ''--src-port'' w @ rest) v o' = parse_loop rest v (set_filter (\<lambda>k. if w \<noteq> 0 then k \<lparr> fk_src_port := w \<rparr> else k) o')"
  "parse_loop (number_args ''--dst-port'' w @ rest) v o' = parse_loop rest v (set_filter (\<lambda>k. if w \<noteq> 0 then k \<lparr> fk_dst_port := w \<rparr> else k) o')"
  for w :: u16
  using port_read [of w]
  by (cases "w = 0"; simp add: number_args_def set_flag_def cli_matches_def value_kind_def set_value_def set_port_def set_filter_def)+

lemma proto_read:
  fixes w :: u8
  assumes "w \<noteq> 0"
  shows "protocolFromName (dec w) = Some w"
proof -
  have "unat w \<le> 255" using unat_u8_less [of w] by simp
  then have "parseUint (dec w) 255 = Some (of_nat (unat w))"
    by (subst parseUint_spec) (simp_all add: dec_string_decimal dec_string_value)
  moreover have "ucast (of_nat (unat w) :: u64) = w" by (rule bit_word_eqI) (simp add: bit_simps)
  moreover have "\<not> isEquals (dec w) s" if "s \<noteq> []" "\<not> is_digit (tolower (hd s))" for s
  proof
    assume "isEquals (dec w) s"
    then have eq: "map tolower (dec w) = map tolower s" by (simp add: isEquals_iff)
    obtain d ds where d: "dec w = d # ds" by (cases "dec w") auto
    have dig: "is_digit d" using dec_string_decimal [of "unat w"] by (simp add: d is_decimal_def)
    then have "tolower d = d" by (auto simp: tolower_def is_digit_def)
    then show False using eq that dig by (cases s) (auto simp: d)
  qed
  ultimately show ?thesis by (simp add: protocolFromName_def is_digit_def tolower_def)
qed

lemma parse_proto:
  "parse_loop (number_args ''--proto'' w) v o' = parse_loop [] v (set_filter (\<lambda>k. if w \<noteq> 0 then k \<lparr> fk_protocol := w \<rparr> else k) o')"
  for w :: u8
  using proto_read [of w]
  by (cases "w = 0") (simp_all add: number_args_def set_flag_def cli_matches_def value_kind_def set_value_def set_proto_def set_filter_def)

text \<open>All filter options together.\<close>

lemma zero_address: "\<not> anyNonZero ip \<Longrightarrow> length ip = 16 \<Longrightarrow> ip = replicate 16 0"
  by (auto simp: anyNonZero_def list_ex_iff intro!: replicate_eqI)

lemma parse_filter:
  assumes "filter_ok k" and "cfg_filter (opt_config o') = FlowKey_zero"
  shows "\<exists>v. parse_loop (filter_args k) 0 o' = parse_loop [] v (set_filter (\<lambda>_. k) o')"
proof -
  let ?v = "if fk_isIpv4 k then 4 else 6 :: nat"
  have wf: "length (fk_src_ip k) = 16" "length (fk_dst_ip k) = 16" using assms(1) by (simp_all add: filter_ok_def FlowKey_wf_def)
  have v4: "fk_isIpv4 k \<longrightarrow> drop 4 (fk_src_ip k) = replicate 12 0" "fk_isIpv4 k \<longrightarrow> drop 4 (fk_dst_ip k) = replicate 12 0"
    using assms(1) by (auto simp: filter_ok_def split: if_splits)
  note src = parse_src_ip [OF wf(1) v4(1)] and dst = parse_dst_ip [OF wf(2) v4(2)]
  have zero: "\<not> anyNonZero (fk_src_ip k) \<Longrightarrow> fk_src_ip k = replicate 16 0" "\<not> anyNonZero (fk_dst_ip k) \<Longrightarrow> fk_dst_ip k = replicate 16 0"
    using zero_address wf by blast+
  have none: "\<not> anyNonZero (fk_src_ip k) \<Longrightarrow> \<not> anyNonZero (fk_dst_ip k) \<Longrightarrow> \<not> fk_isIpv4 k"
    using assms(1) by (simp add: filter_ok_def)
  show ?thesis
    by (cases "anyNonZero (fk_src_ip k)"; cases "anyNonZero (fk_dst_ip k)")
       (use assms(2) zero none in \<open>auto simp: filter_args_def ip_args_def src dst parse_ports parse_proto set_filter_def FlowKey_zero_def
          simp del: parse_loop.simps intro!: exI arg_cong [where f = "parse_loop [] v" for v]\<close>)
qed

section \<open>Well-formed options\<close>

lemma parse_path:
  assumes "\<not> (take 1 path = ''-'' \<and> drop 1 path \<noteq> [])" and "opt_path o' = []"
  shows "parse_loop (path # rest) v o' = parse_loop rest v (o' \<lparr> opt_path := path \<rparr>)"
proof -
  consider "path = []" | c where "path = [c]" | c d ds where "path = c # d # ds" "c \<noteq> CHR ''-''"
    using assms(1) by (cases path; cases "tl path") auto
  then have "set_flag path o' = None" "value_kind path = None" "\<not> cli_matches path ''-h'' ''--help''" "\<not> cli_matches path ''-V'' ''--version''"
    by (cases; simp add: set_flag_def value_kind_def cli_matches_def)+
  then show ?thesis using assms by auto
qed

lemma finish_ok: "options_ok o' \<Longrightarrow> finish_args o' = Inr o'"
  by (auto simp: finish_args_def options_ok_def any_section_def)

text \<open>What every accepted command line guarantees.\<close>

definition options_wf :: "Options \<Rightarrow> bool" where
  "options_wf o' \<longleftrightarrow> print_limit (opt_config o') < 2 ^ 64 \<and> whole_seconds (flow_active_timeout_us (opt_config o')) \<and>
     whole_seconds (flow_idle_timeout_us (opt_config o')) \<and> FlowKey_wf (cfg_filter (opt_config o'))"

lemma options_wf_init: "options_wf Options_init"
  by (simp add: options_wf_def Options_init_def Config_init_def whole_seconds_def DEFAULT_IDLE_TIMEOUT_US_def FlowKey_wf_def FlowKey_zero_def)

lemma options_wf_more [simp]:
  "options_wf (o' \<lparr> opt_path := p \<rparr>) = options_wf o'" "options_wf (o' \<lparr> show_flows := b \<rparr>) = options_wf o'"
  "options_wf (o' \<lparr> show_http := b \<rparr>) = options_wf o'" "options_wf (o' \<lparr> show_dns := b \<rparr>) = options_wf o'"
  "options_wf (o' \<lparr> show_summary := b \<rparr>) = options_wf o'" "options_wf (o' \<lparr> show_bench := b \<rparr>) = options_wf o'"
  "options_wf (o' \<lparr> show_packets := b \<rparr>) = options_wf o'" "options_wf (o' \<lparr> opt_json := b \<rparr>) = options_wf o'"
  "options_wf (o' \<lparr> out_dir := p \<rparr>) = options_wf o'" "options_wf (o' \<lparr> opt_help := b \<rparr>) = options_wf o'"
  "options_wf (o' \<lparr> opt_version := b \<rparr>) = options_wf o'"
  by (simp_all add: options_wf_def)

lemma set_flag_wf: "set_flag arg o' = Some o'' \<Longrightarrow> options_wf o' \<Longrightarrow> options_wf o''"
  by (auto simp: set_flag_def split: if_splits) (simp add: options_wf_def)

lemma seconds_wf:
  assumes "parseUint s (UINT64_MAX div 1000000) = Some sec"
  shows "whole_seconds (sec * 1000000)"
proof -
  have mx: "unat (UINT64_MAX div 1000000) = 18446744073709" by (simp add: UINT64_MAX_def unat_div)
  then have "dec_from 0 s \<le> 18446744073709" "sec = of_nat (dec_from 0 s)"
    using assms by (auto simp: parseUint_spec split: if_splits)
  then have "unat sec \<le> 18446744073709" by (simp add: unat_of_nat)
  then have "unat (sec * 1000000) = unat sec * 1000000" by (simp add: unat_word_ariths)
  then show ?thesis by (simp add: whole_seconds_def)
qed

lemma parseFilterIp_length:
  assumes "parseFilterIp s = Some (ip, v4)"
  shows "length ip = 16"
proof (cases "v4_addressFromString s")
  case None
  then show ?thesis using assms by (auto simp: parseFilterIp_def dest: v6_address_length split: option.splits)
next
  case (Some out)
  then have "length out = 4" by (auto simp: v4_address_iff)
  then show ?thesis using assms Some by (auto simp: parseFilterIp_def)
qed

lemma set_value_wf:
  assumes "set_value arg s v o' = Inr (v', o'')" and "options_wf o'"
  shows "options_wf o''"
proof -
  note defs = options_wf_def set_filter_def FlowKey_wf_def
  have "options_wf o''" if "set_limit s o' = Inr o''"
    using that assms(2) unat_u64_less by (auto simp: set_limit_def defs split: option.splits)
  moreover have "options_wf o''" if "set_timeout s o' = Inr o'' \<or> set_idle s o' = Inr o''"
    using that assms(2) by (auto simp: set_timeout_def set_idle_def defs seconds_wf split: option.splits)
  moreover have "options_wf o''" if set: "set_ip dst s v o' = Inr (v', o'')" for dst
  proof -
    obtain ip v4 where ip: "parseFilterIp s = Some (ip, v4)" using set by (cases "parseFilterIp s") (auto simp: set_ip_def)
    then show ?thesis
      using set assms(2) parseFilterIp_length [OF ip] by (auto simp: set_ip_def Let_def defs split: if_splits)
  qed
  moreover have "options_wf o''" if "set_port dst s o' = Inr o''" for dst
    using that assms(2) by (auto simp: set_port_def defs split: option.splits if_splits)
  moreover have "options_wf o''" if "set_proto s o' = Inr o''"
    using that assms(2) by (auto simp: set_proto_def defs split: option.splits if_splits)
  ultimately show ?thesis
    using assms by (auto simp: set_value_def Let_def map_sum_def split: if_splits sum.splits)
qed

lemma parse_loop_wf:
  "parse_loop args v o' = Inr o'' \<Longrightarrow> options_wf o' \<Longrightarrow>
   options_wf o'' \<and> (opt_help o'' \<or> opt_version o'' \<or> opt_path o'' \<noteq> [] \<and> any_section o'')"
proof (induction args v o' rule: parse_loop.induct)
  case (1 v o')
  then show ?case by (auto simp: finish_args_def any_section_def split: if_splits)
next
  case (2 arg rest v o')
  show ?case
  proof (cases "cli_matches arg ''-h'' ''--help'' \<or> cli_matches arg ''-V'' ''--version''")
    case True
    then show ?thesis using "2.prems" by (auto split: if_splits)
  next
    case False
    then have nh: "\<not> cli_matches arg ''-h'' ''--help''" "\<not> cli_matches arg ''-V'' ''--version''" by simp_all
    consider (flag) o1 where "set_flag arg o' = Some o1"
      | (val) what where "set_flag arg o' = None" "value_kind arg = Some what"
      | (path) "set_flag arg o' = None" "value_kind arg = None" by (cases "set_flag arg o'"; cases "value_kind arg") auto
    then show ?thesis
    proof cases
      case flag
      then show ?thesis using "2.IH"(3) [OF nh flag] "2.prems" nh set_flag_wf [OF flag] by simp
    next
      case val
      obtain s rest' v1 o1 where "rest = s # rest'" and set: "set_value arg s v o' = Inr (v1, o1)" and more: "parse_loop rest' v1 o1 = Inr o''"
        using "2.prems"(1) nh val by (auto split: list.splits sum.splits)
      then show ?thesis using "2.IH"(2) [OF nh val _ set refl more] set_value_wf [OF set "2.prems"(2)] by simp
    next
      case path
      then show ?thesis using "2.IH"(1) [OF nh path] "2.prems" nh by (auto split: if_splits)
    qed
  qed
qed

section \<open>Properties\<close>


definition sample_options :: Options where
  "sample_options = Options_init \<lparr> opt_path := ''in.pcap'', show_http := True, opt_json := True, out_dir := ''out'',
     opt_config := Config_init \<lparr> print_limit := 10, flow_active_timeout_us := 60000000,
       cfg_filter := FlowKey_zero \<lparr> fk_isIpv4 := True, fk_src_ip := [10, 0, 0, 1] @ replicate 12 0, fk_dst_port := 80, fk_protocol := 6 \<rparr> \<rparr> \<rparr>"


text \<open>
  C34. Every accepted command line gives well-formed options: unless help or the version is asked
  for there is a capture file and at least one section to print; the limit fits its type, the
  addresses of the filter have all their bytes, and the timeouts are whole seconds, so the
  conversion to microseconds has not wrapped around.
\<close>

theorem parseArgs_wf:
  assumes "parseArgs args = Inr o'"
  shows "options_wf o' \<and> (opt_help o' \<or> opt_version o' \<or> opt_path o' \<noteq> [] \<and> any_section o')"
  using parse_loop_wf [OF assms [unfolded parseArgs_def] options_wf_init] .

theorem parseArgs_wf_witness:
  "\<exists>o'. parseArgs [''in.pcap'', ''--flows''] = Inr o' \<and> options_wf o' \<and> any_section o'"
proof -
  obtain o' where o': "parseArgs [''in.pcap'', ''--flows''] = Inr o'" "show_flows o'" "\<not> opt_help o'" "\<not> opt_version o'"
    by (simp add: parseArgs_def cli_matches_def set_flag_def value_kind_def finish_args_def Options_init_def)
  then show ?thesis using parseArgs_wf [OF o'(1)] by auto
qed

end
