(* ===== verification/Json.thy ===== *)
theory Json
  imports Text_Util
begin

text \<open>
  A specification of JSON texts (RFC 8259), against which the printers are verified: a lexer
  with the string escapes and the number grammar of the standard, and the token sequence of a
  document. A text denotes a document when its tokens are those of the document. Characters
  are bytes; whether the bytes above \<open>0x7F\<close> form UTF-8 is not looked at.

  The main lemmas say how lexing goes through the concatenation of texts and that
  \<open>util::indent\<close> never changes the document a text denotes.
\<close>

section \<open>Tokens\<close>

datatype json_token = Punct char | Str string | Num string | Wrd string

abbreviation quote :: char where "quote \<equiv> CHR 0x22"

definition is_ws :: "char \<Rightarrow> bool" where
  "is_ws c \<longleftrightarrow> c = CHR '' '' \<or> c = newline \<or> c = CHR 0x09 \<or> c = CHR 0x0D"

definition is_punct :: "char \<Rightarrow> bool" where
  "is_punct c \<longleftrightarrow> c = CHR ''{'' \<or> c = CHR ''}'' \<or> c = CHR ''['' \<or> c = CHR '']'' \<or> c = CHR '':'' \<or> c = CHR '',''"

definition is_num_char :: "char \<Rightarrow> bool" where
  "is_num_char c \<longleftrightarrow> is_digit c \<or> c = CHR ''-'' \<or> c = CHR ''+'' \<or> c = CHR ''.'' \<or> c = CHR ''e'' \<or> c = CHR ''E''"

definition is_word_char :: "char \<Rightarrow> bool" where
  "is_word_char c \<longleftrightarrow> 97 \<le> (of_char c :: nat) \<and> (of_char c :: nat) \<le> 122"

text \<open>Numbers: an optional sign, digits without a leading zero, a fraction, an exponent.\<close>

definition json_exponent :: "string \<Rightarrow> bool" where
  "json_exponent s =
     (case s of
        [] \<Rightarrow> True
      | c # cs \<Rightarrow> (c = CHR ''e'' \<or> c = CHR ''E'') \<and>
          is_decimal (case cs of d # ds \<Rightarrow> if d = CHR ''+'' \<or> d = CHR ''-'' then ds else cs | [] \<Rightarrow> []))"

definition json_fraction :: "string \<Rightarrow> bool" where
  "json_fraction s =
     (case s of
        c # cs \<Rightarrow> if c = CHR ''.'' then takeWhile is_digit cs \<noteq> [] \<and> json_exponent (dropWhile is_digit cs) else json_exponent s
      | [] \<Rightarrow> True)"

definition json_unsigned :: "string \<Rightarrow> bool" where
  "json_unsigned s =
     (let i = takeWhile is_digit s in
      i \<noteq> [] \<and> (hd i = CHR ''0'' \<longrightarrow> i = ''0'') \<and> json_fraction (dropWhile is_digit s))"

definition json_number :: "string \<Rightarrow> bool" where
  "json_number s = json_unsigned (case s of c # cs \<Rightarrow> if c = CHR ''-'' then cs else s | [] \<Rightarrow> [])"

text \<open>The raw text of a string up to its closing quote, and what follows.\<close>

fun json_string :: "string \<Rightarrow> (string \<times> string) option" where
  "json_string [] = None"
| "json_string (c # cs) =
     (if c = quote then Some ([], cs)
      else if (of_char c :: nat) < 0x20 then None
      else if c = CHR 0x5C then
        (case cs of
           [] \<Rightarrow> None
         | e # cs' \<Rightarrow>
             if (of_char e :: nat) < 0x20 then None
             else map_option (\<lambda>(b, r). (c # e # b, r)) (json_string cs'))
      else map_option (\<lambda>(b, r). (c # b, r)) (json_string cs))"

lemma json_string_split: "json_string s = Some (b, r) \<Longrightarrow> s = b @ quote # r \<and> newline \<notin> set b"
proof (induction s arbitrary: b r rule: json_string.induct)
  case (2 c cs)
  then show ?case
    by (auto split: if_splits list.splits)
qed simp

lemma json_string_shorter: "json_string s = Some (b, r) \<Longrightarrow> length r < length s"
  using json_string_split by fastforce

lemma json_string_ext: "json_string (b @ quote # r) = Some (b, r) \<Longrightarrow> json_string (b @ quote # r') = Some (b, r')"
proof (induction b rule: induct_list012)
  case (3 x y b)
  then show ?case by (auto split: if_splits)
qed (auto split: if_splits)

function json_lex :: "string \<Rightarrow> json_token list option" where
  "json_lex [] = Some []"
| "json_lex (c # cs) =
     (if is_ws c then json_lex cs
      else if is_punct c then map_option (Cons (Punct c)) (json_lex cs)
      else if c = quote then
        (case json_string cs of
           None \<Rightarrow> None
         | Some (b, r) \<Rightarrow>
             (case json_read b of
                None \<Rightarrow> None
              | Some s \<Rightarrow> map_option (Cons (Str s)) (json_lex r)))
      else if is_num_char c then
        (let w = takeWhile is_num_char cs in
         if json_number (c # w) then map_option (Cons (Num (c # w))) (json_lex (dropWhile is_num_char cs)) else None)
      else
        (let w = takeWhile is_word_char cs in
         if c # w = ''true'' \<or> c # w = ''false'' \<or> c # w = ''null''
         then map_option (Cons (Wrd (c # w))) (json_lex (dropWhile is_word_char cs)) else None))"
  by pat_completeness auto
termination
proof (relation "measure length", goal_cases)
  case (4 c cs q b r s)
  then show ?case by (auto dest: json_string_shorter)
qed (auto simp: le_imp_less_Suc length_dropWhile_le)

declare json_lex.simps(2) [simp del]

section \<open>Documents\<close>

datatype json = JNum string | JStr string | JBool bool | JArr "json list" | JObj "(string \<times> json) list"

fun separated_by :: "'a list \<Rightarrow> 'a list list \<Rightarrow> 'a list" where
  "separated_by s [] = []"
| "separated_by s [x] = x"
| "separated_by s (x # y # xs) = x @ s @ separated_by s (y # xs)"

fun json_tokens :: "json \<Rightarrow> json_token list" where
  "json_tokens (JNum s) = [Num s]"
| "json_tokens (JStr s) = [Str s]"
| "json_tokens (JBool b) = [Wrd (if b then ''true'' else ''false'')]"
| "json_tokens (JArr js) = Punct CHR ''['' # separated_by [Punct CHR '',''] (map json_tokens js) @ [Punct CHR '']'']"
| "json_tokens (JObj kvs) = Punct CHR ''{'' #
     separated_by [Punct CHR '',''] (map (\<lambda>(k, v). Str k # Punct CHR '':'' # json_tokens v) kvs) @ [Punct CHR ''}'']"

definition json_denotes :: "string \<Rightarrow> json \<Rightarrow> bool" where
  "json_denotes s j \<longleftrightarrow> json_lex s = Some (json_tokens j)"

text \<open>The tokens of a document determine it, so a text denotes at most one document.\<close>

lemma separated_by_Cons: "separated_by s (x # xs) = x @ (if xs = [] then [] else s @ separated_by s xs)"
  by (cases xs) auto

lemma separated_by_close:
  "separated_by [c] (x # xs) @ close # r = x @ (if xs = [] then close # r else c # separated_by [c] xs @ close # r)"
  by (simp add: separated_by_Cons)

lemma separated_unique:
  assumes "separated_by [c] (map f xs) @ close # r = separated_by [c] (map f ys) @ close # r'"
    and "\<And>x y r r'. x \<in> set xs \<Longrightarrow> f x @ r = f y @ r' \<Longrightarrow> x = y \<and> r = r'"
    and "\<And>x r r'. f x @ r \<noteq> close # r'" and "close \<noteq> c"
  shows "xs = ys \<and> r = r'"
  using assms(1,2)
proof (induction xs arbitrary: ys)
  case Nil
  show ?case
  proof (cases ys)
    case Nil
    then show ?thesis using Nil.prems(1) by simp
  next
    case (Cons y ys')
    then show ?thesis using Nil.prems(1) assms(3) by (simp only: list.map separated_by_close separated_by.simps append_Nil) metis
  qed
next
  case (Cons x xs)
  show ?case
  proof (cases ys)
    case Nil
    then show ?thesis using Cons.prems(1) assms(3) by (simp only: list.map separated_by_close separated_by.simps append_Nil)
  next
    case ys: (Cons y ys')
    let ?rest = "\<lambda>zs r. if map f zs = [] then close # r else c # separated_by [c] (map f zs) @ close # r"
    have "f x @ ?rest xs r = f y @ ?rest ys' r'"
      using Cons.prems(1) by (simp only: ys list.map separated_by_close)
    from Cons.prems(2) [OF list.set_intros(1) this] have eq: "x = y" "?rest xs r = ?rest ys' r'" by simp_all
    show ?thesis
    proof (cases "xs = []")
      case True
      then show ?thesis using eq assms(4) ys by (cases ys') auto
    next
      case False
      then have "ys' \<noteq> []" using eq(2) assms(4) by auto
      then have "separated_by [c] (map f xs) @ close # r = separated_by [c] (map f ys') @ close # r'"
        using eq(2) False by simp
      from Cons.IH [OF this Cons.prems(2) [OF list.set_intros(2)]] show ?thesis using eq(1) ys by simp
    qed
  qed
qed

lemma json_tokens_prefix_free: "json_tokens j @ r = json_tokens j' @ r' \<Longrightarrow> j = j' \<and> r = r'"
proof (induction j arbitrary: j' r r' rule: json_tokens.induct)
  case (4 js)
  have "json_tokens x @ r \<noteq> Punct CHR '']'' # r'" for x r r' by (cases x) auto
  moreover obtain js' where "j' = JArr js'" using "4.prems" by (cases j') auto
  ultimately show ?case using separated_unique [of "Punct CHR '',''" json_tokens js "Punct CHR '']''" r js' r'] 4 by auto
next
  case (5 kvs)
  obtain kvs' where "j' = JObj kvs'" using "5.prems" by (cases j') auto
  then show ?case
    using separated_unique [of "Punct CHR '',''" "\<lambda>(k, v). Str k # Punct CHR '':'' # json_tokens v" kvs "Punct CHR ''}''" r kvs' r'] 5 by fastforce
qed (case_tac j'; auto split: if_splits)+

lemma json_denotes_unique: "json_denotes s j \<Longrightarrow> json_denotes s j' \<longleftrightarrow> j' = j"
  using json_tokens_prefix_free [of j "[]" j' "[]"] by (auto simp: json_denotes_def)

section \<open>Lexing concatenations\<close>

text \<open>A text is sealed when no token can continue beyond its end.\<close>

definition sealed :: "string \<Rightarrow> bool" where
  "sealed s \<longleftrightarrow> s = [] \<or> \<not> is_num_char (last s) \<and> \<not> is_word_char (last s)"

lemma last_dropWhile: "dropWhile P s = [] \<or> last (dropWhile P s) = last s"
  by (induction s) auto

lemma sealed_dropWhile:
  assumes "sealed (c # s)" and "P c" and "\<And>x. P x \<Longrightarrow> is_num_char x \<or> is_word_char x"
  shows "\<exists>x \<in> set s. \<not> P x" and "sealed (dropWhile P s)"
proof -
  have "\<not> P (last (c # s))" using assms(1) assms(3) [of "last (c # s)"] by (auto simp: sealed_def simp del: last.simps)
  then have s: "s \<noteq> []" "\<not> P (last s)" using assms(2) by (auto split: if_splits)
  then show "\<exists>x \<in> set s. \<not> P x" by (intro bexI [of _ "last s"]) auto
  show "sealed (dropWhile P s)"
    using assms(1) s last_dropWhile [of P s] by (auto simp: sealed_def)
qed

lemma sealed_tl: "sealed (c # s) \<Longrightarrow> sealed s"
  by (cases s) (auto simp: sealed_def)

lemma sealed_append: "sealed s \<Longrightarrow> sealed r \<Longrightarrow> sealed (s @ r)"
  by (auto simp: sealed_def last_append)

lemma json_string_append: "json_string s = Some (b, r) \<Longrightarrow> json_string (s @ x) = Some (b, r @ x)"
  using json_string_ext [of b r "r @ x"] json_string_split [of s b r] by auto

theorem json_lex_append:
  "json_lex s = Some ts \<Longrightarrow> sealed s \<Longrightarrow> json_lex (s @ r) = map_option ((@) ts) (json_lex r)"
proof (induction s arbitrary: ts rule: json_lex.induct)
  case 1
  then show ?case by (cases "json_lex r") auto
next
  case (2 c cs)
  note lx = json_lex.simps(2) [of c cs] json_lex.simps(2) [of c "cs @ r"]
  note tl = sealed_tl [OF "2.prems"(2)]
  consider (ws) "is_ws c" | (punct) "\<not> is_ws c" "is_punct c" | (str) "\<not> is_ws c" "\<not> is_punct c" "c = quote"
    | (num) "\<not> is_ws c" "\<not> is_punct c" "c \<noteq> quote" "is_num_char c"
    | (wrd) "\<not> is_ws c" "\<not> is_punct c" "c \<noteq> quote" "\<not> is_num_char c" by blast
  then show ?case
  proof cases
    case ws
    then show ?thesis using "2.IH"(1) [OF ws _ tl] "2.prems"(1) by (simp add: lx)
  next
    case punct
    then show ?thesis using "2.IH"(2) [OF punct _ tl] "2.prems"(1) by (auto simp: lx option.map_comp comp_def)
  next
    case str
    obtain b x s ts' where b: "json_string cs = Some (b, x)" "json_read b = Some s" "json_lex x = Some ts'" "ts = Str s # ts'"
      using "2.prems"(1) str unfolding lx by (auto split: option.splits)
    have "sealed x" using tl json_string_split [OF b(1)] by (auto simp: sealed_def split: if_splits)
    then show ?thesis
      using "2.IH"(3) [OF str b(1) refl b(2,3)] str b json_string_append [OF b(1), of r]
      by (auto simp: json_lex.simps(2) [of quote "cs @ r"] option.map_comp comp_def)
  next
    case num
    let ?w = "takeWhile is_num_char cs"
    note d = sealed_dropWhile [of c cs is_num_char, OF "2.prems"(2) num(4)]
    have ex: "\<exists>x \<in> set cs. \<not> is_num_char x" and sl: "sealed (dropWhile is_num_char cs)" using d by blast+
    obtain ts' where t: "json_number (c # ?w)" "json_lex (dropWhile is_num_char cs) = Some ts'" "ts = Num (c # ?w) # ts'"
      using "2.prems"(1) num by (auto simp: lx Let_def split: if_splits)
    have "takeWhile is_num_char (cs @ r) = ?w" "dropWhile is_num_char (cs @ r) = dropWhile is_num_char cs @ r"
      using ex by (auto simp: takeWhile_append1 dropWhile_append1)
    then show ?thesis using "2.IH"(4) [OF num refl t(1,2) sl] num t by (auto simp: lx Let_def option.map_comp comp_def)
  next
    case wrd
    let ?w = "takeWhile is_word_char cs"
    obtain ts' where t: "c # ?w = ''true'' \<or> c # ?w = ''false'' \<or> c # ?w = ''null''"
        "json_lex (dropWhile is_word_char cs) = Some ts'" "ts = Wrd (c # ?w) # ts'"
      using "2.prems"(1) wrd by (auto simp: lx Let_def split: if_splits)
    have "is_word_char c" using t(1) by (auto simp: is_word_char_def)
    note d = sealed_dropWhile [of c cs is_word_char, OF "2.prems"(2) this]
    have ex: "\<exists>x \<in> set cs. \<not> is_word_char x" and sl: "sealed (dropWhile is_word_char cs)" using d by blast+
    have "takeWhile is_word_char (cs @ r) = ?w" "dropWhile is_word_char (cs @ r) = dropWhile is_word_char cs @ r"
      using ex by (auto simp: takeWhile_append1 dropWhile_append1)
    then show ?thesis using "2.IH"(5) [OF wrd refl t(1,2) sl] wrd t by (simp add: lx Let_def option.map_comp comp_def)
  qed
qed

section \<open>Indentation\<close>

text \<open>\<open>util::indent\<close> puts the prefix in front of every character that starts a line.\<close>

fun prefix_lines :: "string \<Rightarrow> bool \<Rightarrow> string \<Rightarrow> string" where
  "prefix_lines p start [] = []"
| "prefix_lines p start (c # cs) = (if start then p else []) @ c # prefix_lines p (c = newline) cs"

lemma prefix_lines_inline:
  "newline \<notin> set w \<Longrightarrow> w \<noteq> [] \<Longrightarrow> prefix_lines p start (w @ r) = (if start then p else []) @ w @ prefix_lines p False r"
proof (induction w arbitrary: start)
  case (Cons c w)
  then show ?case by (cases w) auto
qed simp

lemma indent_loop_prefix_lines: "indent_loop s p = prefix_lines p True s"
proof (induction s p rule: indent_loop.induct)
  case (1 s p)
  show ?case
  proof (cases "find_char newline s")
    case None
    then have "newline \<notin> set s" by (simp add: find_char_None)
    then show ?thesis using None prefix_lines_inline [of s p True "[]"] by (auto simp: indent_loop.simps [of s p])
  next
    case (Some n)
    have s: "s = take n s @ newline # drop (n + 1) s" "newline \<notin> set (take n s)" "s \<noteq> []"
      using find_char_Some [OF Some] id_take_nth_drop [of n s] by auto
    have "prefix_lines p True (t @ newline # r) = p @ t @ newline # prefix_lines p True r" if "newline \<notin> set t" for t r
      using prefix_lines_inline [OF that, of p True "newline # r"] by (cases "t = []") auto
    from this [OF s(2), of "drop (n + 1) s"]
    have "prefix_lines p True s = p @ take n s @ newline # prefix_lines p True (drop (n + 1) s)"
      unfolding s(1) [symmetric] .
    then show ?thesis using "1.IH" [OF s(3) Some] s(3) by (simp add: indent_loop.simps [of s p] Some)
  qed
qed

lemma indent_prefix_lines: "indent s p = prefix_lines p True s"
  by (simp add: indent_def indent_loop_prefix_lines)

lemma json_lex_ws: "list_all is_ws p \<Longrightarrow> json_lex (p @ s) = json_lex s"
  by (induction p) (auto simp: json_lex.simps(2))

lemma num_char_inline: "newline \<notin> set (takeWhile is_num_char s)" "newline \<notin> set (takeWhile is_word_char s)"
  by (auto dest!: set_takeWhileD simp: is_num_char_def is_word_char_def is_digit_def)

lemma prefix_lines_takeWhile:
  assumes "\<not> P newline"
  shows "takeWhile P (prefix_lines p False cs) = takeWhile P cs"
    and "dropWhile P (prefix_lines p False cs) = prefix_lines p False (dropWhile P cs)"
proof -
  have "takeWhile P (prefix_lines p False cs) = takeWhile P cs \<and>
      dropWhile P (prefix_lines p False cs) = prefix_lines p False (dropWhile P cs)"
  proof (induction cs)
    case (Cons a cs)
    then show ?case using assms(1) by (cases "a = newline") auto
  qed simp
  then show "takeWhile P (prefix_lines p False cs) = takeWhile P cs"
    "dropWhile P (prefix_lines p False cs) = prefix_lines p False (dropWhile P cs)" by auto
qed

theorem json_lex_prefix_lines:
  "json_lex s = Some ts \<Longrightarrow> list_all is_ws p \<Longrightarrow> json_lex (prefix_lines p start s) = Some ts"
proof (induction s arbitrary: ts start rule: json_lex.induct)
  case (2 c cs)
  let ?rest = "\<lambda>b. prefix_lines p b cs"
  have skip: "json_lex (prefix_lines p start (c # cs)) = json_lex (c # ?rest (c = newline))"
    using json_lex_ws [OF "2.prems"(2)] by simp
  note lx = json_lex.simps(2) [of c cs] json_lex.simps(2) [of c "?rest b" for b]
  consider (ws) "is_ws c" | (punct) "\<not> is_ws c" "is_punct c" | (str) "\<not> is_ws c" "\<not> is_punct c" "c = quote"
    | (num) "\<not> is_ws c" "\<not> is_punct c" "c \<noteq> quote" "is_num_char c"
    | (wrd) "\<not> is_ws c" "\<not> is_punct c" "c \<noteq> quote" "\<not> is_num_char c" by blast
  then show ?case
  proof cases
    case ws
    then show ?thesis using "2.IH"(1) [OF ws _ "2.prems"(2)] "2.prems"(1) unfolding skip by (simp add: lx)
  next
    case punct
    then show ?thesis using "2.IH"(2) [OF punct _ "2.prems"(2)] "2.prems"(1) unfolding skip by (auto simp: lx)
  next
    case str
    obtain b x s ts' where b: "json_string cs = Some (b, x)" "json_read b = Some s" "json_lex x = Some ts'" "ts = Str s # ts'"
      using "2.prems"(1) str unfolding lx by (auto split: option.splits)
    note cs = json_string_split [OF b(1)]
    have "?rest False = b @ quote # prefix_lines p False x"
      using cs prefix_lines_inline [of b p False "quote # x"] by (cases "b = []") auto
    moreover have "json_string (b @ quote # prefix_lines p False x) = Some (b, prefix_lines p False x)"
      using json_string_ext [of b x] b(1) cs by simp
    moreover have "c \<noteq> newline" using str(3) by simp
    ultimately show ?thesis
      using "2.IH"(3) [OF str b(1) refl b(2,3) "2.prems"(2)] str b unfolding skip lx by simp
  next
    case num
    have c: "\<not> is_num_char newline" "c \<noteq> newline" using num(1) by (auto simp: is_num_char_def is_digit_def is_ws_def)
    obtain ts' where t: "json_number (c # takeWhile is_num_char cs)" "json_lex (dropWhile is_num_char cs) = Some ts'"
        "ts = Num (c # takeWhile is_num_char cs) # ts'"
      using "2.prems"(1) num by (auto simp: lx Let_def split: if_splits)
    then show ?thesis
      using "2.IH"(4) [OF num refl t(1,2) "2.prems"(2)] num c
      unfolding skip by (simp add: lx Let_def prefix_lines_takeWhile [of is_num_char])
  next
    case wrd
    have c: "\<not> is_word_char newline" "c \<noteq> newline" using wrd(1) by (auto simp: is_word_char_def is_ws_def)
    obtain ts' where t: "c # takeWhile is_word_char cs = ''true'' \<or> c # takeWhile is_word_char cs = ''false'' \<or> c # takeWhile is_word_char cs = ''null''"
        "json_lex (dropWhile is_word_char cs) = Some ts'" "ts = Wrd (c # takeWhile is_word_char cs) # ts'"
      using "2.prems"(1) wrd by (auto simp: lx Let_def split: if_splits)
    then show ?thesis
      using "2.IH"(5) [OF wrd refl t(1,2) "2.prems"(2)] wrd c
      unfolding skip by (simp add: lx Let_def prefix_lines_takeWhile [of is_word_char])
  qed
qed simp

lemma prefix_lines_last: "s \<noteq> [] \<Longrightarrow> prefix_lines p start s \<noteq> [] \<and> last (prefix_lines p start s) = last s"
proof (induction s arbitrary: start)
  case (Cons c s)
  then show ?case by (cases "s = []") auto
qed simp

text \<open>What the printers need: texts that lex to given tokens and can be followed by anything.\<close>

definition lexes :: "string \<Rightarrow> json_token list \<Rightarrow> bool" where
  "lexes s ts \<longleftrightarrow> json_lex s = Some ts \<and> sealed s"

lemma lexes_Nil: "lexes [] []"
  by (simp add: lexes_def sealed_def)

lemma lexes_append: "lexes s ts \<Longrightarrow> lexes r us \<Longrightarrow> lexes (s @ r) (ts @ us)"
  by (auto simp: lexes_def json_lex_append sealed_append)

lemma lexes_indent: "lexes s ts \<Longrightarrow> list_all is_ws p \<Longrightarrow> lexes (indent s p) ts"
  using prefix_lines_last [of s p True]
  by (cases "s = []") (auto simp: lexes_def indent_prefix_lines json_lex_prefix_lines sealed_def)

end
