(* ===== verification/Packet_Json.thy ===== *)
theory Packet_Json
  imports Printers Json
begin

text \<open>
  The JSON printers of headers and packets produce valid JSON: for each there is the document
  its text denotes, with the same fields in the same order.
\<close>

section \<open>Plain texts\<close>

text \<open>Characters that stand for themselves inside a JSON string.\<close>

definition plain_char :: "char \<Rightarrow> bool" where
  "plain_char c \<longleftrightarrow> 0x20 \<le> (of_char c :: nat) \<and> c \<noteq> quote \<and> c \<noteq> CHR 0x5C"

abbreviation plain :: "string \<Rightarrow> bool" where "plain s \<equiv> list_all plain_char s"

lemma json_string_plain: "plain s \<Longrightarrow> json_string (s @ r) = map_option (\<lambda>(b, r). (s @ b, r)) (json_string r)"
  by (induction s) (auto simp: plain_char_def option.map_comp comp_def case_prod_unfold option.map_ident)

lemma json_read_plain: "plain s \<Longrightarrow> json_read (s @ b) = map_option ((@) s) (json_read b)"
proof (induction s)
  case (Cons c s)
  then have "json_read ((c # s) @ b) = map_option (Cons c) (map_option ((@) s) (json_read b))" by (auto simp: plain_char_def)
  then show ?case by (simp add: option.map_comp comp_def)
qed (cases "json_read b", simp_all)

lemma json_read_plain_all: "plain s \<Longrightarrow> json_read s = Some s"
  using json_read_plain [of s "[]"] by simp

lemma plain_digit: "is_digit c \<Longrightarrow> plain_char c"
  by (auto simp: is_digit_def plain_char_def)

lemma plain_hex_digit: "n < 16 \<Longrightarrow> plain_char (hex_digit n)"
  by (auto simp: hex_digit_def plain_char_def dest!: arg_cong [where f = "of_char :: char \<Rightarrow> nat"])

named_theorems plain

lemma plain_separators [plain]: "plain_char CHR '':''" "plain_char CHR ''-''" "plain_char CHR ''.''"
  by (simp_all add: plain_char_def)

lemma plain_dec [plain]: "plain (dec_string n)"
  using dec_string_decimal [of n] by (auto simp: is_decimal_def list_all_iff plain_digit)

lemma plain_hex [plain]: "plain (hex_string n)"
proof (induction n rule: hex_string.induct)
  case (1 n)
  then show ?case by (cases "n < 16") (auto simp: hex_string.simps [of n] plain_hex_digit)
qed

lemma plain_pad0 [plain]: "plain s \<Longrightarrow> plain (pad0 n s)"
  by (auto simp: pad0_def list_all_iff plain_char_def set_replicate_conv_if)

lemma plain_mac [plain]: "plain (printMac mac)"
proof -
  have "plain (printMac_loop first s)" for first s
    by (induction first s rule: printMac_loop.induct) (simp_all add: plain)
  then show ?thesis by (simp add: printMac_def)
qed

lemma plain_printHex [plain]: "plain (arp_printHex p n)"
proof -
  have "plain (printHex_loop first s)" for first s
    by (induction first s rule: printHex_loop.induct) (simp_all add: plain)
  then show ?thesis by (simp add: arp_printHex_def)
qed

lemma plain_v4 [plain]: "plain (v4_printIp a)" "plain (v4_printIp_bytes b)"
  by (simp_all add: v4_printIp_def v4_printIp_bytes_def plain)

lemma plain_arp [plain]: "plain (arp_printHw h p)" "plain (arp_printProto h p)"
  by (simp_all add: arp_printHw_def arp_printProto_def plain)

lemma plain_protocolName [plain]: "plain (protocolName n)"
  by (simp add: protocolName_def plain_char_def)

lemma plain_v6 [plain]: "plain (v6_printIp ip)"
proof -
  have "plain (v6_print_loop ip best len i)" for best len i
    by (induction ip best len i rule: v6_print_loop.induct) (subst v6_print_loop.simps, simp add: plain)
  then show ?thesis by (simp add: v6_printIp_def split: prod.split)
qed

section \<open>Lexing the pieces\<close>

lemma dec_string_leading: "0 < n \<Longrightarrow> hd (dec_string n) \<noteq> CHR ''0''"
proof (induction n rule: dec_string.induct)
  case (1 n)
  show ?case
  proof (cases "n < 10")
    case True
    then have "hd (dec_string n) = char_of (n + 48)" by (simp add: dec_string.simps [of n])
    moreover have "(of_char (char_of (n + 48) :: char) :: nat) = n + 48" using True by simp
    ultimately show ?thesis using "1.prems" by (auto dest!: arg_cong [where f = "of_char :: char \<Rightarrow> nat"])
  next
    case False
    then show ?thesis using "1.IH" by (simp add: dec_string.simps [of n])
  qed
qed

lemma dec_string_number: "json_number (dec_string n)"
proof -
  have digits: "list_all is_digit (dec_string n)" using dec_string_decimal [of n] by (simp add: is_decimal_def list_all_iff)
  have "takeWhile is_digit (dec_string n) = dec_string n" "dropWhile is_digit (dec_string n) = []"
    using digits by (simp_all add: list_all_iff)
  moreover have "hd (dec_string n) = CHR ''0'' \<Longrightarrow> dec_string n = ''0''"
    using dec_string_leading [of n] by (cases "n = 0") (auto simp: dec_string.simps)
  ultimately have "json_unsigned (dec_string n)" unfolding json_unsigned_def Let_def by (simp only: json_fraction_def) simp
  moreover have "dec_string n \<noteq> []" "hd (dec_string n) \<noteq> CHR ''-''"
    using digits by (simp, cases "dec_string n") (auto simp: is_digit_def)
  ultimately show ?thesis by (cases "dec_string n") (auto simp: json_number_def)
qed

lemma dec_string_num_char: "list_all is_num_char (dec_string n)"
  using dec_string_decimal [of n] by (auto simp: is_decimal_def list_all_iff is_num_char_def)

lemma json_lex_number:
  assumes "json_number w" and "list_all is_num_char w" and "w \<noteq> []" and "\<not> is_num_char c"
  shows "json_lex (w @ c # r) = map_option (Cons (Num w)) (json_lex (c # r))"
proof -
  obtain d ds where d: "w = d # ds" using assms(3) by (cases w) auto
  have nums: "is_num_char d" "list_all is_num_char ds" using assms(2) d by simp_all
  have "\<not> is_ws d" "\<not> is_punct d" "d \<noteq> quote" using nums(1) by (auto simp: is_ws_def is_punct_def is_num_char_def is_digit_def)
  moreover have "takeWhile is_num_char (ds @ c # r) = ds" "dropWhile is_num_char (ds @ c # r) = c # r"
    using nums(2) assms(4) by (simp_all add: takeWhile_append dropWhile_append list_all_iff)
  ultimately show ?thesis
    using assms(1) nums(1) by (simp add: d json_lex.simps(2) [of d] Let_def)
qed

lemmas json_lex_dec = json_lex_number [OF dec_string_number dec_string_num_char dec_string_nonempty]

lemma json_lex_space [simp]: "json_lex (CHR '' '' # r) = json_lex r" "json_lex (newline # r) = json_lex r"
  by (simp_all add: json_lex.simps(2) is_ws_def)

lemma json_lex_punct [simp]:
  "json_lex (CHR ''{'' # r) = map_option (Cons (Punct CHR ''{'')) (json_lex r)"
  "json_lex (CHR ''}'' # r) = map_option (Cons (Punct CHR ''}'')) (json_lex r)"
  "json_lex (CHR ''['' # r) = map_option (Cons (Punct CHR ''['')) (json_lex r)"
  "json_lex (CHR '']'' # r) = map_option (Cons (Punct CHR '']'')) (json_lex r)"
  "json_lex (CHR '':'' # r) = map_option (Cons (Punct CHR '':'')) (json_lex r)"
  "json_lex (CHR '','' # r) = map_option (Cons (Punct CHR '','')) (json_lex r)"
  by (simp_all add: json_lex.simps(2) is_ws_def is_punct_def)

lemma json_lex_string [simp]:
  "json_lex (quote # r) =
     (case json_string r of
        None \<Rightarrow> None
      | Some (b, r) \<Rightarrow> (case json_read b of None \<Rightarrow> None | Some s \<Rightarrow> map_option (Cons (Str s)) (json_lex r)))"
  by (simp add: json_lex.simps(2) is_ws_def is_punct_def)

lemma json_lex_bool [simp]:
  "json_lex (''true'' @ CHR '','' # r) = map_option (\<lambda>ts. Wrd ''true'' # Punct CHR '','' # ts) (json_lex r)"
  "json_lex (''false'' @ CHR '','' # r) = map_option (\<lambda>ts. Wrd ''false'' # Punct CHR '','' # ts) (json_lex r)"
  by (simp_all add: json_lex.simps(2) [of "CHR ''t''"] json_lex.simps(2) [of "CHR ''f''"] is_ws_def is_punct_def
      is_num_char_def is_word_char_def is_digit_def Let_def option.map_comp comp_def)

lemma not_num_char [simp]: "\<not> is_num_char CHR '',''" "\<not> is_num_char newline" "\<not> is_num_char CHR ''}''"
  by (simp_all add: is_num_char_def is_digit_def)

lemma sealed_last [simp]: "r \<noteq> [] \<Longrightarrow> sealed (s @ r) \<longleftrightarrow> sealed r" "s \<noteq> [] \<Longrightarrow> sealed (a # s) \<longleftrightarrow> sealed s"
  "sealed ''}''" "sealed [quote]" "sealed '']''" "sealed [newline]"
  by (auto simp: sealed_def is_num_char_def is_word_char_def is_digit_def)

lemmas lexing = lexes_def json_lex_dec json_string_plain json_read_plain json_read_plain_all plain

section \<open>The documents of the headers\<close>

definition member_tokens :: "string \<times> json \<Rightarrow> json_token list" where
  "member_tokens m = Str (fst m) # Punct CHR '':'' # json_tokens (snd m)"

abbreviation JDec :: "'a::len word \<Rightarrow> json" where "JDec w \<equiv> JNum (dec_string (unat w))"

definition ethernet_doc :: "ethernet_Header \<Rightarrow> string \<times> json" where
  "ethernet_doc h = (''ethernet'', JObj [(''dst_mac'', JStr (printMac (eth_dst_mac h))), (''src_mac'', JStr (printMac (eth_src_mac h))),
     (''ethertype'', JStr (''0x'' @ hex0 4 (eth_ethertype h)))])"

lemma ethernet_json: "lexes (ethernet_toJson h) (member_tokens (ethernet_doc h))"
  by (simp add: ethernet_toJson_def ethernet_doc_def member_tokens_def lexing)

definition vlan_doc :: "vlan_Header \<Rightarrow> json" where
  "vlan_doc h = JObj [(''pcp'', JDec (vlan_pcp h)), (''dei'', JDec (vlan_dei h)), (''vid'', JDec (vlan_vid h)),
     (''ethertype'', JStr (''0x'' @ hex0 4 (vlan_ethertype h)))]"

lemma vlan_json: "lexes (drop 8 (vlan_toJson h)) (json_tokens (vlan_doc h))"
  by (simp add: vlan_toJson_def vlan_doc_def lexing)

definition arp_doc :: "arp_Header \<Rightarrow> string \<times> json" where
  "arp_doc h = (''arp'', JObj [(''htype'', JDec (arp_htype h)), (''ptype'', JStr (''0x'' @ hex0 4 (arp_ptype h))),
     (''oper'', JDec (arp_oper h)), (''sha'', JStr (arp_printHw h (arp_sha h))), (''spa'', JStr (arp_printProto h (arp_spa h))),
     (''tha'', JStr (arp_printHw h (arp_tha h))), (''tpa'', JStr (arp_printProto h (arp_tpa h)))])"

lemma arp_json: "lexes (arp_toJson h) (member_tokens (arp_doc h))"
  by (simp add: arp_toJson_def arp_doc_def member_tokens_def lexing)

definition v4_flags_doc :: "v4_Header \<Rightarrow> json" where
  "v4_flags_doc h = JArr ((if v4_dontFragment h then [JStr ''DF''] else []) @ (if v4_moreFragments h then [JStr ''MF''] else []))"

definition v4_doc :: "v4_Header \<Rightarrow> string \<times> json" where
  "v4_doc h = (''ipv4'', JObj [(''version'', JDec (v4_version h)), (''ihl'', JDec (v4_ihl h)),
     (''tos'', JStr (''0x'' @ hex0 2 (v4_tos h))), (''total_length'', JDec (v4_total_length h)),
     (''identification'', JDec (v4_identification h)), (''flags'', v4_flags_doc h),
     (''fragment'', JStr (''0x'' @ hex0 4 (v4_fragment h))), (''ttl'', JDec (v4_ttl h)), (''protocol'', JDec (v4_protocol h)),
     (''checksum'', JStr (''0x'' @ hex (v4_checksum h))), (''src_ip'', JStr (v4_printIp (v4_src_ip h))),
     (''dst_ip'', JStr (v4_printIp (v4_dst_ip h)))])"

lemma v4_json: "lexes (v4_toJson h) (member_tokens (v4_doc h))"
  by (cases "v4_dontFragment h"; cases "v4_moreFragments h")
     (simp_all add: v4_toJson_def v4_json_flags_def v4_doc_def v4_flags_doc_def member_tokens_def lexing)

definition v6_doc :: "v6_Header \<Rightarrow> string \<times> json" where
  "v6_doc h = (''ipv6'', JObj [(''version'', JDec (v6_version h)), (''traffic_class'', JDec (v6_tc h)),
     (''flow_label'', JStr (''0x'' @ hex0 5 (v6_fl h))), (''payload_length'', JDec (v6_payload_length h)),
     (''next_header'', JDec (v6_next_header h)), (''hop_limit'', JDec (v6_hop_limit h)),
     (''src_ip'', JStr (v6_printIp (v6_src_ip h))), (''dst_ip'', JStr (v6_printIp (v6_dst_ip h)))])"

lemma v6_json: "lexes (v6_toJson h) (member_tokens (v6_doc h))"
  by (simp add: v6_toJson_def v6_doc_def member_tokens_def lexing)

definition ext_fields_doc :: "ext_Header \<Rightarrow> (string \<times> json) list" where
  "ext_fields_doc h =
     (if ext_type h = PROTOCOL_IPV6_ROUTE then
        [(''routing_type'', JDec (ext_routing_type h)), (''segments_left'', JDec (ext_segments_left h))] @
        (if ext_has_final_dst h then [(''final_dst'', JStr (v6_printIp (ext_final_dst h)))] else [])
      else if ext_type h = PROTOCOL_IPV6_FRAG then
        [(''fragment_offset'', JDec (ext_fragment_offset h)), (''more_fragments'', JBool (ext_more_fragments h)),
         (''identification'', JStr (''0x'' @ hex0 8 (ext_identification h)))]
      else if ext_type h = PROTOCOL_AH then [(''spi'', JStr (''0x'' @ hex0 8 (ext_spi h)))]
      else [])"

definition ext_doc :: "ext_Header \<Rightarrow> json" where
  "ext_doc h = JObj ([(''type'', JDec (ext_type h)), (''name'', JStr (protocolName (ext_type h))),
     (''next_header'', JDec (ext_next_header h)), (''length'', JDec (ext_length h))] @ ext_fields_doc h)"

lemma ext_json: "lexes (drop 12 (ext_toJson h)) (json_tokens (ext_doc h))"
proof -
  consider (route) "ext_type h = PROTOCOL_IPV6_ROUTE" | (frag) "ext_type h = PROTOCOL_IPV6_FRAG" | (ah) "ext_type h = PROTOCOL_AH"
    | (other) "ext_type h \<noteq> PROTOCOL_IPV6_ROUTE" "ext_type h \<noteq> PROTOCOL_IPV6_FRAG" "ext_type h \<noteq> PROTOCOL_AH" by blast
  then show ?thesis
  proof cases
    case route
    then show ?thesis
      by (cases "ext_has_final_dst h") (simp_all add: ext_toJson_def ext_json_fields_def ext_doc_def ext_fields_doc_def lexing)
  next
    case frag
    then show ?thesis
      by (cases "ext_more_fragments h")
         (simp_all add: ext_toJson_def ext_json_fields_def ext_doc_def ext_fields_doc_def lexing
            PROTOCOL_IPV6_FRAG_def PROTOCOL_IPV6_ROUTE_def json_lex_bool [simplified])
  next
    case ah
    then show ?thesis
      by (simp add: ext_toJson_def ext_json_fields_def ext_doc_def ext_fields_doc_def lexing
          PROTOCOL_AH_def PROTOCOL_IPV6_FRAG_def PROTOCOL_IPV6_ROUTE_def)
  next
    case other
    then show ?thesis by (simp add: ext_toJson_def ext_json_fields_def ext_doc_def ext_fields_doc_def lexing)
  qed
qed

definition tcp_doc :: "tcp_Header \<Rightarrow> string \<times> json" where
  "tcp_doc h = (''tcp'', JObj [(''src_port'', JDec (tcp_src_port h)), (''dst_port'', JDec (tcp_dst_port h)),
     (''seq_number'', JDec (tcp_seq_number h)), (''ack_number'', JDec (tcp_ack_number h)),
     (''data_offset'', JDec (tcp_data_offset h)), (''flags'', JStr (''0x'' @ hex0 2 (tcp_flags h))),
     (''window_size'', JDec (tcp_window_size h)), (''checksum'', JStr (''0x'' @ hex0 4 (tcp_checksum h))),
     (''urgent_pointer'', JDec (tcp_urgent_pointer h))])"

lemma tcp_json: "lexes (tcp_toJson h) (member_tokens (tcp_doc h))"
  by (simp add: tcp_toJson_def tcp_doc_def member_tokens_def lexing)

definition udp_doc :: "udp_Header \<Rightarrow> string \<times> json" where
  "udp_doc h = (''udp'', JObj [(''src_port'', JDec (udp_src_port h)), (''dst_port'', JDec (udp_dst_port h)),
     (''length'', JDec (udp_length h)), (''checksum'', JStr (''0x'' @ hex0 4 (udp_checksum h)))])"

lemma udp_json: "lexes (udp_toJson h) (member_tokens (udp_doc h))"
  by (simp add: udp_toJson_def udp_doc_def member_tokens_def lexing)

definition icmp_fields_doc :: "icmp_Header \<Rightarrow> (string \<times> json) list" where
  "icmp_fields_doc h =
     (let type = icmp_type h in
      if type = ICMP_REDIRECT then [(''gateway'', JStr (v4_printIp (icmp_gateway h)))]
      else if type = ICMP_PARAM_PROBLEM then [(''pointer'', JDec (icmp_pointer h))]
      else if type = ICMP_ECHO_REQUEST \<or> type = ICMP_ECHO_REPLY then [(''id'', JDec (icmp_echo_id h)), (''seq'', JDec (icmp_echo_seq h))]
      else [])"

definition icmp_doc :: "icmp_Header \<Rightarrow> string \<times> json" where
  "icmp_doc h = (''icmp'', JObj ([(''type'', JDec (icmp_type h)), (''code'', JDec (icmp_code h))] @ icmp_fields_doc h @
     [(''checksum'', JStr (''0x'' @ hex0 4 (icmp_checksum h)))]))"

lemma icmp_json: "lexes (icmp_toJson h) (member_tokens (icmp_doc h))"
proof -
  consider (redirect) "icmp_type h = ICMP_REDIRECT" | (param) "icmp_type h \<noteq> ICMP_REDIRECT" "icmp_type h = ICMP_PARAM_PROBLEM"
    | (echo) "icmp_type h \<noteq> ICMP_REDIRECT" "icmp_type h \<noteq> ICMP_PARAM_PROBLEM" "icmp_type h = ICMP_ECHO_REQUEST \<or> icmp_type h = ICMP_ECHO_REPLY"
    | (other) "icmp_type h \<noteq> ICMP_REDIRECT" "icmp_type h \<noteq> ICMP_PARAM_PROBLEM" "\<not> (icmp_type h = ICMP_ECHO_REQUEST \<or> icmp_type h = ICMP_ECHO_REPLY)"
    by blast
  then show ?thesis
    by cases (simp_all only: icmp_toJson_def icmp_json_fields_def icmp_doc_def icmp_fields_doc_def Let_def if_True if_False refl simp_thms,
      simp_all add: member_tokens_def lexing)
qed

definition icmpv6_fields_doc :: "icmpv6_Header \<Rightarrow> (string \<times> json) list" where
  "icmpv6_fields_doc h =
     (let type = icmpv6_type h in
      if type = ICMPV6_PACKET_TOO_BIG then [(''mtu'', JDec (icmpv6_mtu h))]
      else if type = ICMPV6_PARAM_PROBLEM then [(''pointer'', JDec (icmpv6_pointer h))]
      else if type = ICMPV6_ECHO_REQUEST \<or> type = ICMPV6_ECHO_REPLY then [(''id'', JDec (icmpv6_echo_id h)), (''seq'', JDec (icmpv6_echo_seq h))]
      else [])"

definition icmpv6_doc :: "icmpv6_Header \<Rightarrow> string \<times> json" where
  "icmpv6_doc h = (''icmpv6'', JObj ([(''type'', JDec (icmpv6_type h)), (''code'', JDec (icmpv6_code h))] @ icmpv6_fields_doc h @
     [(''checksum'', JStr (''0x'' @ hex0 4 (icmpv6_checksum h)))]))"

lemma icmpv6_json: "lexes (icmpv6_toJson h) (member_tokens (icmpv6_doc h))"
proof -
  consider (big) "icmpv6_type h = ICMPV6_PACKET_TOO_BIG" | (param) "icmpv6_type h \<noteq> ICMPV6_PACKET_TOO_BIG" "icmpv6_type h = ICMPV6_PARAM_PROBLEM"
    | (echo) "icmpv6_type h \<noteq> ICMPV6_PACKET_TOO_BIG" "icmpv6_type h \<noteq> ICMPV6_PARAM_PROBLEM"
        "icmpv6_type h = ICMPV6_ECHO_REQUEST \<or> icmpv6_type h = ICMPV6_ECHO_REPLY"
    | (other) "icmpv6_type h \<noteq> ICMPV6_PACKET_TOO_BIG" "icmpv6_type h \<noteq> ICMPV6_PARAM_PROBLEM"
        "\<not> (icmpv6_type h = ICMPV6_ECHO_REQUEST \<or> icmpv6_type h = ICMPV6_ECHO_REPLY)"
    by blast
  then show ?thesis
    by cases (simp_all only: icmpv6_toJson_def icmpv6_json_fields_def icmpv6_doc_def icmpv6_fields_doc_def Let_def if_True if_False refl simp_thms,
      simp_all add: member_tokens_def lexing)
qed

definition PacketHeader_doc :: "PacketHeader \<Rightarrow> string \<times> json" where
  "PacketHeader_doc h = (''packet_header'', JObj [(''ts_sec'', JDec (ph_ts_sec h)), (''ts_usec'', JDec (ph_ts_usec h)),
     (''incl_len'', JDec (ph_incl_len h)), (''orig_len'', JDec (ph_orig_len h))])"

lemma PacketHeader_json: "lexes (PacketHeader_toJson h) (member_tokens (PacketHeader_doc h))"
  by (simp add: PacketHeader_toJson_def PacketHeader_doc_def member_tokens_def lexing)

section \<open>The document of a packet\<close>

definition option_member :: "(string \<times> json) option \<Rightarrow> (string \<times> json) list" where
  "option_member m = (case m of None \<Rightarrow> [] | Some kv \<Rightarrow> [kv])"

definition array_member :: "string \<Rightarrow> json list \<Rightarrow> (string \<times> json) list" where
  "array_member k js = (if js = [] then [] else [(k, JArr js)])"

definition Packet_members :: "Packet \<Rightarrow> (string \<times> json) list" where
  "Packet_members p =
     (case datalink p of DL_Ethernet h \<Rightarrow> [ethernet_doc h] | DL_monostate \<Rightarrow> []) @
     array_member ''vlan'' (map vlan_doc (vlan_tags p)) @
     (case network p of Net_Ipv4 h \<Rightarrow> [v4_doc h] | Net_Ipv6 h \<Rightarrow> [v6_doc h] | _ \<Rightarrow> []) @
     array_member ''ipv6_ext'' (map ext_doc (ipv6_ext p)) @
     (case network p of Net_Arp h \<Rightarrow> [arp_doc h] | _ \<Rightarrow> []) @
     (case transport p of Tp_Udp h \<Rightarrow> [udp_doc h] | Tp_Tcp h \<Rightarrow> [tcp_doc h] | Tp_Icmp h \<Rightarrow> [icmp_doc h]
      | Tp_Icmpv6 h \<Rightarrow> [icmpv6_doc h] | Tp_monostate \<Rightarrow> [])"

definition Packet_doc :: "Packet \<Rightarrow> string \<times> json" where
  "Packet_doc p = (''packet'', JObj (Packet_members p))"

lemma separated_by_snoc: "separated_by s (xs @ [y]) = (if xs = [] then y else separated_by s xs @ s @ y)"
  by (induction s xs rule: separated_by.induct) auto

text \<open>The members printed so far; \<open>first\<close> tells whether there are none.\<close>

definition sections_rel :: "string \<times> bool \<Rightarrow> (string \<times> json) list \<Rightarrow> bool" where
  "sections_rel st ms \<longleftrightarrow>
     lexes (fst st) (Str ''packet'' # Punct CHR '':'' # Punct CHR ''{'' # separated_by [Punct CHR '',''] (map member_tokens ms)) \<and>
     snd st = (ms = [])"

lemma lexes_comma: "lexes ('','' @ nl) [Punct CHR '','']"
  by (simp add: lexing)

lemma json_section_rel:
  assumes "sections_rel st ms" and "lexes body (member_tokens m)"
  shows "sections_rel (json_section body st) (ms @ [m])"
proof -
  let ?head = "Str ''packet'' # Punct CHR '':'' # Punct CHR ''{'' # separated_by [Punct CHR '',''] (map member_tokens ms)"
  have "lexes (fst st) ?head" and first: "snd st = (ms = [])" using assms(1) by (simp_all add: sections_rel_def)
  then have "lexes (fst st @ body) (?head @ member_tokens m)"
    and "lexes (fst st @ ('','' @ nl) @ body) (?head @ [Punct CHR '',''] @ member_tokens m)"
    using lexes_append assms(2) lexes_comma by blast+
  then show ?thesis
    using first by (auto simp: sections_rel_def json_section_def separated_by_snoc case_prod_unfold)
qed

lemma printProtocol_None [simp]: "printProtocol None st = st"
  by (simp add: printProtocol_def)

lemma printProtocol_Some:
  "sections_rel st ms \<Longrightarrow> lexes json (member_tokens m) \<Longrightarrow> sections_rel (printProtocol (Some json) st) (ms @ [m])"
  using json_section_rel lexes_indent [of json _ "''  ''"] by (simp add: printProtocol_def is_ws_def)

lemma json_items_lexes:
  assumes "\<And>h. lexes (text h) (json_tokens (doc h))"
  shows "lexes (json_items first (map text hs))
    ((if first \<or> hs = [] then [] else [Punct CHR '','']) @ separated_by [Punct CHR '',''] (map (json_tokens \<circ> doc) hs))"
proof (induction hs arbitrary: first)
  case Nil
  then show ?case by (simp add: lexes_Nil)
next
  case (Cons h hs)
  have item: "lexes (indent (text h) ''    '') (json_tokens (doc h))" using assms lexes_indent by (simp add: is_ws_def)
  have "lexes (if first then [] else '','' @ nl) (if first then [] else [Punct CHR '',''])"
    using lexes_comma lexes_Nil by simp
  from lexes_append [OF this lexes_append [OF item Cons.IH [of False]]]
  show ?case by (auto simp: separated_by_Cons)
qed

lemma json_array_section_rel:
  assumes "sections_rel st ms" and "plain k" and "\<And>h. lexes (text h) (json_tokens (doc h))"
  shows "sections_rel (json_array_section k (map text hs) st) (ms @ array_member k (map doc hs))"
proof (cases "hs = []")
  case True
  then show ?thesis using assms(1) by (simp add: json_array_section_def array_member_def)
next
  case False
  have head: "lexes (''  \"'' @ k @ ''\": ['' @ nl) [Str k, Punct CHR '':'', Punct CHR ''['']"
    using assms(2) by (simp add: lexes_def json_string_plain json_read_plain_all)
  have tail: "lexes (nl @ ''  ]'') [Punct CHR '']'']" by (simp add: lexing)
  have items: "lexes (json_items True (map text hs)) (separated_by [Punct CHR '',''] (map (json_tokens \<circ> doc) hs))"
    using json_items_lexes [of "text" doc True hs] assms(3) by simp
  from lexes_append [OF head lexes_append [OF items tail]]
  have "lexes (''  \"'' @ k @ ''\": ['' @ nl @ json_items True (map text hs) @ nl @ ''  ]'') (member_tokens (k, JArr (map doc hs)))"
    by (simp add: member_tokens_def)
  from json_section_rel [OF assms(1) this] show ?thesis
    using False by (simp add: json_array_section_def array_member_def)
qed

lemma Packet_sections:
  "\<exists>st. sections_rel st (Packet_members p) \<and> Packet_toJson p = fst st @ (if snd st then [] else nl) @ ''}'' @ nl"
proof -
  define st0 where "st0 = (''\"packet\": {'' @ nl, True)"
  have st0: "sections_rel st0 []"
    by (simp add: sections_rel_def lexes_def st0_def)
  define st1 where "st1 = printProtocol (case datalink p of DL_Ethernet h \<Rightarrow> Some (ethernet_toJson h) | _ \<Rightarrow> None) st0"
  define ms1 where "ms1 = (case datalink p of DL_Ethernet h \<Rightarrow> [ethernet_doc h] | DL_monostate \<Rightarrow> [])"
  have st1: "sections_rel st1 ms1"
    using st0 printProtocol_Some [OF st0 ethernet_json] by (cases "datalink p") (simp_all add: st1_def ms1_def)
  define st2 where "st2 = json_array_section ''vlan'' (map (\<lambda>h. drop 8 (vlan_toJson h)) (vlan_tags p)) st1"
  define ms2 where "ms2 = ms1 @ array_member ''vlan'' (map vlan_doc (vlan_tags p))"
  have st2: "sections_rel st2 ms2"
    unfolding st2_def ms2_def by (rule json_array_section_rel [OF st1 _ vlan_json]) (simp add: plain_char_def)
  define st3 where "st3 = printProtocol (network_v6_json (network p)) (printProtocol (network_v4_json (network p)) st2)"
  define ms3 where "ms3 = ms2 @ (case network p of Net_Ipv4 h \<Rightarrow> [v4_doc h] | Net_Ipv6 h \<Rightarrow> [v6_doc h] | _ \<Rightarrow> [])"
  have st3: "sections_rel st3 ms3"
    using st2 printProtocol_Some [OF st2 v4_json] printProtocol_Some [OF st2 v6_json]
    by (cases "network p") (simp_all add: st3_def ms3_def network_v4_json_def network_v6_json_def)
  define st4 where "st4 = json_array_section ''ipv6_ext'' (map (\<lambda>h. drop 12 (ext_toJson h)) (ipv6_ext p)) st3"
  define ms4 where "ms4 = ms3 @ array_member ''ipv6_ext'' (map ext_doc (ipv6_ext p))"
  have st4: "sections_rel st4 ms4"
    unfolding st4_def ms4_def by (rule json_array_section_rel [OF st3 _ ext_json]) (simp add: plain_char_def)
  define st5 where "st5 = printProtocol (network_arp_json (network p)) st4"
  define ms5 where "ms5 = ms4 @ (case network p of Net_Arp h \<Rightarrow> [arp_doc h] | _ \<Rightarrow> [])"
  have st5: "sections_rel st5 ms5"
    using st4 printProtocol_Some [OF st4 arp_json] by (cases "network p") (simp_all add: st5_def ms5_def network_arp_json_def)
  define st6 where "st6 = printProtocol (transport_json (transport p)) st5"
  define ms6 where "ms6 = ms5 @ (case transport p of Tp_Udp h \<Rightarrow> [udp_doc h] | Tp_Tcp h \<Rightarrow> [tcp_doc h] | Tp_Icmp h \<Rightarrow> [icmp_doc h]
      | Tp_Icmpv6 h \<Rightarrow> [icmpv6_doc h] | Tp_monostate \<Rightarrow> [])"
  have "sections_rel st6 ms6"
    using st5 printProtocol_Some [OF st5 udp_json] printProtocol_Some [OF st5 tcp_json]
      printProtocol_Some [OF st5 icmp_json] printProtocol_Some [OF st5 icmpv6_json]
    by (cases "transport p") (simp_all add: st6_def ms6_def transport_json_def)
  moreover have "ms6 = Packet_members p"
    by (simp add: Packet_members_def ms6_def ms5_def ms4_def ms3_def ms2_def ms1_def)
  moreover have "Packet_toJson p = fst st6 @ (if snd st6 then [] else nl) @ ''}'' @ nl"
    unfolding Packet_toJson_def Let_def st0_def [symmetric] st1_def [symmetric] st2_def [symmetric] st3_def [symmetric] st4_def [symmetric] st5_def [symmetric] st6_def [symmetric]
    by (simp only: case_prod_unfold)
  ultimately show ?thesis by blast
qed

lemma Packet_json: "lexes (Packet_toJson p) (member_tokens (Packet_doc p))"
proof -
  obtain st where st: "sections_rel st (Packet_members p)" "Packet_toJson p = fst st @ (if snd st then [] else nl) @ ''}'' @ nl"
    using Packet_sections by blast
  let ?tail = "(if snd st then [] else nl) @ ''}'' @ nl"
  let ?ms = "separated_by [Punct CHR '',''] (map member_tokens (Packet_members p))"
  have "lexes ?tail [Punct CHR ''}'']" by (simp add: lexing)
  from lexes_append [OF _ this, of "fst st" "Str ''packet'' # Punct CHR '':'' # Punct CHR ''{'' # ?ms"] st(1)
  have "lexes (Packet_toJson p) ((Str ''packet'' # Punct CHR '':'' # Punct CHR ''{'' # ?ms) @ [Punct CHR ''}''])"
    by (simp add: sections_rel_def st(2))
  then show ?thesis by (simp add: Packet_doc_def member_tokens_def [abs_def] case_prod_unfold)
qed

end
