(* ===== verification/Stats_Json.thy ===== *)
theory Stats_Json
  imports Stats_Engine Packet_Json
begin

text \<open>
  The JSON report of the flows is valid JSON: its text denotes the document with the counters,
  the protocols and the listed flows.
\<close>

section \<open>Floating-point numbers are JSON numbers\<close>

lemma round_div_bounds:
  assumes "0 < b" and "lo * b \<le> a" and "a \<le> hi * b"
  shows "lo \<le> round_div a b" and "round_div a b \<le> hi"
proof -
  have "a = b * (a div b) + a mod b" and r: "a mod b < b" using assms(1) by simp_all
  moreover have "lo \<le> a div b" using assms(1,2) by (simp add: less_eq_div_iff_mult_less_eq)
  ultimately show "lo \<le> round_div a b" by (simp add: round_div_def Let_def)
  show "round_div a b \<le> hi"
  proof (cases "a div b < hi")
    case True
    then show ?thesis by (simp add: round_div_def Let_def)
  next
    case False
    then have "hi * b \<le> a" using assms(1) by (simp add: not_less less_eq_div_iff_mult_less_eq)
    then have "a = hi * b" using assms(3) by simp
    then show ?thesis using assms(1) by (simp add: round_div_def)
  qed
qed

lemma scale_up_range:
  assumes "scale_up base low a b e = (a', e')" and "1 < base" and "0 < a" and "0 < low * b" and "a < base * (low * b)"
  shows "low * b \<le> a' \<and> a' < base * (low * b)"
  using assms
proof (induction base low a b e arbitrary: a' e' rule: scale_up.induct)
  case (1 base low a b e)
  then show ?case
    by (cases "a < low * b") (auto simp: scale_up.simps [of base low a b e])
qed

lemma scale_down_range:
  assumes "scale_down base high a b e = (b', e')" and "1 < base" and "0 < b" and "0 < high" and "high * b \<le> a * base"
  shows "0 < b' \<and> high * b' \<le> a * base \<and> a < high * b'"
  using assms
proof (induction base high a b e arbitrary: b' e' rule: scale_down.induct)
  case (1 base high a b e)
  then show ?case
    by (cases "high * b \<le> a") (auto simp: scale_down.simps [of base high a b e] algebra_simps)
qed

lemma six_digits_range:
  assumes "six_digits (a, b) = (n, k)" and "0 < a" and "0 < b"
  shows "10 ^ 5 \<le> n \<and> n < 10 ^ 6"
proof -
  obtain m j where m: "n = (if m = 10 ^ 6 then 10 ^ 5 else m)" and range: "10 ^ 5 \<le> m" "m \<le> 10 ^ 6"
  proof (cases "a < b")
    case True
    obtain a' e where up: "scale_up 10 1 a b 0 = (a', e)" by (cases "scale_up 10 1 a b 0") blast
    have "b \<le> a' \<and> a' < 10 * b" using scale_up_range [OF up] True assms(2,3) by simp
    then have "10 ^ 5 \<le> round_div (a' * 10 ^ 5) b" "round_div (a' * 10 ^ 5) b \<le> 10 ^ 6"
      using round_div_bounds [of b "10 ^ 5" "a' * 10 ^ 5" "10 ^ 6"] assms(3) by simp_all
    then show thesis using that [of "round_div (a' * 10 ^ 5) b"] assms(1) True up by (auto simp: six_digits_def Let_def split: if_splits)
  next
    case False
    obtain b' e where down: "scale_down 10 10 a b 0 = (b', e)" by (cases "scale_down 10 10 a b 0") blast
    have "0 < b' \<and> b' \<le> a \<and> a < 10 * b'" using scale_down_range [OF down] False assms(3) by simp
    then have "10 ^ 5 \<le> round_div (a * 10 ^ 5) b'" "round_div (a * 10 ^ 5) b' \<le> 10 ^ 6"
      using round_div_bounds [of b' "10 ^ 5" "a * 10 ^ 5" "10 ^ 6"] by simp_all
    then show thesis using that [of "round_div (a * 10 ^ 5) b'"] assms(1) False down by (auto simp: six_digits_def Let_def split: if_splits)
  qed
  then show ?thesis by (cases "m = 10 ^ 6") auto
qed

lemma takeWhile_digits:
  assumes "list_all is_digit i" and "r = [] \<or> \<not> is_digit (hd r)"
  shows "takeWhile is_digit (i @ r) = i" and "dropWhile is_digit (i @ r) = r"
proof -
  have "takeWhile is_digit r = []" "dropWhile is_digit r = r" using assms(2) by (cases r; simp)+
  then show "takeWhile is_digit (i @ r) = i" "dropWhile is_digit (i @ r) = r"
    using assms(1) by (simp_all add: takeWhile_append dropWhile_append list_all_iff)
qed

definition int_part :: "string \<Rightarrow> bool" where
  "int_part i \<longleftrightarrow> list_all is_digit i \<and> i \<noteq> [] \<and> (hd i = CHR ''0'' \<longrightarrow> i = ''0'')"

lemma strip_zeros_digits: "list_all is_digit f \<Longrightarrow> list_all is_digit (strip_zeros f)"
  by (auto simp: strip_zeros_def list_all_iff dest!: set_dropWhileD)

lemma json_number_parts:
  assumes "int_part i" and "list_all is_digit f" and x: "x = [] \<or> (\<exists>s ds. x = CHR ''e'' # s # ds \<and> (s = CHR ''+'' \<or> s = CHR ''-'') \<and> is_decimal ds)"
  shows "json_number (with_point i f @ x)"
proof -
  let ?f = "strip_zeros f"
  have f: "list_all is_digit ?f" using strip_zeros_digits assms(2) by blast
  have hdx: "x = [] \<or> \<not> is_digit (hd x)" using x by (auto simp: is_digit_def)
  have ex: "json_exponent x" using x by (auto simp: json_exponent_def)
  have i: "list_all is_digit i" "i \<noteq> []" "hd i = CHR ''0'' \<longrightarrow> i = ''0''" using assms(1) by (simp_all add: int_part_def)
  define r where "r = (if ?f = [] then [] else ''.'' @ ?f) @ x"
  have hdr: "r = [] \<or> \<not> is_digit (hd r)" using hdx by (auto simp: r_def is_digit_def)
  have "json_fraction r"
  proof (cases "?f = []")
    case True
    then show ?thesis using ex x by (auto simp: r_def json_fraction_def)
  next
    case False
    then show ?thesis using takeWhile_digits [OF f hdx] ex by (simp add: r_def json_fraction_def)
  qed
  then have "json_unsigned (i @ r)"
    using takeWhile_digits [OF i(1) hdr] i by (simp add: json_unsigned_def)
  moreover have "hd i \<noteq> CHR ''-''" using i(1,2) by (cases i) (auto simp: is_digit_def)
  moreover have "with_point i f @ x = i @ r" by (simp add: with_point_def r_def Let_def)
  ultimately show ?thesis using i(2) by (cases i) (auto simp: json_number_def)
qed

lemma with_point_num_char:
  assumes "list_all is_digit i" and "list_all is_digit f"
  shows "list_all is_num_char (with_point i f)"
  using strip_zeros_digits [OF assms(2)] assms(1) by (auto simp: with_point_def Let_def list_all_iff is_num_char_def)

lemma int_part_take:
  assumes "0 < n" and "0 < j"
  shows "int_part (take j (dec_string n))"
proof -
  obtain c cs where d: "dec_string n = c # cs" by (cases "dec_string n") auto
  have digits: "list_all is_digit (dec_string n)" using dec_string_decimal [of n] by (simp add: is_decimal_def list_all_iff)
  have "list_all is_digit (take j (dec_string n))" using digits by (auto simp: list_all_iff dest: in_set_takeD)
  then show ?thesis using dec_string_leading [OF assms(1)] assms(2) d by (cases j) (auto simp: int_part_def)
qed

lemma show_general_number:
  assumes "0 < snd x"
  shows "json_number (show_general x) \<and> list_all is_num_char (show_general x) \<and> show_general x \<noteq> []"
proof (cases "fst x = 0")
  case True
  then show ?thesis
    by (simp add: show_general_def json_number_def json_unsigned_def json_fraction_def is_digit_def is_num_char_def)
next
  case False
  obtain n k where nk: "six_digits x = (n, k)" by (cases "six_digits x") blast
  have n: "0 < n" using six_digits_range [of "fst x" "snd x" n k] nk False assms by simp
  have digits: "list_all is_digit (dec_string n)" using dec_string_decimal [of n] by (simp add: is_decimal_def list_all_iff)
  have drop: "list_all is_digit (drop j (dec_string n))" for j using digits by (auto simp: list_all_iff dest: in_set_dropD)
  have zeros: "list_all is_digit (replicate j CHR ''0'' @ dec_string n)" for j
    using digits by (auto simp: list_all_iff is_digit_def set_replicate_conv_if)
  have pad: "is_decimal (pad0 2 (dec_string m))" for m
    using dec_string_decimal [of m] by (auto simp: is_decimal_def pad0_def list_all_iff is_digit_def set_replicate_conv_if)
  have zero: "int_part ''0''" by (simp add: int_part_def is_digit_def)
  have first: "int_part (take j (dec_string n))" if "0 < j" for j using int_part_take [OF n that] .
  have num: "list_all is_num_char (with_point (take j (dec_string n)) (drop j (dec_string n)))" for j
    using with_point_num_char [of "take j (dec_string n)" "drop j (dec_string n)"] digits drop by (auto simp: list_all_iff dest: in_set_takeD)
  have ne: "with_point i f \<noteq> []" if "int_part i" for i f using that by (simp add: with_point_def int_part_def Let_def)
  consider (exp) "k < - 4 \<or> 6 \<le> k" | (small) "\<not> (k < - 4 \<or> 6 \<le> k)" "k < 0" | (big) "\<not> (k < - 4 \<or> 6 \<le> k)" "\<not> k < 0" by blast
  then show ?thesis
  proof cases
    case exp
    let ?x = "''e'' @ (if k < 0 then ''-'' else ''+'') @ pad0 2 (dec_string (nat \<bar>k\<bar>))"
    have "json_number (with_point (take 1 (dec_string n)) (drop 1 (dec_string n)) @ ?x)"
      by (rule json_number_parts [OF first drop]) (use pad in auto)
    moreover have "list_all is_num_char ?x"
      using pad [of "nat \<bar>k\<bar>"] by (auto simp: is_decimal_def list_all_iff is_num_char_def)
    ultimately show ?thesis
      using num [of 1] ne [OF first [of 1]] exp False nk by (simp add: show_general_def Let_def)
  next
    case small
    have "json_number (with_point ''0'' (replicate (nat (- k) - 1) CHR ''0'' @ dec_string n) @ [])"
      by (rule json_number_parts [OF zero zeros]) simp
    then show ?thesis
      using with_point_num_char [OF _ zeros, of "''0''"] ne [OF zero] small False nk by (simp add: show_general_def Let_def is_digit_def)
  next
    case big
    have "json_number (with_point (take (nat k + 1) (dec_string n)) (drop (nat k + 1) (dec_string n)) @ [])"
      by (rule json_number_parts [OF first drop]) simp_all
    then show ?thesis using num ne [OF first [of "nat k + 1"]] big False nk by (simp add: show_general_def Let_def)
  qed
qed

lemma json_lex_general:
  "0 < snd x \<Longrightarrow> \<not> is_num_char c \<Longrightarrow>
   json_lex (show_general x @ c # r) = map_option (Cons (Num (show_general x))) (json_lex (c # r))"
  using json_lex_number show_general_number by blast

lemma dbl_pos [simp]: "0 < snd (dbl_round x)" "0 < snd (dbl_mul x y)" "0 < snd (dbl_div x y)" "0 < snd (dbl_of_u64 n)" "0 < snd (dbl_lit k)"
proof -
  show round: "0 < snd (dbl_round x)" for x by (auto simp: dbl_round_def split: prod.splits)
  show "0 < snd (dbl_mul x y)" "0 < snd (dbl_div x y)" "0 < snd (dbl_of_u64 n)" "0 < snd (dbl_lit k)"
    by (simp_all add: dbl_mul_def dbl_div_def dbl_of_u64_def dbl_lit_def round)
qed

lemma report_pos [simp]: "0 < snd (payloadPercent f t)" "0 < snd (protocol_percent n t)" "0 < snd (flow_bps f)"
  by (simp_all add: payloadPercent_def protocol_percent_def flow_bps_def)

section \<open>Escaped strings\<close>

lemma json_string_escape_char:
  "json_string (jsonEscape_char c @ r) = map_option (\<lambda>(b, r). (jsonEscape_char c @ b, r)) (json_string r)"
proof (cases "jsonEscape_char c = [c]")
  case True
  then have "c \<noteq> CHR 0x5C" "c \<noteq> CHR 0x22" "\<not> (of_char c :: nat) < 0x20"
    by (auto simp: jsonEscape_char_def split: if_splits)
  with True show ?thesis by simp
next
  case False
  have "plain_char (hex_digit (of_char c div 16))" "plain_char (hex_digit (of_char c mod 16))" if "(of_char c :: nat) < 0x20"
    using that plain_hex_digit by simp_all
  then show ?thesis
    using False by (auto simp: jsonEscape_char_def plain_char_def option.map_comp comp_def case_prod_unfold split: if_splits)
qed

lemma json_string_escape: "json_string (jsonEscape s @ quote # r) = Some (jsonEscape s, r)"
proof (induction s)
  case (Cons c s)
  then show ?case by (simp add: jsonEscape_def json_string_escape_char)
qed (simp add: jsonEscape_def)

lemma json_read_escaped: "json_read (jsonEscape s) = Some s"
  using json_read_escape [of s "[]"] by simp

section \<open>The documents\<close>

abbreviation JDbl :: "dbl \<Rightarrow> json" where "JDbl x \<equiv> JNum (show_general x)"

lemma plain_TcpState [plain]: "plain (toString_TcpState st)"
  by (cases st) (simp_all add: plain_char_def)

definition FlowKey_doc :: "FlowKey \<Rightarrow> string \<times> json" where
  "FlowKey_doc k = (''flow_key'', JObj [
     (''src_ip'', JStr (if fk_isIpv4 k then v4_printIp_bytes (fk_src_ip k) else v6_printIp (fk_src_ip k))),
     (''dst_ip'', JStr (if fk_isIpv4 k then v4_printIp_bytes (fk_dst_ip k) else v6_printIp (fk_dst_ip k))),
     (''src_port'', JDec (fk_src_port k)), (''dst_port'', JDec (fk_dst_port k)), (''protocol'', JStr (protocolName (fk_protocol k)))])"

lemma FlowKey_json: "lexes (FlowKey_toJson k) (member_tokens (FlowKey_doc k))"
  by (cases "fk_isIpv4 k") (simp_all add: FlowKey_toJson_def FlowKey_doc_def member_tokens_def lexing)

definition protocol_doc :: "u64 \<Rightarrow> u8 \<times> u64 \<Rightarrow> json" where
  "protocol_doc bytes_all pn = JObj [(''protocol'', JStr (protocolName (fst pn))), (''bytes'', JDec (snd pn)),
     (''percent'', JDbl (protocol_percent (snd pn) bytes_all))]"

lemma protocols_json:
  "lexes (json_protocols bytes_all first ps)
     ((if first \<or> ps = [] then [] else [Punct CHR '','']) @ separated_by [Punct CHR '',''] (map (json_tokens \<circ> protocol_doc bytes_all) ps))"
proof (induction bytes_all first ps rule: json_protocols.induct)
  case (2 bytes_all first p n ps)
  have item: "lexes (''    {'' @ nl @ ''      \"protocol\": \"'' @ protocolName p @ ''\",'' @ nl @ ''      \"bytes\": '' @ dec n @ '','' @ nl @
      ''      \"percent\": '' @ show_general (protocol_percent n bytes_all) @ nl @ ''    }'') (json_tokens (protocol_doc bytes_all (p, n)))"
    by (simp add: protocol_doc_def lexing json_lex_general)
  have "lexes (if first then [] else '','' @ nl) (if first then [] else [Punct CHR '',''])"
    using lexes_comma lexes_Nil by simp
  from lexes_append [OF this lexes_append [OF item "2.IH"]]
  show ?case by (auto simp: separated_by_Cons)
qed (simp add: lexes_Nil)

definition FlowStats_doc :: "FlowStats \<Rightarrow> json" where
  "FlowStats_doc s = JObj [(''packets'', JDec (packets s)), (''bytes'', JDec (bytes s))]"

lemma FlowStats_json: "plain label \<Longrightarrow> lexes (jsonStats label s) (member_tokens (label, FlowStats_doc s))"
proof -
  have num: "\<not> is_num_char CHR '' ''" by (simp add: is_num_char_def is_digit_def)
  assume "plain label"
  then show ?thesis by (simp add: jsonStats_def FlowStats_doc_def member_tokens_def lexing num)
qed

definition domain_members :: "string \<Rightarrow> string option \<Rightarrow> (string \<times> json) list" where
  "domain_members name d = (case d of Some d \<Rightarrow> [(name, JStr d)] | None \<Rightarrow> [])"

definition tcp_members :: "FlowKey \<Rightarrow> Flow \<Rightarrow> (string \<times> json) list" where
  "tcp_members key flow =
     (if fk_protocol key = PROTOCOL_TCP
      then [(''tcp'', JObj [(''fwd_state'', JStr (toString_TcpState (state (fwd_tcp flow)))), (''rev_state'', JStr (toString_TcpState (state (rev_tcp flow))))])]
      else [])"

definition rate_members :: "Flow \<Rightarrow> (string \<times> json) list" where
  "rate_members flow = (if durationUs flow \<noteq> 0 \<and> 1 < totalPackets flow then [(''rate_bps'', JDbl (flow_bps flow))] else [])"

definition flow_doc :: "u64 \<Rightarrow> DnsTable \<Rightarrow> FlowKey \<Rightarrow> Flow \<Rightarrow> json" where
  "flow_doc bytes_all table key flow = JObj (
     [(''percent'', JDbl (payloadPercent flow bytes_all)), FlowKey_doc key] @
     domain_members ''src_domain'' (first_domain table (fk_src_ip key) (fk_isIpv4 key)) @
     domain_members ''dst_domain'' (first_domain table (fk_dst_ip key) (fk_isIpv4 key)) @
     [(''fwd'', FlowStats_doc (fwd_stats flow)), (''rev'', FlowStats_doc (rev_stats flow))] @
     tcp_members key flow @ [(''duration_us'', JDec (durationUs flow))] @ rate_members flow)"

text \<open>Members that are followed and members that are preceded by a comma.\<close>

definition comma_after :: "(string \<times> json) list \<Rightarrow> json_token list" where
  "comma_after ms = concat (map (\<lambda>m. member_tokens m @ [Punct CHR '','']) ms)"

definition comma_before :: "(string \<times> json) list \<Rightarrow> json_token list" where
  "comma_before ms = concat (map (\<lambda>m. Punct CHR '','' # member_tokens m) ms)"

lemma members_comma_before: "json_tokens (JObj (m # ms)) = Punct CHR ''{'' # member_tokens m @ comma_before ms @ [Punct CHR ''}'']"
  by (induction ms arbitrary: m) (auto simp: comma_before_def member_tokens_def case_prod_unfold separated_by_Cons)

lemma comma_swap: "ms @ [m] = x # xs \<Longrightarrow> comma_after ms @ member_tokens m @ r = member_tokens x @ comma_before xs @ r"
proof (induction ms arbitrary: x xs)
  case (Cons a ms)
  obtain y ys where y: "ms @ [m] = y # ys" by (cases "ms @ [m]") auto
  then have "x = a" "xs = y # ys" using Cons.prems by auto
  then show ?case using Cons.IH [OF y] by (simp add: comma_after_def comma_before_def)
qed (simp add: comma_after_def comma_before_def)

lemma sealed_Nil [simp]: "sealed []"
  by (simp add: sealed_def)

lemma domain_json: "plain name \<Longrightarrow> lexes (json_domain name d) (comma_after (domain_members name d))"
  by (cases d) (simp_all add: json_domain_def domain_members_def comma_after_def member_tokens_def lexing json_string_escape json_read_escaped)

lemma tcp_members_json:
  "lexes (if fk_protocol key = PROTOCOL_TCP
      then '','' @ nl @ ''      \"tcp\": { \"fwd_state\": \"'' @ toString_TcpState (state (fwd_tcp flow)) @
        ''\", \"rev_state\": \"'' @ toString_TcpState (state (rev_tcp flow)) @ ''\" }'' else []) (comma_before (tcp_members key flow))"
  by (simp add: tcp_members_def comma_before_def member_tokens_def lexing plain_TcpState)

lemma duration_json:
  "lexes ('','' @ nl @ ''      \"duration_us\": '' @ dec (durationUs flow) @
     (if durationUs flow \<noteq> 0 \<and> 1 < totalPackets flow
      then '','' @ nl @ ''      \"rate_bps\": '' @ show_general (flow_bps flow) else []) @ nl @ ''    }'')
   (comma_before ((''duration_us'', JDec (durationUs flow)) # rate_members flow) @ [Punct CHR ''}''])"
  by (cases "durationUs flow \<noteq> 0 \<and> 1 < totalPackets flow")
     (simp_all only: if_True if_False rate_members_def, simp_all add: comma_before_def member_tokens_def lexing json_lex_general)

lemma flow_json: "lexes (json_flow bytes_all table key flow) (json_tokens (flow_doc bytes_all table key flow))"
proof -
  let ?src = "domain_members ''src_domain'' (first_domain table (fk_src_ip key) (fk_isIpv4 key))"
  let ?dst = "domain_members ''dst_domain'' (first_domain table (fk_dst_ip key) (fk_isIpv4 key))"
  have percent: "lexes (''    {'' @ nl @ ''      \"percent\": '' @ show_general (payloadPercent flow bytes_all) @ '','' @ nl)
      (Punct CHR ''{'' # comma_after [(''percent'', JDbl (payloadPercent flow bytes_all))])"
    by (simp add: comma_after_def member_tokens_def lexing json_lex_general)
  have key: "lexes (indent (FlowKey_toJson key) ''      '') (member_tokens (FlowKey_doc key))"
    by (rule lexes_indent [OF FlowKey_json]) (simp add: is_ws_def)
  have src: "lexes (json_domain ''src_domain'' (first_domain table (fk_src_ip key) (fk_isIpv4 key))) (comma_after ?src)"
    and dst: "lexes (json_domain ''dst_domain'' (first_domain table (fk_dst_ip key) (fk_isIpv4 key))) (comma_after ?dst)"
    by (rule domain_json, simp add: plain_char_def)+
  have spaces: "lexes ''      '' []" by (simp add: lexes_def sealed_def is_num_char_def is_word_char_def is_digit_def)
  have fwd: "lexes (jsonStats ''fwd'' (fwd_stats flow)) (member_tokens (''fwd'', FlowStats_doc (fwd_stats flow)))"
    and rev: "lexes (jsonStats ''rev'' (rev_stats flow)) (member_tokens (''rev'', FlowStats_doc (rev_stats flow)))"
    by (rule FlowStats_json, simp add: plain_char_def)+
  note parts = lexes_append [OF percent lexes_append [OF key lexes_append [OF lexes_comma lexes_append [OF src lexes_append [OF dst
    lexes_append [OF spaces lexes_append [OF fwd lexes_append [OF lexes_comma lexes_append [OF spaces lexes_append [OF rev
    lexes_append [OF tcp_members_json duration_json]]]]]]]]]]]
  have "lexes (json_flow bytes_all table key flow)
     (Punct CHR ''{'' # comma_after ([(''percent'', JDbl (payloadPercent flow bytes_all)), FlowKey_doc key] @ ?src @ ?dst @
        [(''fwd'', FlowStats_doc (fwd_stats flow))]) @ member_tokens (''rev'', FlowStats_doc (rev_stats flow)) @
        comma_before (tcp_members key flow @ (''duration_us'', JDec (durationUs flow)) # rate_members flow) @ [Punct CHR ''}''])"
    using parts by (simp add: json_flow_def comma_after_def comma_before_def)
  then show ?thesis
    by (simp add: comma_swap flow_doc_def members_comma_before comma_before_def del: json_tokens.simps)
qed

section \<open>The whole report\<close>

text \<open>The rows of a listing under a limit, zero meaning none.\<close>

definition shown :: "nat \<Rightarrow> 'a list \<Rightarrow> 'a list" where
  "shown limit xs = (if limit = 0 then xs else take limit xs)"

definition cut :: "nat \<Rightarrow> 'a list \<Rightarrow> bool" where
  "cut limit xs \<longleftrightarrow> limit \<noteq> 0 \<and> limit < length xs"

lemma json_flows_lexes:
  assumes "json_flows limit bytes_all table printed fs = (rows, reached)" and "limit = 0 \<or> printed \<le> limit"
  shows "lexes rows ((if printed = 0 \<or> (limit = 0 \<or> printed < limit) \<and> fs = [] \<or> printed = limit then [] else [Punct CHR '','']) @
      separated_by [Punct CHR '',''] (map (\<lambda>(k, f). json_tokens (flow_doc bytes_all table k f)) (if limit = 0 then fs else take (limit - printed) fs))) \<and>
    reached = (limit \<noteq> 0 \<and> limit - printed < length fs)"
  using assms
proof (induction limit bytes_all table printed fs arbitrary: rows reached rule: json_flows.induct)
  case (1 limit bytes_all table printed)
  then show ?case by (auto simp: lexes_Nil)
next
  case (2 limit bytes_all table printed key flow fs)
  show ?case
  proof (cases "printed \<noteq> 0 \<and> printed = limit")
    case True
    then show ?thesis using "2.prems" by (auto simp: lexes_Nil)
  next
    case False
    obtain rest reached' where rest: "json_flows limit bytes_all table (printed + 1) fs = (rest, reached')"
      by (cases "json_flows limit bytes_all table (printed + 1) fs") blast
    have le: "limit = 0 \<or> printed + 1 \<le> limit" using False "2.prems"(2) by linarith
    note IH = "2.IH" [OF False rest le]
    have rows: "rows = (if printed \<noteq> 0 then '','' @ nl else []) @ json_flow bytes_all table key flow @ rest" "reached = reached'"
      using "2.prems"(1) False rest by auto
    have comma: "lexes (if printed \<noteq> 0 then '','' @ nl else []) (if printed \<noteq> 0 then [Punct CHR '',''] else [])"
      using lexes_comma lexes_Nil by simp
    note all = lexes_append [OF comma lexes_append [OF flow_json conjunct1 [OF IH]]]
    have "take (limit - printed) ((key, flow) # fs) = (key, flow) # take (limit - (printed + 1)) fs" if "limit \<noteq> 0"
    proof -
      have "limit - printed = Suc (limit - (printed + 1))" using that le by linarith
      then show ?thesis by simp
    qed
    moreover have "take (limit - (printed + 1)) fs = [] \<longleftrightarrow> fs = [] \<or> printed + 1 = limit" if "limit \<noteq> 0"
      using that le by auto
    ultimately show ?thesis using all rows IH le False
      by (cases "limit = 0") (auto simp: separated_by_Cons simp del: take_Suc_Cons take_eq_Nil)
  qed
qed

definition StatsEngine_doc :: "FlowTable \<Rightarrow> DnsTable \<Rightarrow> nat \<Rightarrow> string \<times> json" where
  "StatsEngine_doc ft table limit =
     (let fs = allFlows ft in
      (''stats_engine'', JObj ([(''flow_count'', JNum (dec_string (length fs))), (''total_bytes'', JDec (total_bytes ft)),
        (''protocols'', JArr (map (protocol_doc (total_bytes ft)) (sortedProtocolsByBytes fs))),
        (''flows'', JArr (map (\<lambda>(k, f). flow_doc (total_bytes ft) table k f) (shown limit fs)))] @
        (if cut limit fs then [(''limit_reached'', JBool True)] else []))))"

lemma StatsEngine_json: "lexes (StatsEngine_toJson ft table limit) (member_tokens (StatsEngine_doc ft table limit))"
proof -
  define fs where "fs = allFlows ft"
  obtain rows reached where rows: "json_flows limit (total_bytes ft) table 0 fs = (rows, reached)"
    by (cases "json_flows limit (total_bytes ft) table 0 fs") blast
  have flows: "lexes rows (separated_by [Punct CHR '',''] (map (\<lambda>(k, f). json_tokens (flow_doc (total_bytes ft) table k f)) (shown limit fs)))"
    and reached: "reached = cut limit fs"
    using json_flows_lexes [OF rows] by (auto simp: shown_def cut_def)
  have protocols: "lexes (json_protocols (total_bytes ft) True (sortedProtocolsByBytes fs))
      (separated_by [Punct CHR '',''] (map (json_tokens \<circ> protocol_doc (total_bytes ft)) (sortedProtocolsByBytes fs)))"
    using protocols_json [of "total_bytes ft" True] by simp
  have head: "lexes (''\"stats_engine\": {'' @ nl @ ''  \"flow_count\": '' @ dec_string (length fs) @ '','' @ nl @
      ''  \"total_bytes\": '' @ dec (total_bytes ft) @ '','' @ nl @ ''  \"protocols\": ['' @ nl)
     (Str ''stats_engine'' # Punct CHR '':'' # Punct CHR ''{'' # Str ''flow_count'' # Punct CHR '':'' # Num (dec_string (length fs)) # Punct CHR '','' #
      Str ''total_bytes'' # Punct CHR '':'' # Num (dec (total_bytes ft)) # Punct CHR '','' # Str ''protocols'' # Punct CHR '':'' # [Punct CHR ''[''])"
    by (simp add: lexing)
  have middle: "lexes (nl @ ''  ],'' @ nl @ ''  \"flows\": ['' @ nl)
     [Punct CHR '']'', Punct CHR '','', Str ''flows'', Punct CHR '':'', Punct CHR ''['']"
    by (simp add: lexing)
  have "lexes (nl @ ''  ]'' @ '','' @ nl @ ''  \"limit_reached\": true'' @ nl @ ''}'')
     [Punct CHR '']'', Punct CHR '','', Str ''limit_reached'', Punct CHR '':'', Wrd ''true'', Punct CHR ''}'']"
    "lexes (nl @ ''  ]'' @ nl @ ''}'') [Punct CHR '']'', Punct CHR ''}'']"
    by (simp_all add: lexing json_lex.simps(2) [of "CHR ''t''"] is_ws_def is_punct_def is_num_char_def is_word_char_def is_digit_def Let_def)
  then have tail: "lexes (nl @ ''  ]'' @ (if reached then '','' @ nl @ ''  \"limit_reached\": true'' else []) @ nl @ ''}'')
     (Punct CHR '']'' # (if reached then [Punct CHR '','', Str ''limit_reached'', Punct CHR '':'', Wrd ''true''] else []) @ [Punct CHR ''}''])"
    by simp
  have "StatsEngine_toJson ft table limit =
     (''\"stats_engine\": {'' @ nl @ ''  \"flow_count\": '' @ dec_string (length fs) @ '','' @ nl @
      ''  \"total_bytes\": '' @ dec (total_bytes ft) @ '','' @ nl @ ''  \"protocols\": ['' @ nl) @
     json_protocols (total_bytes ft) True (sortedProtocolsByBytes fs) @
     (nl @ ''  ],'' @ nl @ ''  \"flows\": ['' @ nl) @ rows @
     nl @ ''  ]'' @ (if reached then '','' @ nl @ ''  \"limit_reached\": true'' else []) @ nl @ ''}''"
    by (simp add: StatsEngine_toJson_def Let_def fs_def [symmetric] rows)
  then show ?thesis
    using lexes_append [OF head lexes_append [OF protocols lexes_append [OF middle lexes_append [OF flows tail]]]]
    by (cases "cut limit fs")
       (simp_all add: StatsEngine_doc_def Let_def fs_def [symmetric] reached member_tokens_def comp_def case_prod_unfold)
qed

end
