(* ===== verification/Cli_Output.thy ===== *)
theory Cli_Output
  imports Cli Stats_Json
begin

text \<open>
  What the program writes: the JSON files are valid JSON, the exit status tells whether
  everything that was asked for has been written, and a file that is not a capture goes
  unnoticed.
\<close>

section \<open>Packets as JSON\<close>

definition print_doc :: "u64 \<times> Capture \<Rightarrow> json" where
  "print_doc seen = JObj [(''index'', JDec (fst seen)), PacketHeader_doc (packetHeader (snd seen)), Packet_doc (pkt (snd seen))]"

lemma Reader_print_json: "lexes (Reader_print True i c) (json_tokens (print_doc (i, c)))"
proof -
  have ws: "list_all is_ws ''  ''" by (simp add: is_ws_def)
  have head: "lexes (''{'' @ nl @ ''  \"index\": '' @ dec i @ '','' @ nl) (Punct CHR ''{'' # member_tokens (''index'', JDec i) @ [Punct CHR '',''])"
    by (simp add: member_tokens_def lexing)
  have tail: "lexes (''}'' @ nl) [Punct CHR ''}'']" by (simp add: lexing)
  show ?thesis
    using lexes_append [OF head lexes_append [OF lexes_indent [OF PacketHeader_json ws] lexes_append [OF lexes_comma
      lexes_append [OF lexes_indent [OF Packet_json ws] tail]]]]
    by (simp add: Reader_print_def print_doc_def member_tokens_def case_prod_unfold)
qed

text \<open>The array after some calls of the callback.\<close>

definition array_rel :: "nat \<Rightarrow> string \<times> nat \<Rightarrow> (u64 \<times> Capture) list \<Rightarrow> bool" where
  "array_rel limit st seen \<longleftrightarrow>
     lexes (fst st) (Punct CHR ''['' # separated_by [Punct CHR '',''] (map (json_tokens \<circ> print_doc) (shown limit seen))) \<and>
     snd st = length (shown limit seen)"

lemma shown_snoc: "shown limit (xs @ [x]) = (if limit \<noteq> 0 \<and> limit \<le> length xs then shown limit xs else shown limit xs @ [x])"
  by (auto simp: shown_def)

lemma on_packet_array:
  assumes "array_rel limit st seen"
  shows "array_rel limit (on_packet True limit st s) (seen @ [s])"
proof -
  obtain out n where st: "st = (out, n)" by (cases st)
  let ?items = "separated_by [Punct CHR '',''] (map (json_tokens \<circ> print_doc) (shown limit seen))"
  have out: "lexes out (Punct CHR ''['' # ?items)" and n: "n = length (shown limit seen)"
    using assms by (simp_all add: array_rel_def st)
  have full: "limit \<noteq> 0 \<and> limit \<le> n \<longleftrightarrow> limit \<noteq> 0 \<and> limit \<le> length seen" using n by (auto simp: shown_def)
  show ?thesis
  proof (cases "limit \<noteq> 0 \<and> limit \<le> n")
    case True
    then show ?thesis using assms full by (simp add: on_packet_def st shown_snoc array_rel_def)
  next
    case False
    have item: "lexes (Reader_print True (fst s) (snd s)) (json_tokens (print_doc s))" using Reader_print_json [of "fst s" "snd s"] by simp
    have comma: "lexes (if 0 < n then '','' @ nl else []) (if 0 < n then [Punct CHR '',''] else [])"
      using lexes_comma lexes_Nil by simp
    from lexes_append [OF out lexes_append [OF comma item]] show ?thesis
      using False full n by (auto simp: on_packet_def st shown_snoc array_rel_def separated_by_snoc)
  qed
qed

lemma packets_array: "array_rel limit (foldl (on_packet True limit) (''['' @ nl, 0) seen) seen"
proof (induction seen rule: rev_induct)
  case Nil
  then show ?case by (simp add: array_rel_def shown_def lexes_def)
next
  case (snoc s seen)
  then show ?case using on_packet_array by simp
qed

section \<open>Exit status\<close>

text \<open>The parts of the output in order, with their file names.\<close>

definition outputs :: "Options \<Rightarrow> Reader \<Rightarrow> Benchmark \<Rightarrow> (u64 \<times> Capture) list \<Rightarrow> (string \<times> string) list" where
  "outputs o' r b seen =
     (if show_packets o' then [(packets_name o', fst (packets_text (opt_json o') (print_limit (opt_config o')) seen))] else []) @ sections o' r b"

text \<open>All of them are on the standard output, or each is in its file.\<close>

definition delivered :: "Options \<Rightarrow> (string \<times> string) list \<Rightarrow> Outcome \<Rightarrow> bool" where
  "delivered o' parts st \<longleftrightarrow>
     (if out_dir o' = [] then out_stdout st = concat (map snd parts)
      else out_files st = map (\<lambda>(name, body). (path_join (out_dir o') name, body)) parts)"

text \<open>Until something fails.\<close>

definition outcome_rel :: "Options \<Rightarrow> (string \<times> string) list \<Rightarrow> Outcome \<Rightarrow> bool" where
  "outcome_rel o' parts st \<longleftrightarrow>
     out_failed st = (out_stderr st \<noteq> []) \<and> (\<not> out_failed st \<longrightarrow> delivered o' parts st) \<and>
     (out_dir o' = [] \<longrightarrow> \<not> out_failed st \<and> out_written st = [])"

lemma emit_rel: "outcome_rel o' parts st \<Longrightarrow> outcome_rel o' (parts @ [part]) (emit env o' st part)"
  by (auto simp: outcome_rel_def delivered_def emit_def kProgram_def Let_def split: prod.splits)

lemma emits_rel: "outcome_rel o' parts st \<Longrightarrow> outcome_rel o' (parts @ ps) (foldl (emit env o') st ps)"
proof (induction ps arbitrary: parts st)
  case (Cons part ps)
  from Cons.IH [OF emit_rel [OF Cons.prems]] show ?case by simp
qed simp

lemma write_packets_rel:
  "outcome_rel o' (if show_packets o' then [(packets_name o', body)] else []) (write_packets env o' body Outcome_init)"
  by (auto simp: outcome_rel_def delivered_def write_packets_def Outcome_init_def kProgram_def Let_def)

lemma written_text_rel:
  "outcome_rel o' parts st \<Longrightarrow> outcome_rel o' parts (st \<lparr> out_stdout := out_stdout st @ written_text o' n st \<rparr>)"
  by (auto simp: outcome_rel_def delivered_def written_text_def)

text \<open>What happens after the arguments are accepted.\<close>

definition all_delivered :: "Env \<Rightarrow> Options \<Rightarrow> Outcome \<Rightarrow> bool" where
  "all_delivered env o' st \<longleftrightarrow>
     (\<exists>data r0 seen err r. env_capture env (opt_path o') = Inr data \<and> Reader_init data (opt_config o') = Ok r0 \<and>
        readAllPackets (setJson (opt_json o') r0) = Ok (seen, err, r) \<and>
        delivered o' (outputs o' r (run_benchmark env o' data (setJson (opt_json o') r0)) seen) st)"

lemma analyze_outcome:
  assumes "analyze env o' data = Ok (st, code)" and "env_capture env (opt_path o') = Inr data"
  shows "code \<in> {0, 1, 2} \<and> (code = 0 \<longleftrightarrow> out_stderr st = []) \<and> (code = 0 \<longrightarrow> all_delivered env o' st) \<and> (out_dir o' = [] \<longrightarrow> code = 0)"
proof -
  obtain r0 where r0: "Reader_init data (opt_config o') = Ok r0" using assms(1) by (auto simp: analyze_def bind_res_Ok_iff)
  show ?thesis
  proof (cases "show_packets o' \<and> out_dir o' \<noteq> [] \<and> \<not> env_opens env (path_join (out_dir o') (packets_name o'))")
    case True
    then have "st = Outcome_init \<lparr> out_stderr := kProgram @ '': cannot write '' @ path_join (out_dir o') (packets_name o') @ nl \<rparr> \<and> code = 2"
      using assms(1) by (auto simp: analyze_def bind_res_Ok_iff r0 Let_def)
    then show ?thesis using True by (simp add: kProgram_def)
  next
    case False
    obtain seen err r where read: "readAllPackets (setJson (opt_json o') r0) = Ok (seen, err, r)"
      using assms(1) False by (auto simp: analyze_def bind_res_Ok_iff r0 Let_def)
    obtain body n where body: "packets_text (opt_json o') (print_limit (opt_config o')) seen = (body, n)" by force
    define b where "b = run_benchmark env o' data (setJson (opt_json o') r0)"
    define st1 where "st1 = foldl (emit env o') (write_packets env o' body Outcome_init) (sections o' r b)"
    have st: "st = st1 \<lparr> out_stdout := out_stdout st1 @ written_text o' n st1 \<rparr>" "code = (if out_failed st then 1 else 0)"
      using assms(1) False by (auto simp: analyze_def r0 read body Let_def st1_def b_def)
    have "outcome_rel o' (outputs o' r b seen) st"
      unfolding st(1) st1_def outputs_def body fst_conv by (intro written_text_rel emits_rel write_packets_rel)
    then show ?thesis
      using st(2) assms(2) r0 read by (auto simp: outcome_rel_def all_delivered_def b_def split: if_splits)
  qed
qed

lemma cli_outcome:
  assumes "cli env args = Ok (st, code)"
  shows "code \<in> {0, 1, 2} \<and> (code = 0 \<longleftrightarrow> out_stderr st = []) \<and>
    (code = 0 \<longrightarrow> (\<exists>o'. parseArgs args = Inr o' \<and> (opt_help o' \<or> opt_version o' \<or> all_delivered env o' st)))"
proof (cases "parseArgs args")
  case (Inl e)
  then show ?thesis using assms by (auto simp: cli_def Outcome_init_def)
next
  case (Inr o')
  show ?thesis
  proof (cases "opt_help o' \<or> opt_version o'")
    case True
    then show ?thesis using assms Inr by (auto simp: cli_def Outcome_init_def split: if_splits)
  next
    case False
    consider (dir) message where "out_dir o' \<noteq> []" "env_create_directories env (out_dir o') = Some message"
      | (open_file) what where "env_capture env (opt_path o') = Inl what"
          "(if out_dir o' \<noteq> [] then env_create_directories env (out_dir o') else None) = None"
      | (run) data where "env_capture env (opt_path o') = Inr data" "analyze env o' data = Ok (st, code)"
      using assms Inr False by (auto simp: cli_def split: if_splits option.splits sum.splits)
    then show ?thesis
    proof cases
      case dir
      then show ?thesis using assms Inr False by (auto simp: cli_def Outcome_init_def kProgram_def)
    next
      case open_file
      then show ?thesis using assms Inr False by (auto simp: cli_def Outcome_init_def kProgram_def)
    next
      case run
      then show ?thesis using analyze_outcome [OF run(2,1)] Inr by blast
    qed
  qed
qed

section \<open>Files that are not captures\<close>

definition not_a_capture :: "span \<Rightarrow> bool" where
  "not_a_capture data \<longleftrightarrow> (case parse_FileHeader data of Err _ \<Rightarrow> True | _ \<Rightarrow> False)"

text \<open>A valid file header and nothing else.\<close>

definition no_packets :: span where
  "no_packets = FileHeader_bytes Little False 2 4 65535 1"

text \<open>Readers from which the sections are the same.\<close>

lemma sections_cong:
  "rd_decoder r = rd_decoder r' \<Longrightarrow> rd_skipped r = rd_skipped r' \<Longrightarrow> rd_last_skip_err r = rd_last_skip_err r' \<Longrightarrow>
   b = b' \<or> \<not> show_bench o' \<and> (\<forall>p. elapsedNs b p = elapsedNs b' p) \<Longrightarrow> sections o' r b = sections o' r' b'"
  by (auto simp: sections_def flows_text_def printSummary_def Let_def)

lemma parse_FileHeader_not_NoError: "parse_FileHeader data \<noteq> Err NoError"
  by (auto simp: parse_FileHeader_def Let_def bind_res_Err_iff split: option.splits)

definition untouched :: "Config \<Rightarrow> Reader \<Rightarrow> bool" where
  "untouched cfg r \<longleftrightarrow> rd_decoder r = Decoder_init cfg \<and> rd_skipped r = 0 \<and> rd_last_skip_err r = NoError"

definition idle_ticks :: "tick list" where
  "idle_ticks = [Start FileHeaderPhase, Stop FileHeaderPhase, Start Total, Stop Total]"

lemmas timed_defs = idle_ticks_def reading_ticks_def Reader_init_timed_def readAllPackets_timed_def read_loop_timed.simps
  readPacket_timed_def readPacket_loop_timed.simps stopwatch_def untimed_def bind_timed_def

lemma not_a_capture_reads:
  assumes "not_a_capture data"
  shows "\<exists>r0 e. Reader_init data cfg = Ok r0 \<and> readAllPackets (setJson j r0) = Ok ([], e, setJson j r0) \<and>
     untouched cfg (setJson j r0) \<and> reading_ticks data cfg (setJson j r0) = idle_ticks"
proof -
  obtain e where e: "parse_FileHeader data = Err e" "e \<noteq> NoError"
    using assms parse_FileHeader_not_NoError [of data] by (auto simp: not_a_capture_def split: res.splits)
  then show ?thesis
    by (auto simp: Reader_init_def readFileHeader_def Reader_new_def readAllPackets.simps readPacket_def setJson_def untouched_def timed_defs)
qed

lemma no_packets_reads:
  "\<exists>r0 e. Reader_init no_packets cfg = Ok r0 \<and> readAllPackets (setJson j r0) = Ok ([], e, setJson j r0) \<and>
     untouched cfg (setJson j r0) \<and> reading_ticks no_packets cfg (setJson j r0) = idle_ticks"
proof -
  obtain h where "parse_FileHeader no_packets = Ok (h, Little, [])"
    using FileHeader_bytes_parse [of 65535 1 Little False "[]"] by (auto simp: no_packets_def)
  moreover have "\<not> length no_packets < FILE_HEADER_LEN" by (simp add: no_packets_def FileHeader_bytes_def FILE_HEADER_LEN_def)
  ultimately show ?thesis
    by (auto simp: Reader_init_def readFileHeader_def Reader_new_def readAllPackets.simps readPacket_def readPacket_loop.simps
        PACKET_HEADER_LEN_def setJson_def untouched_def timed_defs)
qed

text \<open>The bytes of the capture are an argument of \<open>analyze\<close>.\<close>

lemma analyze_env: "analyze (env \<lparr> env_capture := f \<rparr>) o' data = analyze env o' data"
proof -
  have "emit (env \<lparr> env_capture := f \<rparr>) = emit env" "write_packets (env \<lparr> env_capture := f \<rparr>) = write_packets env"
    by (intro ext; simp add: emit_def write_packets_def Let_def split_beta)+
  moreover have "run_benchmark (env \<lparr> env_capture := f \<rparr>) = run_benchmark env" by (intro ext) (simp add: run_benchmark_def)
  ultimately show ?thesis by (simp add: analyze_def Let_def split_beta cong: if_cong)
qed

lemma analyze_not_a_capture:
  assumes "not_a_capture data" and "env_capture env (opt_path o') = Inr data"
  shows "(\<not> show_bench o' \<longrightarrow> analyze env o' data = analyze env o' no_packets) \<and>
    (\<exists>st code. analyze env o' data = Ok (st, code) \<and> (out_dir o' = [] \<longrightarrow> code = 0 \<and> out_stderr st = []))"
proof -
  let ?s = "setJson (opt_json o')"
  obtain r e where r: "Reader_init data (opt_config o') = Ok r" "readAllPackets (?s r) = Ok ([], e, ?s r)"
      "untouched (opt_config o') (?s r)" "reading_ticks data (opt_config o') (?s r) = idle_ticks"
    using not_a_capture_reads [OF assms(1)] by metis
  obtain r' e' where r': "Reader_init no_packets (opt_config o') = Ok r'" "readAllPackets (?s r') = Ok ([], e', ?s r')"
      "untouched (opt_config o') (?s r')" "reading_ticks no_packets (opt_config o') (?s r') = idle_ticks"
    using no_packets_reads by metis
  have "sections o' (?s r) (run_benchmark env o' data (?s r)) = sections o' (?s r') (run_benchmark env o' no_packets (?s r'))"
    if "\<not> show_bench o'"
    using r(3,4) r'(3,4) that Reader_benchmark_elapsed by (intro sections_cong) (simp_all add: untouched_def run_benchmark_def)
  with r r' have "\<not> show_bench o' \<longrightarrow> analyze env o' data = analyze env o' no_packets" and total: "\<exists>st code. analyze env o' data = Ok (st, code)"
    by (simp_all add: analyze_def Let_def split_beta)
  then show ?thesis using analyze_outcome [OF _ assms(2)] by metis
qed

text \<open>An environment in which every file can be written, for examples.\<close>

definition demo_env :: "span \<Rightarrow> Env" where
  "demo_env data = \<lparr> env_version = ''1.0'', env_create_directories = \<lambda>_. None, env_capture = \<lambda>_. Inr data,
     env_opens = \<lambda>_. True, env_writes = \<lambda>_. True, env_clock = \<lambda>_. 0 \<rparr>"

definition demo_options :: Options where
  "demo_options = Options_init \<lparr> opt_path := ''x'', show_summary := True, show_flows := True \<rparr>"

lemma demo_args: "parseArgs [''x''] = Inr demo_options"
  by (simp add: parseArgs_def cli_matches_def set_flag_def value_kind_def finish_args_def Options_init_def demo_options_def)

lemma demo_env_capture: "env_capture (demo_env data) path = Inr data" "out_dir demo_options = []" "\<not> opt_help demo_options" "\<not> opt_version demo_options"
  by (simp_all add: demo_env_def demo_options_def Options_init_def)

lemma demo_no_bench: "\<not> show_bench demo_options"
  by (simp add: demo_options_def Options_init_def)

lemma demo_not_a_capture: "not_a_capture [1, 2, 3]"
  by (simp add: not_a_capture_def parse_FileHeader_def FILE_HEADER_LEN_def)

section \<open>Properties\<close>

text \<open>
  C32. With \<open>--json\<close>, \<open>packets.json\<close> is one valid JSON array: for whatever packets were read, under
  any limit, the text denotes the array of the documents of the first packets and nothing else, each with its
  index, its record header and its layers, and as many are reported as written.
\<close>

theorem packets_json_valid:
  "(json_denotes (fst (packets_text True limit seen)) j \<longleftrightarrow> j = JArr (map print_doc (shown limit seen))) \<and>
   snd (packets_text True limit seen) = length (shown limit seen)"
proof -
  obtain out n where st: "foldl (on_packet True limit) (''['' @ nl, 0) seen = (out, n)" by fastforce
  have tail: "lexes ('']'' @ nl) [Punct CHR '']'']" by (simp add: lexing)
  have "array_rel limit (out, n) seen" using packets_array [of limit seen] by (simp only: st)
  then have "lexes out (Punct CHR ''['' # separated_by [Punct CHR '',''] (map (json_tokens \<circ> print_doc) (shown limit seen)))"
    and n: "n = length (shown limit seen)" by (simp_all add: array_rel_def)
  from lexes_append [OF this(1) tail] n
  have "json_denotes (fst (packets_text True limit seen)) (JArr (map print_doc (shown limit seen)))"
    using st by (simp add: packets_text_def json_denotes_def lexes_def)
  then show ?thesis using json_denotes_unique n st by (simp add: packets_text_def)
qed

text \<open>
  C29. With \<open>--json\<close>, \<open>flows.json\<close> is one valid JSON object: it holds the counters, the bytes and
  share of every protocol, and of the first flows in the order of the listing everything
  that is known of each, names and floating-point rates included.
\<close>

theorem flows_json_valid:
  assumes "opt_json o'"
  shows "json_denotes (flows_text o' r) j \<longleftrightarrow>
    j = (JObj [StatsEngine_doc (flowTable (rd_decoder r)) (dnsTable (rd_decoder r)) (print_limit (config (rd_decoder r)))])"
proof -
  have ws: "list_all is_ws ''  ''" by (simp add: is_ws_def)
  have head: "lexes (''{'' @ nl) [Punct CHR ''{'']" and tail: "lexes (nl @ ''}'' @ nl) [Punct CHR ''}'']" by (simp_all add: lexing)
  from lexes_append [OF head lexes_append [OF lexes_indent [OF StatsEngine_json ws] tail]]
  have "json_denotes (flows_text o' r)
    (JObj [StatsEngine_doc (flowTable (rd_decoder r)) (dnsTable (rd_decoder r)) (print_limit (config (rd_decoder r)))])"
    using assms by (simp add: flows_text_def Let_def json_denotes_def lexes_def member_tokens_def split_beta)
  then show ?thesis by (rule json_denotes_unique)
qed

theorem flows_json_valid_witness:
  "json_denotes (flows_text (Options_init \<lparr> opt_json := True \<rparr>) (Reader_new [] Config_init))
    (JObj [StatsEngine_doc (flowTable (Decoder_init Config_init)) (dnsTable (Decoder_init Config_init)) 0])"
  using flows_json_valid [of "Options_init \<lparr> opt_json := True \<rparr>" "Reader_new [] Config_init"]
  by (simp add: Reader_new_def Decoder_init_def Config_init_def)

text \<open>
  C28. The exit status tells what happened: it is zero exactly when nothing was written to the
  error stream, and then the arguments were accepted and either the help or version text was
  asked for or every section asked for is complete, in order, on the output or in its file.
\<close>

theorem exit_status_zero:
  assumes "cli env args = Ok (st, code)"
  shows "code \<in> {0, 1, 2} \<and> (code = 0 \<longleftrightarrow> out_stderr st = []) \<and>
    (code = 0 \<longrightarrow> (\<exists>o'. parseArgs args = Inr o' \<and> (opt_help o' \<or> opt_version o' \<or> all_delivered env o' st)))"
  using assms by (rule cli_outcome)

theorem exit_status_zero_witness:
  "\<exists>st. cli (demo_env [1, 2, 3]) [''x''] = Ok (st, 0) \<and> out_stderr st = [] \<and>
    (\<exists>o'. parseArgs [''x''] = Inr o' \<and> (opt_help o' \<or> opt_version o' \<or> all_delivered (demo_env [1, 2, 3]) o' st))"
proof -
  obtain st code where "analyze (demo_env [1, 2, 3]) demo_options [1, 2, 3] = Ok (st, code)" "code = 0"
    using analyze_not_a_capture [OF demo_not_a_capture, of "demo_env [1, 2, 3]" demo_options] demo_env_capture by metis
  then have "cli (demo_env [1, 2, 3]) [''x''] = Ok (st, 0)" by (simp add: cli_def demo_args demo_env_capture)
  with exit_status_zero [OF this] show ?thesis by blast
qed

text \<open>
  A file that is not a capture is not reported: whatever its header lacks, the program behaves
  as on a capture without packets (but for the number of bytes in the benchmark), and exits with status
  zero and an empty error stream when it prints to the standard output.
\<close>

theorem unreadable_capture_unreported:
  assumes "parseArgs args = Inr o'" and "env_capture env (opt_path o') = Inr data" and "not_a_capture data"
  shows "(\<not> show_bench o' \<longrightarrow> cli env args = cli (env \<lparr> env_capture := \<lambda>_. Inr no_packets \<rparr>) args) \<and>
    (out_dir o' = [] \<longrightarrow> (\<exists>st. cli env args = Ok (st, 0) \<and> out_stderr st = []))"
proof -
  obtain st code where st: "analyze env o' data = Ok (st, code)" "out_dir o' = [] \<longrightarrow> code = 0 \<and> out_stderr st = []"
    and same: "\<not> show_bench o' \<longrightarrow> analyze env o' no_packets = Ok (st, code)"
    using analyze_not_a_capture [OF assms(3,2)] by metis
  show ?thesis
    using assms(1,2) st same by (auto simp: cli_def analyze_env Outcome_init_def split: option.split)
qed

theorem unreadable_capture_unreported_witness:
  "cli (demo_env [1, 2, 3]) [''x''] = cli (demo_env no_packets) [''x''] \<and>
   (\<exists>st. cli (demo_env [1, 2, 3]) [''x''] = Ok (st, 0) \<and> out_stderr st = [])"
proof -
  have "demo_env [1, 2, 3] \<lparr> env_capture := \<lambda>_. Inr no_packets \<rparr> = demo_env no_packets" by (simp add: demo_env_def)
  then show ?thesis
    using unreadable_capture_unreported [OF demo_args demo_env_capture(1) demo_not_a_capture] demo_env_capture(2) demo_no_bench by metis
qed

end
