(* ===== verification/Reader_Mapping.thy ===== *)
theory Reader_Mapping
  imports Pcap_Reader
begin

text \<open>
  How a reader gets hold of its file (constructor and destructor in
  \<^verbatim>\<open>src/net/capture/pcap_reader.cpp\<close>), on POSIX and on Windows. The operating system is a
  parameter: its answers are functions of the arguments of each call. The constructors return
  what they do to the resources of the process, call by call, with the reader or the message
  of the exception. C++ does not run the destructor of an object whose constructor throws.
\<close>

section \<open>Resources\<close>

datatype resource = Descriptor int | Region u64 u64 | Handle u64 | View u64

text \<open>\<open>Advise\<close> stands for \<open>madvise\<close> and \<open>PrefetchVirtualMemory\<close>, which name a range of memory.\<close>

datatype os_event = Acquire resource | Release resource | Advise u64 u64

type_synonym 'a os_call = "os_event list \<times> (string + 'a)"

definition perform :: "os_event \<Rightarrow> 'a os_call \<Rightarrow> 'a os_call" where
  "perform e k = (e # fst k, snd k)"

definition perform_when :: "bool \<Rightarrow> os_event \<Rightarrow> 'a os_call \<Rightarrow> 'a os_call" where
  "perform_when b e k = (if b then perform e k else k)"

definition throw :: "string \<Rightarrow> 'a os_call" where "throw what = ([], Inl what)"
definition return :: "'a \<Rightarrow> 'a os_call" where "return x = ([], Inr x)"

lemmas os_call_defs = perform_def perform_when_def throw_def return_def

text \<open>
  The process holds a bag of resources. Releasing what is not held, such as closing a
  descriptor twice, has no meaning.
\<close>

fun ledger :: "os_event list \<Rightarrow> resource list \<Rightarrow> resource list option" where
  "ledger [] held = Some held"
| "ledger (Acquire x # t) held = ledger t (x # held)"
| "ledger (Release x # t) held = (if x \<in> set held then ledger t (remove1 x held) else None)"
| "ledger (Advise a n # t) held = ledger t held"

lemma ledger_append: "ledger (s @ t) held = Option.bind (ledger s held) (ledger t)"
  by (induction s held rule: ledger.induct) auto

text \<open>Every range that is advised on is mapped at that time.\<close>

fun advised_mapped :: "os_event list \<Rightarrow> resource list \<Rightarrow> bool" where
  "advised_mapped [] held = True"
| "advised_mapped (Acquire x # t) held = advised_mapped t (x # held)"
| "advised_mapped (Release x # t) held = advised_mapped t (remove1 x held)"
| "advised_mapped (Advise a n # t) held = ((Region a n \<in> set held \<or> View a \<in> set held) \<and> advised_mapped t held)"

section \<open>POSIX\<close>

text \<open>
  \<open>px_fstat\<close> gives the return value and \<open>st_size\<close>; \<open>px_mmap\<close> the address, or \<open>MAP_FAILED\<close>;
  \<open>px_memory\<close> the bytes that a mapped region shows.
\<close>

record Posix =
  px_open :: "string \<Rightarrow> int"
  px_fstat :: "int \<Rightarrow> int \<times> u64"
  px_mmap :: "u64 \<Rightarrow> int \<Rightarrow> u64"
  px_memory :: "u64 \<Rightarrow> u64 \<Rightarrow> span"

definition MAP_FAILED :: u64 where "MAP_FAILED = - 1"

record Posix_File =
  pf_fd :: int
  pf_mapped_data :: u64
  pf_mapped_size :: u64
  pf_span :: span

definition open_posix :: "Posix \<Rightarrow> string \<Rightarrow> Posix_File os_call" where
  "open_posix os path =
     (let fd = px_open os path in
      if fd = - 1 then throw ''Reader: failed to open file''
      else perform (Acquire (Descriptor fd)) (
        case px_fstat os fd of (rc, st_size) \<Rightarrow>
        if rc = - 1 \<or> st_size = 0 then
          perform (Release (Descriptor fd)) (throw ''Reader: failed to get file size'')
        else
          let m = px_mmap os st_size fd in
          if m = MAP_FAILED then
            perform (Release (Descriptor fd)) (throw ''Reader: failed to mmap file'')
          else perform (Acquire (Region m st_size)) (perform (Advise m st_size) (
            return \<lparr> pf_fd = fd, pf_mapped_data = m, pf_mapped_size = st_size, pf_span = px_memory os m st_size \<rparr>))))"

text \<open>A reader of bytes in memory has neither descriptor nor region.\<close>

definition from_memory :: "span \<Rightarrow> Posix_File" where
  "from_memory data = \<lparr> pf_fd = - 1, pf_mapped_data = 0, pf_mapped_size = 0, pf_span = data \<rparr>"

definition close_posix :: "Posix_File \<Rightarrow> os_event list" where
  "close_posix f =
     (if pf_mapped_data f \<noteq> 0 then [Release (Region (pf_mapped_data f) (pf_mapped_size f))] else []) @
     (if pf_fd f \<noteq> - 1 then [Release (Descriptor (pf_fd f))] else [])"

section \<open>Windows\<close>

record Windows =
  win_CreateFile :: "string \<Rightarrow> u64"
  win_GetFileSizeEx :: "u64 \<Rightarrow> bool \<times> u64"
  win_CreateFileMapping :: "u64 \<Rightarrow> u64"
  win_MapViewOfFile :: "u64 \<Rightarrow> u64"
  win_memory :: "u64 \<Rightarrow> u64 \<Rightarrow> span"

definition INVALID_HANDLE_VALUE :: u64 where "INVALID_HANDLE_VALUE = - 1"

record Windows_File =
  wf_file :: u64
  wf_mapping :: u64
  wf_mapped_data :: u64
  wf_mapped_size :: u64
  wf_span :: span

definition open_windows :: "Windows \<Rightarrow> string \<Rightarrow> Windows_File os_call" where
  "open_windows os path =
     (let file = win_CreateFile os path in
      if file = INVALID_HANDLE_VALUE then throw ''Reader: failed to open file''
      else perform (Acquire (Handle file)) (
        case win_GetFileSizeEx os file of (ok, file_size) \<Rightarrow>
        if \<not> ok \<or> file_size = 0 then
          perform (Release (Handle file)) (throw ''Reader: failed to get file size'')
        else
          let mapping = win_CreateFileMapping os file in
          if mapping = 0 then
            perform (Release (Handle file)) (throw ''Reader: failed to create file mapping'')
          else perform (Acquire (Handle mapping)) (
            let view = win_MapViewOfFile os mapping in
            perform_when (view \<noteq> 0) (Acquire (View view)) (perform (Advise view file_size) (
            if view = 0 then
              perform (Release (Handle mapping)) (perform (Release (Handle file)) (throw ''Reader: failed to map view''))
            else return \<lparr> wf_file = file, wf_mapping = mapping, wf_mapped_data = view, wf_mapped_size = file_size,
              wf_span = win_memory os view file_size \<rparr>)))))"

definition close_windows :: "Windows_File \<Rightarrow> os_event list" where
  "close_windows f =
     (if wf_mapped_data f \<noteq> 0 then [Release (View (wf_mapped_data f))] else []) @
     (if wf_mapping f \<noteq> 0 then [Release (Handle (wf_mapping f))] else []) @
     (if wf_file f \<noteq> INVALID_HANDLE_VALUE then [Release (Handle (wf_file f))] else [])"

section \<open>Ownership\<close>

text \<open>
  The objects of nested scopes, destroyed in the reverse order of their construction. Where a
  constructor throws, the scopes around it are left.
\<close>

fun scopes :: "('os \<Rightarrow> string \<Rightarrow> 'f os_call) \<Rightarrow> ('f \<Rightarrow> os_event list) \<Rightarrow> 'os \<Rightarrow> string list \<Rightarrow> os_event list" where
  "scopes construct destruct os [] = []"
| "scopes construct destruct os (path # paths) =
     (case construct os path of
        (t, Inl what) \<Rightarrow> t
      | (t, Inr f) \<Rightarrow> t @ scopes construct destruct os paths @ destruct f)"

text \<open>
  The contract of a class that owns resources: a constructor that throws has released what it
  acquired, one that returns has acquired exactly what the object owns, and the destructor
  releases exactly that. \<open>sound\<close> is what the class relies on the operating system for.
\<close>

locale resource_owner =
  fixes construct :: "'os \<Rightarrow> string \<Rightarrow> 'f os_call"
    and destruct :: "'f \<Rightarrow> os_event list"
    and owned :: "'f \<Rightarrow> resource list"
    and sound :: "'os \<Rightarrow> bool"
  assumes throwing: "construct os path = (t, Inl what) \<Longrightarrow> ledger t held = Some held"
    and returning: "sound os \<Longrightarrow> construct os path = (t, Inr f) \<Longrightarrow> ledger t held = Some (owned f @ held)"
    and destroying: "sound os \<Longrightarrow> construct os path = (t, Inr f) \<Longrightarrow> ledger (destruct f) (owned f @ held) = Some held"
begin

lemma scopes_neutral:
  assumes "sound os"
  shows "ledger (scopes construct destruct os paths) held = Some held"
proof (induction paths arbitrary: held)
  case (Cons path paths)
  show ?case
  proof (cases "construct os path")
    case (Pair t r)
    then show ?thesis using assms Cons.IH
      by (cases r) (simp_all add: throwing returning destroying ledger_append)
  qed
qed simp

lemma scope_sequence_neutral:
  assumes "sound os"
  shows "ledger (concat (map (\<lambda>path. scopes construct destruct os [path]) paths)) held = Some held"
  by (induction paths) (simp_all add: ledger_append scopes_neutral [OF assms] del: scopes.simps)

end

definition owned_posix :: "Posix_File \<Rightarrow> resource list" where
  "owned_posix f = [Region (pf_mapped_data f) (pf_mapped_size f), Descriptor (pf_fd f)]"

definition owned_windows :: "Windows_File \<Rightarrow> resource list" where
  "owned_windows f = [View (wf_mapped_data f), Handle (wf_mapping f), Handle (wf_file f)]"

text \<open>A successful \<open>mmap\<close> does not return the null pointer, which the destructor takes for no mapping.\<close>

definition maps_nonnull :: "Posix \<Rightarrow> bool" where
  "maps_nonnull os \<longleftrightarrow> (\<forall>n fd. px_mmap os n fd \<noteq> 0)"

interpretation posix_file: resource_owner open_posix close_posix owned_posix maps_nonnull
proof
  fix os :: Posix and path t what held
  show "open_posix os path = (t, Inl what) \<Longrightarrow> ledger t held = Some held"
    by (auto simp: open_posix_def os_call_defs Let_def split: if_splits prod.splits)
next
  fix os :: Posix and path t held f
  assume sound: "maps_nonnull os" and f: "open_posix os path = (t, Inr f)"
  then show "ledger t held = Some (owned_posix f @ held)"
    by (auto simp: open_posix_def os_call_defs owned_posix_def Let_def split: if_splits prod.splits)
  show "ledger (close_posix f) (owned_posix f @ held) = Some held"
    using f sound by (auto simp: open_posix_def os_call_defs owned_posix_def close_posix_def maps_nonnull_def Let_def
        split: if_splits prod.splits)
qed

interpretation windows_file: resource_owner open_windows close_windows owned_windows "\<lambda>_. True"
proof
  fix os :: Windows and path t what held
  show "open_windows os path = (t, Inl what) \<Longrightarrow> ledger t held = Some held"
    by (auto simp: open_windows_def os_call_defs Let_def split: if_splits prod.splits)
next
  fix os :: Windows and path t held f
  assume f: "open_windows os path = (t, Inr f)"
  then show "ledger t held = Some (owned_windows f @ held)"
    by (auto simp: open_windows_def os_call_defs owned_windows_def Let_def split: if_splits prod.splits)
  show "ledger (close_windows f) (owned_windows f @ held) = Some held"
    using f by (auto simp: open_windows_def os_call_defs owned_windows_def close_windows_def INVALID_HANDLE_VALUE_def Let_def
        split: if_splits prod.splits)
qed

section \<open>Properties\<close>

lemma open_posix_advised: "advised_mapped (fst (open_posix os path)) held"
  by (simp add: open_posix_def os_call_defs Let_def split: prod.split)

text \<open>
  On Windows the span is formed and prefetched before the view is compared with the null
  pointer, so that when mapping fails the advice is about memory that is not mapped.
\<close>

lemma open_windows_advised:
  assumes "snd (open_windows os path) \<noteq> Inl ''Reader: failed to map view''"
  shows "advised_mapped (fst (open_windows os path)) held"
  using assms by (auto simp: open_windows_def os_call_defs Let_def split: prod.splits if_splits)

lemma open_windows_advises_unmapped:
  assumes "snd (open_windows os path) = Inl ''Reader: failed to map view''" and "\<forall>a. View a \<notin> set held" "\<forall>a n. Region a n \<notin> set held"
  shows "\<not> advised_mapped (fst (open_windows os path)) held"
  using assms by (auto simp: open_windows_def os_call_defs Let_def split: prod.splits if_splits)

text \<open>
  C2. Readers neither leak nor release twice what they hold of the operating system, whatever it
  answers: after any number of nested or successive lifetimes of readers of files, some of whose
  constructors may throw at any of their calls, the process holds what it held before, on POSIX
  and on Windows; on POSIX all advice is on mapped memory. The destructor relies on \<open>mmap\<close> never
  returning the null pointer.
\<close>

theorem readers_release_files:
  assumes "maps_nonnull px"
  shows "ledger (scopes open_posix close_posix px paths) held = Some held \<and>
    ledger (concat (map (\<lambda>path. scopes open_posix close_posix px [path]) paths)) held = Some held \<and>
    ledger (scopes open_windows close_windows win paths) held = Some held \<and>
    ledger (concat (map (\<lambda>path. scopes open_windows close_windows win [path]) paths)) held = Some held \<and>
    advised_mapped (fst (open_posix px path)) held \<and>
    close_posix (from_memory data) = []"
  using posix_file.scopes_neutral [OF assms] posix_file.scope_sequence_neutral [OF assms] windows_file.scopes_neutral
    windows_file.scope_sequence_neutral open_posix_advised
  by (simp add: from_memory_def close_posix_def del: scopes.simps)

theorem readers_release_files_witness:
  "let px = \<lparr> px_open = \<lambda>path. if path = ''none'' then - 1 else 3, px_fstat = \<lambda>_. (0, 5), px_mmap = \<lambda>_ _. 4096,
      px_memory = \<lambda>_ n. replicate (unat n) 7 \<rparr> in
   ledger (scopes open_posix close_posix px [''a'', ''b'', ''none'']) [] = Some []"
  using readers_release_files [of "\<lparr> px_open = \<lambda>path. if path = ''none'' then - 1 else 3, px_fstat = \<lambda>_. (0, 5), px_mmap = \<lambda>_ _. 4096,
      px_memory = \<lambda>_ n. replicate (unat n) 7 \<rparr>" "[''a'', ''b'', ''none'']" "[]"]
  by (simp add: maps_nonnull_def Let_def del: scopes.simps)

end
