(* ===== verification/Cli_Files.thy ===== *)
theory Cli_Files
  imports Cli_Output Reader_Mapping
begin

text \<open>
  The program on files: \<^verbatim>\<open>src/cli/main.cpp\<close>, with the capture opened by the constructor of the
  reader on POSIX. What the reader relies on is that the system shows the contents of its files.
\<close>

section \<open>The program\<close>

text \<open>\<open>argv[0]\<close> is not looked at.\<close>

definition main :: "Env \<Rightarrow> string list \<Rightarrow> (Outcome \<times> nat) res" where
  "main env argv = cli env (List.tl argv)"

definition posix_capture :: "Posix \<Rightarrow> string \<Rightarrow> string + span" where
  "posix_capture os path = (case snd (open_posix os path) of Inl what \<Rightarrow> Inl what | Inr f \<Rightarrow> Inr (pf_span f))"

definition posix_env :: "Posix \<Rightarrow> Env \<Rightarrow> Env" where
  "posix_env os env = env \<lparr> env_capture := posix_capture os \<rparr>"

section \<open>Files\<close>

text \<open>The answers of a system whose files are \<open>fs\<close>.\<close>

definition serves :: "Posix \<Rightarrow> (string \<Rightarrow> span option) \<Rightarrow> bool" where
  "serves os fs \<longleftrightarrow> (\<forall>path. case fs path of
       None \<Rightarrow> px_open os path = - 1
     | Some data \<Rightarrow>
         let fd = px_open os path; n = of_nat (length data); m = px_mmap os n fd in
         fd \<noteq> - 1 \<and> length data < 2 ^ 63 \<and> px_fstat os fd = (0, n) \<and>
         (data \<noteq> [] \<longrightarrow> m \<noteq> MAP_FAILED \<and> px_memory os m n = data))"

lemma posix_capture_serves:
  assumes "serves os fs"
  shows "posix_capture os path =
    (case fs path of
       None \<Rightarrow> Inl ''Reader: failed to open file''
     | Some data \<Rightarrow> if data = [] then Inl ''Reader: failed to get file size'' else Inr data)"
proof (cases "fs path")
  case None
  then have "px_open os path = - 1" using assms by (auto simp: serves_def dest: spec [of _ path])
  then show ?thesis using None by (simp add: posix_capture_def open_posix_def throw_def)
next
  case (Some data)
  let ?n = "of_nat (length data) :: u64"
  have a: "px_open os path \<noteq> - 1" "length data < 2 ^ 63" "px_fstat os (px_open os path) = (0, ?n)"
    "data \<noteq> [] \<Longrightarrow> px_mmap os ?n (px_open os path) \<noteq> MAP_FAILED \<and> px_memory os (px_mmap os ?n (px_open os path)) ?n = data"
    using assms Some by (auto simp: serves_def Let_def dest: spec [of _ path])
  have "unat ?n = length data" using a(2) by (simp add: unat_of_nat take_bit_nat_eq_self)
  then have "?n = 0 \<longleftrightarrow> data = []" by (metis length_0_conv unat_eq_0)
  then show ?thesis using Some a
    by (simp add: posix_capture_def open_posix_def os_call_defs Let_def)
qed

section \<open>Properties\<close>

text \<open>
  C35. What the program says of the file it is given: a file that cannot be opened and an empty one are
  errors with the message of the reader and exit status one; any other file is analysed, on
  exactly its bytes; and one that is not a capture is a success.
\<close>

theorem files_reported:
  assumes "serves os fs" and "parseArgs args = Inr o'" and "\<not> opt_help o'" "\<not> opt_version o'" and "out_dir o' = []"
  shows "main (posix_env os env) (argv0 # args) =
    (case fs (opt_path o') of
       None \<Rightarrow> Ok (Outcome_init \<lparr> out_stderr := kProgram @ '': '' @ opt_path o' @ '': Reader: failed to open file'' @ nl \<rparr>, 1)
     | Some data \<Rightarrow>
         if data = [] then
           Ok (Outcome_init \<lparr> out_stderr := kProgram @ '': '' @ opt_path o' @ '': Reader: failed to get file size'' @ nl \<rparr>, 1)
         else analyze env o' data) \<and>
    (\<forall>data. fs (opt_path o') = Some data \<and> data \<noteq> [] \<and> not_a_capture data \<longrightarrow>
       (\<exists>st. main (posix_env os env) (argv0 # args) = Ok (st, 0) \<and> out_stderr st = []))"
proof -
  have run: "main (posix_env os env) (argv0 # args) =
    (case fs (opt_path o') of
       None \<Rightarrow> Ok (Outcome_init \<lparr> out_stderr := kProgram @ '': '' @ opt_path o' @ '': Reader: failed to open file'' @ nl \<rparr>, 1)
     | Some data \<Rightarrow>
         if data = [] then
           Ok (Outcome_init \<lparr> out_stderr := kProgram @ '': '' @ opt_path o' @ '': Reader: failed to get file size'' @ nl \<rparr>, 1)
         else analyze env o' data)"
    using assms by (simp add: main_def cli_def posix_env_def posix_capture_serves analyze_env split: option.split)
  have "\<exists>st. analyze env o' data = Ok (st, 0) \<and> out_stderr st = []" if "not_a_capture data" for data
    using analyze_not_a_capture [OF that, of "env \<lparr> env_capture := \<lambda>_. Inr data \<rparr>" o'] assms(5) by (auto simp: analyze_env)
  with run show ?thesis by auto
qed

text \<open>A system with one file of three bytes.\<close>

definition one_file :: "string \<Rightarrow> span option" where
  "one_file path = (if path = ''x'' then Some [1, 2, 3] else None)"

definition one_file_posix :: Posix where
  "one_file_posix = \<lparr> px_open = \<lambda>path. if path = ''x'' then 3 else - 1, px_fstat = \<lambda>_. (0, 3), px_mmap = \<lambda>_ _. 4096,
     px_memory = \<lambda>_ _. [1, 2, 3] \<rparr>"

theorem files_reported_witness:
  "\<exists>st. main (posix_env one_file_posix (demo_env [])) [''analyzer'', ''x''] = Ok (st, 0) \<and> out_stderr st = []"
proof -
  have "serves one_file_posix one_file" by (simp add: serves_def one_file_posix_def one_file_def MAP_FAILED_def)
  moreover have "one_file (opt_path demo_options) = Some [1, 2, 3]" by (simp add: one_file_def demo_options_def)
  ultimately show ?thesis
    using files_reported [OF _ demo_args, of one_file_posix one_file, THEN conjunct2] demo_env_capture(2-4) demo_not_a_capture by blast
qed

end
