(* ===== verification/Reassembly_Any.thy ===== *)
theory Reassembly_Any
  imports Reassembly
begin

text \<open>
  The reassembler under any history whatever, also one in which a closed connection accepts data
  again: as long as less than \<open>2 ^ 31\<close> bytes and segments were sent in its direction, a segment in the queue cannot
  fall so far behind \<open>next_seq\<close> that negating its distance overflows. This is weaker
  than the invariant of \<open>Reassembly\<close>, in that the queue need not stay sorted.
\<close>

section \<open>Falling behind\<close>

lemma sint_minus_nat:
  fixes w :: u32
  assumes "- int A \<le> sint w" and "A + a < 2147483648"
  shows "- int (A + a) \<le> sint (w - of_nat a)"
proof -
  have "w - of_nat a = word_of_int (uint w - int a)" by simp
  then have "uint (w - of_nat a) = (uint w - int a) mod 4294967296"
    by (simp only: uint_word_of_int) simp
  then have "sint (w - of_nat a) = ((uint w - int a) mod 4294967296 + 2147483648) mod 4294967296 - 2147483648"
    by (simp only: sint_mod)
  also have "((uint w - int a) mod 4294967296 + 2147483648) mod 4294967296 = (uint w - int a + 2147483648) mod 4294967296"
    by (rule mod_add_left_eq)
  also have "uint w - int a + 2147483648 = (uint w + 2147483648) - int a" by simp
  also have "\<dots> mod 4294967296 = ((uint w + 2147483648) mod 4294967296 - int a) mod 4294967296" by (rule mod_diff_left_eq [symmetric])
  also have "(uint w + 2147483648) mod 4294967296 = sint w + 2147483648" unfolding sint_mod by simp
  also have "(sint w + 2147483648 - int a) mod 4294967296 = sint w + 2147483648 - int a"
    using assms sint_lt [of w] by (intro mod_pos_pos_trivial) simp_all
  finally show ?thesis using assms(1) by simp
qed

definition lagging :: "nat \<Rightarrow> u32 \<Rightarrow> Segment list \<Rightarrow> bool" where
  "lagging A base xs \<longleftrightarrow> (\<forall>s\<in>set xs. - int A \<le> sint (seg_seq s - base))"

lemma lagging_simps [simp]:
  "lagging A base []" "lagging A base (s # xs) \<longleftrightarrow> - int A \<le> sint (seg_seq s - base) \<and> lagging A base xs"
  by (simp_all add: lagging_def)

lemma lagging_advance: "lagging A base xs \<Longrightarrow> A + a < 2147483648 \<Longrightarrow> lagging (A + a) (base + of_nat a) xs"
  using sint_minus_nat by (auto simp: lagging_def diff_diff_eq [symmetric])

lemma drain_loop_lag:
  assumes "lagging A nx xs" and "A + seg_bytes xs \<le> B" and "B < 2147483648"
  shows "\<exists>rest nx' ooo' e A'. drain_loop xs nx ooo asm = Ok (rest, nx', ooo', asm @ e) \<and> lagging A' nx' rest \<and>
    A' + seg_bytes rest \<le> B"
  using assms
proof (induction xs arbitrary: nx ooo asm A)
  case (Cons s xs)
  let ?delta = "sint (seg_seq s - nx)" and ?size = "length (seg_data s)"
  let ?covered = "nat (- ?delta)"
  show ?case
  proof (cases "?delta > 0")
    case True
    then show ?thesis using Cons.prems by (intro exI [of _ "s # xs"] exI [of _ nx] exI [of _ ooo] exI [of _ "[]"] exI [of _ A]) simp
  next
    case False
    have "- int A \<le> ?delta" "A < 2147483648" using Cons.prems by (simp_all add: seg_bytes_def)
    then have no_UB: "?delta \<noteq> - 2147483648" by simp
    show ?thesis
    proof (cases "?covered < ?size")
      case True
      let ?a = "?size - ?covered"
      have "lagging (A + ?a) (nx + of_nat ?a) xs" "A + ?a + seg_bytes xs \<le> B"
        using Cons.prems by (auto intro!: lagging_advance simp: seg_bytes_def)
      from Cons.IH [OF this Cons.prems(3), of "ooo - of_nat ?size" "asm @ drop ?covered (seg_data s)"]
      obtain rest nx' ooo' e A' where "drain_loop xs (nx + of_nat ?a) (ooo - of_nat ?size) (asm @ drop ?covered (seg_data s)) =
          Ok (rest, nx', ooo', (asm @ drop ?covered (seg_data s)) @ e)" "lagging A' nx' rest" "A' + seg_bytes rest \<le> B" by blast
      then show ?thesis using False no_UB True by (auto simp: Let_def)
    next
      case small: False
      have "lagging A nx xs" "A + seg_bytes xs \<le> B" using Cons.prems by (auto simp: seg_bytes_def)
      from Cons.IH [OF this Cons.prems(3)] show ?thesis using False no_UB small by (auto simp: Let_def)
    qed
  qed
qed auto

section \<open>Any history\<close>

text \<open>\<open>B\<close> is what was sent so far: the bytes and one for every segment.\<close>

definition lag_inv :: "nat \<Rightarrow> TcpReassembler \<Rightarrow> bool" where
  "lag_inv B st \<longleftrightarrow> read_pos st \<le> length (assembled st) \<and> (keep_payload st \<and> seeded st \<or> out_of_order st = []) \<and>
     (\<exists>A. A + seg_bytes (out_of_order st) \<le> B \<and> lagging A (next_seq st) (out_of_order st))"

lemma lag_inv_init [simp]: "lag_inv B (TcpReassembler_init \<lparr> keep_payload := keep \<rparr>)" "lag_inv B TcpReassembler_init"
  by (auto simp: lag_inv_def TcpReassembler_init_def)

lemma lag_inv_mono: "lag_inv B st \<Longrightarrow> B \<le> B' \<Longrightarrow> lag_inv B' st"
  unfolding lag_inv_def by (meson le_trans)

lemma lag_inv_state [simp]: "lag_inv B (st \<lparr> state := x \<rparr>) = lag_inv B st"
  by (simp add: lag_inv_def)

lemma lag_inv_idle: "out_of_order st = [] \<Longrightarrow> lag_inv B st \<longleftrightarrow> read_pos st \<le> length (assembled st)"
  by (auto simp: lag_inv_def)

lemma lag_inv_advance:
  assumes "lag_inv B st" and "B + a < 2147483648"
  shows "lag_inv (B + a) (st \<lparr> next_seq := next_seq st + of_nat a \<rparr>)"
proof -
  obtain A where A: "A + seg_bytes (out_of_order st) \<le> B" "lagging A (next_seq st) (out_of_order st)"
    using assms(1) by (auto simp: lag_inv_def)
  have "lagging (A + a) (next_seq st + of_nat a) (out_of_order st)" using lagging_advance [OF A(2)] A(1) assms(2) by simp
  then show ?thesis using assms(1) A(1) by (auto simp: lag_inv_def intro!: exI [of _ "A + a"])
qed

text \<open>Bytes of a segment that is in order, and then whatever of the queue has become contiguous.\<close>

lemma drain_lag:
  assumes "lag_inv B st" and "B + a < 2147483648" and "keep_payload st" "seeded st"
  shows "\<exists>st'. drain (st \<lparr> assembled := assembled st @ new, next_seq := next_seq st + of_nat a \<rparr>) = Ok st' \<and>
    lag_inv (B + a) st' \<and> keep_payload st' \<and> seeded st'"
proof -
  obtain A where A: "A + seg_bytes (out_of_order st) \<le> B + a" "lagging A (next_seq st + of_nat a) (out_of_order st)"
    using lag_inv_advance [OF assms(1,2)] by (auto simp: lag_inv_def)
  obtain rest nx ooo e A' where loop: "drain_loop (out_of_order st) (next_seq st + of_nat a) (ooo_bytes st) (assembled st @ new) =
      Ok (rest, nx, ooo, (assembled st @ new) @ e)" "lagging A' nx rest" "A' + seg_bytes rest \<le> B + a"
    using drain_loop_lag [OF A(2,1) assms(2)] by blast
  then show ?thesis using assms(1,3,4) by (auto simp: drain_def lag_inv_def)
qed

lemma enqueue_lag:
  assumes "lag_inv B st" and "keep_payload st" "seeded st" and "0 < sint (seq - next_seq st)"
  shows "lag_inv (B + length span) (enqueue st seq span)"
proof -
  obtain A where A: "A + seg_bytes (out_of_order st) \<le> B" "lagging A (next_seq st) (out_of_order st)"
    using assms(1) by (auto simp: lag_inv_def)
  let ?q = "out_of_order st"
  define i where "i = lower_bound (\<lambda>s. seg_seq s - next_seq st < seq - next_seq st) ?q 0 (length ?q)"
  have ahead: "- int A \<le> sint (seq - next_seq st)" using assms(4) by simp
  have ins: "seg_bytes (take i ?q @ x # drop i ?q) = seg_bytes ?q + length (seg_data x)" for x
    using seg_bytes_simps(3) [of "take i ?q" "drop i ?q"] by simp
  have upd: "seg_bytes (?q [i := (?q ! i) \<lparr> seg_data := span \<rparr>]) \<le> seg_bytes ?q + length span" if "i < length ?q"
  proof -
    have "?q [i := (?q ! i) \<lparr> seg_data := span \<rparr>] = take i ?q @ (?q ! i) \<lparr> seg_data := span \<rparr> # drop (Suc i) ?q"
      using that by (rule upd_conv_take_nth_drop)
    moreover have "seg_bytes ?q = seg_bytes (take i ?q) + length (seg_data (?q ! i)) + seg_bytes (drop (Suc i) ?q)"
      using id_take_nth_drop [OF that] seg_bytes_simps by (metis add.assoc)
    ultimately show ?thesis by simp
  qed
  have in_upd: "lagging A (next_seq st) (?q [i := (?q ! i) \<lparr> seg_data := span \<rparr>])" if "i < length ?q"
    using A(2) that nth_mem [OF that] set_update_subset_insert [of ?q i "(?q ! i) \<lparr> seg_data := span \<rparr>"]
    by (auto simp: lagging_def)
  have in_ins: "lagging A (next_seq st) (take i ?q @ \<lparr> seg_seq = seq, seg_data = span \<rparr> # drop i ?q)"
    using A(2) ahead by (auto simp: lagging_def dest: in_set_takeD in_set_dropD)
  have keep: "lag_inv (B + length span) (st \<lparr> ooo_bytes := n, out_of_order := xs \<rparr>)"
    "lag_inv (B + length span) (st \<lparr> out_of_order := xs, ooo_bytes := n \<rparr>)"
    if "seg_bytes xs \<le> seg_bytes ?q + length span" "lagging A (next_seq st) xs" for n xs
    using assms(1-3) A that by (auto simp: lag_inv_def intro!: exI [of _ A])
  have same: "lag_inv (B + length span) st" using lag_inv_mono [OF assms(1)] by simp
  show ?thesis
    using keep(1) [OF upd in_upd] keep(2) [OF _ in_ins] ins same
    by (simp add: enqueue_def Let_def i_def [symmetric])
qed

lemma ingest_lag_behind:
  assumes "lag_inv B st" and "B + length span < 2147483648" and "keep_payload st" "seeded st"
    and "seq \<noteq> next_seq st" and "\<not> sint (seq - next_seq st) > 0"
  shows "\<exists>st'. ingest st seq span = Ok st' \<and> lag_inv (B + length span) st'"
proof -
  define overlap where "overlap = next_seq st - seq"
  define size :: u32 where "size = of_nat (length span)"
  have len: "unat size = length span" using assms(2) by (simp add: size_def unat_of_nat_u32)
  have ingest: "ingest st seq span = (if overlap < size then
      bind_res (subspan span (unat overlap)) (\<lambda>tail. drain (st \<lparr> assembled := assembled st @ tail, next_seq := next_seq st + (size - overlap) \<rparr>))
    else Ok st)"
    unfolding ingest_def Let_def overlap_def size_def using assms(3,5,6) by (simp only: if_False if_True simp_thms)
  show ?thesis
  proof (cases "overlap < size")
    case True
    have le: "unat overlap < length span" using True len by (simp add: word_less_nat_alt)
    let ?a = "length span - unat overlap"
    have a: "size - overlap = of_nat ?a" using le by (simp add: size_def of_nat_diff)
    have "B + ?a < 2147483648" using assms(2) by simp
    from drain_lag [OF assms(1) this assms(3,4)] obtain st' where
      st': "drain (st \<lparr> assembled := assembled st @ drop (unat overlap) span, next_seq := next_seq st + of_nat ?a \<rparr>) = Ok st'"
        "lag_inv (B + ?a) st'" by blast
    have "lag_inv (B + length span) st'" using lag_inv_mono [OF st'(2)] by simp
    moreover have "ingest st seq span = Ok st'" unfolding ingest a using True le st'(1) by (simp add: subspan_def)
    ultimately show ?thesis by blast
  next
    case False
    have "lag_inv (B + length span) st" using lag_inv_mono [OF assms(1)] by simp
    moreover have "ingest st seq span = Ok st" unfolding ingest using False by simp
    ultimately show ?thesis by blast
  qed
qed

lemma ingest_lag:
  assumes "lag_inv B st" and "B + length span < 2147483648" and "keep_payload st \<Longrightarrow> seeded st"
  shows "\<exists>st'. ingest st seq span = Ok st' \<and> lag_inv (B + length span) st'"
proof (cases "keep_payload st")
  case False
  then have "out_of_order st = []" using assms(1) by (auto simp: lag_inv_def)
  then have same: "lag_inv (B + length span) (st \<lparr> next_seq := n \<rparr>)" "lag_inv (B + length span) st" for n
    using assms(1) by (simp_all add: lag_inv_idle)
  show ?thesis using False same unfolding ingest_def Let_def by (simp only: not_False_eq_True if_True) (simp split: if_split)
next
  case True
  note kept = True assms(3) [OF True]
  consider "seq = next_seq st" | "seq \<noteq> next_seq st" "sint (seq - next_seq st) > 0"
    | "seq \<noteq> next_seq st" "\<not> sint (seq - next_seq st) > 0" by blast
  then show ?thesis
  proof cases
    case 1
    obtain st' where "drain (st \<lparr> assembled := assembled st @ span, next_seq := next_seq st + of_nat (length span) \<rparr>) = Ok st'"
      "lag_inv (B + length span) st'"
      using drain_lag [OF assms(1,2) kept] by blast
    then show ?thesis using 1 True by (simp add: ingest_def Let_def)
  next
    case 2
    then have "ingest st seq span = Ok (enqueue st seq span)" unfolding ingest_def Let_def using True by (simp only: if_False if_True simp_thms)
    then show ?thesis using enqueue_lag [OF assms(1) kept 2(2)] by blast
  next
    case 3
    then show ?thesis using ingest_lag_behind [OF assms(1,2) kept] by blast
  qed
qed

lemma lag_inv_fin [simp]:
  "lag_inv B (st \<lparr> fin_seen := f \<rparr>) = lag_inv B st" "lag_inv B (st \<lparr> fin_seq := n \<rparr>) = lag_inv B st"
  by (simp_all add: lag_inv_def)

lemma onData_lag:
  assumes "lag_inv B st" and "B + length span + 1 < 2147483648" and "keep_payload st \<Longrightarrow> seeded st"
  shows "\<exists>st'. onData st h span = Ok st' \<and> lag_inv (B + length span + 1) st'"
proof -
  obtain st1 where st1: "ingest st (tcp_seq_number h) span = Ok st1" "lag_inv (B + length span) st1"
    using ingest_lag [OF assms(1) _ assms(3), of span "tcp_seq_number h"] assms(2) by auto
  define st2 where "st2 = (if tcp_fin h then st1 \<lparr> fin_seen := True, fin_seq := tcp_seq_number h + of_nat (length span) \<rparr> else st1)"
  have st2: "lag_inv (B + length span) st2" using st1(2) by (simp add: st2_def)
  have "lag_inv (B + length span + 1) (st2 \<lparr> next_seq := next_seq st2 + 1 \<rparr>)"
    using lag_inv_advance [OF st2, of 1] assms(2) by simp
  then have "lag_inv (B + length span + 1) (st2 \<lparr> next_seq := next_seq st2 + 1, fin_seen := False, state := x \<rparr>)" for x by simp
  moreover have "lag_inv (B + length span + 1) st2" using lag_inv_mono [OF st2] by simp
  ultimately show ?thesis by (simp add: onData_def st1(1) st2_def [symmetric] Let_def del: lag_inv_state lag_inv_fin)
qed

lemma onSent_lag:
  assumes "lag_inv B st" and "B + length span + 1 < 2147483648"
  shows "\<exists>st'. onSent st h span = Ok st' \<and> lag_inv (B + length span + 1) st'"
proof (cases "tcp_rst h \<or> \<not> accepts_data st")
  case True
  have "lag_inv (B + length span + 1) st" using lag_inv_mono [OF assms(1)] by simp
  moreover have "onSent st h span = Ok (if tcp_rst h then st \<lparr> state := Closed \<rparr> else st)"
    using True onSent_idle by (cases "tcp_rst h") (simp add: onSent_def, blast)
  ultimately show ?thesis by simp
next
  case quiet: False
  show ?thesis
  proof (cases "seeded st")
    case True
    have here: "\<exists>st'. onData st h span = Ok st' \<and> lag_inv (B + length span + 1) st'"
      using assms True by (intro onData_lag) simp_all
    have data: "\<exists>st'. onData (st \<lparr> state := x \<rparr>) h span = Ok st' \<and> lag_inv (B + length span + 1) st'" for x
      using assms True by (intro onData_lag) simp_all
    have same: "lag_inv (B + length span + 1) st" using lag_inv_mono [OF assms(1)] by simp
    consider "state st = SynSent" | "state st = Established" | "state st = CloseWait"
      using quiet True by (auto simp: accepts_data_def)
    then show ?thesis
    proof cases
      case 1
      then show ?thesis using quiet True data [of Established] same by (simp add: onSent_def Let_def)
    qed (use quiet True here in \<open>simp_all add: onSent_def\<close>)
  next
    case False
    have queue: "out_of_order st = []" "read_pos st \<le> length (assembled st)" using assms(1) False by (auto simp: lag_inv_def)
    have fresh: "lag_inv B (st \<lparr> next_seq := n, state := x, seeded := True \<rparr>)" "lag_inv B (st \<lparr> next_seq := n, seeded := True, state := x \<rparr>)" for n x
      using queue by (simp_all add: lag_inv_idle)
    have syn: "\<exists>st'. ingest (st \<lparr> next_seq := n, state := x, seeded := True \<rparr>) n span = Ok st' \<and> lag_inv (B + length span + 1) st'" for n x
      using ingest_lag [OF fresh(1), of span x n n] assms(2) lag_inv_mono by fastforce
    have ack: "\<exists>st'. onData (st \<lparr> next_seq := n, seeded := True, state := x \<rparr>) h span = Ok st' \<and> lag_inv (B + length span + 1) st'" for n x
      using fresh(2) assms(2) by (intro onData_lag) simp_all
    have "lag_inv (B + length span + 1) st" using lag_inv_mono [OF assms(1)] by simp
    then show ?thesis using quiet False syn ack by (simp add: onSent_def)
  qed
qed

lemma onReceived_lag: "lag_inv B st \<Longrightarrow> lag_inv B (onReceived st h)"
  using onReceived_state [of st h] by auto

lemma consume_lag: "lag_inv B st \<Longrightarrow> lag_inv B (consume st n)"
  by (auto simp: lag_inv_def consume_def available_def Let_def)

section \<open>Properties\<close>

text \<open>Segments in both directions and reads, in any order.\<close>

datatype conn_event = Sent tcp_Header span | Received tcp_Header | Read nat

fun run_conn :: "TcpReassembler \<Rightarrow> conn_event list \<Rightarrow> TcpReassembler res" where
  "run_conn st [] = Ok st"
| "run_conn st (Sent h span # es) = bind_res (onSent st h span) (\<lambda>st. run_conn st es)"
| "run_conn st (Received h # es) = run_conn (onReceived st h) es"
| "run_conn st (Read n # es) = bind_res (peek st) (\<lambda>_. run_conn (consume st n) es)"

fun sent_size :: "conn_event list \<Rightarrow> nat" where
  "sent_size [] = 0"
| "sent_size (Sent h span # es) = length span + 1 + sent_size es"
| "sent_size (Received h # es) = sent_size es"
| "sent_size (Read n # es) = sent_size es"

text \<open>
  Until \<open>2 ^ 31\<close> bytes and segments were sent there is no undefined behaviour: whatever the flags,
  sequence numbers and payloads are, in whatever order segments and reads come, and also when
  a closed connection accepts data again.
\<close>

theorem any_history_safe:
  assumes "sent_size es < 2147483648"
  shows "\<exists>st. run_conn (TcpReassembler_init \<lparr> keep_payload := keep \<rparr>) es = Ok st"
proof -
  have "\<exists>st'. run_conn st es = Ok st'" if "lag_inv B st" "B + sent_size es < 2147483648" for B st
    using that
  proof (induction st es arbitrary: B rule: run_conn.induct)
    case (2 st h span es)
    obtain st1 where st1: "onSent st h span = Ok st1" "lag_inv (B + length span + 1) st1"
      using onSent_lag [OF 2(2), of span h] 2(3) by auto
    then show ?case using 2(1) [OF st1] 2(3) by simp
  next
    case (3 st h es)
    then show ?case using 3(1) [OF onReceived_lag [OF 3(2)]] by simp
  next
    case (4 st n es)
    have "peek st = Ok (unread st)" using 4(2) by (simp add: peek_def unread_def lag_inv_def)
    then show ?case using 4(1) [OF _ consume_lag [OF 4(2)]] 4(3) by simp
  qed simp
  from this [OF lag_inv_init(1), of 0] assms show ?thesis by simp
qed

text \<open>
  Why such histories occur: \<open>Closed\<close> is also the state of a new connection seen midway, so the
  acknowledgement that closes a direction, when it is repeated, opens it again.
\<close>

lemma closed_reopened:
  assumes "state st = LastAck" and "tcp_ack h" and "\<not> tcp_syn h" "\<not> tcp_fin h" "\<not> tcp_rst h" and "acks_all st h"
  shows "state (onReceived st h) = Closed \<and> state (onReceived (onReceived st h) h) = Established"
  using assms by (simp add: onReceived_def Let_def)

end
