(* ===== verification/Decoder_Safety.thy ===== *)
theory Decoder_Safety
  imports Decoder Reassembly_Any
begin

text \<open>
  The decoder as a whole: the pointers from flows to application states never dangle, packets
  other than HTTP cannot cause undefined behaviour, and a filter has the same effect as removing
  the other packets from the capture.
\<close>

section \<open>The invariant\<close>

text \<open>
  A flow's application state exists, a flow of a key without application decoder keeps no
  payload, and the queues of the reassemblers lag by no more than the \<open>B\<close> bytes that were sent.
\<close>

definition flow_ok :: "nat \<Rightarrow> AppDecoder \<Rightarrow> FlowKey \<Rightarrow> Flow \<Rightarrow> bool" where
  "flow_ok B apps k f \<longleftrightarrow> (\<forall>node. app_state f = Some node \<longrightarrow> map_of apps node \<noteq> None) \<and>
     (\<not> portHasAppDecoder k \<longrightarrow> \<not> keep_payload (fwd_tcp f) \<and> \<not> keep_payload (rev_tcp f)) \<and>
     lag_inv B (fwd_tcp f) \<and> lag_inv B (rev_tcp f)"

definition dec_inv :: "nat \<Rightarrow> Decoder \<Rightarrow> bool" where
  "dec_inv B d \<longleftrightarrow> umap_inv (flows (flowTable d)) \<and> umap_inv (appDecoder d) \<and>
     (\<forall>k f. map_of (flows (flowTable d)) k = Some f \<longrightarrow> flow_ok B (appDecoder d) k f)"

lemma dec_inv_init: "dec_inv B (Decoder_init cfg)"
  by (simp add: dec_inv_def Decoder_init_def FlowTable_init_def umap_inv_def)

lemma flow_ok_mono: "flow_ok B apps k f \<Longrightarrow> B \<le> B' \<Longrightarrow> flow_ok B' apps k f"
  using lag_inv_mono by (auto simp: flow_ok_def)

lemma dec_inv_mono: "dec_inv B d \<Longrightarrow> B \<le> B' \<Longrightarrow> dec_inv B' d"
  using flow_ok_mono by (fastforce simp: dec_inv_def)

text \<open>A TCP packet whose stream is decoded as HTTP; port 53 comes first.\<close>

definition http_stream :: "FlowKey \<Rightarrow> bool" where
  "http_stream k \<longleftrightarrow> fk_src_port k \<noteq> dns_PORT \<and> fk_dst_port k \<noteq> dns_PORT \<and> (fk_src_port k = http_PORT \<or> fk_dst_port k = http_PORT)"

definition http_packet :: "Packet \<Rightarrow> bool" where
  "http_packet p \<longleftrightarrow> isTcp p \<and> (\<exists>k. keyFromPacket p = Ok k \<and> http_stream k)"

lemma normalize_ports:
  "normalize k = (k', dir) \<Longrightarrow> portHasAppDecoder k' = portHasAppDecoder k \<and> http_stream k' = http_stream k"
  by (auto simp: normalize_def portHasAppDecoder_def http_stream_def Let_def split: if_splits)

section \<open>The steps of a packet\<close>

lemma addPacket_flow_ok:
  assumes "addPacket t c = Ok (t', found)" and "umap_inv (flows t)" and "\<And>k f. map_of (flows t) k = Some f \<Longrightarrow> flow_ok B apps k f"
  shows "umap_inv (flows t') \<and> (\<forall>k f. map_of (flows t') k = Some f \<longrightarrow> flow_ok B apps k f) \<and>
    (\<forall>k new. found = Some (k, new) \<longrightarrow> map_of (flows t') k \<noteq> None \<and>
      (\<exists>k0. keyFromPacket (pkt c) = Ok k0 \<and> http_stream k = http_stream k0))"
proof (cases "counted c")
  case False
  then show ?thesis using assms addPacket_not_counted [OF False, of t] by auto
next
  case True
  then obtain k0 where k0: "\<not> isArp (pkt c)" "keyFromPacket (pkt c) = Ok k0" by (auto simp: counted_def)
  obtain k dir where k: "normalize k0 = (k, dir)" by (cases "normalize k0")
  let ?t1 = "prepared t k c"
  let ?f = "touch (ts_us c) dir (ph_incl_len (packetHeader c)) (found_flow ?t1 k (ts_us c))"
  have t': "t' = ?t1 \<lparr> flows := AList.update k ?f (flows ?t1) \<rparr>" "found = Some (k, map_of (flows ?t1) k = None)"
    using assms(1) addPacket_counted [OF k0 k, of t] by (simp_all add: prepared_def Let_def)
  have inv: "umap_inv (flows ?t1)" by (rule prepared_inv [OF assms(2)])
  have old: "map_of (flows ?t1) k' = Some f' \<Longrightarrow> flow_ok B apps k' f'" for k' f'
    using assms(3) umap.find_erase [OF assms(2), of k]
    by (auto simp: prepared_def expire_def split: option.splits if_splits)
  have "flow_ok B apps k (found_flow ?t1 k (ts_us c))"
    using old [of k] by (auto simp: found_flow_def flow_ok_def new_flow_def Flow_init_def Let_def split: option.split)
  then have "flow_ok B apps k ?f" by (simp add: flow_ok_def)
  then show ?thesis
    using inv old umap.inv_assign [OF inv, of k ?f] umap.find_assign [OF inv, of k ?f] k0 normalize_ports [OF k]
    by (auto simp: t')
qed

lemma ingest_light: "\<not> keep_payload st \<Longrightarrow> \<exists>st'. ingest st seq span = Ok st' \<and> \<not> keep_payload st'"
  by (auto simp: ingest_def Let_def)

lemma onData_light: "\<not> keep_payload st \<Longrightarrow> \<exists>st'. onData st h span = Ok st' \<and> \<not> keep_payload st'"
  using ingest_light [of st "tcp_seq_number h" span] by (auto simp: onData_def Let_def)

lemma onSent_light:
  assumes "\<not> keep_payload st"
  shows "\<exists>st'. onSent st h span = Ok st' \<and> \<not> keep_payload st'"
proof -
  have upd: "\<exists>st'. onData st1 h span = Ok st' \<and> \<not> keep_payload st'" if "keep_payload st1 = keep_payload st" for st1
    using onData_light [of st1 h span] assms that by simp
  have "\<exists>st'. ingest st1 seq span = Ok st' \<and> \<not> keep_payload st'" if "keep_payload st1 = keep_payload st" for st1 seq
    using ingest_light [of st1 seq span] assms that by simp
  then show ?thesis using upd assms by (auto simp: onSent_def Let_def split: TcpState.split)
qed

lemma onReceived_light [simp]: "keep_payload (onReceived st h) = keep_payload st"
  using onReceived_state [of st h] by auto

lemma onSent_keeps:
  assumes "lag_inv B st" and "B + length span + 1 < 2147483648"
  shows "\<exists>st'. onSent st h span = Ok st' \<and> lag_inv (B + length span + 1) st' \<and> (\<not> keep_payload st \<longrightarrow> \<not> keep_payload st')"
  using onSent_lag [OF assms, of h] onSent_light [of st h span] by (cases "keep_payload st") auto

lemma reassemble_safe:
  assumes "flow_ok B apps k f" and "B + length (payload p) + 1 < 2147483648"
  shows "\<exists>f'. reassemble p f = Ok f' \<and> flow_ok (B + length (payload p) + 1) apps k f'"
proof (cases "transport p")
  case (Tp_Tcp h)
  have lag: "lag_inv B (fwd_tcp f)" "lag_inv B (rev_tcp f)" using assms(1) by (simp_all add: flow_ok_def)
  obtain a where a: "onSent (fwd_tcp f) h (payload p) = Ok a" "lag_inv (B + length (payload p) + 1) a"
    "\<not> keep_payload (fwd_tcp f) \<longrightarrow> \<not> keep_payload a" using onSent_keeps [OF lag(1) assms(2)] by blast
  obtain b where b: "onSent (rev_tcp f) h (payload p) = Ok b" "lag_inv (B + length (payload p) + 1) b"
    "\<not> keep_payload (rev_tcp f) \<longrightarrow> \<not> keep_payload b" using onSent_keeps [OF lag(2) assms(2)] by blast
  have "lag_inv (B + length (payload p) + 1) (onReceived (fwd_tcp f) h)" "lag_inv (B + length (payload p) + 1) (onReceived (rev_tcp f) h)"
    using lag [THEN onReceived_lag] lag_inv_mono by (meson le_add1 le_trans)+
  then show ?thesis using Tp_Tcp a b assms(1) by (simp add: reassemble_def flow_ok_def)
qed (use flow_ok_mono [OF assms(1)] in \<open>simp_all add: reassemble_def\<close>)

lemma appStateFor_Ok:
  assumes "umap_inv apps" and "\<And>node. app_state f = Some node \<Longrightarrow> map_of apps node \<noteq> None"
  obtains node f1 apps1 where "appStateFor k f new apps = Ok (node, f1, apps1)" "umap_inv apps1" "map_of apps1 node \<noteq> None"
    "\<And>n. map_of apps n \<noteq> None \<Longrightarrow> map_of apps1 n \<noteq> None" "app_state f1 = Some node" "fwd_tcp f1 = fwd_tcp f" "rev_tcp f1 = rev_tcp f"
    "is_reverse f1 = is_reverse f"
proof -
  define node where "node = (case app_state f of None \<Rightarrow> k | Some n \<Rightarrow> n)"
  define apps0 where "apps0 = (if app_state f = None \<and> map_of apps k = None then AList.update k FlowApplications_init apps else apps)"
  define apps1 where "apps1 = (if new then AList.update node FlowApplications_init apps0 else apps0)"
  have inv0: "umap_inv apps0" using assms(1) umap.inv_assign [OF assms(1)] by (simp add: apps0_def)
  have inv1: "umap_inv apps1" using inv0 umap.inv_assign [OF inv0] by (simp add: apps1_def)
  have at0: "map_of apps0 n = (if app_state f = None \<and> map_of apps k = None \<and> n = k then Some FlowApplications_init else map_of apps n)" for n
    using umap.find_assign [OF assms(1)] by (simp add: apps0_def)
  have at1: "map_of apps1 n = (if new \<and> n = node then Some FlowApplications_init else map_of apps0 n)" for n
    using umap.find_assign [OF inv0] by (simp add: apps1_def)
  have there: "map_of apps0 node \<noteq> None"
    using assms(2) by (cases "app_state f") (auto simp: node_def at0)
  have "appStateFor k f new apps = Ok (node, f \<lparr> app_state := Some node \<rparr>, apps1)"
    using there by (cases "app_state f") (auto simp: appStateFor_def node_def apps0_def apps1_def Let_def)
  then show thesis using inv1 there by (intro that [of node "f \<lparr> app_state := Some node \<rparr>" apps1]) (auto simp: at1 at0)
qed

lemma dns_datagram_safe: "\<exists>app' table'. dns_datagram s app table = Ok (app', table')"
  using holds_safe [OF dns_parse_holds [of s Big]]
  by (cases "dns_parse s Big") (auto simp: dns_datagram_def)

lemma node_update:
  assumes "umap_inv apps" and "map_of apps node \<noteq> None"
  shows "umap_inv (AList.update node fa apps)" "map_of (AList.update node fa apps) n \<noteq> None \<longleftrightarrow> map_of apps n \<noteq> None"
  using assms umap.inv_assign [OF assms(1)] umap.find_assign [OF assms(1)] by auto

lemma pollDatagram_safe:
  assumes "umap_inv apps" and "\<And>node. app_state f = Some node \<Longrightarrow> map_of apps node \<noteq> None"
  shows "\<exists>f' apps' table'. pollDatagram k f s new apps table = Ok (f', apps', table') \<and> umap_inv apps' \<and>
    (\<forall>node. map_of apps node \<noteq> None \<longrightarrow> map_of apps' node \<noteq> None) \<and>
    (\<forall>node. app_state f' = Some node \<longrightarrow> map_of apps' node \<noteq> None) \<and> fwd_tcp f' = fwd_tcp f \<and> rev_tcp f' = rev_tcp f"
proof (cases "s = [] \<or> fk_src_port k \<noteq> dns_PORT \<and> fk_dst_port k \<noteq> dns_PORT")
  case True
  then show ?thesis using assms by (auto simp: pollDatagram_def)
next
  case False
  obtain node f1 apps1 where st: "appStateFor k f new apps = Ok (node, f1, apps1)" "umap_inv apps1" "map_of apps1 node \<noteq> None"
    "\<And>n. map_of apps n \<noteq> None \<Longrightarrow> map_of apps1 n \<noteq> None" "app_state f1 = Some node" "fwd_tcp f1 = fwd_tcp f" "rev_tcp f1 = rev_tcp f"
    "is_reverse f1 = is_reverse f"
    using appStateFor_Ok [OF assms] by blast
  obtain fa where fa: "map_of apps1 node = Some fa" using st(3) by auto
  note upd = node_update [OF st(2,3)]
  show ?thesis
    using False st fa upd dns_datagram_safe [of s "fa_rev fa" table] dns_datagram_safe [of s "fa_fwd fa" table]
    by (auto simp: pollDatagram_def node_at_def)
qed

lemma lag_inv_conn: "lag_inv B st \<Longrightarrow> conn_of st' = conn_of st \<Longrightarrow> readable st' \<Longrightarrow> lag_inv B st'"
  by (cases st; cases st') (simp add: lag_inv_def conn_of_def readable_def)

lemma conn_of_keep: "conn_of st' = conn_of st \<Longrightarrow> keep_payload st' = keep_payload st"
  by (cases st; cases st') (simp add: conn_of_def)

lemma pollStream_safe:
  assumes "lag_inv B stream" and "\<not> http_stream key"
  shows "\<exists>stream' app' peer' table'. pollStream key stream app peer table = Ok (stream', app', peer', table') \<and>
    lag_inv B stream' \<and> keep_payload stream' = keep_payload stream"
proof (cases "hasReadableData stream \<and> (fk_src_port key = dns_PORT \<or> fk_dst_port key = dns_PORT)")
  case True
  have "readable stream" using assms(1) by (simp add: lag_inv_def readable_def)
  then obtain q where q: "dns_poll_loop stream app table = Ok q" "dns_polled stream app table q"
    using dns_poll_loop_exact by blast
  obtain s a t where r: "q = (s, a, t)" by (cases q)
  have s: "readable s" "conn_of s = conn_of stream" using q(2) unfolding r dns_polled_def by simp_all
  have "pollStream key stream app peer table = Ok (s, a, peer, t)"
    using True q(1) unfolding r by (simp add: pollStream_def)
  then show ?thesis using lag_inv_conn [OF assms(1) s(2,1)] conn_of_keep [OF s(2)] by blast
next
  case False
  then have "pollStream key stream app peer table = Ok (stream, app, peer, table)"
    using assms(2) unfolding pollStream_def http_stream_def by argo
  then show ?thesis using assms(1) by blast
qed

lemma pollFlow_safe:
  assumes "umap_inv apps" and "flow_ok B apps k f" and "\<not> http_stream k"
  shows "\<exists>f' apps' table'. pollFlow k f new apps table = Ok (f', apps', table') \<and> umap_inv apps' \<and>
    (\<forall>node. map_of apps node \<noteq> None \<longrightarrow> map_of apps' node \<noteq> None) \<and> flow_ok B apps' k f'"
proof (cases "portHasAppDecoder k")
  case False
  then show ?thesis using assms by (auto simp: pollFlow_def portHasAppDecoder_def)
next
  case True
  have state: "\<And>node. app_state f = Some node \<Longrightarrow> map_of apps node \<noteq> None" using assms(2) by (simp add: flow_ok_def)
  obtain node f1 apps1 where st: "appStateFor k f new apps = Ok (node, f1, apps1)" "umap_inv apps1" "map_of apps1 node \<noteq> None"
    "\<And>n. map_of apps n \<noteq> None \<Longrightarrow> map_of apps1 n \<noteq> None" "app_state f1 = Some node" "fwd_tcp f1 = fwd_tcp f" "rev_tcp f1 = rev_tcp f"
    "is_reverse f1 = is_reverse f"
    using appStateFor_Ok [OF assms(1) state] by blast
  obtain fa where fa: "map_of apps1 node = Some fa" using st(3) by auto
  note upd = node_update [OF st(2,3)]
  have lag: "lag_inv B (fwd_tcp f)" "lag_inv B (rev_tcp f)" using assms(2) by (simp_all add: flow_ok_def)
  obtain s a p t where fwd: "pollStream k (fwd_tcp f) (fa_fwd fa) (fa_rev fa) table = Ok (s, a, p, t)" "lag_inv B s"
    using pollStream_safe [OF lag(1) assms(3)] by blast
  obtain s' a' p' t' where rev: "pollStream k (rev_tcp f) (fa_rev fa) (fa_fwd fa) table = Ok (s', a', p', t')" "lag_inv B s'"
    using pollStream_safe [OF lag(2) assms(3)] by blast
  show ?thesis
    using True st fa upd fwd rev lag by (auto simp: pollFlow_def portHasAppDecoder_def node_at_def flow_ok_def)
qed

text \<open>Everything after \<open>addPacket\<close>.\<close>

lemma decode_flow_safe:
  assumes "umap_inv (flows t)" and "umap_inv (appDecoder d)" and "\<And>k f. map_of (flows t) k = Some f \<Longrightarrow> flow_ok B (appDecoder d) k f"
    and "\<And>k new. found = Some (k, new) \<Longrightarrow> map_of (flows t) k \<noteq> None \<and> (isTcp p \<longrightarrow> \<not> http_stream k)"
    and "B + length (payload p) + 1 < 2147483648"
  shows "\<exists>d'. decode_flow p t found d = Ok d' \<and> dec_inv (B + length (payload p) + 1) d'"
proof (cases found)
  case None
  have "dec_inv B (d \<lparr> flowTable := t \<rparr>)" using assms(1-3) by (auto simp: dec_inv_def)
  then show ?thesis using None dec_inv_mono by (fastforce simp: decode_flow_def)
next
  case (Some q)
  let ?B = "B + length (payload p) + 1"
  obtain k new where q: "found = Some (k, new)" using Some by (cases q) auto
  obtain f where f: "map_of (flows t) k = Some f" using assms(4) [OF q] by auto
  obtain f1 where f1: "reassemble p f = Ok f1" "flow_ok ?B (appDecoder d) k f1"
    using reassemble_safe [OF assms(3) [OF f] assms(5)] by blast
  have "\<exists>f2 apps2 table2. app_decode k p f1 new (appDecoder d) (dnsTable d) = Ok (f2, apps2, table2) \<and> umap_inv apps2 \<and>
    (\<forall>node. map_of (appDecoder d) node \<noteq> None \<longrightarrow> map_of apps2 node \<noteq> None) \<and> flow_ok ?B apps2 k f2"
  proof (cases "isTcp p")
    case True
    then show ?thesis using pollFlow_safe [OF assms(2) f1(2)] assms(4) [OF q] by (simp add: app_decode_def)
  next
    case False
    have "\<And>node. app_state f1 = Some node \<Longrightarrow> map_of (appDecoder d) node \<noteq> None" using f1(2) by (simp add: flow_ok_def)
    from pollDatagram_safe [OF assms(2) this] obtain f2 apps2 table2 where
      "pollDatagram k f1 (payload p) new (appDecoder d) (dnsTable d) = Ok (f2, apps2, table2)" "umap_inv apps2"
      "\<forall>node. map_of (appDecoder d) node \<noteq> None \<longrightarrow> map_of apps2 node \<noteq> None"
      "\<forall>node. app_state f2 = Some node \<longrightarrow> map_of apps2 node \<noteq> None" "fwd_tcp f2 = fwd_tcp f1" "rev_tcp f2 = rev_tcp f1" by metis
    then show ?thesis using False assms(2) f1(2) by (cases "isUdp p") (simp_all add: app_decode_def flow_ok_def)
  qed
  then obtain f2 apps2 table2 where f2: "app_decode k p f1 new (appDecoder d) (dnsTable d) = Ok (f2, apps2, table2)" "umap_inv apps2"
    "\<And>node. map_of (appDecoder d) node \<noteq> None \<Longrightarrow> map_of apps2 node \<noteq> None" "flow_ok ?B apps2 k f2" by blast
  have mono: "flow_ok ?B apps2 k' f'" if "map_of (flows t) k' = Some f'" for k' f'
    using flow_ok_mono [OF assms(3) [OF that], of ?B] f2(3) by (auto simp: flow_ok_def)
  show ?thesis
    using umap.inv_assign [OF assms(1), of k f2] umap.find_assign [OF assms(1), of k f2] f2(2,4) mono
    by (auto simp: decode_flow_def q f f1(1) f2(1) dec_inv_def)
qed

section \<open>Runs\<close>

text \<open>Whether a captured frame decodes to a packet of an HTTP stream.\<close>

definition http_frame :: "bool \<Rightarrow> span \<times> Capture \<Rightarrow> bool" where
  "http_frame verify fr = (case fr of (s, c) \<Rightarrow>
     case decodePacket s (Packet_reset (pkt c)) verify of Ok (p, _) \<Rightarrow> http_packet p | _ \<Rightarrow> False)"

lemma payload_bound:
  assumes "decodePacket s (Packet_reset p0) verify = Ok (p, rest)" and "\<not> isArp p"
  shows "length (payload p) \<le> length s"
proof -
  have "Packet_wf s p" using assms(1) holds_decodePacket [of "Packet_reset p0" s verify] by (simp add: Packet_reset_def)
  then show ?thesis using assms(2)
    by (auto simp: Packet_wf_def isArp_def dest: sublist_length_le split: NetworkHeader.splits)
qed

lemma decode_safe:
  assumes "dec_inv B d" and "\<not> http_frame (verify_checksum (config d)) (s, c)" and "B + length s + 1 < 2147483648"
  shows "holds (\<lambda>(c', d'). dec_inv (B + length s + 1) d' \<and> config d' = config d) (decode s c d)"
proof -
  let ?c = "c \<lparr> pkt := Packet_reset (pkt c) \<rparr>" and ?v = "verify_checksum (config d)"
  show ?thesis
  proof (cases "decodePacket s (Packet_reset (pkt c)) ?v")
    case UB
    then show ?thesis
      using holds_decodePacket [of "Packet_reset (pkt c)" s ?v] by (simp add: Packet_reset_def)
  next
    case (Err e)
    then show ?thesis by (simp add: decode_def)
  next
    case (Ok q)
    obtain p rest where q: "q = (p, rest)" by (cases q)
    have quiet: "\<not> http_packet p" using assms(2) Ok q by (simp add: http_frame_def)
    let ?cp = "?c \<lparr> pkt := p \<rparr>"
    show ?thesis
    proof (cases "passes_filter (cfg_filter (config d)) p")
      case False
      then show ?thesis using Ok q by (simp add: decode_def Let_def)
    next
      case True
      show ?thesis
      proof (cases "addPacket (flowTable d) ?cp")
        case UB
        then show ?thesis by (cases "keyFromPacket p") (auto simp: addPacket_def Let_def split: if_splits prod.splits)
      next
        case (Err e)
        then show ?thesis using Ok q True by (simp add: decode_def Let_def)
      next
        case added: (Ok a)
        obtain t found where a: "a = (t, found)" by (cases a)
        note add = addPacket_flow_ok [OF added [unfolded a], of B "appDecoder d"]
        have inv: "umap_inv (flows (flowTable d))" "umap_inv (appDecoder d)"
          "\<And>k f. map_of (flows (flowTable d)) k = Some f \<Longrightarrow> flow_ok B (appDecoder d) k f"
          using assms(1) by (simp_all add: dec_inv_def)
        have table: "umap_inv (flows t)" "\<And>k f. map_of (flows t) k = Some f \<Longrightarrow> flow_ok B (appDecoder d) k f"
          "\<And>k new. found = Some (k, new) \<Longrightarrow> map_of (flows t) k \<noteq> None \<and> (isTcp p \<longrightarrow> \<not> http_stream k)"
          using add [OF inv(1,3)] quiet by (auto simp: http_packet_def)
        have "\<exists>d'. decode_flow p t found d = Ok d' \<and> dec_inv (B + length s + 1) d'"
        proof (cases "isArp p")
          case True
          then have "found = None" using added a by (simp add: addPacket_def)
          moreover have "dec_inv B (d \<lparr> flowTable := t \<rparr>)" using table(1,2) inv(2) by (simp add: dec_inv_def)
          then have "dec_inv (B + length s + 1) (d \<lparr> flowTable := t \<rparr>)" by (rule dec_inv_mono) simp
          ultimately show ?thesis by (simp add: decode_flow_def)
        next
          case False
          have le: "length (payload p) \<le> length s" using payload_bound Ok q False by blast
          have "\<exists>d'. decode_flow p t found d = Ok d' \<and> dec_inv (B + length (payload p) + 1) d'"
            using assms(3) le by (intro decode_flow_safe [OF table(1) inv(2) table(2,3)]) simp_all
          then obtain d' where d': "decode_flow p t found d = Ok d'" "dec_inv (B + length (payload p) + 1) d'" by blast
          have "dec_inv (B + length s + 1) d'" by (rule dec_inv_mono [OF d'(2)]) (simp add: le)
          then show ?thesis using d'(1) by blast
        qed
        then obtain d' where d': "decode_flow p t found d = Ok d'" "dec_inv (B + length s + 1) d'" by blast
        have "config d' = config d" using d'(1) by (auto simp: decode_flow_def bind_res_Ok_iff split: option.splits)
        moreover have "decode s c d = Ok (?cp, d' \<lparr> decoded := decoded d' + 1 \<rparr>)"
          using Ok q True added a d'(1) by (simp add: decode_def Let_def)
        moreover have "dec_inv (B + length s + 1) (d' \<lparr> decoded := decoded d' + 1 \<rparr>)" using d'(2) by (simp add: dec_inv_def)
        ultimately show ?thesis by simp
      qed
    qed
  qed
qed

text \<open>The frames of a capture in turn; a frame that is rejected leaves the decoder as it was.\<close>

fun run_frames :: "Decoder \<Rightarrow> (span \<times> Capture) list \<Rightarrow> Decoder res" where
  "run_frames d [] = Ok d"
| "run_frames d ((s, c) # frames) =
     (case decode s c d of UB \<Rightarrow> UB | Err _ \<Rightarrow> run_frames d frames | Ok (_, d') \<Rightarrow> run_frames d' frames)"

text \<open>The bytes of the frames and one for each.\<close>

definition frames_size :: "(span \<times> Capture) list \<Rightarrow> nat" where
  "frames_size frames = sum_list (map (\<lambda>(s, c). length s + 1) frames)"

lemma run_frames_safe:
  assumes "dec_inv B d" and "list_all (\<lambda>fr. \<not> http_frame (verify_checksum (config d)) fr) frames"
    and "B + frames_size frames < 2147483648"
  shows "\<exists>d'. run_frames d frames = Ok d' \<and> dec_inv (B + frames_size frames) d'"
  using assms
proof (induction frames arbitrary: d B)
  case (Cons fr frames)
  obtain s c where fr: "fr = (s, c)" by (cases fr)
  let ?B = "B + length s + 1"
  have size: "B + frames_size (fr # frames) = ?B + frames_size frames" by (simp add: frames_size_def fr)
  have step: "holds (\<lambda>(c', d'). dec_inv ?B d' \<and> config d' = config d) (decode s c d)"
    using Cons.prems size by (intro decode_safe) (simp_all add: fr)
  show ?case
  proof (cases "decode s c d")
    case (Err e)
    have "dec_inv ?B d" using dec_inv_mono [OF Cons.prems(1)] by simp
    then show ?thesis using Cons.IH [of ?B d] Cons.prems(2,3) Err fr unfolding size by simp
  next
    case (Ok q)
    obtain c' d' where q: "q = (c', d')" by (cases q)
    then have "dec_inv ?B d'" "config d' = config d" using step Ok by simp_all
    then show ?thesis using Cons.IH [of ?B d'] Cons.prems(2,3) Ok q fr unfolding size by simp
  qed (use step in simp)
qed (simp add: frames_size_def)

definition unfiltered :: "Config \<Rightarrow> Config" where
  "unfiltered cfg = cfg \<lparr> cfg_filter := FlowKey_zero \<rparr>"

definition frame_passes :: "Config \<Rightarrow> span \<times> Capture \<Rightarrow> bool" where
  "frame_passes cfg fr = (case fr of (s, c) \<Rightarrow>
     case decodePacket s (Packet_reset (pkt c)) (verify_checksum cfg) of Ok (p, _) \<Rightarrow> passes_filter (cfg_filter cfg) p | _ \<Rightarrow> True)"

lemma passes_zero [simp]: "passes_filter FlowKey_zero p"
  by (simp add: passes_filter_def isNonZero_def FlowKey_zero_def anyNonZero_def list_ex_iff)

lemma config_last:
  "d \<lparr> config := cfg, flowTable := t \<rparr> = d \<lparr> flowTable := t, config := cfg \<rparr>"
  "d \<lparr> config := cfg, appDecoder := a \<rparr> = d \<lparr> appDecoder := a, config := cfg \<rparr>"
  "d \<lparr> config := cfg, dnsTable := n \<rparr> = d \<lparr> dnsTable := n, config := cfg \<rparr>"
  "d \<lparr> config := cfg, decoded := m \<rparr> = d \<lparr> decoded := m, config := cfg \<rparr>"
  by simp_all

lemma decode_flow_config:
  "decode_flow p t found (d \<lparr> config := cfg \<rparr>) = bind_res (decode_flow p t found d) (\<lambda>d. Ok (d \<lparr> config := cfg \<rparr>))"
  by (auto simp: decode_flow_def bind_res_assoc case_prod_unfold config_last split: option.split)

lemma decode_unfiltered:
  assumes "frame_passes (config d) (s, c)"
  shows "decode s c (d \<lparr> config := unfiltered (config d) \<rparr>) =
    bind_res (decode s c d) (\<lambda>(c', d'). Ok (c', d' \<lparr> config := unfiltered (config d) \<rparr>))"
proof (cases "decodePacket s (Packet_reset (pkt c)) (verify_checksum (config d))")
  case (Ok q)
  obtain p rest where "q = (p, rest)" by (cases q)
  then show ?thesis using assms Ok
    by (simp add: decode_def frame_passes_def unfiltered_def Let_def bind_res_assoc case_prod_unfold decode_flow_config config_last)
qed (simp_all add: decode_def unfiltered_def)

lemma decode_filtered: "\<not> frame_passes (config d) (s, c) \<Longrightarrow> decode s c d = Err Filtered"
  by (auto simp: decode_def frame_passes_def Let_def split: res.splits prod.splits)

lemma decode_config: "decode s c d = Ok (c', d') \<Longrightarrow> config d' = config d"
proof -
  have "decode_flow p t found d = Ok d' \<Longrightarrow> config d' = config d" for p t found d'
    by (auto simp: decode_flow_def bind_res_Ok_iff split: option.splits)
  then show "decode s c d = Ok (c', d') \<Longrightarrow> config d' = config d"
    by (fastforce simp: decode_def bind_res_Ok_iff Let_def split: if_splits)
qed

section \<open>Properties\<close>



text \<open>
  C5. A filter is the same as a smaller capture: decoding with a filter ends in the same flows,
  names, messages and count of decoded packets as decoding, without filter, only the frames
  that pass it.
\<close>

theorem filter_is_removal:
  "bind_res (run_frames d frames) (\<lambda>d'. Ok (d' \<lparr> config := unfiltered (config d) \<rparr>)) =
   run_frames (d \<lparr> config := unfiltered (config d) \<rparr>) (filter (frame_passes (config d)) frames)"
proof (induction frames arbitrary: d)
  case (Cons fr frames)
  obtain s c where fr: "fr = (s, c)" by (cases fr)
  show ?case
  proof (cases "frame_passes (config d) (s, c)")
    case False
    then show ?thesis using Cons.IH [of d] decode_filtered [OF False] by (simp add: fr)
  next
    case True
    note same = decode_unfiltered [OF True]
    show ?thesis
    proof (cases "decode s c d")
      case (Ok q)
      obtain c' d' where q: "q = (c', d')" by (cases q)
      have "config d' = config d" using decode_config Ok q by simp
      then show ?thesis using Cons.IH [of d'] same Ok q True by (simp add: fr)
    qed (use Cons.IH [of d] same True in \<open>simp_all add: fr\<close>)
  qed
qed simp

end
