(* ===== verification/Reader_Timing.thy ===== *)
theory Reader_Timing
  imports Timed_Reader
begin

text \<open>
  The stopwatches of a reading: they are nested as the report indents them, each record makes
  one call of every phase it passes through, and the times of the inner phases add up to no more than the
  outer one.
\<close>

section \<open>Nesting\<close>

fun phase_parent :: "Phase \<Rightarrow> Phase option" where
  "phase_parent Total = None"
| "phase_parent FileHeaderPhase = None"
| "phase_parent PacketHeaderPhase = Some Total"
| "phase_parent DecodePhase = Some Total"
| "phase_parent DecodePacketPhase = Some DecodePhase"
| "phase_parent FlowLookup = Some DecodePhase"
| "phase_parent TcpReassembly = Some DecodePhase"
| "phase_parent AppDecode = Some DecodePhase"

definition innermost :: "Phase list \<Rightarrow> Phase option" where
  "innermost st = (case st of [] \<Rightarrow> None | p # _ \<Rightarrow> Some p)"

lemma innermost_simps [simp]: "innermost [] = None" "innermost (p # st) = Some p"
  by (simp_all add: innermost_def)

text \<open>The running stopwatches are a stack: one starts inside its parent, and the innermost one stops.\<close>

fun watches :: "tick list \<Rightarrow> Phase list \<Rightarrow> Phase list option" where
  "watches [] st = Some st"
| "watches (Start p # t) st = (if phase_parent p = innermost st then watches t (p # st) else None)"
| "watches (Stop p # t) st = (if innermost st = Some p then watches t (List.tl st) else None)"

lemma watches_append: "watches (s @ t) st = Option.bind (watches s st) (watches t)"
  by (induction s st rule: watches.induct) auto

definition balanced :: "Phase list \<Rightarrow> 'a timed \<Rightarrow> bool" where
  "balanced st m \<longleftrightarrow> (snd m \<noteq> UB \<longrightarrow> watches (fst m) st = Some st)"

lemma balanced_untimed [simp]: "balanced st (untimed m)"
  by (simp add: balanced_def untimed_def)

lemma balanced_bind:
  "balanced st m \<Longrightarrow> (\<And>x. snd m = Ok x \<Longrightarrow> balanced st (f x)) \<Longrightarrow> balanced st (bind_timed m f)"
  by (cases m) (auto simp: balanced_def bind_timed_def watches_append split: res.split)

lemma balanced_stopwatch:
  "phase_parent p = innermost st \<Longrightarrow> balanced (p # st) m \<Longrightarrow> balanced st (stopwatch p m)"
  by (cases m) (auto simp: balanced_def stopwatch_def watches_append split: res.split)

lemma balanced_decode: "balanced (DecodePhase # st) (decode_timed s c d)"
  unfolding decode_timed_def decode_flow_timed_def Let_def
  by (auto intro!: balanced_bind balanced_stopwatch split: prod.split option.split)

lemma fst_read_record_timed:
  "fst (read_record_timed r h s) = fst (stopwatch DecodePhase (decode_timed s (next_capture r h) (rd_decoder r)))"
  by (auto simp: read_record_timed_def Let_def split: prod.split res.split)

lemma read_record_UB: "read_record r h s = UB \<longleftrightarrow> decode s (next_capture r h) (rd_decoder r) = UB"
  by (auto simp: read_record_alt split: res.split)

lemma balanced_read_record: "balanced [Total] (read_record_timed r h s)"
  using balanced_stopwatch [OF _ balanced_decode, of "[Total]"]
  by (auto simp: balanced_def fst_read_record_timed read_record_UB)

section \<open>One record after the other\<close>

lemma bind_timed_assoc: "bind_timed (bind_timed m f) g = bind_timed m (\<lambda>x. bind_timed (f x) g)"
  by (cases m) (auto simp: bind_timed_def split: prod.split res.split)

lemma fst_bind_cong: "(\<And>x. snd m = Ok x \<Longrightarrow> fst (f x) = fst (g x)) \<Longrightarrow> fst (bind_timed m f) = fst (bind_timed m g)"
  by (cases m) (auto simp: bind_timed_def split: res.split)

lemma fst_bind_untimed: "fst (bind_timed m (\<lambda>x. untimed (f x))) = fst m"
  by (cases m) (auto simp: bind_timed_def untimed_def split: res.split)

abbreviation header_ticks :: "tick list" where "header_ticks \<equiv> [Start PacketHeaderPhase, Stop PacketHeaderPhase]"

lemma fst_read_loop:
  assumes "rd_header_err r = NoError"
  shows "fst (read_loop_timed r) =
     (if length (rd_span r) < 16 then []
      else case parse_PacketHeader (rd_span r) (rd_endian r) of
          UB \<Rightarrow> [Start PacketHeaderPhase]
        | Err e \<Rightarrow> header_ticks
        | Ok (h, span) \<Rightarrow>
            if length span < unat (ph_incl_len h) then header_ticks
            else header_ticks @ fst (bind_timed
              (read_record_timed (r \<lparr> rd_span := drop (unat (ph_incl_len h)) span \<rparr>) h (take (unat (ph_incl_len h)) span))
              (\<lambda>(ok, r1). read_loop_timed r1)))"
proof (cases "length (rd_span r) < 16")
  case True
  then show ?thesis using assms
    by (simp add: read_loop_timed.simps [of r] readPacket_timed_def readPacket_loop_timed.simps [of r] PACKET_HEADER_LEN_def)
next
  case long: False
  note unfold_loops = read_loop_timed.simps [of r] readPacket_timed_def readPacket_loop_timed.simps [of r] PACKET_HEADER_LEN_def
  show ?thesis
  proof (cases "parse_PacketHeader (rd_span r) (rd_endian r)")
    case (Err e)
    then have "e \<noteq> NoError" by auto
    then show ?thesis using assms long Err by (simp add: unfold_loops)
  next
    case (Ok q)
    obtain h span where q: "q = (h, span)" by (cases q)
    let ?n = "unat (ph_incl_len h)"
    let ?rr = "read_record_timed (r \<lparr> rd_span := drop ?n span \<rparr>) h (take ?n span)"
    show ?thesis
    proof (cases "length span < ?n")
      case True
      then show ?thesis using assms long Ok q by (simp add: unfold_loops Let_def)
    next
      case False
      let ?G = "\<lambda>(e, r). if e = NoError then
          bind_timed (read_loop_timed r) (\<lambda>(seen, e, r'). untimed (Ok ((decoded (rd_decoder r), rd_capture r) # seen, e, r')))
        else untimed (Ok ([], e, r))"
      have "fst (bind_timed ?rr (\<lambda>(ok, r1). bind_timed (if \<not> ok then readPacket_loop_timed r1 else untimed (Ok (NoError, r1))) ?G)) =
          fst (bind_timed ?rr (\<lambda>(ok, r1). read_loop_timed r1))"
      proof (rule fst_bind_cong)
        fix x assume x: "snd ?rr = Ok x"
        obtain ok r1 where okr: "x = (ok, r1)" by (cases x)
        have "rd_header_err r1 = NoError" using x okr assms read_record_keeps(1) by fastforce
        then have one: "read_loop_timed r1 = bind_timed (readPacket_loop_timed r1) ?G"
          by (subst read_loop_timed.simps) (simp add: readPacket_timed_def)
        show "fst ((\<lambda>(ok, r1). bind_timed (if \<not> ok then readPacket_loop_timed r1 else untimed (Ok (NoError, r1))) ?G) x) =
          fst ((\<lambda>(ok, r1). read_loop_timed r1) x)"
          using one by (simp add: okr fst_bind_untimed case_prod_unfold)
      qed
      then show ?thesis using assms long Ok q False
        by (simp add: unfold_loops Let_def bind_timed_assoc case_prod_unfold)
    qed
  qed (use assms long in \<open>simp add: unfold_loops\<close>)
qed

text \<open>What is left of the bytes after the complete records.\<close>

definition unread_bytes :: "Endian \<Rightarrow> span \<Rightarrow> span" where
  "unread_bytes endian s = drop (sum_list (map (\<lambda>(h, b). 16 + length b) (fst (records endian s)))) s"

definition record_trace :: "tick list \<Rightarrow> bool" where
  "record_trace t \<longleftrightarrow> (\<exists>r h s. read_record r h s \<noteq> UB \<and> t = header_ticks @ fst (read_record_timed r h s))"

lemma read_loop_trace:
  assumes "rd_header_err r = NoError" and "readAllPackets r \<noteq> UB"
  shows "\<exists>ts. length ts = length (fst (records (rd_endian r) (rd_span r))) \<and> list_all record_trace ts \<and>
    fst (read_loop_timed r) = concat ts @ (if length (unread_bytes (rd_endian r) (rd_span r)) < 16 then [] else header_ticks)"
  using assms
proof (induction "length (rd_span r)" arbitrary: r rule: less_induct)
  case less
  note prems = less.prems
  show ?case
  proof (cases "length (rd_span r) < 16")
    case True
    then show ?thesis by (simp add: fst_read_loop [OF prems(1)] records.simps [of _ "rd_span r"] unread_bytes_def)
  next
    case long: False
    show ?thesis
    proof (cases "parse_PacketHeader (rd_span r) (rd_endian r)")
      case UB
      then show ?thesis by (simp add: packet_header.safe)
    next
      case (Err e)
      then show ?thesis using long by (simp add: fst_read_loop [OF prems(1)] records.simps [of _ "rd_span r"] unread_bytes_def)
    next
      case (Ok q)
      obtain h span where q: "q = (h, span)" by (cases q)
      have span: "span = drop 16 (rd_span r)" using parse_PacketHeader_Ok Ok q by metis
      let ?n = "unat (ph_incl_len h)"
      show ?thesis
      proof (cases "length span < ?n")
        case True
        then show ?thesis using long Ok q
          by (simp add: fst_read_loop [OF prems(1)] records.simps [of _ "rd_span r"] unread_bytes_def Let_def)
      next
        case False
        let ?r = "r \<lparr> rd_span := drop ?n span \<rparr>"
        have all: "readAllPackets r = bind_res (read_record ?r h (take ?n span)) (\<lambda>(ok, r1).
              bind_res (readAllPackets r1) (\<lambda>(seen, e, r2).
              Ok ((if ok then [(decoded (rd_decoder r1), rd_capture r1)] else []) @ seen, e, r2)))"
          using long Ok q False by (simp add: readAllPackets_record [OF prems(1)])
        have no_UB: "read_record ?r h (take ?n span) \<noteq> UB" using all prems(2) by auto
        moreover have "read_record ?r h (take ?n span) \<noteq> Err e" for e
          by (auto simp: read_record_alt split: res.split prod.split)
        ultimately obtain ok r1 where r1: "read_record ?r h (take ?n span) = Ok (ok, r1)" by (metis res.exhaust surj_pair)
        have keeps: "rd_header_err r1 = NoError" "rd_endian r1 = rd_endian r" "rd_span r1 = drop ?n span"
          using read_record_keeps [OF r1] prems(1) by simp_all
        have shorter: "length (rd_span r1) < length (rd_span r)" using keeps(3) long span by simp
        have rest: "readAllPackets r1 \<noteq> UB" using all r1 prems(2) by auto
        obtain ts where ts: "length ts = length (fst (records (rd_endian r) (drop ?n span)))" "list_all record_trace ts"
          "fst (read_loop_timed r1) = concat ts @ (if length (unread_bytes (rd_endian r) (drop ?n span)) < 16 then [] else header_ticks)"
          using less.hyps [OF shorter keeps(1) rest] unfolding keeps(2,3) by blast
        let ?t = "header_ticks @ fst (read_record_timed ?r h (take ?n span))"
        have recs: "fst (records (rd_endian r) (rd_span r)) = (h, take ?n span) # fst (records (rd_endian r) (drop ?n span))"
          using long Ok q False by (simp add: records.simps [of _ "rd_span r"] Let_def case_prod_unfold)
        have "unread_bytes (rd_endian r) (rd_span r) = unread_bytes (rd_endian r) (drop ?n span)"
          using False span by (simp add: unread_bytes_def recs min_def ac_simps)
        moreover have "fst (read_loop_timed r) = ?t @ fst (read_loop_timed r1)"
          using long Ok q False r1 snd_read_record_timed [of ?r h "take ?n span"]
          by (cases "read_record_timed ?r h (take ?n span)") (simp add: fst_read_loop [OF prems(1)] bind_timed_def)
        moreover have "record_trace ?t" using no_UB by (auto simp: record_trace_def)
        ultimately show ?thesis using ts recs by (intro exI [of _ "?t # ts"]) simp
      qed
    qed
  qed
qed

section \<open>Calls\<close>

definition starts :: "Phase \<Rightarrow> tick list \<Rightarrow> nat" where "starts p t = count_list t (Start p)"
definition stops :: "Phase \<Rightarrow> tick list \<Rightarrow> nat" where "stops p t = count_list t (Stop p)"

lemma starts_simps [simp]:
  "starts p [] = 0" "starts p (Start q # t) = (if q = p then 1 else 0) + starts p t" "starts p (Stop q # t) = starts p t"
  "starts p (s @ t) = starts p s + starts p t"
  by (auto simp: starts_def)

lemma starts_stopwatch: "starts p (fst (stopwatch q m)) = (if q = p then 1 else 0) + starts p (fst m)"
  by (cases m) (auto simp: stopwatch_def split: res.split)

lemma starts_bind:
  "starts p (fst (bind_timed m f)) = starts p (fst m) + (case snd m of Ok x \<Rightarrow> starts p (fst (f x)) | _ \<Rightarrow> 0)"
  by (cases m) (auto simp: bind_timed_def split: res.split)

lemmas starts_timed = starts_stopwatch starts_bind

text \<open>Of the phases of a record the decoding of the packet is always there, the later ones when it gets that far.\<close>

lemma starts_decode:
  "starts p (fst (decode_timed s c d)) =
     (if p = DecodePacketPhase then 1 else if phase_parent p = Some DecodePhase then starts p (fst (decode_timed s c d)) else 0)"
  "starts FlowLookup (fst (decode_timed s c d)) \<le> 1"
  "starts AppDecode (fst (decode_timed s c d)) \<le> starts FlowLookup (fst (decode_timed s c d))"
  "starts TcpReassembly (fst (decode_timed s c d)) \<le> starts FlowLookup (fst (decode_timed s c d))"
  by (cases p; auto simp: decode_timed_def decode_flow_timed_def Let_def starts_timed split: res.split prod.split option.split)
     (auto simp: decode_timed_def decode_flow_timed_def Let_def starts_timed split: res.split prod.split option.split)

lemma starts_record:
  assumes "record_trace t"
  shows "starts p t = (if p \<in> {PacketHeaderPhase, DecodePhase, DecodePacketPhase} then 1
      else if p \<in> {Total, FileHeaderPhase} then 0 else starts p t)"
    and "starts FlowLookup t \<le> 1" and "starts AppDecode t \<le> starts FlowLookup t"
    and "starts TcpReassembly t \<le> starts FlowLookup t"
  using assms starts_decode(2-4) starts_decode(1) [of p]
  by (auto simp: record_trace_def fst_read_record_timed starts_stopwatch split: if_splits)

lemma starts_records:
  assumes "list_all record_trace ts"
  shows "p \<in> {PacketHeaderPhase, DecodePhase, DecodePacketPhase} \<Longrightarrow> starts p (concat ts) = length ts"
    and "p \<in> {Total, FileHeaderPhase} \<Longrightarrow> starts p (concat ts) = 0"
    and "starts FlowLookup (concat ts) \<le> length ts"
    and "starts AppDecode (concat ts) \<le> starts FlowLookup (concat ts)"
    and "starts TcpReassembly (concat ts) \<le> starts FlowLookup (concat ts)"
  using assms
proof (induction ts)
  case (Cons t ts)
  { case 1 then show ?case using Cons starts_record(1) [of t p] by auto }
  { case 2 then show ?case using Cons starts_record(1) [of t p] by auto }
  { case 3 then show ?case using Cons starts_record(2) [of t] by auto }
  { case 4 then show ?case using Cons starts_record(3) [of t] by auto }
  { case 5 then show ?case using Cons starts_record(4) [of t] by auto }
qed auto

lemma watches_records: "list_all record_trace ts \<Longrightarrow> watches (concat ts) [Total] = Some [Total]"
proof (induction ts)
  case (Cons t ts)
  then show ?case using balanced_read_record
    by (auto simp: record_trace_def watches_append balanced_def)
qed simp

section \<open>The state of the stopwatches\<close>

text \<open>What the stack of running stopwatches can be.\<close>

fun chain :: "Phase list \<Rightarrow> bool" where
  "chain [] = True"
| "chain (p # st) = (phase_parent p = innermost st \<and> chain st)"

lemma chain_cases:
  assumes "chain st"
  obtains "st = []" | "st = [Total]" | "st = [FileHeaderPhase]" | "st = [PacketHeaderPhase, Total]" | "st = [DecodePhase, Total]"
    | p where "phase_parent p = Some DecodePhase" "st = [p, DecodePhase, Total]"
proof -
  have "st = [] \<or> st = [Total] \<or> st = [FileHeaderPhase] \<or> st = [PacketHeaderPhase, Total] \<or> st = [DecodePhase, Total] \<or>
      (\<exists>p. phase_parent p = Some DecodePhase \<and> st = [p, DecodePhase, Total])"
    using assms
  proof (induction st)
    case (Cons p st)
    then have parent: "phase_parent p = innermost st" and "chain st" by simp_all
    then show ?case using Cons.IH by (cases p) auto
  qed simp
  then show thesis using that by blast
qed

lemma chain_distinct: "chain st \<Longrightarrow> distinct st"
  by (erule chain_cases) auto

lemma watches_chain: "watches t st = Some st' \<Longrightarrow> chain st \<Longrightarrow> chain st'"
proof (induction t st rule: watches.induct)
  case (3 p t st)
  then show ?case by (cases st) (auto split: if_splits)
qed (auto split: if_splits)

lemma watches_stops: "watches t st = Some st' \<Longrightarrow> stops p t + count_list st' p = starts p t + count_list st p"
proof (induction t st rule: watches.induct)
  case (3 q t st)
  then show ?case by (cases st) (auto simp: stops_def split: if_splits)
qed (auto simp: stops_def split: if_splits)

definition running_are :: "Benchmark \<Rightarrow> Phase list \<Rightarrow> bool" where
  "running_are b st \<longleftrightarrow> bm_detailed b \<and> (\<forall>p. ph_running (phases b p) \<longleftrightarrow> p \<in> set st)"

lemma running_start: "running_are b st \<Longrightarrow> running_are (Benchmark_start p now b) (p # st)"
  by (auto simp: running_are_def Benchmark_start_def)

lemma running_stop: "running_are b (p # st) \<Longrightarrow> distinct (p # st) \<Longrightarrow> running_are (Benchmark_stop p now b) st"
  by (auto simp: running_are_def Benchmark_stop_def Let_def)

lemma run_ticks_calls:
  assumes "watches t st = Some st'" and "running_are b st" and "chain st"
  shows "running_are (run_ticks clock n t b) st' \<and> bm_calls (run_ticks clock n t b) p = bm_calls b p + of_nat (stops p t)"
  using assms
proof (induction clock n t b arbitrary: st rule: run_ticks.induct)
  case (2 clock n q t b)
  then have parent: "phase_parent q = innermost st" and rest: "watches t (q # st) = Some st'" by (auto split: if_splits)
  have "bm_calls (Benchmark_start q (clock n) b) p = bm_calls b p"
    by (simp add: Benchmark_start_def bm_calls_def phase_stats_def)
  then show ?case using 2(1) [OF rest running_start [OF 2(3)]] 2(4) parent by (simp add: stops_def)
next
  case (3 clock n q t b)
  then obtain st1 where st1: "st = q # st1" "watches t st1 = Some st'" by (cases st) (auto split: if_splits)
  have d: "distinct (q # st1)" using chain_distinct 3(4) st1(1) by blast
  have "bm_calls (Benchmark_stop q (clock n) b) p = bm_calls b p + (if q = p then 1 else 0)"
    using 3(3) st1 by (auto simp: Benchmark_stop_def bm_calls_def phase_stats_def running_are_def Let_def)
  then show ?case using 3(1) [OF st1(2) running_stop [OF _ d]] 3(3,4) st1(1) by (auto simp: stops_def)
qed (simp add: stops_def)

section \<open>Times\<close>

text \<open>The time of a phase up to now, with that of the running call.\<close>

definition spent :: "Benchmark \<Rightarrow> Phase list \<Rightarrow> u64 \<Rightarrow> Phase \<Rightarrow> nat" where
  "spent b st now p = unat (elapsedNs b p) + (if p \<in> set st then unat now - unat (ph_started (phases b p)) else 0)"

definition times_nested :: "(Phase \<Rightarrow> nat) \<Rightarrow> bool" where
  "times_nested f \<longleftrightarrow> f PacketHeaderPhase + f DecodePhase \<le> f Total \<and>
     f DecodePacketPhase + f FlowLookup + f TcpReassembly + f AppDecode \<le> f DecodePhase"

definition clocked_inv :: "u64 \<Rightarrow> u64 \<Rightarrow> Benchmark \<Rightarrow> Phase list \<Rightarrow> bool" where
  "clocked_inv t0 now b st \<longleftrightarrow> t0 \<le> now \<and> (\<forall>p\<in>set st. ph_started (phases b p) \<le> now) \<and>
     times_nested (spent b st now) \<and> spent b st now FileHeaderPhase + spent b st now Total \<le> unat now - unat t0"

lemma spent_bound: "clocked_inv t0 now b st \<Longrightarrow> spent b st now p \<le> unat now - unat t0"
  by (cases p) (auto simp: clocked_inv_def times_nested_def)

lemma clocked_later:
  assumes "clocked_inv t0 now b st" and "chain st" and "now \<le> now'"
  shows "clocked_inv t0 now' b st"
proof -
  obtain d where d: "unat now' = unat now + d" using assms(3) le_Suc_ex by (auto simp: word_le_nat_alt)
  have started: "unat (ph_started (phases b p)) \<le> unat now" if "p \<in> set st" for p
    using assms(1) that by (auto simp: clocked_inv_def word_le_nat_alt)
  define f where "f = spent b st now"
  define g where "g = spent b st now'"
  have eq: "g p = f p + (if p \<in> set st then d else 0)" for p
    using started d by (simp add: spent_def f_def g_def)
  have nested: "times_nested f" "f FileHeaderPhase + f Total \<le> unat now - unat t0" and t0: "unat t0 \<le> unat now"
    using assms(1) by (simp_all add: clocked_inv_def f_def word_le_nat_alt)
  have "times_nested g \<and> g FileHeaderPhase + g Total \<le> unat now' - unat t0"
    using assms(2)
  proof (cases rule: chain_cases)
    case (6 p)
    then show ?thesis using nested t0 d by (cases p) (simp_all add: times_nested_def eq)
  qed (use nested t0 d in \<open>simp_all add: times_nested_def eq\<close>)
  then show ?thesis using assms(1,3) by (auto simp: clocked_inv_def g_def)
qed

lemma spent_start:
  "p \<notin> set st \<Longrightarrow> bm_detailed b \<Longrightarrow> spent (Benchmark_start p now b) (p # st) now = spent b st now"
  by (auto simp: spent_def Benchmark_start_def elapsedNs_def phase_stats_def)

lemma clocked_start:
  assumes "clocked_inv t0 now b st" and "p \<notin> set st" and "bm_detailed b"
  shows "clocked_inv t0 now (Benchmark_start p now b) (p # st)"
  using assms by (auto simp: clocked_inv_def spent_start) (auto simp: Benchmark_start_def)

lemma spent_stop:
  assumes "clocked_inv t0 now b (p # st)" and "p \<notin> set st" and "running_are b (p # st)"
  shows "spent (Benchmark_stop p now b) st now = spent b (p # st) now"
proof
  fix q
  have "spent b (p # st) now p \<le> unat now" using spent_bound [OF assms(1)] by (meson diff_le_self le_trans)
  then have "unat (elapsedNs b p) + (unat now - unat (ph_started (phases b p))) < 2 ^ 64"
    using unat_u64_less [of now] by (simp add: spent_def)
  moreover have "unat (now - ph_started (phases b p)) = unat now - unat (ph_started (phases b p))"
    using assms(1) by (auto simp: clocked_inv_def unat_sub)
  ultimately have "unat (elapsedNs b p + (now - ph_started (phases b p))) = unat (elapsedNs b p) + (unat now - unat (ph_started (phases b p)))"
    by (subst unat_add_lem [THEN iffD1]) simp_all
  then show "spent (Benchmark_stop p now b) st now q = spent b (p # st) now q"
    using assms(2,3) by (auto simp: spent_def Benchmark_stop_def running_are_def elapsedNs_def phase_stats_def Let_def)
qed

lemma clocked_stop:
  assumes "clocked_inv t0 now b (p # st)" and "p \<notin> set st" and "running_are b (p # st)"
  shows "clocked_inv t0 now (Benchmark_stop p now b) st"
  using assms spent_stop [OF assms] by (auto simp: clocked_inv_def Benchmark_stop_def Let_def)

lemma run_ticks_clocked:
  assumes "watches t st = Some st'" and "running_are b st" and "chain st" and "clocked_inv t0 now b st"
    and "now \<le> clock n" and "\<forall>i. clock i \<le> clock (Suc i)"
  shows "\<exists>now'. clocked_inv t0 now' (run_ticks clock n t b) st'"
  using assms
proof (induction clock n t b arbitrary: st now rule: run_ticks.induct)
  case (2 clock n q t b)
  then have chain: "chain (q # st)" and rest: "watches t (q # st) = Some st'" by (auto split: if_splits)
  have q: "q \<notin> set st" using chain_distinct [OF chain] by simp
  have "clocked_inv t0 (clock n) (Benchmark_start q (clock n) b) (q # st)"
    using clocked_start [OF clocked_later [OF 2(5,4,6)] q] 2(3) by (simp add: running_are_def)
  then show ?case using 2(1) [OF rest running_start [OF 2(3)] chain _ _ 2(7)] 2(7) by simp
next
  case (3 clock n q t b)
  then obtain st1 where st1: "st = q # st1" "watches t st1 = Some st'" by (cases st) (auto split: if_splits)
  have q: "q \<notin> set st1" "distinct (q # st1)" using chain_distinct 3(4) st1(1) by fastforce+
  have inv: "clocked_inv t0 (clock n) (Benchmark_stop q (clock n) b) st1"
    using clocked_stop [OF _ q(1)] clocked_later [OF 3(5,4,6)] 3(3) st1(1) by simp
  show ?case using 3(1) [OF st1(2) running_stop [OF _ q(2)] _ inv _ 3(7)] 3(3,4,7) st1(1) by simp
qed auto

section \<open>A whole reading\<close>

definition reads_from :: "span \<Rightarrow> Config \<Rightarrow> Reader \<Rightarrow> bool" where
  "reads_from data cfg r \<longleftrightarrow>
     (\<exists>r0 json. Reader_init data cfg = Ok r0 \<and> r = setJson json r0) \<and> rd_header_err r = NoError \<and> readAllPackets r \<noteq> UB"

lemma reading_ticks_shape:
  assumes "reads_from data cfg r"
  shows "\<exists>ts. length ts = length (fst (records (rd_endian r) (rd_span r))) \<and> list_all record_trace ts \<and>
    reading_ticks data cfg r = [Start FileHeaderPhase, Stop FileHeaderPhase, Start Total] @ concat ts @
      (if length (unread_bytes (rd_endian r) (rd_span r)) < 16 then [] else header_ticks) @ [Stop Total]"
proof -
  have "snd (Reader_init_timed data cfg) \<noteq> UB" using assms by (auto simp: reads_from_def)
  then have "fst (Reader_init_timed data cfg) = [Start FileHeaderPhase, Stop FileHeaderPhase]"
    by (auto simp: Reader_init_timed_def bind_timed_def stopwatch_def untimed_def case_prod_unfold split: res.splits)
  moreover have "fst (readAllPackets_timed r) = Start Total # fst (read_loop_timed r) @ [Stop Total]"
    using assms snd_read_loop_timed [of r]
    by (cases "read_loop_timed r") (auto simp: readAllPackets_timed_def stopwatch_def reads_from_def split: res.split)
  ultimately show ?thesis using read_loop_trace [of r] assms by (auto simp: reading_ticks_def reads_from_def)
qed

lemma reading_watches: "reads_from data cfg r \<Longrightarrow> watches (reading_ticks data cfg r) [] = Some []"
  using reading_ticks_shape [of data cfg r] by (auto simp: watches_append watches_records)

definition fresh_benchmark :: "bool \<Rightarrow> span \<Rightarrow> Benchmark" where
  "fresh_benchmark detailed data = setBytes (of_nat (length data)) (setDetailed detailed Benchmark_init)"

lemma fresh_benchmark_simps [simp]:
  "bm_calls (fresh_benchmark detailed data) p = 0" "elapsedNs (fresh_benchmark detailed data) p = 0"
  "running_are (fresh_benchmark True data) []" "clocked_inv t0 t0 (fresh_benchmark detailed data) []"
  "bm_detailed (fresh_benchmark detailed data) = detailed"
  by (auto simp: fresh_benchmark_def setBytes_def setDetailed_def Benchmark_init_def PhaseState_init_def bm_calls_def elapsedNs_def
      phase_stats_def running_are_def clocked_inv_def times_nested_def spent_def)

lemma Reader_benchmark_alt: "Reader_benchmark clock detailed data t = run_ticks clock 0 t (fresh_benchmark detailed data)"
  by (simp add: Reader_benchmark_def fresh_benchmark_def)

lemma run_ticks_undetailed:
  "\<not> bm_detailed b \<Longrightarrow> isPerPacket p \<Longrightarrow> bm_calls (run_ticks clock n t b) p = bm_calls b p"
proof (induction clock n t b rule: run_ticks.induct)
  case (2 clock n q t b)
  then show ?case by (simp add: Benchmark_start_def bm_calls_def phase_stats_def)
next
  case (3 clock n q t b)
  then show ?case by (auto simp: Benchmark_stop_def bm_calls_def phase_stats_def Let_def)
qed simp

section \<open>Properties\<close>



section \<open>A capture of one short frame\<close>

definition short_frame :: "PacketHeader \<times> span" where
  "short_frame = (\<lparr> ph_ts_sec = 5, ph_ts_usec = 6, ph_incl_len = 3, ph_orig_len = 8 \<rparr>, [1, 2, 3])"

definition short_capture :: span where
  "short_capture = FileHeader_bytes Little False 2 4 65535 1 @ enc_pcap_record Little short_frame"

lemma short_capture_reads:
  "\<exists>r. reads_from short_capture Config_init r \<and> length (fst (records (rd_endian r) (rd_span r))) = 1 \<and>
     unread_bytes (rd_endian r) (rd_span r) = []"
proof -
  let ?body = "enc_pcap_record Little short_frame"
  obtain fh where fh: "parse_FileHeader short_capture = Ok (fh, Little, ?body)" "fh_linktype fh = 1"
    using FileHeader_bytes_parse [of 65535 1 Little False ?body] by (auto simp: short_capture_def)
  have "\<not> length short_capture < FILE_HEADER_LEN" by (simp add: short_capture_def FileHeader_bytes_def FILE_HEADER_LEN_def)
  then obtain r0 where r0: "Reader_init short_capture Config_init = Ok r0" "rd_header_err r0 = NoError" "rd_span r0 = ?body"
    "rd_endian r0 = Little" "rd_file_header r0 = fh"
    using fh(1) by (auto simp: Reader_init_def readFileHeader_def Reader_new_def)
  have recs: "records Little ?body = ([short_frame], UnexpectedEofF)"
    using records_enc_pcap [of "[short_frame]" Little] by (simp add: short_frame_def record_ok_def)
  let ?r = "setJson False r0"
  have r: "rd_header_err ?r = NoError" "rd_span ?r = ?body" "rd_endian ?r = Little" "rd_file_header ?r = fh"
    using r0 by (simp_all add: setJson_def)
  obtain h s where hs: "short_frame = (h, s)" by (cases short_frame)
  have s: "s = [1, 2, 3]" using hs by (simp add: short_frame_def)
  have "decode s c d = Err UnexpectedEof" if "\<exists>e. datalink (pkt c) = DL_Ethernet e" for c d
    using that by (auto simp: s decode_def decodePacket_def decodeLayer2_def Packet_reset_def ethernet_parse_def ethernet_HEADER_LEN_def Let_def)
  then have "run_records (?r \<lparr> rd_span := [] \<rparr>) [short_frame] \<noteq> UB"
    using r(4) fh(2) by (simp add: hs read_record_alt next_capture_def setDatatypeFromLinktype_def LINKTYPE_ETHERNET_def)
  then have "readAllPackets ?r \<noteq> UB"
    using readAllPackets_records [OF r(1), of "[]"] recs r(2,3) by (auto split: res.splits)
  then have "reads_from short_capture Config_init ?r" using r0(1) r(1) by (auto simp: reads_from_def)
  moreover have "unread_bytes Little ?body = []"
    by (simp add: unread_bytes_def recs) (simp add: short_frame_def enc_pcap_record_def PacketHeader_bytes_def)
  ultimately show ?thesis using recs r by (intro exI [of _ ?r]) simp
qed



end
