(* ===== verification/Program_Safety.thy ===== *)
theory Program_Safety
  imports Cli_Files Decoder_Safety Reader_Timing
begin

text \<open>
  The whole program returns: from the safety of the decoder to that of the command line, for
  every file of less than 2 GiB in which no TCP packet belongs to an HTTP stream.
\<close>

section \<open>Records\<close>

text \<open>A record that, behind a header of any earlier packet, is not decoded to a packet of an HTTP stream.\<close>

definition http_free :: "bool \<Rightarrow> u32 \<Rightarrow> span \<Rightarrow> bool" where
  "http_free verify linktype s \<longleftrightarrow> (\<forall>c. \<not> http_frame verify (s, c \<lparr> pkt := setDatatypeFromLinktype (pkt c) linktype \<rparr>))"

definition http_free_capture :: "bool \<Rightarrow> span \<Rightarrow> bool" where
  "http_free_capture verify data \<longleftrightarrow> (case parse_FileHeader data of
     Ok (h, endian, rest) \<Rightarrow> list_all (\<lambda>(ph, s). http_free verify (fh_linktype h) s) (fst (records endian rest))
   | _ \<Rightarrow> True)"

lemma http_free_next: "http_free verify (fh_linktype (rd_file_header r)) s \<Longrightarrow> \<not> http_frame verify (s, next_capture r h)"
proof -
  assume free: "http_free verify (fh_linktype (rd_file_header r)) s"
  let ?c = "rd_capture r \<lparr> packetHeader := h, ts_us := packet_time (rd_is_nsec r) h \<rparr>"
  have "next_capture r h = ?c \<lparr> pkt := setDatatypeFromLinktype (pkt ?c) (fh_linktype (rd_file_header r)) \<rparr>"
    by (simp add: next_capture_def)
  then show ?thesis using free by (metis http_free_def)
qed

lemma records_size: "sum_list (map (\<lambda>(h, b). 16 + length b) (fst (records endian s))) \<le> length s"
proof (induction endian s rule: records.induct)
  case (1 endian s)
  show ?case
  proof (cases "length s < 16")
    case long: False
    show ?thesis
    proof (cases "parse_PacketHeader s endian")
      case (Ok q)
      obtain h rest where q: "q = (h, rest)" by (cases q)
      show ?thesis
      proof (cases "length rest < unat (ph_incl_len h)")
        case False
        have "rest = drop 16 s" using parse_PacketHeader_Ok Ok q by metis
        then show ?thesis using 1 [OF long Ok q [symmetric] refl False] long Ok q False
          by (simp add: records.simps [of endian s] Let_def case_prod_unfold)
      qed (use long Ok q in \<open>simp add: records.simps [of endian s] Let_def\<close>)
    qed (use long in \<open>simp_all add: records.simps [of endian s]\<close>)
  qed (simp add: records.simps [of endian s])
qed

lemma run_records_safe:
  assumes "dec_inv B (rd_decoder r)" and "B + sum_list (map (\<lambda>(h, b). 16 + length b) recs) < 2147483648"
    and "list_all (\<lambda>(h, s). http_free (verify_checksum (config (rd_decoder r))) (fh_linktype (rd_file_header r)) s) recs"
  shows "run_records r recs \<noteq> UB"
  using assms
proof (induction recs arbitrary: r B)
  case (Cons rec recs)
  obtain h s where hs: "rec = (h, s)" by (cases rec)
  let ?B = "B + length s + 1"
  have dec: "holds (\<lambda>(c', d'). dec_inv ?B d' \<and> config d' = config (rd_decoder r)) (decode s (next_capture r h) (rd_decoder r))"
    using Cons.prems hs http_free_next by (intro decode_safe) simp_all
  have "\<exists>ok r1. read_record r h s = Ok (ok, r1) \<and> dec_inv ?B (rd_decoder r1) \<and>
      config (rd_decoder r1) = config (rd_decoder r) \<and> rd_file_header r1 = rd_file_header r"
  proof (cases "decode s (next_capture r h) (rd_decoder r)")
    case (Err e)
    have "dec_inv ?B (rd_decoder r)" using dec_inv_mono [OF Cons.prems(1)] by simp
    then show ?thesis using Err by (cases "e = Filtered") (auto simp: read_record_alt)
  next
    case (Ok q)
    then show ?thesis using dec by (cases q) (auto simp: read_record_alt)
  qed (use dec in simp)
  then obtain ok r1 where r1: "read_record r h s = Ok (ok, r1)" "dec_inv ?B (rd_decoder r1)"
    "config (rd_decoder r1) = config (rd_decoder r)" "rd_file_header r1 = rd_file_header r" by blast
  have "run_records r1 recs \<noteq> UB"
    using Cons.IH [OF r1(2)] Cons.prems(2,3) r1(3,4) hs by simp
  then show ?case using r1(1) hs by (cases "run_records r1 recs") auto
qed simp

section \<open>Files\<close>

lemma reading_safe:
  assumes "length data < 2147483648" and "http_free_capture (verify_checksum cfg) data"
  shows "\<exists>r0. Reader_init data cfg = Ok r0 \<and> (\<exists>x. readAllPackets (setJson json r0) = Ok x)"
proof -
  have skip: "readAllPackets r = Ok ([], rd_header_err r, r)" if "rd_header_err r \<noteq> NoError" for r
    using that by (simp add: readAllPackets.simps [of r] readPacket_def)
  show ?thesis
  proof (cases "length data < FILE_HEADER_LEN")
    case True
    then show ?thesis using skip by (simp add: Reader_init_def readFileHeader_def Reader_new_def setJson_def)
  next
    case long: False
    show ?thesis
    proof (cases "parse_FileHeader data")
      case UB
      then show ?thesis using parse_FileHeader_safe [of data] by simp
    next
      case (Err e)
      then have "e \<noteq> NoError" using parse_FileHeader_not_NoError by auto
      then show ?thesis using long Err skip by (simp add: Reader_init_def readFileHeader_def Reader_new_def setJson_def)
    next
      case (Ok q)
      obtain h endian rest where q: "q = (h, endian, rest)" by (cases q)
      obtain r0 where r0: "Reader_init data cfg = Ok r0" "rd_header_err r0 = NoError" "rd_endian r0 = endian" "rd_span r0 = rest"
        "rd_decoder r0 = Decoder_init cfg" "rd_file_header r0 = h"
        using long Ok q by (auto simp: Reader_init_def readFileHeader_def Reader_new_def)
      let ?r = "setJson json r0"
      have r: "rd_header_err ?r = NoError" "rd_endian ?r = endian" "rd_span ?r = rest" "rd_decoder ?r = Decoder_init cfg" "rd_file_header ?r = h"
        using r0 by (simp_all add: setJson_def)
      have "length rest \<le> length data" using parse_FileHeader_Ok [of data h endian rest] Ok q by simp
      moreover have "config (Decoder_init cfg) = cfg" by (simp add: Decoder_init_def)
      ultimately have "run_records (?r \<lparr> rd_span := [] \<rparr>) (fst (records endian rest)) \<noteq> UB"
        using assms(2) records_size [of endian rest] Ok q r assms(1)
        by (intro run_records_safe [of 0]) (simp_all add: dec_inv_init http_free_capture_def)
      then have "\<exists>x. readAllPackets ?r = Ok x"
        using readAllPackets_records [OF r(1), of "[]"] r(2,3) by (auto split: res.splits)
      then show ?thesis using r0(1) by blast
    qed
  qed
qed

section \<open>Properties\<close>



end
