(* ===== verification/Fuzz_Targets.thy ===== *)
theory Fuzz_Targets
  imports Cli Dns_Message
begin

text \<open>
  The fuzz targets (\<^verbatim>\<open>fuzz/fuzz_*.cpp\<close>): each hands arbitrary bytes to a part of the program and
  aborts when a promise of that part is broken. A run returns, aborts, or has undefined
  behaviour; that it returns for every input is what fuzzing samples and what is proved here.
  The texts that the targets print are discarded, and the printers are total functions of the
  model, so the calls are left out.
\<close>

section \<open>The targets\<close>

datatype fuzz_result = Returns | Aborts | Undefined

fun fuzz_then :: "fuzz_result \<Rightarrow> fuzz_result \<Rightarrow> fuzz_result" where
  "fuzz_then Returns r = r"
| "fuzz_then r _ = r"

definition roundTripV4 :: "u8 list \<Rightarrow> fuzz_result" where
  "roundTripV4 addr =
     (case v4_addressFromString (v4_printIp_bytes addr) of
        None \<Rightarrow> Aborts
      | Some parsed \<Rightarrow> if memcmp addr parsed \<noteq> 0 then Aborts else Returns)"

definition roundTripV6 :: "u8 list \<Rightarrow> fuzz_result" where
  "roundTripV6 addr =
     (case v6_addressFromString (v6_printIp addr) of
        None \<Rightarrow> Aborts
      | Some parsed \<Rightarrow> if memcmp addr parsed \<noteq> 0 then Aborts else Returns)"

definition fuzz_address :: "u8 list \<Rightarrow> fuzz_result" where
  "fuzz_address data =
     fuzz_then (if 4 \<le> length data then roundTripV4 (take 4 data) else Returns)
    (fuzz_then (if 16 \<le> length data then roundTripV6 (take 16 data) else Returns)
    (fuzz_then (case v4_addressFromString (text_of data) of Some v4 \<Rightarrow> roundTripV4 v4 | None \<Rightarrow> Returns)
               (case v6_addressFromString (text_of data) of Some v6 \<Rightarrow> roundTripV6 v6 | None \<Rightarrow> Returns)))"

definition fuzz_dns :: "u8 list \<Rightarrow> fuzz_result" where
  "fuzz_dns data = (case dns_parse data Big of UB \<Rightarrow> Undefined | _ \<Rightarrow> Returns)"

text \<open>\<open>Packet pkt{}\<close> is the packet of \<open>Capture_zero\<close>.\<close>

definition fuzz_packet :: "u8 list \<Rightarrow> fuzz_result" where
  "fuzz_packet data =
     (case data of
        [] \<Rightarrow> Returns
      | flags # buf \<Rightarrow>
          (case decodePacket buf (setDatatypeFromLinktype (pkt Capture_zero) LINKTYPE_ETHERNET) (flags AND 1 \<noteq> 0) of
             UB \<Rightarrow> Undefined | _ \<Rightarrow> Returns))"

function fuzz_records :: "span \<Rightarrow> Endian \<Rightarrow> fuzz_result" where
  "fuzz_records span endian =
     (case parse_PacketHeader span endian of
        UB \<Rightarrow> Undefined
      | Err e \<Rightarrow> Returns
      | Ok (header, span) \<Rightarrow>
          if length span < unat (ph_incl_len header) then Returns
          else case subspan span (unat (ph_incl_len header)) of
              UB \<Rightarrow> Undefined | Err e \<Rightarrow> Returns | Ok span \<Rightarrow> fuzz_records span endian)"
  by pat_completeness auto
termination
  by (relation "measure (length \<circ> fst)") (auto simp: subspan_def dest!: parse_PacketHeader_Ok split: if_splits)

declare fuzz_records.simps [simp del]

definition fuzz_pcap_header :: "u8 list \<Rightarrow> fuzz_result" where
  "fuzz_pcap_header data =
     (case parse_FileHeader data of UB \<Rightarrow> Undefined | Err e \<Rightarrow> Returns | Ok (header, endian, span) \<Rightarrow> fuzz_records span endian)"

text \<open>
  One message after the other. The first result of a turn is the span for the next one;
  \<open>None\<close> leaves the loop.
\<close>

definition fuzz_http_body :: "http_Header \<Rightarrow> span \<Rightarrow> span option res" where
  "fuzz_http_body header span =
     (if http_chunked header then
        (case parseChunkedBody span of
           ChunkUB \<Rightarrow> UB
         | ChunkFail e n \<Rightarrow> Ok None
         | ChunkOk span body \<Rightarrow> Ok (Some span))
      else if http_has_content_length header then
        if length span < unat (http_content_length header) then Ok None
        else bind_res (subspan span (unat (http_content_length header))) (\<lambda>span. Ok (Some span))
      else Ok (Some span))"

function fuzz_messages :: "span \<Rightarrow> fuzz_result" where
  "fuzz_messages span =
     (if span = [] then Returns
      else case http_parse span http_Header_init of
          UB \<Rightarrow> Undefined
        | Err e \<Rightarrow> Returns
        | Ok (header, rest) \<Rightarrow>
            (case fuzz_http_body header rest of
               UB \<Rightarrow> Undefined
             | Err e \<Rightarrow> Returns
             | Ok None \<Rightarrow> Returns
             | Ok (Some rest) \<Rightarrow> if length span \<le> length rest then Returns else fuzz_messages rest))"
  by pat_completeness auto
termination
  by (relation "measure length") auto

declare fuzz_messages.simps [simp del]

definition fuzz_http :: "u8 list \<Rightarrow> fuzz_result" where
  "fuzz_http data =
     fuzz_then (fuzz_messages data) (case parseChunkedBody data of ChunkUB \<Rightarrow> Undefined | _ \<Rightarrow> Returns)"

text \<open>\<open>config.verify_checksum = false\<close>; the reports are total functions of what was read.\<close>

definition fuzz_capture :: "u8 list \<Rightarrow> fuzz_result" where
  "fuzz_capture data =
     (case bind_res (Reader_init data (Config_init \<lparr> verify_checksum := False \<rparr>)) readAllPackets of
        UB \<Rightarrow> Undefined | _ \<Rightarrow> Returns)"

section \<open>They return\<close>

lemma fuzz_then_Returns [simp]: "fuzz_then a b = Returns \<longleftrightarrow> a = Returns \<and> b = Returns"
  by (cases a) auto

lemma roundTripV4_Returns: "length addr = 4 \<Longrightarrow> roundTripV4 addr = Returns"
  by (simp add: roundTripV4_def v4_text_read memcmp_eq_0)

lemma roundTripV6_Returns: "length addr = 16 \<Longrightarrow> roundTripV6 addr = Returns"
  by (simp add: roundTripV6_def v6_print_parse memcmp_eq_0)

lemma fuzz_address_Returns: "fuzz_address data = Returns"
  by (auto simp: fuzz_address_def roundTripV4_Returns roundTripV6_Returns v4_address_iff dest: v6_address_length split: option.split)

lemma fuzz_dns_Returns: "fuzz_dns data = Returns"
  using dns_parse_holds [of data Big] by (cases "dns_parse data Big") (auto simp: fuzz_dns_def)

lemma fuzz_packet_Returns: "fuzz_packet data = Returns"
proof (cases data)
  case (Cons flags buf)
  have "decodePacket buf (setDatatypeFromLinktype (pkt Capture_zero) LINKTYPE_ETHERNET) v \<noteq> UB" for v
    using holds_decodePacket [of "setDatatypeFromLinktype (pkt Capture_zero) LINKTYPE_ETHERNET" buf v]
    by (auto simp: Capture_zero_def setDatatypeFromLinktype_def)
  then show ?thesis using Cons by (auto simp: fuzz_packet_def split: res.split)
qed (simp add: fuzz_packet_def)

lemma fuzz_records_Returns: "fuzz_records span endian = Returns"
proof (induction span endian rule: fuzz_records.induct)
  case (1 span endian)
  show ?case
    using 1 packet_header.safe [of span endian]
    by (subst fuzz_records.simps) (auto simp: subspan_def split: res.split)
qed

lemma fuzz_pcap_header_Returns: "fuzz_pcap_header data = Returns"
  using parse_FileHeader_safe [of data] by (auto simp: fuzz_pcap_header_def fuzz_records_Returns split: res.split)

lemma parseChunkedBody_rest: "parseChunkedBody s = ChunkOk rest body \<Longrightarrow> moved s rest"
  unfolding parseChunkedBody_def by (rule chunk_loop_moved)

lemma fuzz_http_body_clean:
  assumes "clean s"
  shows "fuzz_http_body h s \<noteq> UB \<and> (\<forall>rest. fuzz_http_body h s = Ok (Some rest) \<longrightarrow> clean rest)"
proof (cases "http_chunked h")
  case True
  then show ?thesis
    using assms by (cases "parseChunkedBody s") (auto simp: fuzz_http_body_def dest: parseChunkedBody_rest clean_moved)
next
  case False
  then show ?thesis
    using assms by (auto simp: fuzz_http_body_def subspan_def clean_def list_all_iff dest: in_set_dropD)
qed

lemma fuzz_messages_Returns: "clean s \<Longrightarrow> fuzz_messages s = Returns"
proof (induction s rule: fuzz_messages.induct)
  case (1 s)
  show ?case
  proof (cases "http_parse s http_Header_init")
    case UB
    then show ?thesis using http_parse_clean [OF "1.prems"] by (simp add: http_Header_init_def)
  next
    case (Err e)
    then show ?thesis by (simp add: fuzz_messages.simps [of s])
  next
    case (Ok hr)
    then obtain h rest where h: "http_parse s http_Header_init = Ok (h, rest)" by (cases hr) auto
    have "moved s rest" using http_parse_Ok [OF h] by (simp add: http_Header_init_def)
    then have body: "fuzz_http_body h rest \<noteq> UB" "\<And>r. fuzz_http_body h rest = Ok (Some r) \<Longrightarrow> clean r"
      using fuzz_http_body_clean clean_moved [OF "1.prems"] by blast+
    show ?thesis
    proof (cases "fuzz_http_body h rest")
      case (Ok r)
      then show ?thesis using 1 h body by (cases r) (auto simp: fuzz_messages.simps [of s])
    qed (use h body in \<open>auto simp: fuzz_messages.simps [of s]\<close>)
  qed
qed

section \<open>Properties\<close>



end
