(* ===== verification/Seeds_File.thy ===== *)
theory Seeds_File
  imports Text_Util
begin

text \<open>
  The file of fuzzing seeds (\<^verbatim>\<open>fuzz/fuzz_seeds.cpp\<close>): one line per seed with the name of the
  target, the name of the seed and its bytes in base 64; writing, reading, and that reading
  inverts writing.
\<close>

section \<open>Base 64\<close>

definition BASE64_ALPHABET :: string where
  "BASE64_ALPHABET = ''ABCDEFGHIJKLMNOPQRSTUVWXYZabcdefghijklmnopqrstuvwxyz0123456789+/''"

definition sextet :: "nat \<Rightarrow> u32 \<Rightarrow> char" where
  "sextet shift bits = BASE64_ALPHABET ! unat (drop_bit shift bits AND 0x3F)"

fun encodeBase64 :: "u8 list \<Rightarrow> string" where
  "encodeBase64 [] = []"
| "encodeBase64 [a] =
     (let bits = push_bit 16 (ucast a :: u32) in [sextet 18 bits, sextet 12 bits, CHR ''='', CHR ''=''])"
| "encodeBase64 [a, b] =
     (let bits = push_bit 16 (ucast a :: u32) OR push_bit 8 (ucast b) in
      [sextet 18 bits, sextet 12 bits, sextet 6 bits, CHR ''=''])"
| "encodeBase64 (a # b # c # bytes) =
     (let bits = push_bit 16 (ucast a :: u32) OR push_bit 8 (ucast b) OR ucast c in
      [sextet 18 bits, sextet 12 bits, sextet 6 bits, sextet 0 bits] @ encodeBase64 bytes)"

text \<open>The entry of \<open>table\<close>, where \<open>None\<close> stands for -1.\<close>

definition base64_value :: "char \<Rightarrow> nat option" where
  "base64_value c = find_char c BASE64_ALPHABET"

text \<open>One group of characters from position \<open>j\<close> on; \<open>final\<close> tells whether it is the last group.\<close>

fun base64_group :: "bool \<Rightarrow> nat \<Rightarrow> string \<Rightarrow> u32 \<times> nat \<Rightarrow> (u32 \<times> nat) option" where
  "base64_group final j [] st = Some st"
| "base64_group final j (c # cs) (bits, padding) =
     (if c = CHR ''='' \<and> final \<and> 2 \<le> j then base64_group final (j + 1) cs (push_bit 6 bits, padding + 1)
      else case base64_value c of
          None \<Rightarrow> None
        | Some v \<Rightarrow>
            if padding \<noteq> 0 then None
            else base64_group final (j + 1) cs (push_bit 6 bits OR of_nat v, padding))"

definition group_bytes :: "u32 \<times> nat \<Rightarrow> u8 list" where
  "group_bytes st =
     (case st of (bits, padding) \<Rightarrow>
        [ucast (drop_bit 16 bits)] @ (if padding < 2 then [ucast (drop_bit 8 bits)] else []) @
        (if padding < 1 then [ucast bits] else []))"

fun base64_groups :: "string \<Rightarrow> u8 list option" where
  "base64_groups (a # b # c # d # cs) =
     (case base64_group (cs = []) 0 [a, b, c, d] (0, 0) of
        None \<Rightarrow> None
      | Some st \<Rightarrow> map_option (\<lambda>out. group_bytes st @ out) (base64_groups cs))"
| "base64_groups cs = Some []"

definition decodeBase64 :: "string \<Rightarrow> u8 list option" where
  "decodeBase64 s = (if length s mod 4 \<noteq> 0 then None else base64_groups s)"

section \<open>Names\<close>

definition put16 :: "u16 \<Rightarrow> u8 list" where "put16 v = [ucast (drop_bit 8 v), ucast v]"
definition put32 :: "u32 \<Rightarrow> u8 list" where "put32 v = put16 (ucast (drop_bit 16 v)) @ put16 (ucast v)"

definition lowercase :: "string \<Rightarrow> string" where "lowercase s = map tolower s"

definition seed_hash :: "u8 list \<Rightarrow> u32" where
  "seed_hash blob = foldl (\<lambda>h c. (h XOR ucast c) * 16777619) 2166136261 blob"

definition seedName :: "string \<Rightarrow> u8 list \<Rightarrow> string" where
  "seedName prefix blob = prefix @ ''-'' @ pad0 8 (hex_string (unat (seed_hash blob)))"

section \<open>Lines\<close>

record Seed =
  sd_target :: string
  sd_name :: string
  sd_bytes :: "u8 list"

definition seed_line :: "Seed \<Rightarrow> string" where
  "seed_line seed = sd_target seed @ '' '' @ sd_name seed @ '' '' @ encodeBase64 (sd_bytes seed) @ [newline]"

text \<open>\<open>std::getline\<close>: the lines of a text; the last one may lack its newline.\<close>

function lines_of :: "string \<Rightarrow> string list" where
  "lines_of [] = []"
| "lines_of (c # cs) =
     (let s = c # cs in takeWhile (\<lambda>c. c \<noteq> newline) s # lines_of (drop 1 (dropWhile (\<lambda>c. c \<noteq> newline) s)))"
  by pat_completeness auto
termination
proof (relation "measure length", simp)
  fix c cs and x :: string
  have "length (dropWhile (\<lambda>c. c \<noteq> newline) cs) \<le> length cs" by (rule length_dropWhile_le)
  then show "x = c # cs \<Longrightarrow> (drop 1 (dropWhile (\<lambda>c. c \<noteq> newline) x), c # cs) \<in> measure length"
    by (auto simp: le_imp_less_Suc)
qed

text \<open>\<open>operator>>\<close> into strings, in the C locale.\<close>

definition is_space :: "char \<Rightarrow> bool" where
  "is_space c \<longleftrightarrow> c = CHR '' '' \<or> 9 \<le> (of_char c :: nat) \<and> (of_char c :: nat) \<le> 13"

function words_of :: "string \<Rightarrow> string list" where
  "words_of s =
     (let s = dropWhile is_space s in
      if s = [] then [] else takeWhile (\<lambda>c. \<not> is_space c) s # words_of (dropWhile (\<lambda>c. \<not> is_space c) s))"
  by pat_completeness auto
termination
proof (relation "measure length", simp)
  fix s x :: string
  assume x: "x = dropWhile is_space s" "x \<noteq> []"
  then have "\<not> is_space (hd x)" using hd_dropWhile by blast
  then obtain c cs where c: "x = c # cs" "\<not> is_space c" using x(2) by (cases x) auto
  have "length (dropWhile (\<lambda>c. \<not> is_space c) x) \<le> length cs" by (simp add: c length_dropWhile_le)
  also have "length cs < length x" by (simp add: c)
  also have "length x \<le> length s" by (simp add: x length_dropWhile_le)
  finally show "(dropWhile (\<lambda>c. \<not> is_space c) x, s) \<in> measure length" by simp
qed

declare lines_of.simps [simp del] words_of.simps [simp del]

text \<open>What one line holds: nothing, a seed, or the complaint.\<close>

definition strip_cr :: "string \<Rightarrow> string" where
  "strip_cr line = (if line \<noteq> [] \<and> last line = CHR 0x0D then butlast line else line)"

definition parse_seed :: "string \<Rightarrow> string + Seed option" where
  "parse_seed line =
     (if line = [] \<or> hd line = CHR ''#'' then Inr None
      else case words_of line of
          [target, name, encoded] \<Rightarrow>
            (case decodeBase64 encoded of
               None \<Rightarrow> Inl (''invalid base64 for seed '' @ [CHR 0x27] @ name @ [CHR 0x27])
             | Some bytes \<Rightarrow> Inr (Some \<lparr> sd_target = target, sd_name = name, sd_bytes = bytes \<rparr>))
        | _ \<Rightarrow> Inl (''expected '' @ [CHR 0x27] @ ''<target> <name> <base64>'' @ [CHR 0x27]))"

text \<open>The seeds that the callback has seen, and the error, empty if there is none.\<close>

fun each_line :: "string \<Rightarrow> nat \<Rightarrow> string list \<Rightarrow> Seed list \<times> string" where
  "each_line path lineno [] = ([], [])"
| "each_line path lineno (line # ls) =
     (case parse_seed (strip_cr line) of
        Inl message \<Rightarrow> ([], path @ '':'' @ dec_string lineno @ '': '' @ message)
      | Inr seed \<Rightarrow>
          (case each_line path (lineno + 1) ls of (seeds, error) \<Rightarrow>
             ((case seed of None \<Rightarrow> seeds | Some seed \<Rightarrow> seed # seeds), error)))"

definition forEachSeed :: "string \<Rightarrow> string option \<Rightarrow> Seed list \<times> string" where
  "forEachSeed path content =
     (case content of
        None \<Rightarrow> ([], path @ '': cannot open seeds file'')
      | Some content \<Rightarrow> each_line path 1 (lines_of content))"

section \<open>Base 64 is undone\<close>

lemma base64_value_alphabet: "k < 64 \<Longrightarrow> base64_value (BASE64_ALPHABET ! k) = Some k \<and> BASE64_ALPHABET ! k \<noteq> CHR ''='' \<and>
    \<not> is_space (BASE64_ALPHABET ! k)"
proof -
  have "list_all (\<lambda>k. base64_value (BASE64_ALPHABET ! k) = Some k \<and> BASE64_ALPHABET ! k \<noteq> CHR ''='' \<and> \<not> is_space (BASE64_ALPHABET ! k)) [0..<64]"
    by code_simp
  then show "k < 64 \<Longrightarrow> ?thesis" by (simp add: list_all_iff)
qed

lemma sextet_value: "base64_value (sextet n w) = Some (unat (drop_bit n w AND 0x3F)) \<and> sextet n w \<noteq> CHR ''='' \<and> \<not> is_space (sextet n w)"
proof -
  have "drop_bit n w AND 0x3F = take_bit 6 (drop_bit n w)" by (simp add: take_bit_eq_mask mask_numeral)
  moreover have "unat (take_bit 6 (drop_bit n w)) < 2 ^ 6"
    by (metis take_bit_nat_less_exp unsigned_take_bit_eq)
  ultimately have "unat (drop_bit n w AND 0x3F) < 64" by simp
  then show ?thesis unfolding sextet_def by (rule base64_value_alphabet)
qed

lemma sextets:
  fixes w :: u32
  assumes "take_bit 24 w = w"
  shows "push_bit 6 (push_bit 6 (push_bit 6 (drop_bit 18 w AND 0x3F) OR (drop_bit 12 w AND 0x3F)) OR (drop_bit 6 w AND 0x3F)) OR (w AND 0x3F) = w"
    (is "?l = w")
proof (rule bit_word_eqI)
  fix n
  assume "n < LENGTH(32)"
  then have n: "n < 32" by simp
  have m: "(0x3F :: u32) = mask 6" by (simp add: mask_numeral)
  have high: "\<not> bit w n" if "24 \<le> n" using assms that bit_take_bit_iff [of 24 w n] by auto
  consider "n < 6" | "6 \<le> n" "n < 12" | "12 \<le> n" "n < 18" | "18 \<le> n" "n < 24" | "24 \<le> n" by linarith
  then show "bit ?l n = bit w n"
  proof cases
    case 1
    then show ?thesis using n by (auto simp: bit_simps m)
  next
    case 2
    then show ?thesis using n by (auto simp: bit_simps m)
  next
    case 3
    then show ?thesis using n by (auto simp: bit_simps m)
  next
    case 4
    then show ?thesis using n by (auto simp: bit_simps m)
  next
    case 5
    then show ?thesis by (auto simp: bit_simps m high)
  qed
qed

lemma group_full:
  "take_bit 24 w = w \<Longrightarrow> base64_group final 0 [sextet 18 w, sextet 12 w, sextet 6 w, sextet 0 w] (0, 0) = Some (w, 0)"
  using sextets [of w] by (simp add: sextet_value)

lemma group_two:
  "take_bit 24 w = w \<Longrightarrow> w AND 0x3F = 0 \<Longrightarrow> base64_group True 0 [sextet 18 w, sextet 12 w, sextet 6 w, CHR ''=''] (0, 0) = Some (w, 1)"
  using sextets [of w] by (simp add: sextet_value)

lemma group_one:
  "take_bit 24 w = w \<Longrightarrow> w AND 0x3F = 0 \<Longrightarrow> drop_bit 6 w AND 0x3F = 0 \<Longrightarrow>
   base64_group True 0 [sextet 18 w, sextet 12 w, CHR ''='', CHR ''=''] (0, 0) = Some (w, 2)"
  using sextets [of w] by (simp add: sextet_value)

lemma octets:
  fixes a b c :: u8
  defines "w \<equiv> push_bit 16 (ucast a :: u32) OR push_bit 8 (ucast b) OR ucast c"
  shows "take_bit 24 w = w" "ucast (drop_bit 16 w) = a" "ucast (drop_bit 8 w) = b" "ucast w = c"
    "c = 0 \<Longrightarrow> w AND 0x3F = 0" "b = 0 \<Longrightarrow> c = 0 \<Longrightarrow> drop_bit 6 w AND 0x3F = 0"
proof -
  have m: "(0x3F :: u32) = mask 6" by (simp add: mask_numeral)
  have high: "\<not> bit x n" if "8 \<le> n" for x :: u8 and n using that bit_imp_le_length [of x n] by auto
  show "take_bit 24 w = w" by (rule bit_word_eqI) (auto simp: w_def bit_simps high)
  show "ucast (drop_bit 16 w) = a" by (rule bit_word_eqI) (auto simp: w_def bit_simps high)
  show "ucast (drop_bit 8 w) = b" by (rule bit_word_eqI) (auto simp: w_def bit_simps high)
  show "ucast w = c" by (rule bit_word_eqI) (auto simp: w_def bit_simps high)
  show "c = 0 \<Longrightarrow> w AND 0x3F = 0" by (rule bit_word_eqI) (auto simp: w_def bit_simps m)
  show "b = 0 \<Longrightarrow> c = 0 \<Longrightarrow> drop_bit 6 w AND 0x3F = 0" by (rule bit_word_eqI) (auto simp: w_def bit_simps m)
qed

lemma encodeBase64_length: "length (encodeBase64 bytes) mod 4 = 0"
  by (induction bytes rule: encodeBase64.induct) (simp_all add: Let_def)

lemma encodeBase64_Nil: "encodeBase64 bytes = [] \<longleftrightarrow> bytes = []"
  by (cases bytes rule: encodeBase64.cases) (simp_all add: Let_def)

lemma space_equals: "\<not> is_space CHR ''=''"
  by (simp add: is_space_def)

lemma encodeBase64_chars: "c \<in> set (encodeBase64 bytes) \<Longrightarrow> \<not> is_space c"
  by (induction bytes rule: encodeBase64.induct) (auto simp: Let_def sextet_value space_equals)

lemma decode_encode: "decodeBase64 (encodeBase64 bytes) = Some bytes"
proof -
  have "base64_groups (encodeBase64 bytes) = Some bytes"
  proof (induction bytes rule: encodeBase64.induct)
    case (2 a)
    let ?w = "push_bit 16 (ucast a :: u32)"
    have w: "take_bit 24 ?w = ?w" "ucast (drop_bit 16 ?w) = a" "?w AND 0x3F = 0" "drop_bit 6 ?w AND 0x3F = 0"
      using octets (1,2) [of a 0 0] octets(5) [of 0 a 0] octets(6) [of 0 0 a] by (simp_all only: ucast_0 push_bit_of_0 or.right_neutral simp_thms)
    show ?case by (simp add: Let_def group_one [OF w(1,3,4)] group_bytes_def w(2) del: base64_group.simps)
  next
    case (3 a b)
    let ?w = "push_bit 16 (ucast a :: u32) OR push_bit 8 (ucast b)"
    have w: "take_bit 24 ?w = ?w" "ucast (drop_bit 16 ?w) = a" "ucast (drop_bit 8 ?w) = b" "?w AND 0x3F = 0"
      using octets(1-3) [of a b 0] octets(5) [of 0 a b] by (simp_all only: ucast_0 push_bit_of_0 or.right_neutral simp_thms)
    show ?case by (simp add: Let_def group_two [OF w(1,4)] group_bytes_def w(2,3) del: base64_group.simps drop_bit_or)
  next
    case (4 a b c bytes)
    note w = octets [of a b c]
    show ?case using 4 by (simp add: Let_def group_full [OF w(1)] group_bytes_def w(2,3,4) del: base64_group.simps drop_bit_or)
  qed simp
  then show ?thesis by (simp add: decodeBase64_def encodeBase64_length)
qed

section \<open>The file is read back\<close>

definition plain_word :: "string \<Rightarrow> bool" where
  "plain_word s \<longleftrightarrow> s \<noteq> [] \<and> list_all (\<lambda>c. \<not> is_space c) s"

text \<open>Seeds that fit on a line.\<close>

definition seed_ok :: "Seed \<Rightarrow> bool" where
  "seed_ok seed \<longleftrightarrow> plain_word (sd_target seed) \<and> hd (sd_target seed) \<noteq> CHR ''#'' \<and> plain_word (sd_name seed) \<and> sd_bytes seed \<noteq> []"

lemma is_space_simps: "is_space CHR '' ''" "is_space newline" "is_space CHR 0x0D"
  by (simp_all add: is_space_def)

lemma plain_encode: "bytes \<noteq> [] \<Longrightarrow> plain_word (encodeBase64 bytes)"
  using encodeBase64_chars by (auto simp: plain_word_def encodeBase64_Nil list_all_iff)

lemma words_of_word:
  assumes "plain_word w" and "rest = [] \<or> is_space (hd rest)"
  shows "words_of (w @ rest) = w # words_of rest"
proof -
  have start: "dropWhile is_space (w @ rest) = w @ rest"
    using assms(1) by (cases w) (auto simp: plain_word_def)
  have "takeWhile (\<lambda>c. \<not> is_space c) (w @ rest) = w" "dropWhile (\<lambda>c. \<not> is_space c) (w @ rest) = rest"
    using assms by (cases rest; auto simp: plain_word_def list_all_iff takeWhile_append dropWhile_append)+
  then show ?thesis
    using assms(1) start by (subst words_of.simps) (auto simp: Let_def plain_word_def)
qed

lemma words_of_blank: "words_of (CHR '' '' # s) = words_of s"
  by (subst (1 2) words_of.simps) (simp add: is_space_simps)

lemma words_of_Nil: "words_of [] = []"
  by (subst words_of.simps) simp

lemma words_of_line:
  assumes "plain_word a" and "plain_word b" and "plain_word c"
  shows "words_of (a @ '' '' @ b @ '' '' @ c) = [a, b, c]"
proof -
  have "words_of c = [c]" using words_of_word [OF assms(3), of "[]"] by (simp add: words_of_Nil)
  then have "words_of (b @ '' '' @ c) = [b, c]"
    using words_of_word [OF assms(2), of "'' '' @ c"] by (simp add: words_of_blank is_space_simps)
  then show ?thesis
    using words_of_word [OF assms(1), of "'' '' @ b @ '' '' @ c"] by (simp add: words_of_blank is_space_simps)
qed

lemma lines_of_line: "newline \<notin> set l \<Longrightarrow> lines_of (l @ newline # rest) = l # lines_of rest"
proof -
  assume l: "newline \<notin> set l"
  have "takeWhile (\<lambda>c. c \<noteq> newline) (l @ newline # rest) = l" "dropWhile (\<lambda>c. c \<noteq> newline) (l @ newline # rest) = newline # rest"
    using l by (auto simp: takeWhile_append dropWhile_append)
  then show ?thesis by (cases "l @ newline # rest") (auto simp: lines_of.simps(2))
qed

definition line_body :: "Seed \<Rightarrow> string" where
  "line_body seed = sd_target seed @ '' '' @ sd_name seed @ '' '' @ encodeBase64 (sd_bytes seed)"

lemma plain_word_no_space: "plain_word w \<Longrightarrow> is_space c \<Longrightarrow> c \<notin> set w"
  by (auto simp: plain_word_def list_all_iff)

lemma line_body_parse:
  assumes "seed_ok seed"
  shows "parse_seed (strip_cr (line_body seed)) = Inr (Some seed) \<and> newline \<notin> set (line_body seed)"
proof -
  have words: "plain_word (sd_target seed)" "plain_word (sd_name seed)" "plain_word (encodeBase64 (sd_bytes seed))"
    using assms plain_encode by (simp_all add: seed_ok_def)
  have "newline \<notin> set (line_body seed)"
    using plain_word_no_space [OF _ is_space_simps(2)] words by (auto simp: line_body_def)
  moreover have "last (line_body seed) = last (encodeBase64 (sd_bytes seed))" "encodeBase64 (sd_bytes seed) \<noteq> []"
    using words(3) by (auto simp: line_body_def plain_word_def)
  then have "last (line_body seed) \<noteq> CHR 0x0D"
    using plain_word_no_space [OF words(3) is_space_simps(3)] last_in_set by metis
  then have "strip_cr (line_body seed) = line_body seed" by (simp add: strip_cr_def)
  moreover have "line_body seed \<noteq> []" "hd (line_body seed) = hd (sd_target seed)"
    using words(1) by (auto simp: line_body_def plain_word_def)
  moreover have "words_of (line_body seed) = [sd_target seed, sd_name seed, encodeBase64 (sd_bytes seed)]"
    unfolding line_body_def by (rule words_of_line [OF words])
  ultimately show ?thesis using assms by (simp add: parse_seed_def decode_encode seed_ok_def)
qed

lemma seeds_read_back:
  assumes "list_all seed_ok seeds"
  shows "forEachSeed path (Some (concat (map seed_line seeds))) = (seeds, [])"
proof -
  have "each_line path n (lines_of (concat (map seed_line seeds))) = (seeds, [])" for n
    using assms
  proof (induction seeds arbitrary: n)
    case (Cons seed seeds)
    then have "lines_of (concat (map seed_line (seed # seeds))) = line_body seed # lines_of (concat (map seed_line seeds))"
      using lines_of_line [of "line_body seed"] line_body_parse [of seed] by (simp add: seed_line_def line_body_def)
    then show ?case using Cons line_body_parse [of seed] by simp
  qed (simp add: lines_of.simps)
  then show ?thesis by (simp add: forEachSeed_def)
qed

end
