(* ===== verification/Fuzz_Seeds.thy ===== *)
theory Fuzz_Seeds
  imports Cli Dns_Message Seeds_File
begin

text \<open>
  The generator of fuzzing seeds (\<^verbatim>\<open>fuzz/fuzz_seeds.cpp\<close>): packets, messages and whole flows are
  picked from a capture, a few frames are made up, and all of them go to one file. What the
  operating system answers is the record \<open>Seeds_Env\<close>.
\<close>

section \<open>Reading a capture\<close>

definition CHECKSUMS_ON :: u8 where "CHECKSUMS_ON = 1"
definition CHECKSUMS_OFF :: u8 where "CHECKSUMS_OFF = 0"
definition MAX_PACKET_SEED_LEN :: nat where "MAX_PACKET_SEED_LEN = 1600"
definition MAX_HTTP_SEED_LEN :: nat where "MAX_HTTP_SEED_LEN = 2048"
definition MAX_FLOW_PACKETS :: nat where "MAX_FLOW_PACKETS = 40"
definition MAX_FLOW_SEED_LEN :: nat where "MAX_FLOW_SEED_LEN = 64 * 1024"
definition CAPTURE_HEAD_PACKETS :: nat where "CAPTURE_HEAD_PACKETS = 32"
definition PCAP_HEADER_SEED_PACKETS :: nat where "PCAP_HEADER_SEED_PACKETS = 4"
definition MAX_PER_OPTION :: u64 where "MAX_PER_OPTION = 1000"

record SeedRecord =
  sr_header :: "u8 list"
  sr_frame :: "u8 list"

record SeedCapture =
  sc_file_header :: "u8 list"
  sc_parsed :: FileHeader
  sc_records :: "SeedRecord list"

function read_seed_records :: "span \<Rightarrow> Endian \<Rightarrow> SeedRecord list res" where
  "read_seed_records span endian =
     (if length span < PACKET_HEADER_LEN then Ok []
      else case parse_PacketHeader span endian of
          UB \<Rightarrow> UB
        | Err e \<Rightarrow> Ok []
        | Ok (header, rest) \<Rightarrow>
            let n = unat (ph_incl_len header) in
            if length rest < n then Ok []
            else bind_res (read_seed_records (drop n rest) endian) (\<lambda>rs.
              Ok (\<lparr> sr_header = take PACKET_HEADER_LEN span, sr_frame = take n rest \<rparr> # rs)))"
  by pat_completeness auto
termination
  by (relation "measure (length \<circ> fst)") (auto dest!: parse_PacketHeader_Ok)

declare read_seed_records.simps [simp del]

definition readCapture :: "string \<Rightarrow> u8 list option \<Rightarrow> (string + SeedCapture) res" where
  "readCapture path content =
     (case content of
        None \<Rightarrow> Ok (Inl (path @ '': cannot open capture''))
      | Some data \<Rightarrow>
          (case parse_FileHeader data of
             UB \<Rightarrow> UB
           | Err e \<Rightarrow> Ok (Inl (path @ '': not a supported classic pcap ('' @ toString_ParseError e @ '')''))
           | Ok (header, endian, span) \<Rightarrow>
               bind_res (read_seed_records span endian) (\<lambda>rs.
               Ok (Inr \<lparr> sc_file_header = take FILE_HEADER_LEN data, sc_parsed = header, sc_records = rs \<rparr>))))"

definition packetKind :: "Packet \<Rightarrow> string" where
  "packetKind p =
     (let kind = concat (map (\<lambda>_. ''vlan-'') (vlan_tags p)) in
      if isArp p then kind @ ''arp''
      else let kind = kind @ (if isIpv4 p then ''ipv4'' else ''ipv6'') in
        if isTcp p then kind @ ''-tcp''
        else if isUdp p then kind @ ''-udp''
        else if isIcmp p then kind @ ''-icmp''
        else kind @ ''-icmpv6'')"

section \<open>Synthetic frames\<close>

definition syn_mac :: "u8 list" where "syn_mac = [2, 0, 0, 0, 0, 1, 2, 0, 0, 0, 0, 2]"
definition syn_src_ip4 :: "u8 list" where "syn_src_ip4 = [10, 0, 0, 1]"
definition syn_dst_ip4 :: "u8 list" where "syn_dst_ip4 = [10, 0, 0, 2]"
definition syn_src_ip6 :: "u8 list" where "syn_src_ip6 = [0x20, 1, 0x0D, 0xB8, 0, 0, 0, 0, 0, 0, 0, 0, 0, 0, 0, 1]"
definition syn_dst_ip6 :: "u8 list" where "syn_dst_ip6 = [0x20, 1, 0x0D, 0xB8, 0, 0, 0, 0, 0, 0, 0, 0, 0, 0, 0, 2]"

text \<open>The request line and the \<open>Host\<close> field of the TCP segment.\<close>

definition syn_request :: "u8 list" where
  "syn_request = bytes_of (''GET / HTTP/1.1'' @ [CHR 0x0D, newline] @ ''Host: a'' @ [CHR 0x0D, newline, CHR 0x0D, newline])"

definition syn_tcp :: "u8 list" where
  "syn_tcp = put16 49152 @ put16 http_PORT @ put32 1 @ put32 0 @ [push_bit 4 5] @ [0x18] @ put16 65535 @ put16 0 @ put16 0 @ syn_request"

definition syn_dns_query :: "u8 list" where
  "syn_dns_query = put16 0x1234 @ put16 0x0100 @ put16 1 @ put16 0 @ put16 0 @ put16 0 @
     [1, 97, 3, 110, 101, 116, 0] @ put16 TYPE_A @ put16 1"

definition syn_udp :: "u8 list" where
  "syn_udp = put16 53000 @ put16 dns_PORT @ put16 (of_nat (udp_HEADER_LEN + length syn_dns_query)) @ put16 0 @ syn_dns_query"

definition syn_icmp6 :: "u8 list" where
  "syn_icmp6 = [ICMPV6_ECHO_REQUEST, 0] @ put16 0 @ put16 1 @ put16 1 @ bytes_of ''ping''"

definition syn_ipv4 :: "u8 \<Rightarrow> u8 list \<Rightarrow> u8 list" where
  "syn_ipv4 protocol l4 =
     [0x45, 0] @ put16 (of_nat (v4_MIN_HEADER_LEN + length l4)) @ put16 1 @ put16 0x4000 @ [64] @ [protocol] @ put16 0 @
     syn_src_ip4 @ syn_dst_ip4 @ l4"

definition syn_ipv6 :: "u8 \<Rightarrow> u8 list \<Rightarrow> u8 list" where
  "syn_ipv6 next_header l4 =
     put32 (push_bit 28 (ucast v6_SUPPORTED_VERSION)) @ put16 (of_nat (length l4)) @ [next_header] @ [64] @
     syn_src_ip6 @ syn_dst_ip6 @ l4"

definition vlanTag :: "u16 \<Rightarrow> u16 \<Rightarrow> u8 list \<Rightarrow> u8 list" where
  "vlanTag tpid vid inner = put16 tpid @ put16 vid @ inner"

definition syntheticFrames :: "(string \<times> u8 list) list" where
  "syntheticFrames =
     (let hop_by_hop = [PROTOCOL_TCP, 0, 1, 4, 0, 0, 0, 0];
          routing = [PROTOCOL_UDP, 2, 0, 1, 0, 0, 0, 0] @ syn_dst_ip6;
          fragment = [PROTOCOL_TCP, 0, 0, 1, 0, 0, 0, 42];
          type_ip4 = put16 ETHERTYPE_IPV4;
          type_ip6 = put16 ETHERTYPE_IPV6 in
      [(''vlan-ipv4-tcp'', syn_mac @ vlanTag ETHERTYPE_VLAN 100 type_ip4 @ syn_ipv4 PROTOCOL_TCP syn_tcp),
       (''qinq-ipv4-udp'', syn_mac @ vlanTag ETHERTYPE_VLAN_QQ 200 (vlanTag ETHERTYPE_VLAN 100 type_ip4) @ syn_ipv4 PROTOCOL_UDP syn_udp),
       (''ipv6-tcp'', syn_mac @ type_ip6 @ syn_ipv6 PROTOCOL_TCP syn_tcp),
       (''ipv6-udp'', syn_mac @ type_ip6 @ syn_ipv6 PROTOCOL_UDP syn_udp),
       (''ipv6-icmpv6'', syn_mac @ type_ip6 @ syn_ipv6 PROTOCOL_ICMPV6 syn_icmp6),
       (''ipv6-hopbyhop-tcp'', syn_mac @ type_ip6 @ syn_ipv6 PROTOCOL_HOPOPT (hop_by_hop @ syn_tcp)),
       (''ipv6-routing-udp'', syn_mac @ type_ip6 @ syn_ipv6 PROTOCOL_IPV6_ROUTE (routing @ syn_udp)),
       (''ipv6-fragment-tcp'', syn_mac @ type_ip6 @ syn_ipv6 PROTOCOL_IPV6_FRAG (fragment @ syn_tcp))])"

definition decode_ethernet :: "u8 list \<Rightarrow> (Packet \<times> span) res" where
  "decode_ethernet frame = decodePacket frame (setDatatypeFromLinktype (pkt Capture_zero) LINKTYPE_ETHERNET) False"

lemmas frame_defs = syn_mac_def syn_src_ip4_def syn_dst_ip4_def syn_src_ip6_def syn_dst_ip6_def syn_request_def syn_tcp_def syn_dns_query_def
  syn_udp_def syn_icmp6_def syn_ipv4_def syn_ipv6_def vlanTag_def put16_def put32_def bytes_of_def

lemmas number_defs = PROTOCOL_TCP_def PROTOCOL_UDP_def PROTOCOL_ICMPV6_def PROTOCOL_HOPOPT_def PROTOCOL_IPV6_ROUTE_def PROTOCOL_IPV6_FRAG_def
  ETHERTYPE_IPV4_def ETHERTYPE_IPV6_def ETHERTYPE_VLAN_def ETHERTYPE_VLAN_QQ_def http_PORT_def dns_PORT_def TYPE_A_def udp_HEADER_LEN_def
  ICMPV6_ECHO_REQUEST_def v4_MIN_HEADER_LEN_def v6_SUPPORTED_VERSION_def

lemmas decode_defs = decode_ethernet_def Capture_zero_def setDatatypeFromLinktype_def LINKTYPE_ETHERNET_def
  decodePacket_def decodeLayer2_def decodeLayer3_def decodeLayer4_def decode_vlan_loop.simps decode_ext_loop.simps
  setNetworkFromEthertype_def setTransportFromProtocol_def isArp_def hasIpv6Ext_def raw16_def raw32_def toHost16_def toHost32_def bswap16_def bswap32_def
  v4_MIN_HEADER_LEN_def v4_MAX_HEADER_LEN_def v4_SUPPORTED_VERSION_def v4_version_def v4_ihl_def v4_header_length_def
  v4_flags_def v4_dontFragment_def v4_moreFragments_def v4_fragment_def v4_raw_def v4_toHost_def v4_parse_def
  v6_HEADER_LEN_def v6_SUPPORTED_VERSION_def v6_version_def v6_parse_def ext_MIN_HEADER_LEN_def ext_AH_MIN_LEN_def
  ext_MAX_HEADERS_def ROUTING_TYPE_0_def ROUTING_TYPE_2_def ROUTING_TYPE_SRH_def ROUTING_ADDRESS_OFFSET_def
  ext_isExtension_def ext_isFragment_def ext_isAtomicFragment_def ext_zero_def ext_wire_length_def
  ext_parse_routing_def ext_parse_fields_def ext_parse_def ext_pseudoHeader_def tcp_MIN_HEADER_LEN_def
  tcp_MAX_HEADER_LEN_def tcp_data_offset_def tcp_header_length_def tcp_raw_def tcp_toHost_def tcp_parse_def
  tcp_parse_v4_def tcp_parse_v6_def udp_HEADER_LEN_def udp_raw_def udp_toHost_def udp_parse_def udp_parse_v4_def
  udp_parse_v6_def icmpv6_HEADER_LEN_def icmpv6_MIN_MTU_def ICMPV6_UNREACHABLE_def ICMPV6_PACKET_TOO_BIG_def
  ICMPV6_TTL_EXCEEDED_def ICMPV6_PARAM_PROBLEM_def ICMPV6_ECHO_REQUEST_def ICMPV6_ECHO_REPLY_def
  ICMPV6_ROUTER_SOLICIT_def ICMPV6_ROUTER_ADVERT_def ICMPV6_NEIGHBOR_SOLICIT_def ICMPV6_NEIGHBOR_ADVERT_def
  icmpv6_echo_id_def icmpv6_echo_seq_def icmpv6_mtu_def icmpv6_pointer_def icmpv6_code_ok_def icmpv6_parse_def
  ethernet_HEADER_LEN_def ethernet_parse_def vlan_HEADER_LEN_def vlan_MAX_TAGS_def vlan_pcp_def vlan_dei_def
  vlan_vid_def vlan_parse_def PROTOCOL_ICMP_def PROTOCOL_AH_def PROTOCOL_IPV6_OPTS_def PROTOCOL_MOBILITY_def
  PROTOCOL_HIP_def PROTOCOL_SHIM6_def ETHERTYPE_ARP_def VID_RESERVED_def

lemma synthetic_decode:
  "list_all (\<lambda>(name, frame). case decode_ethernet frame of UB \<Rightarrow> False | Err e \<Rightarrow> e = UnsupportedTransportType | Ok _ \<Rightarrow> True) syntheticFrames"
  unfolding syntheticFrames_def Let_def list.pred_inject prod.case
  by (intro conjI TrueI; simp add: frame_defs number_defs; simp add: decode_defs number_defs Let_def)

section \<open>Picking seeds\<close>

definition hasPort :: "FlowKey \<Rightarrow> u16 \<Rightarrow> bool" where
  "hasPort key port \<longleftrightarrow> fk_src_port key = port \<or> fk_dst_port key = port"

record GenState =
  gs_seeds :: "Seed list"
  gs_kind_counts :: "(string, nat) umap"
  gs_dns_payloads :: "u8 list list"
  gs_http_payloads :: "u8 list list"
  gs_flows :: "(FlowKey, SeedRecord list) umap"
  gs_flow_order :: "FlowKey list"

definition GenState_init :: GenState where
  "GenState_init = \<lparr> gs_seeds = [], gs_kind_counts = [], gs_dns_payloads = [], gs_http_payloads = [], gs_flows = [], gs_flow_order = [] \<rparr>"

definition add_seed :: "string \<Rightarrow> string \<Rightarrow> u8 list \<Rightarrow> GenState \<Rightarrow> GenState" where
  "add_seed target name bs st = st \<lparr> gs_seeds := gs_seeds st @ [\<lparr> sd_target = target, sd_name = name, sd_bytes = bs \<rparr>] \<rparr>"

definition kind_count :: "GenState \<Rightarrow> string \<Rightarrow> nat" where
  "kind_count st kind = (case map_of (gs_kind_counts st) kind of Some n \<Rightarrow> n | None \<Rightarrow> 0)"

definition pick_packet :: "nat \<Rightarrow> u8 list \<Rightarrow> Packet \<Rightarrow> GenState \<Rightarrow> GenState" where
  "pick_packet per_kind frame p st =
     (let kind = packetKind p in
      if length frame \<le> MAX_PACKET_SEED_LEN \<and> kind_count st kind < per_kind then
        add_seed ''fuzz_packet'' (seedName kind frame) (CHECKSUMS_ON # frame)
          (st \<lparr> gs_kind_counts := AList.update kind (kind_count st kind + 1) (gs_kind_counts st) \<rparr>)
      else st)"

definition pick_dns :: "nat \<Rightarrow> u8 list \<Rightarrow> Packet \<Rightarrow> FlowKey \<Rightarrow> GenState \<Rightarrow> GenState res" where
  "pick_dns per_payload data p key st =
     (if isUdp p \<and> hasPort key dns_PORT \<and> length (gs_dns_payloads st) < per_payload \<and> data \<notin> set (gs_dns_payloads st) then
        (case dns_parse data Big of
           UB \<Rightarrow> UB
         | Err e \<Rightarrow> Ok st
         | Ok (header, rest) \<Rightarrow>
             Ok (add_seed ''fuzz_dns'' (seedName (if dns_isResponse header then ''response'' else ''query'') data) data
                  (st \<lparr> gs_dns_payloads := gs_dns_payloads st @ [data] \<rparr>)))
      else Ok st)"

definition pick_http :: "nat \<Rightarrow> u8 list \<Rightarrow> Packet \<Rightarrow> FlowKey \<Rightarrow> GenState \<Rightarrow> GenState res" where
  "pick_http per_payload data p key st =
     (if isTcp p \<and> hasPort key http_PORT \<and> length (gs_http_payloads st) < per_payload then
        let head = take MAX_HTTP_SEED_LEN data in
        (case http_parse data http_Header_init of
           UB \<Rightarrow> UB
         | Err e \<Rightarrow> Ok st
         | Ok (header, rest) \<Rightarrow>
             if head \<in> set (gs_http_payloads st) then Ok st
             else
               let label = (if http_isResponse header then ''response'' else lowercase (http_method header)) in
               Ok ((add_seed ''fuzz_http'' (seedName label head) head st) \<lparr> gs_http_payloads := gs_http_payloads st @ [head] \<rparr>))
      else Ok st)"

definition note_flow :: "SeedRecord \<Rightarrow> Packet \<Rightarrow> FlowKey \<Rightarrow> GenState \<Rightarrow> GenState" where
  "note_flow rec p key st =
     (if (isTcp p \<or> isUdp p) \<and> (hasPort key dns_PORT \<or> hasPort key http_PORT) then
        let key = fst (normalize key) in
        (case map_of (gs_flows st) key of
           None \<Rightarrow> st \<lparr> gs_flows := AList.update key [rec] (gs_flows st), gs_flow_order := gs_flow_order st @ [key] \<rparr>
         | Some rs \<Rightarrow> st \<lparr> gs_flows := AList.update key (rs @ [rec]) (gs_flows st) \<rparr>)
      else st)"

text \<open>One turn of the loop over the records.\<close>

definition pick_record :: "u32 \<Rightarrow> nat \<Rightarrow> nat \<Rightarrow> SeedRecord \<Rightarrow> GenState \<Rightarrow> GenState res" where
  "pick_record linktype per_payload per_kind rec st =
     (case decodePacket (sr_frame rec) (setDatatypeFromLinktype (pkt Capture_zero) linktype) False of
        UB \<Rightarrow> UB
      | Err e \<Rightarrow> Ok st
      | Ok (p, rest) \<Rightarrow>
          let st = pick_packet per_kind (sr_frame rec) p st in
          (case keyFromPacket p of
             UB \<Rightarrow> UB
           | Err e \<Rightarrow> Ok st
           | Ok key \<Rightarrow>
               bind_res (pick_dns per_payload (payload p) p key st) (\<lambda>st.
               bind_res (pick_http per_payload (payload p) p key st) (\<lambda>st.
               Ok (note_flow rec p key st)))))"

fun pick_records :: "u32 \<Rightarrow> nat \<Rightarrow> nat \<Rightarrow> SeedRecord list \<Rightarrow> GenState \<Rightarrow> GenState res" where
  "pick_records linktype per_payload per_kind [] st = Ok st"
| "pick_records linktype per_payload per_kind (r # rs) st =
     bind_res (pick_record linktype per_payload per_kind r st) (pick_records linktype per_payload per_kind rs)"

text \<open>The synthetic frames, or the message that one of them does not decode.\<close>

fun add_synthetic :: "(string \<times> u8 list) list \<Rightarrow> GenState \<Rightarrow> (string + GenState) res" where
  "add_synthetic [] st = Ok (Inr st)"
| "add_synthetic ((name, frame) # fs) st =
     (case decode_ethernet frame of
        UB \<Rightarrow> UB
      | Err e \<Rightarrow>
          if e \<noteq> UnsupportedTransportType then
            Ok (Inl (''synthetic frame '' @ quoted name @ '' does not decode ('' @ toString_ParseError e @ ''); fix syntheticFrames()''))
          else add_synthetic fs (add_seed ''fuzz_packet'' name (CHECKSUMS_OFF # frame) st)
      | Ok _ \<Rightarrow> add_synthetic fs (add_seed ''fuzz_packet'' name (CHECKSUMS_OFF # frame) st))"

definition pcapBlob :: "SeedCapture \<Rightarrow> SeedRecord list \<Rightarrow> u8 list" where
  "pcapBlob capture rs = sc_file_header capture @ concat (map (\<lambda>r. sr_header r @ sr_frame r) rs)"

definition firstRecords :: "SeedCapture \<Rightarrow> nat \<Rightarrow> SeedRecord list" where
  "firstRecords capture n = take n (sc_records capture)"

text \<open>The first small HTTP flow and the first small DNS flow.\<close>

fun add_flows :: "SeedCapture \<Rightarrow> FlowKey list \<Rightarrow> bool \<Rightarrow> bool \<Rightarrow> GenState \<Rightarrow> GenState" where
  "add_flows capture [] have_http have_dns st = st"
| "add_flows capture (key # keys) have_http have_dns st =
     (let rs = (case map_of (gs_flows st) key of Some rs \<Rightarrow> rs | None \<Rightarrow> []);
          http_flow = (fk_protocol key = PROTOCOL_TCP \<and> hasPort key http_PORT);
          dns_flow = (fk_protocol key = PROTOCOL_UDP \<and> hasPort key dns_PORT);
          blob = pcapBlob capture rs in
      if \<not> (http_flow \<and> \<not> have_http) \<and> \<not> (dns_flow \<and> \<not> have_dns) then add_flows capture keys have_http have_dns st
      else if length rs > MAX_FLOW_PACKETS then add_flows capture keys have_http have_dns st
      else if length blob > MAX_FLOW_SEED_LEN then add_flows capture keys have_http have_dns st
      else add_flows capture keys (http_flow \<or> have_http) (\<not> http_flow \<or> have_dns)
        (add_seed ''fuzz_capture'' (if http_flow then ''http-flow'' else ''dns-flow'') blob st))"

text \<open>\<open>Seed::operator<\<close> through \<open>std::tie\<close>.\<close>

fun bytes_less :: "u8 list \<Rightarrow> u8 list \<Rightarrow> bool" where
  "bytes_less s [] = False"
| "bytes_less [] (d # ds) = True"
| "bytes_less (c # cs) (d # ds) = (c < d \<or> c = d \<and> bytes_less cs ds)"

definition Seed_less :: "Seed \<Rightarrow> Seed \<Rightarrow> bool" where
  "Seed_less a b =
     (if sd_target a \<noteq> sd_target b then string_less (sd_target a) (sd_target b)
      else if sd_name a \<noteq> sd_name b then string_less (sd_name a) (sd_name b)
      else bytes_less (sd_bytes a) (sd_bytes b))"

definition generate_seeds :: "string \<Rightarrow> u8 list option \<Rightarrow> nat \<Rightarrow> nat \<Rightarrow> (string + Seed list) res" where
  "generate_seeds path content per_payload per_kind =
     bind_res (readCapture path content) (\<lambda>capture.
     case capture of
       Inl e \<Rightarrow> Ok (Inl e)
     | Inr capture \<Rightarrow>
         bind_res (pick_records (fh_linktype (sc_parsed capture)) per_payload per_kind (sc_records capture) GenState_init) (\<lambda>st.
         bind_res (add_synthetic syntheticFrames st) (\<lambda>st.
         case st of
           Inl e \<Rightarrow> Ok (Inl e)
         | Inr st \<Rightarrow>
             let st = add_seed ''fuzz_capture'' (''head-'' @ dec_string CAPTURE_HEAD_PACKETS @ ''-packets'')
                   (pcapBlob capture (firstRecords capture CAPTURE_HEAD_PACKETS)) st;
                 st = add_flows capture (gs_flow_order st) False False st;
                 st = add_seed ''fuzz_pcap_header'' (''head-'' @ dec_string PCAP_HEADER_SEED_PACKETS @ ''-packets'')
                   (pcapBlob capture (firstRecords capture PCAP_HEADER_SEED_PACKETS)) st;
                 st = add_seed ''fuzz_address'' ''v4-text'' (bytes_of ''10.0.0.1'') st;
                 st = add_seed ''fuzz_address'' ''v6-text'' (bytes_of ''2001:db8::1'') st in
             Ok (Inr (sort_by Seed_less (gs_seeds st))))))"

definition seeds_text :: "Seed list \<Rightarrow> string" where
  "seeds_text seeds = concat (map seed_line seeds)"

section \<open>Every seed fits on a line\<close>

definition seeds_ok :: "GenState \<Rightarrow> bool" where
  "seeds_ok st \<longleftrightarrow> list_all seed_ok (gs_seeds st)"

lemma seeds_ok_fields [simp]:
  "seeds_ok (st \<lparr> gs_kind_counts := k \<rparr>) = seeds_ok st" "seeds_ok (st \<lparr> gs_dns_payloads := d \<rparr>) = seeds_ok st"
  "seeds_ok (st \<lparr> gs_http_payloads := h \<rparr>) = seeds_ok st" "seeds_ok (st \<lparr> gs_flows := f \<rparr>) = seeds_ok st"
  "seeds_ok (st \<lparr> gs_flow_order := q \<rparr>) = seeds_ok st"
  by (simp_all add: seeds_ok_def)

lemma target_words: "t \<in> {''fuzz_packet'', ''fuzz_dns'', ''fuzz_http'', ''fuzz_capture'', ''fuzz_pcap_header'', ''fuzz_address''} \<Longrightarrow>
    plain_word t \<and> hd t \<noteq> CHR ''#''"
  by (auto simp: plain_word_def is_space_def)

lemma add_seed_ok:
  assumes "seeds_ok st" and "plain_word name" and "bs \<noteq> []"
    and "target \<in> {''fuzz_packet'', ''fuzz_dns'', ''fuzz_http'', ''fuzz_capture'', ''fuzz_pcap_header'', ''fuzz_address''}"
  shows "seeds_ok (add_seed target name bs st)"
  using assms target_words [OF assms(4)] by (simp add: seeds_ok_def add_seed_def seed_ok_def)

lemma plain_word_append: "plain_word a \<Longrightarrow> list_all (\<lambda>c. \<not> is_space c) b \<Longrightarrow> plain_word (a @ b)"
  by (simp add: plain_word_def)

lemma hex_string_plain: "list_all (\<lambda>c. \<not> is_space c) (hex_string n)"
proof (induction n rule: hex_string.induct)
  case (1 n)
  have "\<not> is_space (hex_digit k)" if "k < 16" for k
  proof -
    have "list_all (\<lambda>k. \<not> is_space (hex_digit k)) [0..<16]" by code_simp
    then show ?thesis using that by (simp add: list_all_iff)
  qed
  with 1 show ?case by (auto simp: hex_string.simps [of n])
qed

lemma not_space: "\<not> is_space CHR ''-''" "\<not> is_space CHR ''0''"
  by (simp_all add: is_space_def)

lemma seedName_plain: "plain_word label \<Longrightarrow> plain_word (seedName label blob)"
  unfolding seedName_def using hex_string_plain [of "unat (seed_hash blob)"]
  by (intro plain_word_append) (auto simp: pad0_def not_space list_all_iff)

lemma is_space_nat: "is_space c \<longleftrightarrow> (of_char c :: nat) = 32 \<or> 9 \<le> (of_char c :: nat) \<and> (of_char c :: nat) \<le> 13"
proof -
  have "c = CHR '' '' \<longleftrightarrow> (of_char c :: nat) = 32" using of_char_eq_iff [of c "CHR '' ''", where ?'a = nat] by simp
  then show ?thesis by (simp add: is_space_def)
qed

lemma packetKind_plain: "plain_word (packetKind p)"
  by (auto simp: packetKind_def Let_def plain_word_def list_all_iff is_space_def)

lemma lowercase_token_plain:
  assumes "isToken s"
  shows "plain_word (lowercase s)"
proof -
  have "\<not> is_space (tolower c)" if "isToken_char c" for c
    using that by (auto simp: isToken_char_def is_space_nat tolower_def Let_def split: if_splits)
  then show ?thesis using assms by (auto simp: isToken_def plain_word_def lowercase_def list_all_iff split: if_splits)
qed

lemma http_method_token:
  assumes "http_parse s http_Header_init = Ok (h, rest)"
  shows "s \<noteq> [] \<and> (http_isResponse h \<or> isToken (http_method h))"
proof -
  obtain h1 s1 fs where start: "parseStartLine s http_Header_init = Ok (h1, s1)" and fr: "parseFraming (h1 \<lparr> http_fields := fs \<rparr>) = Ok h"
    using assms by (auto simp: http_parse_def bind_res_Ok_iff)
  have "http_type h1 = MtResponse \<or> isToken (http_method h1)" if "start_line_header line http_Header_init = Ok h1" for line
    using that by (auto simp: start_line_header_def parse_status_line_def Let_def bind_res_Ok_iff split: if_splits option.splits)
  then have "http_type h1 = MtResponse \<or> isToken (http_method h1)" using start by (auto simp: parseStartLine_def bind_res_Ok_iff)
  moreover have "http_type h = http_type h1 \<and> http_method h = http_method h1"
    using fr by (auto simp: parseFraming_def bind_res_Ok_iff split: if_splits)
  moreover have "moved s s1" using parseStartLine_Ok [OF start] by blast
  ultimately show ?thesis by (auto simp: http_isResponse_def moved_def)
qed

lemma label_words: "plain_word ''response''" "plain_word ''query''" "plain_word ''http-flow''" "plain_word ''dns-flow''"
  "plain_word ''v4-text''" "plain_word ''v6-text''"
  by (simp_all add: plain_word_def is_space_def)

lemma pick_dns_ok:
  assumes "seeds_ok st" and "pick_dns n data p key st = Ok st'"
  shows "seeds_ok st'"
proof -
  have "data \<noteq> []" if "dns_parse data Big = Ok (h, rest)" for h rest
    using dns_parse_holds [of data Big] that by auto
  then show ?thesis
    using assms by (auto simp: pick_dns_def split: if_splits res.splits intro!: add_seed_ok seedName_plain label_words)
qed

lemma pick_http_ok:
  assumes "seeds_ok st" and "pick_http n data p key st = Ok st'"
  shows "seeds_ok st'"
proof (cases "st' = st")
  case False
  then obtain h rest where h: "http_parse data http_Header_init = Ok (h, rest)"
    and st': "st' = add_seed ''fuzz_http'' (seedName (if http_isResponse h then ''response'' else lowercase (http_method h)) (take MAX_HTTP_SEED_LEN data))
        (take MAX_HTTP_SEED_LEN data) st \<lparr> gs_http_payloads := gs_http_payloads st @ [take MAX_HTTP_SEED_LEN data] \<rparr>"
    using assms(2) by (auto simp: pick_http_def Let_def split: if_splits res.splits)
  have "take MAX_HTTP_SEED_LEN data \<noteq> []" "plain_word (if http_isResponse h then ''response'' else lowercase (http_method h))"
    using http_method_token [OF h] lowercase_token_plain label_words by (auto simp: MAX_HTTP_SEED_LEN_def)
  then show ?thesis unfolding st' using assms(1) by (simp add: add_seed_ok seedName_plain)
qed (use assms in simp)

lemma pick_packet_ok: "seeds_ok st \<Longrightarrow> seeds_ok (pick_packet n frame p st)"
  by (auto simp: pick_packet_def Let_def intro!: add_seed_ok seedName_plain packetKind_plain)

lemma note_flow_ok [simp]: "seeds_ok (note_flow r p key st) = seeds_ok st"
  by (simp add: note_flow_def Let_def split: option.split)

lemma pick_record_ok:
  assumes "seeds_ok st" and "pick_record l n k r st = Ok st'"
  shows "seeds_ok st'"
proof (cases "decodePacket (sr_frame r) (setDatatypeFromLinktype (pkt Capture_zero) l) False")
  case (Ok pr)
  then obtain p rest where p: "decodePacket (sr_frame r) (setDatatypeFromLinktype (pkt Capture_zero) l) False = Ok (p, rest)" by (cases pr) auto
  let ?st = "pick_packet k (sr_frame r) p st"
  have ok: "seeds_ok ?st" using assms(1) by (rule pick_packet_ok)
  show ?thesis
  proof (cases "keyFromPacket p")
    case (Ok key)
    then obtain st1 st2 where "pick_dns n (payload p) p key ?st = Ok st1" "pick_http n (payload p) p key st1 = Ok st2" "st' = note_flow r p key st2"
      using assms(2) p by (auto simp: pick_record_def Let_def bind_res_Ok_iff)
    then show ?thesis using pick_http_ok [OF pick_dns_ok [OF ok]] by simp
  qed (use assms(2) p ok in \<open>auto simp: pick_record_def Let_def\<close>)
qed (use assms in \<open>auto simp: pick_record_def\<close>)

lemma pick_records_ok: "seeds_ok st \<Longrightarrow> pick_records l n k rs st = Ok st' \<Longrightarrow> seeds_ok st'"
  by (induction rs arbitrary: st) (auto simp: bind_res_Ok_iff dest: pick_record_ok)

text \<open>The synthetic frames are accepted, so the loop over them ends with all of them added.\<close>

lemma add_synthetic_Inr:
  assumes "list_all (\<lambda>(name, frame). case decode_ethernet frame of UB \<Rightarrow> False | Err e \<Rightarrow> e = UnsupportedTransportType | Ok _ \<Rightarrow> True) fs"
    and "list_all (\<lambda>(name, frame). plain_word name) fs" and "seeds_ok st"
  shows "\<exists>st'. add_synthetic fs st = Ok (Inr st') \<and> seeds_ok st'"
  using assms
proof (induction fs arbitrary: st)
  case (Cons nf fs)
  obtain name frame where nf: "nf = (name, frame)" by (cases nf)
  have "seeds_ok (add_seed ''fuzz_packet'' name (CHECKSUMS_OFF # frame) st)"
    using Cons.prems(2,3) by (intro add_seed_ok) (auto simp: nf)
  from Cons.IH [OF _ _ this] show ?case
    using Cons.prems(1,2) by (auto simp: nf split: res.splits)
qed simp

lemma synthetic_names: "list_all (\<lambda>(name, frame). plain_word name) syntheticFrames"
  by (simp add: syntheticFrames_def Let_def plain_word_def is_space_def)

lemma add_flows_ok:
  assumes "sc_file_header capture \<noteq> []" and "seeds_ok st"
  shows "seeds_ok (add_flows capture keys h1 h2 st)"
  using assms(2)
proof (induction keys arbitrary: h1 h2 st)
  case (Cons key keys)
  have "pcapBlob capture rs \<noteq> []" for rs using assms(1) by (simp add: pcapBlob_def)
  then have "seeds_ok (add_seed ''fuzz_capture'' (if h then ''http-flow'' else ''dns-flow'') (pcapBlob capture rs) st)" for h rs
    using Cons.prems label_words(3,4) by (intro add_seed_ok) auto
  from Cons this [of True] this [of False] show ?case by (simp add: Let_def)
qed simp

lemma head_names: "plain_word (''head-'' @ dec_string n @ ''-packets'')"
proof -
  have "\<not> is_space c" if "c \<in> set (dec_string n)" for c
    using that dec_string_decimal [of n] by (auto simp: is_decimal_def list_all_iff is_digit_def is_space_nat)
  then show ?thesis by (auto simp: plain_word_def list_all_iff is_space_def)
qed

lemma set_sort_by: "set (sort_by prec xs) = set xs"
proof -
  have "set (insort_by prec x ys) = insert x (set ys)" for x ys by (induction ys) auto
  then show ?thesis by (induction xs) (auto simp: sort_by_def)
qed

lemma readCapture_header: "readCapture path content = Ok (Inr capture) \<Longrightarrow> sc_file_header capture \<noteq> []"
  by (auto simp: readCapture_def FILE_HEADER_LEN_def bind_res_Ok_iff split: option.splits res.splits dest!: parse_FileHeader_Ok)

lemma generate_seeds_ok:
  assumes "generate_seeds path content per_payload per_kind = Ok out" and "readCapture path content = Ok (Inr capture)"
  shows "\<exists>seeds. out = Inr seeds \<and> list_all seed_ok seeds \<and> seeds \<noteq> []"
proof -
  obtain st where st: "pick_records (fh_linktype (sc_parsed capture)) per_payload per_kind (sc_records capture) GenState_init = Ok st"
    using assms by (auto simp: generate_seeds_def bind_res_Ok_iff)
  have "seeds_ok st" using pick_records_ok [OF _ st] by (simp add: seeds_ok_def GenState_init_def)
  then obtain st1 where st1: "add_synthetic syntheticFrames st = Ok (Inr st1)" "seeds_ok st1"
    using add_synthetic_Inr [OF synthetic_decode synthetic_names] by blast
  have head: "sc_file_header capture \<noteq> []" using readCapture_header [OF assms(2)] .
  then have blob: "pcapBlob capture rs \<noteq> []" for rs by (simp add: pcapBlob_def)
  define st2 where "st2 = add_seed ''fuzz_capture'' (''head-'' @ dec_string CAPTURE_HEAD_PACKETS @ ''-packets'')
    (pcapBlob capture (firstRecords capture CAPTURE_HEAD_PACKETS)) st1"
  define st3 where "st3 = add_flows capture (gs_flow_order st2) False False st2"
  define st4 where "st4 = add_seed ''fuzz_pcap_header'' (''head-'' @ dec_string PCAP_HEADER_SEED_PACKETS @ ''-packets'')
    (pcapBlob capture (firstRecords capture PCAP_HEADER_SEED_PACKETS)) st3"
  define st5 where "st5 = add_seed ''fuzz_address'' ''v4-text'' (bytes_of ''10.0.0.1'') st4"
  define st6 where "st6 = add_seed ''fuzz_address'' ''v6-text'' (bytes_of ''2001:db8::1'') st5"
  have "seeds_ok st2" unfolding st2_def using st1(2) blob by (intro add_seed_ok head_names) auto
  then have "seeds_ok st3" unfolding st3_def by (rule add_flows_ok [OF head])
  then have "seeds_ok st4" unfolding st4_def using blob by (intro add_seed_ok head_names) auto
  then have "seeds_ok st5" unfolding st5_def using label_words(5) by (intro add_seed_ok) (auto simp: bytes_of_def)
  then have "seeds_ok st6" unfolding st6_def using label_words(6) by (intro add_seed_ok) (auto simp: bytes_of_def)
  moreover have "out = Inr (sort_by Seed_less (gs_seeds st6))"
    using assms st st1(1) by (simp add: generate_seeds_def Let_def st2_def st3_def st4_def st5_def st6_def)
  moreover have "set (gs_seeds st6) \<noteq> {}" by (simp add: st6_def add_seed_def)
  then have "sort_by Seed_less (gs_seeds st6) \<noteq> []" by (metis set_sort_by set_empty)
  ultimately show ?thesis by (auto simp: seeds_ok_def list_all_iff set_sort_by)
qed

end
