(* ===== verification/Seeds_Tool.thy ===== *)
theory Seeds_Tool
  imports Fuzz_Seeds
begin

text \<open>
  The commands of \<^verbatim>\<open>fuzz/fuzz_seeds.cpp\<close>: \<open>generate\<close> writes the file of seeds, \<open>unpack\<close> writes one
  file per seed, and \<open>main\<close> reads the arguments; and that \<open>unpack\<close> recovers what \<open>generate\<close> wrote.
  The bytes of a file of \<open>Outcome\<close> are the codes of its characters.
\<close>

section \<open>Commands\<close>

record Seeds_Env =
  se_source_dir :: string
  se_capture :: "string \<Rightarrow> u8 list option"
  se_seeds :: "string \<Rightarrow> string option"
  se_create_directories :: "string \<Rightarrow> string option"
  se_writes :: "string \<Rightarrow> bool"

text \<open>\<open>operator/\<close> of two paths.\<close>

definition fs_join :: "string \<Rightarrow> string \<Rightarrow> string" where
  "fs_join dir name = (if take 1 name = ''/'' then name else if dir = [] then name else path_join dir name)"

fun count_seed :: "string \<Rightarrow> nat \<Rightarrow> (string \<times> nat \<times> nat) list \<Rightarrow> (string \<times> nat \<times> nat) list" where
  "count_seed t b [] = [(t, 1, b)]"
| "count_seed t b ((t', c, n) # m) =
     (if t = t' then (t', c + 1, n + b) # m else if string_less t t' then (t, 1, b) # (t', c, n) # m else (t', c, n) # count_seed t b m)"

definition seed_counts :: "Seed list \<Rightarrow> (string \<times> nat \<times> nat) list" where
  "seed_counts seeds = foldl (\<lambda>m seed. count_seed (sd_target seed) (length (sd_bytes seed)) m) [] seeds"

definition generate :: "Seeds_Env \<Rightarrow> string \<Rightarrow> string \<Rightarrow> nat \<Rightarrow> nat \<Rightarrow> (Outcome \<times> nat) res" where
  "generate env pcap_path out_path per_payload per_kind =
     bind_res (generate_seeds pcap_path (se_capture env pcap_path) per_payload per_kind) (\<lambda>result.
     case result of
       Inl e \<Rightarrow> Ok (Outcome_init \<lparr> out_stderr := e @ nl \<rparr>, 1)
     | Inr seeds \<Rightarrow>
         if \<not> se_writes env out_path then Ok (Outcome_init \<lparr> out_stderr := out_path @ '': cannot write'' @ nl \<rparr>, 1)
         else
           Ok (Outcome_init \<lparr> out_files := [(out_path, seeds_text seeds)],
              out_stdout :=
                concat (map (\<lambda>(target, count, n). target @ '': '' @ dec_string count @ '' seeds, '' @ dec_string n @ '' bytes'' @ nl) (seed_counts seeds)) @
                ''wrote '' @ out_path @ '' ('' @ dec_string (length (seeds_text seeds)) @ '' bytes)'' @ nl \<rparr>, 0))"

text \<open>The callback of \<open>forEachSeed\<close>: the error so far, the files and the number of seeds written.\<close>

definition unpack_seed :: "Seeds_Env \<Rightarrow> string \<Rightarrow> string \<Rightarrow> string \<times> (string \<times> string) list \<times> nat \<Rightarrow> Seed \<Rightarrow> string \<times> (string \<times> string) list \<times> nat" where
  "unpack_seed env dir only_target st seed =
     (case st of (write_error, files, written) \<Rightarrow>
        let sub = fs_join dir (sd_target seed); path = fs_join sub (sd_name seed) in
        if write_error \<noteq> [] \<or> only_target \<noteq> [] \<and> sd_target seed \<noteq> only_target then st
        else case se_create_directories env sub of
            Some message \<Rightarrow> (sub @ '': '' @ message, files, written)
          | None \<Rightarrow>
              if \<not> se_writes env path then (path @ '': cannot write'', files, written)
              else (write_error, files @ [(path, text_of (sd_bytes seed))], written + 1))"

definition unpack :: "Seeds_Env \<Rightarrow> string \<Rightarrow> string \<Rightarrow> string \<Rightarrow> Outcome \<times> nat" where
  "unpack env seeds_path dir only_target =
     (case forEachSeed seeds_path (se_seeds env seeds_path) of (seeds, error) \<Rightarrow>
      case foldl (unpack_seed env dir only_target) ([], [], 0) seeds of (write_error, files, written) \<Rightarrow>
        let st = Outcome_init \<lparr> out_files := files \<rparr>; error = (if error = [] then write_error else error) in
        if error \<noteq> [] then (st \<lparr> out_stderr := error @ nl \<rparr>, 1)
        else if written = 0 then
          (st \<lparr> out_stderr := seeds_path @ '': no seeds for '' @ (if only_target = [] then ''any target'' else only_target) @ nl \<rparr>, 1)
        else (st \<lparr> out_stdout := ''unpacked '' @ dec_string written @ '' seeds into '' @ dir @ nl \<rparr>, 0))"

section \<open>Arguments\<close>

definition seeds_usage :: string where
  "seeds_usage =
     ''usage: fuzz_seeds [generate] [capture.pcap] [--out FILE] [--per-payload N] [--per-kind N]'' @ nl @
     ''       fuzz_seeds unpack DIR [--target NAME] [--seeds FILE]'' @ nl"

text \<open>The positional arguments and the options, or the complaint.\<close>

fun seed_args :: "string list \<Rightarrow> string list \<Rightarrow> string list \<Rightarrow> (string, string) umap \<Rightarrow> string + string list \<times> (string, string) umap" where
  "seed_args known [] positional options = Inr (positional, options)"
| "seed_args known (a # rest) positional options =
     (if take 2 a \<noteq> ''--'' then seed_args known rest (positional @ [a]) options
      else if a \<notin> set known then Inl (''fuzz_seeds: unknown option '' @ a @ nl @ seeds_usage)
      else case rest of
          [] \<Rightarrow> Inl (''fuzz_seeds: '' @ a @ '' requires a value'' @ nl)
        | v # rest' \<Rightarrow> seed_args known rest' positional (AList.update a v options))"

text \<open>\<open>None\<close> is a value that is not a number in range.\<close>

definition number_option :: "(string, string) umap \<Rightarrow> string \<Rightarrow> u64 \<Rightarrow> u64 option" where
  "number_option options name dflt = (case map_of options name of None \<Rightarrow> Some dflt | Some v \<Rightarrow> parseUint v MAX_PER_OPTION)"

definition seeds_main :: "Seeds_Env \<Rightarrow> string list \<Rightarrow> (Outcome \<times> nat) res" where
  "seeds_main env args =
     (let unpacking = (args \<noteq> [] \<and> hd args = ''unpack'');
          args' = (if args \<noteq> [] \<and> (hd args = ''unpack'' \<or> hd args = ''generate'') then tl args else args);
          known = (if unpacking then [''--target'', ''--seeds''] else [''--out'', ''--per-payload'', ''--per-kind'']);
          complain = (\<lambda>message. Ok (Outcome_init \<lparr> out_stderr := message \<rparr>, 2)) in
      if args \<noteq> [] \<and> (hd args = ''-h'' \<or> hd args = ''--help'') then Ok (Outcome_init \<lparr> out_stdout := seeds_usage \<rparr>, 0)
      else case seed_args known args' [] [] of
          Inl message \<Rightarrow> complain message
        | Inr (positional, options) \<Rightarrow>
            let option_or = (\<lambda>name fallback. case map_of options name of None \<Rightarrow> fallback | Some v \<Rightarrow> v);
                default_seeds = fs_join (fs_join (se_source_dir env) ''fuzz'') ''seeds.txt'' in
            if unpacking then
              (case positional of
                 [dir] \<Rightarrow> Ok (unpack env (option_or ''--seeds'' default_seeds) dir (option_or ''--target'' []))
               | _ \<Rightarrow> complain seeds_usage)
            else if length positional > 1 then complain seeds_usage
            else case number_option options ''--per-payload'' 4 of
                None \<Rightarrow> complain (''fuzz_seeds: --per-payload takes a number from 0 to '' @ dec MAX_PER_OPTION @ nl)
              | Some per_payload \<Rightarrow>
                  (case number_option options ''--per-kind'' 1 of
                     None \<Rightarrow> complain (''fuzz_seeds: --per-kind takes a number from 0 to '' @ dec MAX_PER_OPTION @ nl)
                   | Some per_kind \<Rightarrow>
                       generate env
                         (case positional of [] \<Rightarrow> fs_join (fs_join (se_source_dir env) ''samples'') ''smallFlows.pcap'' | capture # _ \<Rightarrow> capture)
                         (option_or ''--out'' default_seeds) (unat per_payload) (unat per_kind)))"

section \<open>Unpacking\<close>

lemma unpack_seeds_all:
  assumes "\<forall>d. se_create_directories env d = None" and "\<forall>f. se_writes env f"
  shows "foldl (unpack_seed env dir []) ([], files, n) seeds =
    ([], files @ map (\<lambda>seed. (fs_join (fs_join dir (sd_target seed)) (sd_name seed), text_of (sd_bytes seed))) seeds, n + length seeds)"
  using assms by (induction seeds arbitrary: files n) (simp_all add: unpack_seed_def Let_def)

text \<open>An environment with a capture without packets, for examples.\<close>

definition seeds_env :: Seeds_Env where
  "seeds_env = \<lparr> se_source_dir = [], se_capture = \<lambda>_. Some (FileHeader_bytes Little False 2 4 65535 1), se_seeds = \<lambda>_. None,
     se_create_directories = \<lambda>_. None, se_writes = \<lambda>_. True \<rparr>"

lemma seeds_env_capture:
  "\<exists>capture. readCapture path (se_capture seeds_env path) = Ok (Inr capture) \<and> sc_records capture = []"
proof -
  obtain h where "parse_FileHeader (FileHeader_bytes Little False 2 4 65535 1) = Ok (h, Little, [])"
    using FileHeader_bytes_parse [of 65535 1 Little False "[]"] by auto
  then show ?thesis by (simp add: readCapture_def seeds_env_def read_seed_records.simps PACKET_HEADER_LEN_def)
qed

lemma seeds_env_generates: "\<exists>st code. generate seeds_env path out_path n k = Ok (st, code)"
proof -
  obtain capture where capture: "readCapture path (se_capture seeds_env path) = Ok (Inr capture)" "sc_records capture = []"
    using seeds_env_capture by blast
  have "seeds_ok GenState_init" by (simp add: seeds_ok_def GenState_init_def)
  then obtain st where "add_synthetic syntheticFrames GenState_init = Ok (Inr st)"
    using add_synthetic_Inr [OF synthetic_decode synthetic_names] by blast
  with capture show ?thesis by (simp add: generate_def generate_seeds_def Let_def)
qed

section \<open>Properties\<close>

text \<open>
  C31. What \<open>generate\<close> writes \<open>unpack\<close> recovers: for any capture that can be read, \<open>generate\<close> fails
  only on writing its file (the synthetic frames always decode), and unpacking that file
  where files can be written succeeds and gives exactly the seeds picked, byte for byte.
\<close>

theorem generated_seeds_unpacked:
  assumes "readCapture path (se_capture env path) = Ok (Inr capture)" and "generate env path out_path n k = Ok (st, code)"
    and "se_writes env out_path" and "\<forall>d. se_create_directories env' d = None" and "\<forall>f. se_writes env' f"
    and "se_seeds env' out_path = map_of (out_files st) out_path"
  shows "code = 0 \<and> (\<exists>seeds st'. generate_seeds path (se_capture env path) n k = Ok (Inr seeds) \<and> unpack env' out_path dir [] = (st', 0) \<and>
    out_files st' = map (\<lambda>seed. (fs_join (fs_join dir (sd_target seed)) (sd_name seed), text_of (sd_bytes seed))) seeds)"
proof -
  obtain out where out: "generate_seeds path (se_capture env path) n k = Ok out"
    using assms(2) by (auto simp: generate_def bind_res_Ok_iff)
  then obtain seeds where seeds: "out = Inr seeds" "list_all seed_ok seeds" "seeds \<noteq> []"
    using generate_seeds_ok [OF _ assms(1)] by blast
  have st: "code = 0" "map_of (out_files st) out_path = Some (seeds_text seeds)"
    using assms(2,3) out seeds(1) by (auto simp: generate_def)
  have "forEachSeed out_path (se_seeds env' out_path) = (seeds, [])"
    using seeds_read_back [OF seeds(2), of out_path] assms(6) st(2) by (simp add: seeds_text_def)
  then show ?thesis
    using unpack_seeds_all [OF assms(4,5), of dir "[]" 0 seeds] seeds out st(1) by (simp add: unpack_def Let_def)
qed

theorem generated_seeds_unpacked_witness:
  "\<exists>st. generate seeds_env ''c'' ''s'' 4 1 = Ok (st, 0) \<and>
    snd (unpack (seeds_env \<lparr> se_seeds := map_of (out_files st) \<rparr>) ''s'' ''d'' []) = 0"
proof -
  obtain capture where capture: "readCapture ''c'' (se_capture seeds_env ''c'') = Ok (Inr capture)" using seeds_env_capture by blast
  obtain st code where st: "generate seeds_env ''c'' ''s'' 4 1 = Ok (st, code)" using seeds_env_generates by blast
  show ?thesis
    using generated_seeds_unpacked [OF capture st, of "seeds_env \<lparr> se_seeds := map_of (out_files st) \<rparr>" "''d''"] st
    by (auto simp: seeds_env_def)
qed

end
