(* ===== verification/Spec2Isabelle.thy ===== *)
theory Spec2Isabelle
  imports Ipv6_Address Stats_Listing Dns_Listing Cli_Args Program_Safety Fuzz_Targets Seeds_Tool
begin

text \<open>
  Verification of the pcap analyzer, a command-line program that reads a capture file, decodes
  its packets down to DNS and HTTP messages, follows flows and TCP streams, and reports on them.
  Paths are relative to \<^verbatim>\<open>src/\<close> of the repository.

  \<^bold>\<open>How the program is put together.\<close> \<^verbatim>\<open>cli\<close> parses the arguments and makes a \<open>Reader\<close> of the
  capture. The reader takes one record after the other and hands its bytes to the \<open>Decoder\<close>, which
  runs the layered packet decoder (link, network and transport headers with their checksums),
  applies the filter, finds the flow of the packet in the \<open>FlowTable\<close>, feeds the two TCP
  reassemblers of the flow, and polls the \<open>AppDecoder\<close>, whose per-direction states collect DNS and
  HTTP messages; DNS answers also go to the \<open>DnsTable\<close>. The \<open>StatsEngine\<close> renders the tables, the
  \<open>Benchmark\<close> the timings, and \<^verbatim>\<open>cli\<close> sends each section to the output or to its file.

  \<^bold>\<open>Conventions.\<close> A span is the list of its bytes; an unsigned integer is a word of its width; a
  struct is a record whose fields carry the prefix of its namespace; \<open>std::unordered_map\<close> is an
  association list with distinct keys (\<open>Containers\<close>); a vector is a list.
  A function that can fail returns \<open>'a res\<close>: \<open>Ok\<close> with what it writes through its references,
  \<open>Err\<close> with its \<open>ParseError\<close>, or \<open>UB\<close> where the C++ standard leaves the behaviour open, such as
  reading past the end of a span. \<open>UB\<close> is a value of the model, so that memory safety is a theorem
  and not an assumption. Loops are recursive functions that are total by a measure; no fuel is
  used anywhere. The host is little-endian with 64-bit \<open>size_t\<close> and signed \<open>char\<close>.

  \<^bold>\<open>Shared theories.\<close>
    \<^item> \<open>Prelude\<close>: words, spans, \<open>res\<close> with its bind and the rules \<open>holds\<close> by which callers of a
      parser are verified, the collections of rewrite rules.
    \<^item> \<open>Wire\<close> (\<^verbatim>\<open>include/net/util/endian.h\<close>): byte order, integers in packed structs.
    \<^item> \<open>Containers\<close>: the map and sorting interfaces as locales, with their interpretations.
    \<^item> \<open>Text_Util\<close>, \<open>Floating\<close> (\<^verbatim>\<open>src/net/util/text.cpp\<close>): comparison, number parsing, indentation,
      JSON escapes, byte counts; durations and rates. A \<open>double\<close> of the program is a non-negative
      finite number, modelled as a fraction rounded to 53 bits after every operation.
    \<^item> \<open>Json\<close>: a lexer for RFC 8259 and the tokens of a document, the specification of the printers.

  \<^bold>\<open>Headers.\<close>
    \<^item> \<open>Checksum\<close> (\<^verbatim>\<open>util/checksum.cpp\<close>): the unrolled routine equals the sum of RFC 1071.
    \<^item> \<open>Link\<close>, \<open>Arp\<close>, \<open>Ipv4\<close>, \<open>Ipv6\<close>, \<open>Transport\<close> (\<^verbatim>\<open>protocols/\<close>): every header with parser and
      checksum gate; \<open>Ipv6_Address\<close>: printed addresses read back.
    \<^item> \<open>Packets\<close> (\<^verbatim>\<open>decode/packet.cpp\<close>, \<^verbatim>\<open>decode/packet_decoder.cpp\<close>): the variants of a packet, the
      VLAN and extension header loops; safety and well-formedness for arbitrary bytes, and
      serialised frames decode to their headers.
    \<^item> \<open>Pcap\<close> (\<^verbatim>\<open>capture/pcap.cpp\<close>): file and record headers of either byte order.
    \<^item> \<open>Printers\<close>, \<open>Packet_Json\<close>: the text and JSON of all headers; the JSON denotes the document
      with the same fields.

  \<^bold>\<open>Flows.\<close>
    \<^item> \<open>Flow_Key\<close>, \<open>Flow_Table\<close> (\<^verbatim>\<open>flow/\<close>): normal forms of keys, filters, hash, timeouts; every byte
      and packet is accounted for in one flow.
    \<^item> \<open>Reassembler\<close>, \<open>Reassembly\<close> (\<^verbatim>\<open>flow/tcp_reassembler.cpp\<close>): the two state machines, the queue of
      early segments, its invariant and limits; the bytes delivered are the longest complete
      prefix of the sender's stream. The locale of readable streams is what the application
      decoder uses of it. \<open>Reassembly_Any\<close>: no undefined behaviour in any history of less than
      \<open>2 ^ 31\<close> bytes and segments.

  \<^bold>\<open>Applications.\<close>
    \<^item> \<open>Dns\<close>, \<open>Dns_Message\<close> (\<^verbatim>\<open>protocols/dns.cpp\<close>): names with compression refine the relation of
      RFC 1035; messages round-trip.
    \<^item> \<open>Dns_Table\<close> (\<^verbatim>\<open>analysis/dns_table.cpp\<close>): names of addresses.
    \<^item> \<open>Http\<close>, \<open>Http_Message\<close>, \<open>Http_Roundtrip\<close> (\<^verbatim>\<open>protocols/http.cpp\<close>): start lines, fields, framing,
      chunked bodies and their resumption.
    \<^item> \<open>App_Decoder\<close> (\<^verbatim>\<open>decode/app_decoder.cpp\<close>) is the code; \<open>App_Dns\<close> and \<open>App_Http\<close> refine the polls to
      functions of the unread bytes, \<open>App_Segments\<close>, \<open>App_Polling\<close> and \<open>App_Requests\<close> derive the
      independence of segmentation, the bounds and the decoding of whole conversations, and
      \<open>App_Head\<close> shows what goes wrong after \<open>HEAD\<close> requests and half-closed connections.

  \<^bold>\<open>The program.\<close>
    \<^item> \<open>Decoder\<close>, \<open>Decoder_Safety\<close> (\<^verbatim>\<open>decode/decoder.cpp\<close>): one frame through all of the above; the
      invariant of the state, safety of all but HTTP, and that a filter is the removal of the other frames.
    \<^item> \<open>Pcap_Reader\<close>, \<open>Capture_Reading\<close> (\<^verbatim>\<open>capture/pcap_reader.cpp\<close>): the loops over records; every
      record has one fate and the counters count them. \<open>Reader_Mapping\<close>: opening, mapping and closing
      the file on POSIX and Windows, for any answers of the system; nothing leaks or is released twice.
    \<^item> \<open>Timed_Reader\<close>: reader and decoder once more with the trace of their stopwatches, the same
      functions without it; \<open>Reader_Timing\<close>: the stopwatches are nested as the report shows them, count the
      records, and their times add up.
    \<^item> \<open>Benchmark\<close> (\<^verbatim>\<open>analysis/benchmark.cpp\<close>), \<open>Stats_Engine\<close> (\<^verbatim>\<open>analysis/stats_engine.cpp\<close>): stopwatches
      and reports; \<open>Stats_Json\<close>: the JSON report is valid; \<open>Stats_Listing\<close>, \<open>Dns_Listing\<close>: what the
      listings of protocols, messages and names hold.
    \<^item> \<open>Cli\<close> (\<^verbatim>\<open>src/cli/cli.cpp\<close>): options, sections, output files, exit status; \<open>Cli_Args\<close>: arguments
      and options correspond; \<open>Cli_Output\<close>: the files are valid JSON and the exit status is true; \<open>Cli_Files\<close>
      (\<^verbatim>\<open>src/cli/main.cpp\<close>): the program on the files of a POSIX system; \<open>Program_Safety\<close>: it
      returns for every file of less than 2 GiB without HTTP streams.

  \<^bold>\<open>Around the program.\<close>
    \<^item> \<open>Fuzz_Targets\<close> (\<^verbatim>\<open>fuzz/fuzz_*.cpp\<close>): the six targets, and that they return for every input.
    \<^item> \<open>Seeds_File\<close>, \<open>Fuzz_Seeds\<close>, \<open>Seeds_Tool\<close> (\<^verbatim>\<open>fuzz/fuzz_seeds.cpp\<close>): base 64 and the seeds file, picking
      seeds from a capture, the commands; what \<open>generate\<close> writes \<open>unpack\<close> recovers.

  \<^bold>\<open>Parameters.\<close> The operating system is the record \<open>Env\<close> of \<open>Cli\<close>: the bytes of the capture or the
  message of the exception that opening it throws, which directories and files can be made, opened
  and written, the readings of the steady clock, and the version string of the build. The records
  \<open>Posix\<close> and \<open>Windows\<close> hold the answers of the system calls behind the first of these; the seeds tool has
  a record \<open>Seeds_Env\<close> of its own.

  \<^bold>\<open>Not modelled.\<close> What happens when a mapped file is changed or cut short while it is read; failures of the
  standard output; memory exhaustion and the capacity of buffers, which have no observable effect;
  the order of equal elements in \<open>std::sort\<close> and of the elements of \<open>std::unordered_map\<close>, for which
  the model takes one and the theorems speak of multisets or of keys where it matters; dereferencing
  the addresses of ARP headers after the buffer is gone; the tests.
\<close>

end
